(* ===== verification/Prelude.thy ===== *)
theory Prelude
  imports Main "HOL-Library.Word" "HOL-Library.Monad_Syntax"
begin

text \<open>
  Shared vocabulary of the development.

  C integers are \<^typ>\<open>int\<close> values in the range of their C type; a conversion to a
  type of a given width is one of the functions \<open>u8\<close>, \<open>u16\<close>, \<open>u32\<close>, \<open>u64\<close> (reduce modulo
  the width) and \<open>s32\<close> (two's complement), written wherever the code converts or
  wraps.  Where the code works bit by bit (the checksum, byte order, device
  registers) values are words of the C type's width.

  The program runs on the bare machine, with no memory protection, so memory is a
  total map from addresses to bytes.  A \<open>const char *\<close> that a function only reads is
  a \<open>cptr\<close>: byte \<open>i\<close> of what it points to.  \<open>rd m p\<close> is such a pointer into memory
  \<open>m\<close>, \<open>lit s\<close> a C string constant with contents \<open>s\<close>.
\<close>

unbundle bit_operations_syntax

named_theorems c_int \<open>arithmetic of C integer conversions\<close>
named_theorems c_mem \<open>reading memory after the byte loops\<close>

type_synonym byte = "8 word"
type_synonym addr = int
type_synonym mem = "addr \<Rightarrow> byte"
type_synonym cptr = "int \<Rightarrow> byte"

section \<open>Integer conversions\<close>

definition u8 :: "int \<Rightarrow> int" where
  "u8 x = x mod 256"

definition u16 :: "int \<Rightarrow> int" where
  "u16 x = x mod 65536"

definition u32 :: "int \<Rightarrow> int" where
  "u32 x = x mod 4294967296"

definition u64 :: "int \<Rightarrow> int" where
  "u64 x = x mod 18446744073709551616"

definition s32 :: "int \<Rightarrow> int" where
  "s32 x = (x + 2147483648) mod 4294967296 - 2147483648"

definition INT_MAX :: int where
  "INT_MAX = 2147483647"

definition is_int :: "int \<Rightarrow> bool" where
  "is_int x \<longleftrightarrow> - 2147483648 \<le> x \<and> x \<le> 2147483647"

text \<open>A length argument as the loops count it: the conversion to \<open>size_t\<close>.\<close>

definition sz :: "int \<Rightarrow> nat" where
  "sz n = nat (u64 n)"

lemma u32_range [simp]: "0 \<le> u32 x" "u32 x < 4294967296"
  by (simp_all add: u32_def)

lemma u32_id [c_int]: "0 \<le> x \<Longrightarrow> x < 4294967296 \<Longrightarrow> u32 x = x"
  by (simp add: u32_def)

lemma u64_id [c_int]: "0 \<le> x \<Longrightarrow> x < 18446744073709551616 \<Longrightarrow> u64 x = x"
  by (simp add: u64_def)

lemma u32_idem [simp]: "u32 (u32 x) = u32 x"
  by (simp add: u32_def)

lemma s32_range [simp]: "- 2147483648 \<le> s32 x" "s32 x \<le> 2147483647"
proof -
  have "(x + 2147483648) mod 4294967296 < 4294967296" by simp
  then show "s32 x \<le> 2147483647" unfolding s32_def by linarith
  have "0 \<le> (x + 2147483648) mod 4294967296" by simp
  then show "- 2147483648 \<le> s32 x" unfolding s32_def by linarith
qed

lemma is_int_s32 [simp]: "is_int (s32 x)"
  by (simp add: is_int_def)

lemma s32_id [c_int]: "- 2147483648 \<le> x \<Longrightarrow> x \<le> 2147483647 \<Longrightarrow> s32 x = x"
  by (simp add: s32_def)

lemma s32_is_int: "is_int x \<Longrightarrow> s32 x = x"
  by (simp add: is_int_def s32_id)

lemma s32_idem [simp]: "s32 (s32 x) = s32 x"
  by (rule s32_id) simp_all

lemma s32_u32 [simp]: "s32 (u32 x) = s32 x" "u32 (s32 x) = u32 x"
  by (simp_all add: s32_def u32_def mod_simps)

lemma s32_wrap:
  assumes "2147483647 < x" "x \<le> 4294967295"
  shows "s32 x = x - 4294967296"
proof -
  have "(x + 2147483648) mod 4294967296 = ((x - 2147483648) + 4294967296) mod 4294967296"
    by (simp add: add.commute)
  also have "\<dots> = (x - 2147483648) mod 4294967296"
    by (rule mod_add_self2)
  also have "\<dots> = x - 2147483648"
    using assms by (intro mod_pos_pos_trivial) linarith+
  finally show ?thesis by (simp add: s32_def)
qed

lemma s32_bound [simp]: "s32 x < 2147483648"
  using s32_range(2)[of x] by linarith

lemma s32_add: "s32 (s32 x + y) = s32 (x + y)" "s32 (x + s32 y) = s32 (x + y)"
proof -
  have "((x + 2147483648) mod 4294967296 + y) mod 4294967296 = (x + y + 2147483648) mod 4294967296" for x y :: int
    by (simp add: mod_simps ac_simps)
  from this[of x y] this[of y x] show "s32 (s32 x + y) = s32 (x + y)" "s32 (x + s32 y) = s32 (x + y)"
    by (simp_all add: s32_def algebra_simps)
qed

lemma s32_cases:
  assumes "0 \<le> x" "x < 4294967296"
  shows "s32 x = x \<and> x < 2147483648 \<or> s32 x = x - 4294967296 \<and> 2147483648 \<le> x"
  using assms by (cases "x < 2147483648") (auto simp: s32_id s32_wrap)

lemma sz_id: "0 \<le> x \<Longrightarrow> x < 18446744073709551616 \<Longrightarrow> sz x = nat x"
  by (simp add: sz_def u64_id)

text \<open>Unsigned addition either wraps, and is then smaller than its operands, or is exact.\<close>

lemma u32_add_wraps:
  assumes "0 \<le> x" "x < 4294967296" "0 \<le> y" "y < 4294967296"
  shows "u32 (x + y) < x \<longleftrightarrow> 4294967296 \<le> x + y"
  using assms by (auto simp: u32_def mod_add_if_z zmod_trivial_iff)

lemma u32_add_exact:
  assumes "0 \<le> x" "x < 4294967296" "0 \<le> y" "y < 4294967296" "\<not> u32 (x + y) < x"
  shows "u32 (x + y) = x + y"
  using assms u32_add_wraps[of x y] by (auto simp: u32_id)

lemma int_le_less_Suc: "(i::int) \<le> j \<longleftrightarrow> j = i \<or> i + 1 \<le> j"
  by auto

lemma int_and_not: "(x::int) AND NOT a = x - (x AND a)"
proof -
  have "(x AND a) + (x AND NOT a) = (x AND a) OR (x AND NOT a)"
    by (rule disjunctive_add_eq_or) (auto simp: bit_eq_iff bit_simps)
  also have "\<dots> = x"
    by (auto simp: bit_eq_iff bit_simps)
  finally show ?thesis by simp
qed

lemma int_and_not_mask: "(x::int) AND NOT (2 ^ n - 1) = x - x mod 2 ^ n"
  using take_bit_eq_mask[of n x] by (simp add: int_and_not take_bit_eq_mod mask_eq_exp_minus_1)

section \<open>Memory\<close>

definition rd :: "mem \<Rightarrow> addr \<Rightarrow> cptr" where
  "rd m p = (\<lambda>i. m (p + i))"

definition lit :: "byte list \<Rightarrow> cptr" where
  "lit s = (\<lambda>i. if 0 \<le> i \<and> i < int (length s) then s ! nat i else 0)"

definition shift :: "cptr \<Rightarrow> int \<Rightarrow> cptr" where
  "shift p k = (\<lambda>i. p (k + i))"

definition str :: "string \<Rightarrow> byte list" where
  "str s = map of_char s"

text \<open>The \<open>n\<close> bytes a pointer points to, as a list.\<close>

definition bytes_at :: "cptr \<Rightarrow> nat \<Rightarrow> byte list" where
  "bytes_at p n = map (\<lambda>i. p (int i)) [0..<n]"

text \<open>\<open>p\<close> points to a C string with contents \<open>s\<close>.\<close>

definition cstring :: "byte list \<Rightarrow> bool" where
  "cstring s \<longleftrightarrow> 0 \<notin> set s"

definition points_to_str :: "cptr \<Rightarrow> byte list \<Rightarrow> bool" where
  "points_to_str p s \<longleftrightarrow> cstring s \<and> bytes_at p (length s) = s \<and> p (int (length s)) = 0"

lemma rd_apply [simp]: "rd m p i = m (p + i)"
  by (simp add: rd_def)

lemma shift_apply: "shift p k i = p (k + i)"
  by (simp add: shift_def)

lemma shift_0 [simp]: "shift p 0 = p"
  by (simp add: shift_def)

lemma shift_shift [simp]: "shift (shift p a) b = shift p (a + b)"
  by (simp add: shift_def add.assoc)

lemma shift_rd [simp]: "shift (rd m p) k = rd m (p + k)"
  by (simp add: shift_def rd_def add.assoc)

lemma lit_nth [simp]: "i < length s \<Longrightarrow> lit s (int i) = s ! i"
  by (simp add: lit_def)

lemma lit_end [simp]: "lit s (int (length s)) = 0"
  by (simp add: lit_def)

lemma length_bytes_at [simp]: "length (bytes_at p n) = n"
  by (simp add: bytes_at_def)

lemma nth_bytes_at [simp]: "i < n \<Longrightarrow> bytes_at p n ! i = p (int i)"
  by (simp add: bytes_at_def)

lemma bytes_at_0 [simp]: "bytes_at p 0 = []"
  by (simp add: bytes_at_def)

lemma bytes_at_Suc: "bytes_at p (Suc n) = p 0 # bytes_at (shift p 1) n"
  by (rule nth_equalityI) (auto simp: nth_Cons' bytes_at_def shift_apply simp del: upt_Suc)

lemma bytes_at_eq_iff: "bytes_at p n = bytes_at q n \<longleftrightarrow> (\<forall>i<n. p (int i) = q (int i))"
  by (auto simp: list_eq_iff_nth_eq)

lemma bytes_at_cong: "(\<And>i. i < n \<Longrightarrow> p (int i) = q (int i)) \<Longrightarrow> bytes_at p n = bytes_at q n"
  by (simp add: bytes_at_eq_iff)

lemma bytes_at_append: "bytes_at p (a + b) = bytes_at p a @ bytes_at (shift p (int a)) b"
  by (rule nth_equalityI) (auto simp: nth_append shift_apply)

lemma bytes_at_lit [simp]: "bytes_at (lit s) (length s) = s"
  by (rule nth_equalityI) simp_all

lemma points_to_str_lit [simp]: "points_to_str (lit s) s \<longleftrightarrow> cstring s"
  by (simp add: points_to_str_def)

lemma cstring_Nil [simp]: "cstring []"
  by (simp add: cstring_def)

lemma cstring_Cons [simp]: "cstring (c # s) \<longleftrightarrow> c \<noteq> 0 \<and> cstring s"
  by (auto simp: cstring_def)

lemma cstring_append [simp]: "cstring (s @ t) \<longleftrightarrow> cstring s \<and> cstring t"
  by (auto simp: cstring_def)

lemma points_to_str_Nil: "points_to_str p [] \<longleftrightarrow> p 0 = 0"
  by (simp add: points_to_str_def)

lemma points_to_str_Cons:
  "points_to_str p (c # s) \<longleftrightarrow> p 0 = c \<and> c \<noteq> 0 \<and> points_to_str (shift p 1) s"
  by (auto simp: points_to_str_def bytes_at_Suc shift_apply add.commute)

lemma points_to_str_unique: "points_to_str p s \<Longrightarrow> points_to_str p t \<Longrightarrow> s = t"
proof (induction s arbitrary: p t)
  case Nil
  then show ?case by (cases t) (auto simp: points_to_str_Nil points_to_str_Cons)
next
  case (Cons c s)
  then show ?case by (cases t) (auto simp: points_to_str_Nil points_to_str_Cons)
qed

end
