(* ===== verification/Memory.thy ===== *)
theory Memory
  imports Prelude
begin

text \<open>
  Bytes in memory: a list of bytes put at an address (\<open>store\<close>), and the loads and stores of
  the machine, which is little endian.
\<close>

section \<open>Bytes put into memory\<close>

definition store :: "mem \<Rightarrow> addr \<Rightarrow> byte list \<Rightarrow> mem" where
  "store m p xs = (\<lambda>a. if p \<le> a \<and> a < p + int (length xs) then xs ! nat (a - p) else m a)"

lemma store_Nil [simp]: "store m p [] = m"
  by (rule ext) (auto simp: store_def)

lemma store_single: "m(p := b) = store m p [b]"
  by (auto simp: store_def intro!: ext)

lemma store_append: "store (store m p xs) (p + int (length xs)) ys = store m p (xs @ ys)"
  by (rule ext) (auto simp: store_def nth_append nat_less_iff algebra_simps intro!: arg_cong[where f = "nth ys"])

lemma store_outside: "a < p \<or> p + int (length xs) \<le> a \<Longrightarrow> store m p xs a = m a"
  by (auto simp: store_def)

lemma bytes_at_store [simp]: "bytes_at (rd (store m p xs) p) (length xs) = xs"
  by (rule nth_equalityI) (auto simp: store_def)

lemma rd_store: "i < length xs \<Longrightarrow> store m p xs (p + int i) = xs ! i"
  by (simp add: store_def)

section \<open>Loads and stores\<close>

definition extract_byte :: "'a::len word \<Rightarrow> nat \<Rightarrow> byte" where
  "extract_byte x n = ucast (drop_bit (8 * n) x)"

text \<open>The machine's own loads and stores.\<close>

definition load32 :: "cptr \<Rightarrow> 32 word" where
  "load32 p = ucast (p 0) OR push_bit 8 (ucast (p 1)) OR push_bit 16 (ucast (p 2)) OR
     push_bit 24 (ucast (p 3))"

definition store32 :: "mem \<Rightarrow> addr \<Rightarrow> 32 word \<Rightarrow> mem" where
  "store32 m p x = store m p (map (extract_byte x) [0, 1, 2, 3])"

definition load64 :: "cptr \<Rightarrow> 64 word" where
  "load64 p = ucast (load32 p) OR push_bit 32 (ucast (load32 (shift p 4)))"

definition store64 :: "mem \<Rightarrow> addr \<Rightarrow> 64 word \<Rightarrow> mem" where
  "store64 m p x = store m p (map (extract_byte x) [0, 1, 2, 3, 4, 5, 6, 7])"

definition load16 :: "cptr \<Rightarrow> 16 word" where
  "load16 p = ucast (p 0) OR push_bit 8 (ucast (p 1))"

definition store16 :: "mem \<Rightarrow> addr \<Rightarrow> 16 word \<Rightarrow> mem" where
  "store16 m p x = store m p (map (extract_byte x) [0, 1])"

lemma bit_extract_byte: "bit (extract_byte (x :: 'a::len word) k) n \<longleftrightarrow> n < 8 \<and> bit x (8 * k + n)"
  by (simp add: extract_byte_def bit_simps)

lemma range32_cases:
  assumes "n < LENGTH(32)"
  obtains k where "k < 8" "n = k" | k where "k < 8" "n = 8 + k"
    | k where "k < 8" "n = 16 + k" | k where "k < 8" "n = 24 + k"
proof -
  consider "n < 8" | "8 \<le> n" "n < 16" | "16 \<le> n" "n < 24" | "24 \<le> n" "n < 32"
    using assms by fastforce
  then show thesis
    by cases (use that(1)[of n] that(2)[of "n - 8"] that(3)[of "n - 16"] that(4)[of "n - 24"] in auto)
qed

lemma bit_byte_bound: "bit (b :: byte) n \<Longrightarrow> n < 8"
  by (simp add: bit_imp_le_length[of b n, simplified])

lemma load32_bits:
  assumes "k < 8"
  shows "bit (load32 p) k = bit (p 0) k" "bit (load32 p) (8 + k) = bit (p 1) k"
    "bit (load32 p) (16 + k) = bit (p 2) k" "bit (load32 p) (24 + k) = bit (p 3) k"
  using assms by (auto simp: load32_def bit_simps dest: bit_byte_bound)

lemma word32_eqI:
  fixes x y :: "32 word"
  assumes "\<And>k. k < 8 \<Longrightarrow> bit x k = bit y k" "\<And>k. k < 8 \<Longrightarrow> bit x (8 + k) = bit y (8 + k)"
    "\<And>k. k < 8 \<Longrightarrow> bit x (16 + k) = bit y (16 + k)" "\<And>k. k < 8 \<Longrightarrow> bit x (24 + k) = bit y (24 + k)"
  shows "x = y"
proof (rule bit_word_eqI)
  fix n assume "n < LENGTH(32)"
  then show "bit x n = bit y n" by (cases n rule: range32_cases) (simp_all add: assms)
qed

lemma bytes_at_store_len: "length xs = n \<Longrightarrow> bytes_at (rd (store m p xs) p) n = xs"
  by auto

lemma load32_store32: "load32 (rd (store32 m p x) p) = x"
  by (rule word32_eqI)
     (simp_all add: load32_bits store32_def store_def bit_extract_byte nat_eq_iff)

lemma load16_store16: "load16 (rd (store16 m p x) p) = x"
  by (rule bit_word_eqI)
     (auto simp: load16_def store16_def store_def bit_extract_byte bit_simps)

lemma store_word_outside:
  "a < p \<or> p + 2 \<le> a \<Longrightarrow> store16 m p x a = m a"
  "a < p \<or> p + 4 \<le> a \<Longrightarrow> store32 m p y a = m a"
  "a < p \<or> p + 8 \<le> a \<Longrightarrow> store64 m p z a = m a"
  by (simp_all add: store16_def store32_def store64_def store_outside)

lemma load_cong:
  "(\<And>i. 0 \<le> i \<Longrightarrow> i < 2 \<Longrightarrow> p i = q i) \<Longrightarrow> load16 p = load16 q"
  "(\<And>i. 0 \<le> i \<Longrightarrow> i < 4 \<Longrightarrow> p i = q i) \<Longrightarrow> load32 p = load32 q"
  "(\<And>i. 0 \<le> i \<Longrightarrow> i < 8 \<Longrightarrow> p i = q i) \<Longrightarrow> load64 p = load64 q"
  by (simp_all add: load16_def load32_def load64_def shift_apply)

lemma load64_store64: "load64 (rd (store64 m p x) p) = x"
proof -
  have a: "bit (load32 (rd (store64 m p x) p)) n = bit x n" if "n < 32" for n
  proof -
    have "n < LENGTH(32)" using that by simp
    then show ?thesis
      by (cases n rule: range32_cases)
         (simp_all add: load32_bits store64_def store_def bit_extract_byte nat_eq_iff)
  qed
  have b: "bit (load32 (rd (store64 m p x) (p + 4))) n = bit x (32 + n)" if "n < 32" for n
  proof -
    have "n < LENGTH(32)" using that by simp
    then show ?thesis
      by (cases n rule: range32_cases)
         (simp_all add: load32_bits store64_def store_def bit_extract_byte nat_eq_iff nat_add_distrib)
  qed
  show ?thesis
  proof (rule bit_word_eqI)
    fix n assume n: "n < LENGTH(64)"
    show "bit (load64 (rd (store64 m p x) p)) n = bit x n"
    proof (cases "n < 32")
      case True
      then show ?thesis using a[OF True] n by (simp add: load64_def bit_simps)
    next
      case False
      then have "n - 32 < 32" "32 + (n - 32) = n" using n by auto
      moreover have "\<not> bit (load32 (rd (store64 m p x) p)) n"
        using False bit_imp_le_length[of "load32 (rd (store64 m p x) p)" n] by auto
      ultimately show ?thesis using b[of "n - 32"] n False by (simp add: load64_def bit_simps)
    qed
  qed
qed

text \<open>Memory that is the same from \<open>p\<close> for \<open>n\<close> bytes.\<close>

definition same_on :: "addr \<Rightarrow> int \<Rightarrow> mem \<Rightarrow> mem \<Rightarrow> bool" where
  "same_on p n m m' \<longleftrightarrow> (\<forall>a. p \<le> a \<and> a < p + n \<longrightarrow> m a = m' a)"

lemma load_same_on:
  "same_on p n m m' \<Longrightarrow> p \<le> q \<Longrightarrow> q + 2 \<le> p + n \<Longrightarrow> load16 (rd m q) = load16 (rd m' q)"
  "same_on p n m m' \<Longrightarrow> p \<le> q \<Longrightarrow> q + 4 \<le> p + n \<Longrightarrow> load32 (rd m q) = load32 (rd m' q)"
  "same_on p n m m' \<Longrightarrow> p \<le> q \<Longrightarrow> q + 8 \<le> p + n \<Longrightarrow> load64 (rd m q) = load64 (rd m' q)"
  by (rule load_cong; simp add: same_on_def)+

text \<open>An address inside an area of \<open>n\<close> bytes.\<close>

definition inside :: "addr \<Rightarrow> int \<Rightarrow> addr \<Rightarrow> bool" where
  "inside p n a \<longleftrightarrow> p \<le> a \<and> a < p + n"

end
