(* ===== verification/Util.thy ===== *)
theory Util
  imports Memory "HOL-Library.Multiset" "HOL-Library.List_Lexorder"
begin

text \<open>
  The loader's own C library (\<open>src/src/util.c\<close>): one definition per function, in the
  order of the source.  The byte loops are recursive functions over memory, counted
  down as the code counts \<open>n\<close>; a loop that runs until it sees a NUL may not end, so it
  is a \<^theory_text>\<open>partial_function\<close> into \<open>option\<close> and \<open>None\<close> means it never returns.
  The trailing underscore of the C names is dropped.  A \<open>size_t\<close> count is a \<^typ>\<open>nat\<close>, callers convert with \<^const>\<open>sz\<close>.
\<close>

section \<open>Memory functions\<close>

fun memchr_loop :: "cptr \<Rightarrow> int \<Rightarrow> byte \<Rightarrow> nat \<Rightarrow> int option" where
  "memchr_loop p i c 0 = None"
| "memchr_loop p i c (Suc n) = (if p i = c then Some i else memchr_loop p (i + 1) c n)"

definition memchr :: "cptr \<Rightarrow> int \<Rightarrow> nat \<Rightarrow> int option" where
  "memchr s c n = memchr_loop s 0 (word_of_int c) n"

fun memcpy :: "mem \<Rightarrow> addr \<Rightarrow> addr \<Rightarrow> nat \<Rightarrow> mem" where
  "memcpy m d s 0 = m"
| "memcpy m d s (Suc n) = memcpy (m(d := m s)) (d + 1) (s + 1) n"

text \<open>\<open>memcpy\<close> from an object that is not part of \<open>m\<close> (a constant, a local, a string
  argument kept by its contents).\<close>

fun memcpy_from :: "mem \<Rightarrow> addr \<Rightarrow> cptr \<Rightarrow> nat \<Rightarrow> mem" where
  "memcpy_from m d s 0 = m"
| "memcpy_from m d s (Suc n) = memcpy_from (m(d := s 0)) (d + 1) (shift s 1) n"

fun memset_loop :: "mem \<Rightarrow> addr \<Rightarrow> byte \<Rightarrow> nat \<Rightarrow> mem" where
  "memset_loop m p c 0 = m"
| "memset_loop m p c (Suc len) = memset_loop (m(p := c)) (p + 1) c len"

definition memset :: "mem \<Rightarrow> addr \<Rightarrow> int \<Rightarrow> nat \<Rightarrow> mem" where
  "memset m b c len = memset_loop m b (word_of_int c) len"

text \<open>\<open>memmove\<close> copies forwards when the destination starts below the source and
  backwards, from the ends, otherwise.\<close>

fun memmove_back :: "mem \<Rightarrow> addr \<Rightarrow> addr \<Rightarrow> nat \<Rightarrow> mem" where
  "memmove_back m d s 0 = m"
| "memmove_back m d s (Suc n) = memmove_back (m(d - 1 := m (s - 1))) (d - 1) (s - 1) n"

definition memmove :: "mem \<Rightarrow> addr \<Rightarrow> addr \<Rightarrow> nat \<Rightarrow> mem" where
  "memmove m dest src n =
     (if dest < src then memcpy m dest src n
      else memmove_back m (dest + int n) (src + int n) n)"

fun memcmp :: "cptr \<Rightarrow> cptr \<Rightarrow> nat \<Rightarrow> int" where
  "memcmp p1 p2 0 = 0"
| "memcmp p1 p2 (Suc n) =
     (if p1 0 \<noteq> p2 0 then (if p1 0 < p2 0 then -1 else 1)
      else memcmp (shift p1 1) (shift p2 1) n)"

text \<open>The exchange of two elements of \<open>width\<close> bytes inside \<open>qsort\<close>, through the local
  array \<open>temp\<close>.\<close>

definition qsort_swap :: "mem \<Rightarrow> addr \<Rightarrow> addr \<Rightarrow> nat \<Rightarrow> mem" where
  "qsort_swap m a b width =
     (let temp = lit (bytes_at (rd m a) width);
          m1 = memcpy m a b width
      in memcpy_from m1 b temp width)"

section \<open>Sorting\<close>

text \<open>
  \<open>qsort\<close> is a bubble sort.  The bounds of the loops are computed in \<open>size_t\<close>: for \<open>nel = 0\<close> the first one wraps
  (see \<open>qsort_empty_compares\<close>).  The comparison reads memory and may not return, which \<open>None\<close> passes on.
\<close>

function qsort_inner ::
  "(mem \<Rightarrow> addr \<Rightarrow> addr \<Rightarrow> int option) \<Rightarrow> mem \<Rightarrow> addr \<Rightarrow> nat \<Rightarrow> nat \<Rightarrow> nat \<Rightarrow> mem option" where
  "qsort_inner compar m arr width j lim =
     (if j < lim then
        (case compar m (arr + int (j * width)) (arr + int ((j + 1) * width)) of
           None \<Rightarrow> None
         | Some c \<Rightarrow>
             qsort_inner compar
               (if c > 0 then qsort_swap m (arr + int (j * width)) (arr + int ((j + 1) * width)) width else m)
               arr width (j + 1) lim)
      else Some m)"
  by pat_completeness auto
termination
  by (relation "measure (\<lambda>(compar, m, arr, width, j, lim). lim - j)") auto

function qsort_outer ::
  "(mem \<Rightarrow> addr \<Rightarrow> addr \<Rightarrow> int option) \<Rightarrow> mem \<Rightarrow> addr \<Rightarrow> nat \<Rightarrow> nat \<Rightarrow> nat \<Rightarrow> mem option" where
  "qsort_outer compar m arr nel width i =
     (if i < sz (int nel - 1) then
        (case qsort_inner compar m arr width 0 (sz (int nel - int i - 1)) of
           None \<Rightarrow> None
         | Some m \<Rightarrow> qsort_outer compar m arr nel width (i + 1))
      else Some m)"
  by pat_completeness auto
termination
  by (relation "measure (\<lambda>(compar, m, arr, nel, width, i). sz (int nel - 1) - i)") auto

definition qsort :: "mem \<Rightarrow> addr \<Rightarrow> nat \<Rightarrow> nat \<Rightarrow> (mem \<Rightarrow> addr \<Rightarrow> addr \<Rightarrow> int option) \<Rightarrow> mem option" where
  "qsort m base nel width compar = qsort_outer compar m base nel width 0"

declare qsort_inner.simps [simp del] qsort_outer.simps [simp del]

text \<open>The same on the list of the elements of an array (\<open>qsort_elements\<close> is the refinement).  The environment sorts an
  array of pointers to nodes that are kept apart from memory, and does it on this list.\<close>

definition swap_at :: "'a list \<Rightarrow> nat \<Rightarrow> 'a list" where
  "swap_at xs j = xs[j := xs ! (j + 1), j + 1 := xs ! j]"

function pass_elems :: "('a \<Rightarrow> 'a \<Rightarrow> int option) \<Rightarrow> 'a list \<Rightarrow> nat \<Rightarrow> nat \<Rightarrow> 'a list option" where
  "pass_elems compar xs j lim =
     (if j < lim then
        (case compar (xs ! j) (xs ! (j + 1)) of
           None \<Rightarrow> None
         | Some c \<Rightarrow> pass_elems compar (if c > 0 then swap_at xs j else xs) (j + 1) lim)
      else Some xs)"
  by pat_completeness auto
termination
  by (relation "measure (\<lambda>(compar, xs, j, lim). lim - j)") auto

function passes_elems :: "('a \<Rightarrow> 'a \<Rightarrow> int option) \<Rightarrow> 'a list \<Rightarrow> nat \<Rightarrow> nat \<Rightarrow> 'a list option" where
  "passes_elems compar xs i nel =
     (if i < nel - 1 then
        (case pass_elems compar xs 0 (nel - i - 1) of
           None \<Rightarrow> None
         | Some ys \<Rightarrow> passes_elems compar ys (i + 1) nel)
      else Some xs)"
  by pat_completeness auto
termination
  by (relation "measure (\<lambda>(compar, xs, i, nel). nel - i)") auto

definition sort_elems :: "'a list \<Rightarrow> ('a \<Rightarrow> 'a \<Rightarrow> int option) \<Rightarrow> 'a list option" where
  "sort_elems arr compar =
     (if length arr = 0 then None else passes_elems compar arr 0 (length arr))"

declare pass_elems.simps [simp del] passes_elems.simps [simp del]

section \<open>String functions\<close>

partial_function (option) strrchr_loop :: "cptr \<Rightarrow> int \<Rightarrow> byte \<Rightarrow> int option \<Rightarrow> int option option"
  where
  "strrchr_loop s i c lastp =
     (if s i = 0 then Some lastp
      else strrchr_loop s (i + 1) c (if s i = c then Some i else lastp))"

definition strrchr :: "cptr \<Rightarrow> int \<Rightarrow> int option option" where
  "strrchr s c = strrchr_loop s 0 (word_of_int c) None"

partial_function (option) strcpy :: "mem \<Rightarrow> addr \<Rightarrow> cptr \<Rightarrow> mem option" where
  "strcpy m dest src =
     (let m' = m(dest := src 0)
      in if src 0 = 0 then Some m' else strcpy m' (dest + 1) (shift src 1))"

partial_function (option) strcmp :: "cptr \<Rightarrow> cptr \<Rightarrow> int option" where
  "strcmp s1 s2 =
     (if s1 0 \<noteq> 0 \<and> s1 0 = s2 0 then strcmp (shift s1 1) (shift s2 1)
      else Some (uint (s1 0) - uint (s2 0)))"

partial_function (option) strlen_loop :: "cptr \<Rightarrow> int \<Rightarrow> int option" where
  "strlen_loop s i = (if s i \<noteq> 0 then strlen_loop s (i + 1) else Some i)"

definition strlen :: "cptr \<Rightarrow> int option" where
  "strlen s = strlen_loop s 0"

fun strnlen_loop :: "cptr \<Rightarrow> int \<Rightarrow> nat \<Rightarrow> int" where
  "strnlen_loop s i 0 = i"
| "strnlen_loop s i (Suc n) = (if s i \<noteq> 0 then strnlen_loop s (i + 1) n else i)"

definition strnlen :: "cptr \<Rightarrow> nat \<Rightarrow> int" where
  "strnlen s n = strnlen_loop s 0 n"

section \<open>The allocator\<close>

text \<open>The heap is one pointer that only grows; \<open>free\<close> does nothing.\<close>

definition util_init :: "addr \<Rightarrow> addr" where
  "util_init stack_top = stack_top"

definition malloc :: "addr \<Rightarrow> int \<Rightarrow> addr \<times> addr" where
  "malloc heap len = (heap, heap + u64 (u64 (len + 7) AND NOT 7))"

definition free :: "addr \<Rightarrow> addr \<Rightarrow> addr" where
  "free heap ptr = heap"

definition strdup :: "mem \<Rightarrow> addr \<Rightarrow> addr \<Rightarrow> (addr \<times> mem \<times> addr) option" where
  "strdup m heap s = do {
     n \<leftarrow> strlen (rd m s);
     let len = n + 1;
     let (copy, heap') = malloc heap len;
     Some (copy, if copy \<noteq> 0 then memcpy m copy s (sz len) else m, heap')
   }"

definition strndup :: "mem \<Rightarrow> addr \<Rightarrow> addr \<Rightarrow> nat \<Rightarrow> addr \<times> mem \<times> addr" where
  "strndup m heap s n =
     (let len = strnlen (rd m s) n;
          (copy, heap') = malloc heap (len + 1)
      in (copy,
          if copy \<noteq> 0 then (memcpy m copy s (sz len))(copy + len := 0) else m,
          heap'))"

section \<open>Numbers\<close>

definition char_to_digit :: "byte \<Rightarrow> int" where
  "char_to_digit c =
     (let c = uint c in
      if 48 \<le> c \<and> c \<le> 57 then c - 48
      else if 97 \<le> c \<and> c \<le> 102 then c - 97 + 10
      else if 65 \<le> c \<and> c \<le> 70 then c - 65 + 10
      else -1)"

partial_function (option) skip_spaces :: "cptr \<Rightarrow> int \<Rightarrow> int option" where
  "skip_spaces s i = (if s i = 32 then skip_spaces s (i + 1) else Some i)"

partial_function (option) strtoull_digits :: "cptr \<Rightarrow> int \<Rightarrow> int \<Rightarrow> int \<Rightarrow> (int \<times> int) option" where
  "strtoull_digits s i base result =
     (let digit = char_to_digit (s i) in
      if digit \<noteq> -1 \<and> \<not> digit \<ge> base
      then strtoull_digits s (i + 1) base (u64 (result * base + digit))
      else Some (result, i))"

text \<open>The optional prefix: only looked for when the caller passes base 0.\<close>

definition strtoull_prefix :: "cptr \<Rightarrow> int \<Rightarrow> int \<Rightarrow> int \<times> int" where
  "strtoull_prefix s i base =
     (if base = 0 then
        (if s i = 48 then
           (if s (i + 1) = 120 \<or> s (i + 1) = 88 then (16, i + 2) else (10, i + 1))
         else (10, i))
      else (base, i))"

text \<open>The result is the value and \<open>*endptr\<close>, the index of the first byte not converted.\<close>

definition strtoull :: "cptr \<Rightarrow> int \<Rightarrow> (int \<times> int) option" where
  "strtoull s base = do {
     i \<leftarrow> skip_spaces s 0;
     let (base', j) = strtoull_prefix s i base;
     strtoull_digits s j base' 0
   }"

section \<open>What the memory functions compute\<close>

lemma memchr_loop_None:
  "memchr_loop p i c n = None \<longleftrightarrow> (\<forall>j. i \<le> j \<and> j < i + int n \<longrightarrow> p j \<noteq> c)"
proof (induction n arbitrary: i)
  case (Suc n)
  have "(\<forall>j. i \<le> j \<and> j < i + int (Suc n) \<longrightarrow> p j \<noteq> c) \<longleftrightarrow>
        p i \<noteq> c \<and> (\<forall>j. i + 1 \<le> j \<and> j < i + 1 + int n \<longrightarrow> p j \<noteq> c)"
    by (auto simp: int_le_less_Suc[of i])
  with Suc show ?case by simp
qed auto

lemma memchr_loop_Some:
  "memchr_loop p i c n = Some k \<longleftrightarrow>
     i \<le> k \<and> k < i + int n \<and> p k = c \<and> (\<forall>j. i \<le> j \<and> j < k \<longrightarrow> p j \<noteq> c)"
proof (induction n arbitrary: i)
  case (Suc n)
  show ?case
  proof (cases "p i = c")
    case True
    then show ?thesis by (auto simp: order_le_less)
  next
    case False
    have "(\<forall>j. i \<le> j \<and> j < k \<longrightarrow> p j \<noteq> c) \<longleftrightarrow> (\<forall>j. i + 1 \<le> j \<and> j < k \<longrightarrow> p j \<noteq> c)"
      using False by (metis int_le_less_Suc)
    moreover have "i \<le> k \<and> p k = c \<longleftrightarrow> i + 1 \<le> k \<and> p k = c"
      using False int_le_less_Suc[of i k] by auto
    ultimately show ?thesis using False Suc[of "i + 1"] by auto
  qed
qed auto

lemma memchr_Some:
  "memchr s c n = Some k \<longleftrightarrow>
     0 \<le> k \<and> k < int n \<and> s k = word_of_int c \<and> (\<forall>j. 0 \<le> j \<and> j < k \<longrightarrow> s j \<noteq> word_of_int c)"
  by (simp add: memchr_def memchr_loop_Some)

lemma memcpy_from_spec:
  "memcpy_from m d s n = (\<lambda>a. if d \<le> a \<and> a < d + int n then s (a - d) else m a)"
  by (induction n arbitrary: m d s) (auto intro!: ext simp: shift_apply)

lemma memset_loop_spec:
  "memset_loop m p c n = (\<lambda>a. if p \<le> a \<and> a < p + int n then c else m a)"
  by (induction n arbitrary: m p) (auto intro!: ext)

lemma memcpy_forward:
  "d < s \<or> s + int n \<le> d \<or> d = s \<Longrightarrow>
   memcpy m d s n = (\<lambda>a. if d \<le> a \<and> a < d + int n then m (s + (a - d)) else m a)"
  by (induction n arbitrary: m d s) (auto intro!: ext simp: algebra_simps)

lemma memmove_back_spec:
  "s \<le> d \<Longrightarrow>
   memmove_back m d s n = (\<lambda>a. if d - int n \<le> a \<and> a < d then m (s - d + a) else m a)"
  by (induction n arbitrary: m d s) (auto intro!: ext simp: algebra_simps)

lemma memmove_spec:
  "memmove m d s n = (\<lambda>a. if d \<le> a \<and> a < d + int n then m (s + (a - d)) else m a)"
proof (cases "d < s")
  case True
  then show ?thesis by (simp add: memmove_def memcpy_forward)
next
  case False
  then show ?thesis by (auto simp: memmove_def memmove_back_spec algebra_simps intro!: ext)
qed

lemma memcmp_eq_0: "memcmp p q n = 0 \<longleftrightarrow> bytes_at p n = bytes_at q n"
  by (induction n arbitrary: p q) (auto simp: bytes_at_Suc)

lemma qsort_swap_exchanges:
  assumes "a + int w \<le> b \<or> b + int w \<le> a"
  shows "bytes_at (rd (qsort_swap m a b w) a) w = bytes_at (rd m b) w"
    and "bytes_at (rd (qsort_swap m a b w) b) w = bytes_at (rd m a) w"
    and "\<not> (a \<le> x \<and> x < a + int w) \<Longrightarrow> \<not> (b \<le> x \<and> x < b + int w) \<Longrightarrow> qsort_swap m a b w x = m x"
proof -
  have "a < b \<or> b + int w \<le> a \<or> a = b" using assms by auto
  note cp = memcpy_forward[OF this]
  show "bytes_at (rd (qsort_swap m a b w) a) w = bytes_at (rd m b) w"
    and "bytes_at (rd (qsort_swap m a b w) b) w = bytes_at (rd m a) w"
    and "\<not> (a \<le> x \<and> x < a + int w) \<Longrightarrow> \<not> (b \<le> x \<and> x < b + int w) \<Longrightarrow> qsort_swap m a b w x = m x"
    using assms
    by (auto simp: qsort_swap_def memcpy_from_spec cp bytes_at_eq_iff lit_def)
qed

lemma memcpy_from_lit: "memcpy_from m p (lit xs) (length xs) = store m p xs"
  by (auto simp: memcpy_from_spec store_def lit_def intro!: ext)

section \<open>The sort is the stable sort by any key the comparison orders by\<close>

lemma swap_at_append:
  "length us = j \<Longrightarrow> swap_at (us @ x # y # vs) j = us @ y # x # vs"
  by (auto simp: swap_at_def list_update_append nth_append)

lemma split_at_pair:
  assumes "j + 1 < length xs"
  obtains us x y vs where "xs = us @ x # y # vs" "length us = j"
proof
  show "xs = take j xs @ xs ! j # xs ! (j + 1) # drop (j + 2) xs"
    using assms by (simp add: Cons_nth_drop_Suc)
  show "length (take j xs) = j" using assms by simp
qed

lemma swap_at_mset: "j + 1 < length xs \<Longrightarrow> mset (swap_at xs j) = mset xs"
  by (erule split_at_pair) (simp add: swap_at_append)

lemma length_swap_at [simp]: "length (swap_at xs j) = length xs"
  by (simp add: swap_at_def)

lemma nth_swap_at:
  "j + 1 < length xs \<Longrightarrow>
   swap_at xs j ! k = (if k = j then xs ! (j + 1) else if k = j + 1 then xs ! j else xs ! k)"
  by (auto simp: swap_at_def nth_list_update)

lemma swap_at_filter:
  "j + 1 < length xs \<Longrightarrow> \<not> (P (xs ! j) \<and> P (xs ! (j + 1))) \<Longrightarrow>
   filter P (swap_at xs j) = filter P xs"
  by (erule split_at_pair) (auto simp: swap_at_append nth_append)

locale comparison =
  fixes compar :: "'a \<Rightarrow> 'a \<Rightarrow> int option"
    and key :: "'a \<Rightarrow> 'k::linorder"
    and valid :: "'a \<Rightarrow> bool"
  assumes compar_key:
    "valid x \<Longrightarrow> valid y \<Longrightarrow> \<exists>c. compar x y = Some c \<and> (0 < c \<longleftrightarrow> key y < key x)"
begin

lemma inner_step:
  assumes "j < lim" "lim < length xs" "\<forall>x\<in>set xs. valid x"
  shows "pass_elems compar xs j lim =
         pass_elems compar (if key (xs ! (j + 1)) < key (xs ! j) then swap_at xs j else xs) (j + 1) lim"
proof -
  have "valid (xs ! j)" "valid (xs ! (j + 1))" using assms by auto
  then obtain c where "compar (xs ! j) (xs ! (j + 1)) = Some c"
    "0 < c \<longleftrightarrow> key (xs ! (j + 1)) < key (xs ! j)"
    using compar_key by blast
  with assms(1) show ?thesis by (subst pass_elems.simps) simp
qed

lemma inner_spec:
  assumes "lim < length xs" "j \<le> lim" "\<forall>x\<in>set xs. valid x" "\<forall>k<j. key (xs ! k) \<le> key (xs ! j)"
  shows "\<exists>ys. pass_elems compar xs j lim = Some ys \<and> mset ys = mset xs \<and>
           (\<forall>a. filter (\<lambda>x. a = key x) ys = filter (\<lambda>x. a = key x) xs) \<and>
           (\<forall>k. lim < k \<longrightarrow> ys ! k = xs ! k) \<and>
           (\<forall>k\<le>lim. \<exists>k'\<le>lim. ys ! k = xs ! k') \<and>
           (\<forall>k\<le>lim. key (ys ! k) \<le> key (ys ! lim))"
  using assms
proof (induction "lim - j" arbitrary: xs j)
  case 0
  then have "j = lim" by simp
  with 0 show ?case
    by (subst pass_elems.simps) (auto simp: order_le_less)
next
  case (Suc d)
  then have j: "j < lim" "j + 1 < length xs" by auto
  define zs where "zs = (if key (xs ! (j + 1)) < key (xs ! j) then swap_at xs j else xs)"
  have step: "pass_elems compar xs j lim = pass_elems compar zs (j + 1) lim"
    unfolding zs_def using j Suc.prems by (intro inner_step) auto
  have zs: "mset zs = mset xs" "length zs = length xs"
    "\<And>k. j + 1 < k \<Longrightarrow> zs ! k = xs ! k" "\<And>a. filter (\<lambda>x. a = key x) zs = filter (\<lambda>x. a = key x) xs"
    using j by (auto simp: zs_def swap_at_mset nth_swap_at intro!: swap_at_filter)
  have le: "\<forall>k<j + 1. key (zs ! k) \<le> key (zs ! (j + 1))"
    using j Suc.prems(4) by (auto simp: zs_def nth_swap_at less_Suc_eq order_le_less)
  have in_zs: "\<exists>k'\<le>lim. zs ! k = xs ! k'" if "k \<le> lim" for k
    using that j by (auto simp: zs_def nth_swap_at intro: less_imp_le Suc_leI)
  have "set zs = set xs" using zs(1) by (metis mset_eq_setD)
  then have "d = lim - (j + 1)" "lim < length zs" "j + 1 \<le> lim" "\<forall>x\<in>set zs. valid x"
    using Suc.hyps(2) Suc.prems zs j by auto
  from Suc.hyps(1)[OF this le]
  obtain ys where ys: "pass_elems compar zs (j + 1) lim = Some ys"
    "mset ys = mset zs" "\<forall>a. filter (\<lambda>x. a = key x) ys = filter (\<lambda>x. a = key x) zs"
    "\<forall>k. lim < k \<longrightarrow> ys ! k = zs ! k" "\<forall>k\<le>lim. \<exists>k'\<le>lim. ys ! k = zs ! k'"
    "\<forall>k\<le>lim. key (ys ! k) \<le> key (ys ! lim)"
    by blast
  have "\<forall>k\<le>lim. \<exists>k'\<le>lim. ys ! k = xs ! k'" using ys(5) in_zs by metis
  with ys zs j step show ?case by auto
qed

lemma outer_spec:
  assumes "\<forall>x\<in>set xs. valid x" "n = length xs" "i \<le> n - 1"
    "\<forall>a b. a < b \<and> n - i \<le> b \<and> b < n \<longrightarrow> key (xs ! a) \<le> key (xs ! b)"
  shows "\<exists>ys. passes_elems compar xs i n = Some ys \<and> mset ys = mset xs \<and>
           (\<forall>a. filter (\<lambda>x. a = key x) ys = filter (\<lambda>x. a = key x) xs) \<and> sorted (map key ys)"
  using assms
proof (induction "n - 1 - i" arbitrary: xs i)
  case 0
  then have "\<forall>a b. a < b \<and> b < n \<longrightarrow> key (xs ! a) \<le> key (xs ! b)" by auto
  with 0 show ?case
    by (subst passes_elems.simps) (auto simp: sorted_iff_nth_mono_less)
next
  case (Suc d)
  then have i: "i < n - 1" by simp
  with Suc.prems(2) have lim: "n - i - 1 < length xs" by simp
  obtain ys where ys: "pass_elems compar xs 0 (n - i - 1) = Some ys" "mset ys = mset xs"
    "\<forall>a. filter (\<lambda>x. a = key x) ys = filter (\<lambda>x. a = key x) xs"
    "\<forall>k. n - i - 1 < k \<longrightarrow> ys ! k = xs ! k"
    "\<forall>k\<le>n - i - 1. \<exists>k'\<le>n - i - 1. ys ! k = xs ! k'"
    "\<forall>k\<le>n - i - 1. key (ys ! k) \<le> key (ys ! (n - i - 1))"
    using inner_spec[of "n - i - 1" xs 0, OF lim _ Suc.prems(1)] by (simp del: One_nat_def) blast
  have len: "length ys = n" "set ys = set xs"
    using ys(2) Suc.prems(2) by (metis size_mset, metis mset_eq_setD)
  have "key (ys ! a) \<le> key (ys ! b)" if ab: "a < b" "n - (i + 1) \<le> b" "b < n" for a b
  proof (cases "b = n - i - 1")
    case True
    with ys(6) ab show ?thesis by simp
  next
    case False
    with ab have b: "n - i - 1 < b" by simp
    show ?thesis
    proof (cases "a \<le> n - i - 1")
      case True
      then obtain a' where "a' \<le> n - i - 1" "ys ! a = xs ! a'" using ys(5) by blast
      with b ab ys(4) Suc.prems(4) show ?thesis by auto
    next
      case False
      with b ab ys(4) Suc.prems(4) show ?thesis by auto
    qed
  qed
  then have "\<exists>zs. passes_elems compar ys (i + 1) n = Some zs \<and> mset zs = mset ys \<and>
      (\<forall>a. filter (\<lambda>x. a = key x) zs = filter (\<lambda>x. a = key x) ys) \<and> sorted (map key zs)"
    using Suc.hyps(2) Suc.prems(1) len i by (intro Suc.hyps(1)) auto
  with ys i show ?case by (subst passes_elems.simps) auto
qed

lemma sort_elems_stable:
  assumes "\<forall>x\<in>set xs. valid x" "xs \<noteq> []"
  shows "sort_elems xs compar = Some (sort_key key xs)"
proof -
  obtain ys where ys: "passes_elems compar xs 0 (length xs) = Some ys" "mset ys = mset xs"
    "\<forall>a. filter (\<lambda>x. a = key x) ys = filter (\<lambda>x. a = key x) xs" "sorted (map key ys)"
    using outer_spec[of xs "length xs" 0, OF assms(1) refl] by fastforce
  then have "sort_key key xs = ys"
    by (intro properties_for_sort_key) auto
  with ys assms show ?thesis by (simp add: sort_elems_def)
qed

end

section \<open>The sort in memory is the sort of the elements\<close>

definition elems :: "mem \<Rightarrow> addr \<Rightarrow> nat \<Rightarrow> nat \<Rightarrow> byte list list" where
  "elems m arr nel width = map (\<lambda>i. bytes_at (rd m (arr + int (i * width))) width) [0..<nel]"

lemma length_elems [simp]: "length (elems m arr nel width) = nel"
  by (simp add: elems_def)

lemma nth_elems: "i < nel \<Longrightarrow> elems m arr nel width ! i = bytes_at (rd m (arr + int (i * width))) width"
  by (simp add: elems_def)

definition beside :: "addr \<Rightarrow> nat \<Rightarrow> mem \<Rightarrow> mem \<Rightarrow> bool" where
  "beside arr n m m' \<longleftrightarrow> (\<forall>a. \<not> inside arr (int n) a \<longrightarrow> m' a = m a)"

lemma elems_swap:
  fixes m :: mem and arr :: addr and width :: nat
  assumes "j + 1 < nel"
  defines "m' \<equiv> qsort_swap m (arr + int (j * width)) (arr + int ((j + 1) * width)) width"
  shows "elems m' arr nel width = swap_at (elems m arr nel width) j" "beside arr (nel * width) m m'"
proof -
  let ?a = "arr + int (j * width)" and ?b = "arr + int ((j + 1) * width)"
  have "?a + int width \<le> ?b \<or> ?b + int width \<le> ?a" by (simp add: algebra_simps)
  note sw = qsort_swap_exchanges[OF this, where m = m, folded m'_def]
  have other: "bytes_at (rd m' (arr + int (i * width))) width = bytes_at (rd m (arr + int (i * width))) width"
    if "i \<noteq> j" "i \<noteq> j + 1" for i
  proof -
    have "m' (arr + int (i * width) + int k) = m (arr + int (i * width) + int k)" if k: "k < width" for k
    proof (rule sw(3))
      have "i * width + k < j * width \<or> j * width + width \<le> i * width + k"
        "i * width + k < (j + 1) * width \<or> (j + 1) * width + width \<le> i * width + k"
        using that k \<open>i \<noteq> j\<close> \<open>i \<noteq> j + 1\<close> mult_le_mono1[of "i + 1" j width] mult_le_mono1[of "j + 1" i width]
          mult_le_mono1[of "i + 1" "j + 1" width] mult_le_mono1[of "j + 1 + 1" i width]
        by (auto simp: nat_neq_iff)
      then show "\<not> (?a \<le> arr + int (i * width) + int k \<and> arr + int (i * width) + int k < ?a + int width)"
        "\<not> (?b \<le> arr + int (i * width) + int k \<and> arr + int (i * width) + int k < ?b + int width)"
        by linarith+
    qed
    then show ?thesis by (simp add: bytes_at_eq_iff)
  qed
  show "elems m' arr nel width = swap_at (elems m arr nel width) j"
  proof (rule nth_equalityI)
    fix i assume "i < length (elems m' arr nel width)"
    then show "elems m' arr nel width ! i = swap_at (elems m arr nel width) j ! i"
      using assms(1) sw(1,2) other[of i] by (auto simp: nth_elems nth_swap_at simp del: of_nat_mult of_nat_add)
  qed simp
  have "(j + 1) * width + width \<le> nel * width" using mult_le_mono1[of "j + 1 + 1" nel width] assms(1) by simp
  then have hi: "int ((j + 1) * width) + int width \<le> int (nel * width)" by (metis of_nat_add of_nat_le_iff)
  have lo: "int (j * width) + int width \<le> int ((j + 1) * width)" "0 \<le> int (j * width)"
    by (simp_all add: algebra_simps del: of_nat_mult)
  show "beside arr (nel * width) m m'"
    unfolding beside_def inside_def
  proof (intro allI impI)
    fix a assume "\<not> (arr \<le> a \<and> a < arr + int (nel * width))"
    then have "\<not> (?a \<le> a \<and> a < ?a + int width)" "\<not> (?b \<le> a \<and> a < ?b + int width)" using lo hi by linarith+
    then show "m' a = m a" by (rule sw(3))
  qed
qed

text \<open>A comparison that only depends on the bytes of the two elements.\<close>

definition compares :: "(mem \<Rightarrow> addr \<Rightarrow> addr \<Rightarrow> int option) \<Rightarrow> nat \<Rightarrow> byte list set \<Rightarrow> (byte list \<Rightarrow> 'k::linorder) \<Rightarrow> bool" where
  "compares compar width S key \<longleftrightarrow>
     (\<forall>m p q. bytes_at (rd m p) width \<in> S \<and> bytes_at (rd m q) width \<in> S \<longrightarrow>
        (\<exists>c. compar m p q = Some c \<and> (0 < c \<longleftrightarrow> key (bytes_at (rd m q) width) < key (bytes_at (rd m p) width))))"

abbreviation key_order :: "(byte list \<Rightarrow> 'k::linorder) \<Rightarrow> byte list \<Rightarrow> byte list \<Rightarrow> int option" where
  "key_order key x y \<equiv> Some (if key y < key x then 1 else 0)"

lemma qsort_inner_elems:
  assumes "compares compar width S key" "lim < nel"
  shows "set (elems m arr nel width) \<subseteq> S \<Longrightarrow> pass_elems (key_order key) (elems m arr nel width) j lim = Some ys \<Longrightarrow>
    \<exists>m'. qsort_inner compar m arr width j lim = Some m' \<and> elems m' arr nel width = ys \<and> beside arr (nel * width) m m'"
proof (induction "lim - j" arbitrary: m j)
  case 0
  then have "\<not> j < lim" by simp
  with 0 show ?case by (simp add: pass_elems.simps[of _ _ j lim] qsort_inner.simps[of _ _ _ _ j lim] beside_def)
next
  case (Suc d)
  then have j: "j < lim" "j + 1 < nel" using assms(2) by simp_all
  let ?xs = "elems m arr nel width"
  let ?p = "arr + int (j * width)" and ?q = "arr + int ((j + 1) * width)"
  have e: "?xs ! j = bytes_at (rd m ?p) width" "?xs ! (j + 1) = bytes_at (rd m ?q) width" using j(2) by (simp_all add: nth_elems)
  have "?xs ! j \<in> S" "?xs ! (j + 1) \<in> S" using Suc.prems(1) j(2) by (auto intro!: subsetD[OF Suc.prems(1)] nth_mem)
  then obtain c where c: "compar m ?p ?q = Some c" "0 < c \<longleftrightarrow> key (?xs ! (j + 1)) < key (?xs ! j)"
    using assms(1) unfolding compares_def e by blast
  let ?m = "if c > 0 then qsort_swap m ?p ?q width else m"
  have m: "elems ?m arr nel width = (if c > 0 then swap_at ?xs j else ?xs)" "beside arr (nel * width) m ?m"
    using elems_swap[OF j(2), where m = m and arr = arr and width = width] by (simp_all add: beside_def)
  have sub: "set (elems ?m arr nel width) \<subseteq> S"
    using Suc.prems(1) swap_at_mset[of j ?xs] j(2) mset_eq_setD[of "swap_at ?xs j" ?xs] unfolding m(1) by (auto split: if_splits)
  have "pass_elems (key_order key) (elems ?m arr nel width) (j + 1) lim = Some ys"
    using Suc.prems(2) j(1) c(2) unfolding m(1) by (subst (asm) pass_elems.simps) (auto split: if_splits)
  moreover have "d = lim - (j + 1)" using Suc.hyps(2) by simp
  ultimately obtain m' where
    m': "qsort_inner compar ?m arr width (j + 1) lim = Some m'" "elems m' arr nel width = ys" "beside arr (nel * width) ?m m'"
    using Suc.hyps(1)[of "j + 1" ?m, OF _ sub] by blast
  have "qsort_inner compar m arr width j lim = qsort_inner compar ?m arr width (j + 1) lim"
    using j(1) c(1) by (subst qsort_inner.simps) simp
  with m' m(2) show ?case by (auto simp: beside_def)
qed

lemma set_pass_elems: "pass_elems cmp xs j lim = Some ys \<Longrightarrow> lim < length xs \<Longrightarrow> set ys = set xs \<and> length ys = length xs"
proof (induction cmp xs j lim rule: pass_elems.induct)
  case (1 cmp xs j lim)
  show ?case
  proof (cases "j < lim")
    case True
    then obtain c where c: "cmp (xs ! j) (xs ! (j + 1)) = Some c"
      "pass_elems cmp (if c > 0 then swap_at xs j else xs) (j + 1) lim = Some ys"
      using "1.prems"(1) by (subst (asm) pass_elems.simps) (auto split: option.splits)
    have "set (if c > 0 then swap_at xs j else xs) = set xs"
      using swap_at_mset[of j xs] True "1.prems"(2) mset_eq_setD[of "swap_at xs j" xs] by simp
    with "1.IH"[OF True c] "1.prems"(2) show ?thesis by simp
  next
    case False
    with "1.prems" show ?thesis by (subst (asm) pass_elems.simps) simp
  qed
qed

lemma qsort_outer_elems:
  assumes "compares compar width S key" "0 < nel" "nel < 18446744073709551616"
  shows "set (elems m arr nel width) \<subseteq> S \<Longrightarrow> passes_elems (key_order key) (elems m arr nel width) i nel = Some ys \<Longrightarrow> i \<le> nel - 1 \<Longrightarrow>
    \<exists>m'. qsort_outer compar m arr nel width i = Some m' \<and> elems m' arr nel width = ys \<and> beside arr (nel * width) m m'"
proof (induction "nel - 1 - i" arbitrary: m i)
  case 0
  have "sz (int nel - 1) = nel - 1" using assms by (simp add: sz_id of_nat_diff)
  moreover have "\<not> i < nel - 1" using 0 by simp
  ultimately have "passes_elems (key_order key) (elems m arr nel width) i nel = Some (elems m arr nel width)"
    "qsort_outer compar m arr nel width i = Some m"
    by (subst passes_elems.simps, simp, subst qsort_outer.simps, simp)
  with 0 show ?case by (simp add: beside_def)
next
  case (Suc d)
  then have i: "i < nel - 1" by simp
  have b: "sz (int nel - 1) = nel - 1" "sz (int nel - int i - 1) = nel - i - 1"
    using assms(2,3) i by (simp_all add: sz_id of_nat_diff)
  obtain zs where zs: "pass_elems (key_order key) (elems m arr nel width) 0 (nel - i - 1) = Some zs"
    "passes_elems (key_order key) zs (i + 1) nel = Some ys"
    using Suc.prems(2) i by (subst (asm) passes_elems.simps) (auto split: option.splits)
  have lim: "nel - i - 1 < nel" using assms(2) by simp
  obtain m1 where m1: "qsort_inner compar m arr width 0 (nel - i - 1) = Some m1" "elems m1 arr nel width = zs"
    "beside arr (nel * width) m m1"
    using qsort_inner_elems[OF assms(1) lim Suc.prems(1) zs(1)] by blast
  have "set (elems m1 arr nel width) \<subseteq> S" using set_pass_elems[OF zs(1)] lim Suc.prems(1) m1(2) by simp
  moreover have "d = nel - 1 - (i + 1)" "i + 1 \<le> nel - 1" using Suc.hyps(2) i by simp_all
  moreover have "passes_elems (key_order key) (elems m1 arr nel width) (i + 1) nel = Some ys" using zs(2) m1(2) by simp
  ultimately obtain m' where
    "qsort_outer compar m1 arr nel width (i + 1) = Some m'" "elems m' arr nel width = ys" "beside arr (nel * width) m1 m'"
    using Suc.hyps(1)[of "i + 1" m1] by blast
  with m1 i b show ?case by (subst qsort_outer.simps) (auto simp: beside_def)
qed

text \<open>The refinement.\<close>

lemma qsort_elements:
  assumes "compares compar width (set (elems m arr nel width)) key" "0 < nel" "nel < 18446744073709551616"
    "sort_elems (elems m arr nel width) (key_order key) = Some ys"
  shows "\<exists>m'. qsort m arr nel width compar = Some m' \<and> elems m' arr nel width = ys \<and> beside arr (nel * width) m m'"
  using qsort_outer_elems[OF assms(1-3) subset_refl, of 0 ys] assms(2,4) by (simp add: qsort_def sort_elems_def)

text \<open>An empty array: the bound \<open>nel - 1\<close> has wrapped, and the first thing that happens is a comparison of two elements
  the array does not have.\<close>

lemma qsort_empty_compares: "compar m arr (arr + int width) = None \<Longrightarrow> qsort m arr 0 width compar = None"
proof -
  assume c: "compar m arr (arr + int width) = None"
  have "sz (- 1) = 18446744073709551615" by (simp add: sz_def u64_def)
  with c show ?thesis
    by (simp add: qsort_def qsort_outer.simps[of _ _ _ 0 _ 0] qsort_inner.simps[of _ _ _ _ 0 "18446744073709551615"])
qed

section \<open>The string functions on C strings\<close>

lemma strlen_loop_spec:
  "(\<forall>j. i \<le> j \<and> j < i + int n \<longrightarrow> s j \<noteq> 0) \<Longrightarrow> s (i + int n) = 0 \<Longrightarrow> strlen_loop s i = Some (i + int n)"
  by (induction n arbitrary: i) (auto simp: strlen_loop.simps[of s] algebra_simps)

lemma points_to_str_nonzero:
  assumes "points_to_str p s" "0 \<le> j" "j < int (length s)"
  shows "p j \<noteq> 0"
proof -
  from assms obtain i where "j = int i" "i < length s"
    by (metis nonneg_int_cases of_nat_less_iff)
  moreover from this assms(1) have "p (int i) = s ! i"
    by (auto simp: points_to_str_def list_eq_iff_nth_eq)
  moreover have "s ! i \<in> set s" using \<open>i < length s\<close> by simp
  ultimately show ?thesis
    using assms(1) by (metis points_to_str_def cstring_def)
qed

lemma strlen_points_to: "points_to_str p s \<Longrightarrow> strlen p = Some (int (length s))"
  using strlen_loop_spec[of 0 "length s" p] points_to_str_nonzero[of p s]
  by (simp add: strlen_def points_to_str_def)

lemma strlen_loop_Some:
  assumes "strlen_loop s i = Some r"
  shows "i \<le> r \<and> s r = 0 \<and> (\<forall>j. i \<le> j \<and> j < r \<longrightarrow> s j \<noteq> 0)"
proof (rule strlen_loop.raw_induct[of "\<lambda>s i r. i \<le> r \<and> s r = 0 \<and> (\<forall>j. i \<le> j \<and> j < r \<longrightarrow> s j \<noteq> 0)", OF _ assms])
  fix f :: "(int \<Rightarrow> 8 word) \<Rightarrow> int \<Rightarrow> int option" and s i r
  assume IH: "\<And>s i r. f s i = Some r \<Longrightarrow> i \<le> r \<and> s r = 0 \<and> (\<forall>j. i \<le> j \<and> j < r \<longrightarrow> s j \<noteq> 0)"
    and eq: "(if s i \<noteq> 0 then f s (i + 1) else Some i) = Some r"
  show "i \<le> r \<and> s r = 0 \<and> (\<forall>j. i \<le> j \<and> j < r \<longrightarrow> s j \<noteq> 0)"
  proof (cases "s i = 0")
    case False
    with eq IH[of s "i + 1" r] show ?thesis using int_le_less_Suc[of i] by auto
  qed (use eq in auto)
qed

lemma strlen_Some_iff:
  "strlen p = Some n \<longleftrightarrow> 0 \<le> n \<and> points_to_str p (bytes_at p (nat n))"
proof
  assume "strlen p = Some n"
  then have "0 \<le> n \<and> p n = 0 \<and> (\<forall>j. 0 \<le> j \<and> j < n \<longrightarrow> p j \<noteq> 0)"
    using strlen_loop_Some by (simp add: strlen_def)
  then show "0 \<le> n \<and> points_to_str p (bytes_at p (nat n))"
    by (auto simp: points_to_str_def cstring_def in_set_conv_nth)
next
  assume "0 \<le> n \<and> points_to_str p (bytes_at p (nat n))"
  then show "strlen p = Some n" using strlen_points_to by fastforce
qed

lemma strcmp_points_to:
  assumes "points_to_str p s" "points_to_str q t"
  shows "\<exists>c. strcmp p q = Some c \<and> (c = 0 \<longleftrightarrow> s = t) \<and> (0 < c \<longleftrightarrow> t < s)"
  using assms
proof (induction s arbitrary: p q t)
  case Nil
  then show ?case
    by (cases t) (auto simp: strcmp.simps[of p q] points_to_str_Nil points_to_str_Cons uint_0_iff word_gt_0)
next
  case (Cons a s)
  show ?case
  proof (cases t)
    case Nil
    with Cons.prems show ?thesis
      by (auto simp: strcmp.simps[of p q] points_to_str_Nil points_to_str_Cons uint_0_iff less_le)
  next
    case (Cons b t')
    show ?thesis
    proof (cases "a = b")
      case True
      with Cons Cons.prems have "strcmp p q = strcmp (shift p 1) (shift q 1)"
        by (auto simp: strcmp.simps[of p q] points_to_str_Cons)
      moreover have "\<exists>c. strcmp (shift p 1) (shift q 1) = Some c \<and> (c = 0 \<longleftrightarrow> s = t') \<and> (0 < c \<longleftrightarrow> t' < s)"
        by (rule Cons.IH) (use Cons Cons.prems in \<open>simp_all add: points_to_str_Cons\<close>)
      ultimately show ?thesis using Cons True by simp
    next
      case False
      with Cons Cons.prems show ?thesis
        by (auto simp: strcmp.simps[of p q] points_to_str_Cons word_less_def word_uint_eq_iff)
    qed
  qed
qed

lemma strnlen_loop_spec:
  "(\<forall>j. i \<le> j \<and> j < i + int k \<longrightarrow> s j \<noteq> 0) \<Longrightarrow> (k < n \<Longrightarrow> s (i + int k) = 0) \<Longrightarrow> k \<le> n \<Longrightarrow>
   strnlen_loop s i n = i + int k"
proof (induction k arbitrary: i n)
  case 0
  then show ?case by (cases n) auto
next
  case (Suc k)
  then obtain n' where "n = Suc n'" by (cases n) auto
  with Suc show ?case by (auto simp: algebra_simps)
qed

lemma strnlen_points_to:
  "points_to_str p s \<Longrightarrow> strnlen p n = int (min n (length s))"
  using strnlen_loop_spec[of 0 "min n (length s)" p n] points_to_str_nonzero[of p s]
  by (auto simp: strnlen_def points_to_str_def min_def)

lemma strcpy_points_to:
  "points_to_str src s \<Longrightarrow> strcpy m dest src = Some (memcpy_from m dest src (length s + 1))"
proof (induction s arbitrary: m dest src)
  case Nil
  then show ?case by (simp add: strcpy.simps[of m] points_to_str_Nil Let_def fun_upd_def)
next
  case (Cons c s)
  then show ?case by (simp add: strcpy.simps[of m] points_to_str_Cons Let_def)
qed

lemma malloc_aligned_size:
  assumes "0 \<le> n" "n + 7 < 18446744073709551616"
  shows "u64 (u64 (n + 7) AND NOT 7) = n + 7 - (n + 7) mod 8"
proof -
  have "u64 (n + 7) AND NOT 7 = n + 7 - (n + 7) mod 8"
    using int_and_not_mask[of "n + 7" 3] assms by (simp add: u64_id)
  moreover have "0 \<le> n + 7 - (n + 7) mod 8" "n + 7 - (n + 7) mod 8 < 18446744073709551616"
    using assms by (smt (verit) pos_mod_bound pos_mod_sign, smt (verit) pos_mod_sign)
  ultimately show ?thesis by (simp add: u64_id)
qed

section \<open>Allocators: blocks that never overlap\<close>

locale allocator =
  fixes alloc :: "addr \<Rightarrow> int \<Rightarrow> addr \<times> addr"
    and ok_size :: "int \<Rightarrow> bool"
    and align :: int
  assumes alloc_block: "ok_size n \<Longrightarrow> alloc h n = (p, h') \<Longrightarrow> h \<le> p \<and> p + n \<le> h' \<and> h \<le> h'"
    and alloc_align: "ok_size n \<Longrightarrow> h mod align = 0 \<Longrightarrow> alloc h n = (p, h') \<Longrightarrow> p mod align = 0 \<and> h' mod align = 0"

fun alloc_all :: "(addr \<Rightarrow> int \<Rightarrow> addr \<times> addr) \<Rightarrow> addr \<Rightarrow> int list \<Rightarrow> (addr \<times> int) list \<times> addr" where
  "alloc_all alloc h [] = ([], h)"
| "alloc_all alloc h (n # ns) =
     (let (p, h1) = alloc h n; (bs, h2) = alloc_all alloc h1 ns in ((p, n) # bs, h2))"

definition block :: "addr \<times> int \<Rightarrow> addr set" where
  "block b = {fst b..<fst b + snd b}"

context allocator
begin

lemma alloc_all_range:
  "\<forall>n\<in>set ns. ok_size n \<Longrightarrow> alloc_all alloc h ns = (bs, h') \<Longrightarrow>
   h \<le> h' \<and> (\<forall>b\<in>set bs. block b \<subseteq> {h..<h'})"
proof (induction ns arbitrary: h bs)
  case (Cons n ns)
  obtain p h1 where p: "alloc h n = (p, h1)" by fastforce
  obtain cs where cs: "alloc_all alloc h1 ns = (cs, h')" "bs = (p, n) # cs"
    using Cons.prems p by (auto split: prod.splits)
  from Cons.IH[OF _ cs(1)] Cons.prems alloc_block[OF _ p] cs show ?case
    by (force simp: block_def)
qed simp

lemma alloc_all_disjoint:
  "\<forall>n\<in>set ns. ok_size n \<Longrightarrow> alloc_all alloc h ns = (bs, h') \<Longrightarrow>
   i < length bs \<Longrightarrow> j < length bs \<Longrightarrow> i < j \<Longrightarrow> block (bs ! i) \<inter> block (bs ! j) = {}"
proof (induction ns arbitrary: h bs i j)
  case (Cons n ns)
  obtain p h1 where p: "alloc h n = (p, h1)" by fastforce
  obtain cs where cs: "alloc_all alloc h1 ns = (cs, h')" "bs = (p, n) # cs"
    using Cons.prems p by (auto split: prod.splits)
  show ?case
  proof (cases i)
    case 0
    then have "block (bs ! j) \<subseteq> {h1..<h'}"
      using Cons.prems cs alloc_all_range[OF _ cs(1)] by (cases j) auto
    moreover have "block (bs ! i) \<subseteq> {h..<h1}"
      using 0 cs alloc_block[OF _ p] Cons.prems by (auto simp: block_def)
    ultimately show ?thesis by fastforce
  next
    case (Suc i')
    with Cons.prems cs Cons.IH[OF _ cs(1), of i' "j - 1"] show ?thesis by (cases j) auto
  qed
qed simp

lemma alloc_all_aligned:
  "\<forall>n\<in>set ns. ok_size n \<Longrightarrow> h mod align = 0 \<Longrightarrow> alloc_all alloc h ns = (bs, h') \<Longrightarrow>
   h' mod align = 0 \<and> (\<forall>b\<in>set bs. fst b mod align = 0)"
proof (induction ns arbitrary: h bs)
  case (Cons n ns)
  obtain p h1 where p: "alloc h n = (p, h1)" by fastforce
  obtain cs where cs: "alloc_all alloc h1 ns = (cs, h')" "bs = (p, n) # cs"
    using Cons.prems p by (auto split: prod.splits)
  from Cons.IH[OF _ _ cs(1)] Cons.prems alloc_align[OF _ _ p] cs show ?case by auto
qed simp

end

definition malloc_ok :: "int \<Rightarrow> bool" where
  "malloc_ok n \<longleftrightarrow> 0 \<le> n \<and> n + 7 < 18446744073709551616"

lemma malloc_eq: "malloc_ok n \<Longrightarrow> malloc h n = (h, h + (n + 7 - (n + 7) mod 8))"
  unfolding malloc_def malloc_ok_def by (simp only: malloc_aligned_size)

interpretation bump: allocator malloc malloc_ok 8
proof
  fix n h p h'
  assume n: "malloc_ok n" and m: "malloc h n = (p, h')"
  have "0 \<le> (n + 7) mod 8" "(n + 7) mod 8 \<le> 7" by simp_all
  with n m show "h \<le> p \<and> p + n \<le> h' \<and> h \<le> h'"
    by (auto simp: malloc_eq) (auto simp: malloc_ok_def)
  assume "h mod 8 = 0"
  with n m show "p mod 8 = 0 \<and> h' mod 8 = 0"
    by (auto simp: malloc_eq dvd_minus_mod simp flip: dvd_eq_mod_eq_0)
qed

section \<open>Parsing numbers\<close>

definition is_digit_of :: "int \<Rightarrow> byte \<Rightarrow> bool" where
  "is_digit_of base c \<longleftrightarrow> char_to_digit c \<noteq> -1 \<and> char_to_digit c < base"

fun digits_value :: "int \<Rightarrow> int \<Rightarrow> byte list \<Rightarrow> int" where
  "digits_value base acc [] = acc"
| "digits_value base acc (c # cs) = digits_value base (acc * base + char_to_digit c) cs"

lemma digits_value_mod: "u64 (digits_value base (u64 acc) cs) = u64 (digits_value base acc cs)"
proof (induction cs arbitrary: acc)
  case (Cons c cs)
  have "u64 (u64 acc * base + char_to_digit c) = u64 (acc * base + char_to_digit c)"
    unfolding u64_def by (rule mod_add_cong) (simp_all add: mod_mult_left_eq)
  then show ?case
    using Cons.IH[of "u64 acc * base + char_to_digit c"] Cons.IH[of "acc * base + char_to_digit c"]
    by simp
qed (simp add: u64_def)

lemma strtoull_digits_spec:
  "\<forall>c\<in>set cs. is_digit_of base c \<Longrightarrow> \<forall>k<length cs. s (i + int k) = cs ! k \<Longrightarrow>
   \<not> is_digit_of base (s (i + int (length cs))) \<Longrightarrow> u64 acc = acc \<Longrightarrow>
   strtoull_digits s i base acc = Some (u64 (digits_value base acc cs), i + int (length cs))"
proof (induction cs arbitrary: i acc)
  case Nil
  then show ?case by (auto simp: strtoull_digits.simps[of s] is_digit_of_def)
next
  case (Cons c cs)
  let ?acc = "acc * base + char_to_digit c"
  have "s i = c" using spec[OF Cons.prems(2), of 0] by simp
  have "s (i + 1 + int k) = cs ! k" if "k < length cs" for k
    using spec[OF Cons.prems(2), of "Suc k"] that by (simp add: algebra_simps)
  then have "strtoull_digits s (i + 1) base (u64 ?acc) =
      Some (u64 (digits_value base (u64 ?acc) cs), i + 1 + int (length cs))"
    using Cons.prems by (intro Cons.IH) (auto simp: algebra_simps u64_def)
  with \<open>s i = c\<close> Cons.prems(1) show ?case
    by (simp add: strtoull_digits.simps[of s i] is_digit_of_def digits_value_mod algebra_simps)
qed

text \<open>A number written in decimal.\<close>

fun decimal :: "nat \<Rightarrow> byte list" where
  "decimal n = (if n < 10 then [] else decimal (n div 10)) @ [word_of_nat (48 + n mod 10)]"

declare decimal.simps [simp del]

lemma digits_value_append: "digits_value base acc (xs @ ys) = digits_value base (digits_value base acc xs) ys"
  by (induction xs arbitrary: acc) simp_all

lemma uint_decimal_digit: "d < 10 \<Longrightarrow> uint (word_of_nat (48 + d) :: byte) = 48 + int d"
  using uint_word_of_int_eq[where ?'a = 8, of "48 + int d"]
  by (simp add: take_bit_int_eq_self_iff)

lemma char_to_decimal_digit: "d < 10 \<Longrightarrow> char_to_digit (word_of_nat (48 + d)) = int d"
  unfolding char_to_digit_def Let_def by (subst uint_decimal_digit, assumption)+ simp

lemma digits_value_decimal: "digits_value 10 0 (decimal n) = int n"
proof (induction n rule: decimal.induct)
  case (1 n)
  have "char_to_digit (word_of_nat (48 + n mod 10)) = int (n mod 10)"
    by (rule char_to_decimal_digit) simp
  with 1 show ?case
    by (subst decimal.simps) (auto simp: digits_value_append zmod_int zdiv_int)
qed

lemma decimal_digits: "c \<in> set (decimal n) \<Longrightarrow> is_digit_of 10 c"
proof (induction n rule: decimal.induct)
  case (1 n)
  have "char_to_digit (word_of_nat (48 + n mod 10)) = int (n mod 10)"
    by (rule char_to_decimal_digit) simp
  moreover have "int (n mod 10) < 10" by simp
  ultimately have "is_digit_of 10 (word_of_nat (48 + n mod 10))"
    unfolding is_digit_of_def by linarith
  with 1 show ?case by (subst (asm) (2) decimal.simps) (auto split: if_splits)
qed

lemma skip_spaces_spec:
  "\<forall>k<n. s (i + int k) = 32 \<Longrightarrow> s (i + int n) \<noteq> 32 \<Longrightarrow> skip_spaces s i = Some (i + int n)"
proof (induction n arbitrary: i)
  case 0
  then show ?case by (simp add: skip_spaces.simps[of s])
next
  case (Suc n)
  have "s (i + 1 + int k) = 32" if "k < n" for k
    using spec[OF Suc.prems(1), of "Suc k"] that by (simp add: algebra_simps)
  moreover have "s i = 32" using spec[OF Suc.prems(1), of 0] by simp
  ultimately show ?case
    using Suc.IH[of "i + 1"] Suc.prems(2) by (simp add: skip_spaces.simps[of s i] algebra_simps)
qed

lemma strtoull_digits_after_spaces:
  assumes "bytes_at s (k + length ds) = replicate k 32 @ ds" "\<forall>c\<in>set ds. is_digit_of base c"
    "\<not> is_digit_of base (s (int (k + length ds)))" "s (int k) \<noteq> 32" "base \<noteq> 0"
  shows "strtoull s base = Some (u64 (digits_value base 0 ds), int (k + length ds))"
proof -
  have nth: "s (int i) = (replicate k 32 @ ds) ! i" if "i < k + length ds" for i
    using that nth_bytes_at[of i "k + length ds" s] assms(1) by simp
  have "skip_spaces s 0 = Some (int k)"
    using skip_spaces_spec[of k s 0] assms(4) nth by (simp add: nth_append)
  moreover have "strtoull_digits s (int k) base 0 = Some (u64 (digits_value base 0 ds), int k + int (length ds))"
    using assms(2,3) nth[of "k + _"] by (intro strtoull_digits_spec) (auto simp: u64_def nth_append)
  ultimately show ?thesis using assms(5) by (simp add: strtoull_def strtoull_prefix_def)
qed

section \<open>Properties\<close>

text \<open>\<open>memmove\<close> copies the bytes as they were before the call, whether the areas overlap or not and
  in either direction, and changes nothing else.\<close>

theorem memmove_copies:
  "memmove m d s n = (\<lambda>a. if d \<le> a \<and> a < d + int n then m (s + (a - d)) else m a)"
  by (rule memmove_spec)

text \<open>\<open>strlen\<close> returns exactly when a terminator follows, with the number of bytes before the
  first one.\<close>

theorem strlen_exact: "strlen p = Some n \<longleftrightarrow> 0 \<le> n \<and> points_to_str p (bytes_at p (nat n))"
  by (rule strlen_Some_iff)

text \<open>\<open>strcmp\<close> of two C strings returns, with 0 for equal strings only and a positive value
  exactly when the first one is the greater, byte by byte as unsigned numbers.\<close>

theorem strcmp_order:
  assumes "points_to_str p s" "points_to_str q t"
  shows "\<exists>c. strcmp p q = Some c \<and> (c = 0 \<longleftrightarrow> s = t) \<and> (0 < c \<longleftrightarrow> t < s)"
  by (rule strcmp_points_to[OF assms])

theorem strcmp_order_witness: "\<exists>c. strcmp (lit [97, 200]) (lit [97, 98, 99]) = Some c \<and> 0 < c"
  using strcmp_order[of "lit [97, 200]" "[97, 200]" "lit [97, 98, 99]" "[97, 98, 99]"] by auto

text \<open>C37: \<open>qsort_\<close> of an array with at least one element, with a comparison that orders the elements by a key, returns; the
  array then holds the stable sort of its elements by that key, and nothing outside of it has changed.  For an
  array without elements the code is wrong (\<open>qsort_empty_compares\<close>).\<close>

theorem qsort_sorts:
  assumes "\<forall>m' p q. bytes_at (rd m' p) width \<in> set (elems m base nel width) \<and> bytes_at (rd m' q) width \<in> set (elems m base nel width) \<longrightarrow>
      (\<exists>c. compar m' p q = Some c \<and> (0 < c \<longleftrightarrow> key (bytes_at (rd m' q) width) < (key (bytes_at (rd m' p) width) :: 'k :: linorder)))"
    and "0 < nel" "nel < 18446744073709551616"
  shows "\<exists>m'. qsort m base nel width compar = Some m' \<and>
    elems m' base nel width = sort_key key (elems m base nel width) \<and>
    (\<forall>a. \<not> inside base (int (nel * width)) a \<longrightarrow> m' a = m a)"
proof -
  have "comparison (key_order key) key (\<lambda>x. True)" by (simp add: comparison_def)
  moreover have "elems m base nel width \<noteq> []" using assms(2) length_elems[of m base nel width] by force
  ultimately have "sort_elems (elems m base nel width) (key_order key) = Some (sort_key key (elems m base nel width))"
    using comparison.sort_elems_stable by fastforce
  with qsort_elements[of compar width m base nel key] assms show ?thesis
    unfolding compares_def beside_def by blast
qed

text \<open>Three elements of two bytes, by their first bytes.\<close>

theorem qsort_sorts_witness:
  "\<exists>m'. qsort (store (\<lambda>_. 0) 64 [3, 0, 1, 7, 1, 5]) 64 3 2 (\<lambda>m p q. Some (uint (m p) - uint (m q))) = Some m' \<and>
     elems m' 64 3 2 = [[1, 7], [1, 5], [3, 0]]"
proof -
  let ?m = "store (\<lambda>_. 0) 64 [3, 0, 1, 7, 1, 5]"
  have e: "elems ?m 64 3 2 = [[3, 0], [1, 7], [1, 5]]"
    by (simp add: elems_def upt_rec bytes_at_def store_def numeral_eq_Suc)
  have k: "hd (bytes_at (rd m p) 2) = m p" for m p by (simp add: bytes_at_def numeral_eq_Suc)
  show ?thesis
    using qsort_sorts[where m = ?m and base = 64 and nel = 3 and width = 2 and key = hd and compar = "\<lambda>m p q. Some (uint (m p) - uint (m q))"]
    unfolding k e by (auto simp: word_less_def word_le_def)
qed

text \<open>Blocks from successive calls of \<open>malloc\<close> never overlap and are aligned to 8 bytes.\<close>

theorem malloc_blocks:
  assumes "alloc_all malloc heap ns = (bs, heap')" "\<forall>n\<in>set ns. malloc_ok n" "heap mod 8 = 0"
    "i < j" "j < length bs"
  shows "block (bs ! i) \<inter> block (bs ! j) = {} \<and> fst (bs ! j) mod 8 = 0 \<and> block (bs ! j) \<subseteq> {heap..<heap'}"
  using bump.alloc_all_disjoint[OF assms(2,1)] bump.alloc_all_aligned[OF assms(2,3,1)]
    bump.alloc_all_range[OF assms(2,1)] assms(4,5) by (auto simp: subset_eq)

theorem malloc_blocks_witness:
  "block (fst (alloc_all malloc 64 [3, 20]) ! 0) \<inter> block (fst (alloc_all malloc 64 [3, 20]) ! 1) = {}"
proof -
  have ok: "\<forall>n\<in>set [3, 20]. malloc_ok n" by (simp add: malloc_ok_def)
  obtain bs h' where bs: "alloc_all malloc 64 [3, 20] = (bs, h')" by fastforce
  moreover have "length bs = 2" using bs by (auto split: prod.splits)
  ultimately show ?thesis using malloc_blocks[OF bs ok, of 0 1] by simp
qed

text \<open>\<open>strtoull\<close> in base 10 or 16 skips spaces and reads digits up to the first byte that is none;
  the value is that of the digits modulo \<open>2 ^ 64\<close>, and \<open>endptr\<close> is that byte.\<close>

theorem strtoull_reads:
  assumes "bytes_at s (k + length ds) = replicate k 32 @ ds" "\<forall>c\<in>set ds. is_digit_of base c"
    "\<not> is_digit_of base (s (int (k + length ds)))" "s (int k) \<noteq> 32" "base \<noteq> 0"
  shows "strtoull s base = Some (u64 (digits_value base 0 ds), int (k + length ds))"
  by (rule strtoull_digits_after_spaces[OF assms])

theorem strtoull_reads_witness: "strtoull (lit [32, 49, 102, 71]) 16 = Some (31, 3)"
  using strtoull_reads[of "lit [32, 49, 102, 71]" 1 "[49, 102]" 16]
  by (simp add: bytes_at_def lit_def is_digit_of_def char_to_digit_def u64_def)

text \<open>A number below \<open>2 ^ 64\<close> printed in decimal is read back by \<open>strtoull\<close>.\<close>

theorem strtoull_decimal:
  assumes "n < 18446744073709551616"
  shows "strtoull (lit (decimal n)) 10 = Some (int n, int (length (decimal n)))"
proof -
  let ?ds = "decimal n"
  have "?ds \<noteq> []" by (subst decimal.simps) simp
  then have "lit ?ds 0 \<in> set ?ds" by (simp add: lit_def)
  then have "lit ?ds 0 \<noteq> 32" using decimal_digits[of "lit ?ds 0" n] by (auto simp: is_digit_of_def char_to_digit_def)
  then have "strtoull (lit ?ds) 10 = Some (u64 (digits_value 10 0 ?ds), int (0 + length ?ds))"
    using decimal_digits by (intro strtoull_digits_after_spaces) (auto simp: is_digit_of_def char_to_digit_def)
  with assms show ?thesis by (simp add: digits_value_decimal u64_id)
qed

theorem strtoull_decimal_witness: "strtoull (lit (decimal 512)) 10 = Some (512, 3)"
proof -
  have "decimal 512 = [53, 49, 50]" by (simp add: decimal.simps)
  with strtoull_decimal[of 512] show ?thesis by simp
qed

end
