(* ===== verification/Crc32.thy ===== *)
theory Crc32
  imports Prelude
begin

text \<open>
  The checksum of the U-Boot environment block (\<open>src/src/crc32.c\<close>): the table, the update
  macro and the loop.  The lemmas show that the table-driven update is the bit-serial
  division by the reflected polynomial \<open>0xedb88320\<close>, and from this that no corruption
  confined to four consecutive bytes can leave the checksum unchanged.
\<close>

definition crc_32_tab :: "32 word list" where
  "crc_32_tab = [
   0x00000000, 0x77073096, 0xee0e612c, 0x990951ba, 0x076dc419, 0x706af48f,
   0xe963a535, 0x9e6495a3, 0x0edb8832, 0x79dcb8a4, 0xe0d5e91e, 0x97d2d988,
   0x09b64c2b, 0x7eb17cbd, 0xe7b82d07, 0x90bf1d91, 0x1db71064, 0x6ab020f2,
   0xf3b97148, 0x84be41de, 0x1adad47d, 0x6ddde4eb, 0xf4d4b551, 0x83d385c7,
   0x136c9856, 0x646ba8c0, 0xfd62f97a, 0x8a65c9ec, 0x14015c4f, 0x63066cd9,
   0xfa0f3d63, 0x8d080df5, 0x3b6e20c8, 0x4c69105e, 0xd56041e4, 0xa2677172,
   0x3c03e4d1, 0x4b04d447, 0xd20d85fd, 0xa50ab56b, 0x35b5a8fa, 0x42b2986c,
   0xdbbbc9d6, 0xacbcf940, 0x32d86ce3, 0x45df5c75, 0xdcd60dcf, 0xabd13d59,
   0x26d930ac, 0x51de003a, 0xc8d75180, 0xbfd06116, 0x21b4f4b5, 0x56b3c423,
   0xcfba9599, 0xb8bda50f, 0x2802b89e, 0x5f058808, 0xc60cd9b2, 0xb10be924,
   0x2f6f7c87, 0x58684c11, 0xc1611dab, 0xb6662d3d, 0x76dc4190, 0x01db7106,
   0x98d220bc, 0xefd5102a, 0x71b18589, 0x06b6b51f, 0x9fbfe4a5, 0xe8b8d433,
   0x7807c9a2, 0x0f00f934, 0x9609a88e, 0xe10e9818, 0x7f6a0dbb, 0x086d3d2d,
   0x91646c97, 0xe6635c01, 0x6b6b51f4, 0x1c6c6162, 0x856530d8, 0xf262004e,
   0x6c0695ed, 0x1b01a57b, 0x8208f4c1, 0xf50fc457, 0x65b0d9c6, 0x12b7e950,
   0x8bbeb8ea, 0xfcb9887c, 0x62dd1ddf, 0x15da2d49, 0x8cd37cf3, 0xfbd44c65,
   0x4db26158, 0x3ab551ce, 0xa3bc0074, 0xd4bb30e2, 0x4adfa541, 0x3dd895d7,
   0xa4d1c46d, 0xd3d6f4fb, 0x4369e96a, 0x346ed9fc, 0xad678846, 0xda60b8d0,
   0x44042d73, 0x33031de5, 0xaa0a4c5f, 0xdd0d7cc9, 0x5005713c, 0x270241aa,
   0xbe0b1010, 0xc90c2086, 0x5768b525, 0x206f85b3, 0xb966d409, 0xce61e49f,
   0x5edef90e, 0x29d9c998, 0xb0d09822, 0xc7d7a8b4, 0x59b33d17, 0x2eb40d81,
   0xb7bd5c3b, 0xc0ba6cad, 0xedb88320, 0x9abfb3b6, 0x03b6e20c, 0x74b1d29a,
   0xead54739, 0x9dd277af, 0x04db2615, 0x73dc1683, 0xe3630b12, 0x94643b84,
   0x0d6d6a3e, 0x7a6a5aa8, 0xe40ecf0b, 0x9309ff9d, 0x0a00ae27, 0x7d079eb1,
   0xf00f9344, 0x8708a3d2, 0x1e01f268, 0x6906c2fe, 0xf762575d, 0x806567cb,
   0x196c3671, 0x6e6b06e7, 0xfed41b76, 0x89d32be0, 0x10da7a5a, 0x67dd4acc,
   0xf9b9df6f, 0x8ebeeff9, 0x17b7be43, 0x60b08ed5, 0xd6d6a3e8, 0xa1d1937e,
   0x38d8c2c4, 0x4fdff252, 0xd1bb67f1, 0xa6bc5767, 0x3fb506dd, 0x48b2364b,
   0xd80d2bda, 0xaf0a1b4c, 0x36034af6, 0x41047a60, 0xdf60efc3, 0xa867df55,
   0x316e8eef, 0x4669be79, 0xcb61b38c, 0xbc66831a, 0x256fd2a0, 0x5268e236,
   0xcc0c7795, 0xbb0b4703, 0x220216b9, 0x5505262f, 0xc5ba3bbe, 0xb2bd0b28,
   0x2bb45a92, 0x5cb36a04, 0xc2d7ffa7, 0xb5d0cf31, 0x2cd99e8b, 0x5bdeae1d,
   0x9b64c2b0, 0xec63f226, 0x756aa39c, 0x026d930a, 0x9c0906a9, 0xeb0e363f,
   0x72076785, 0x05005713, 0x95bf4a82, 0xe2b87a14, 0x7bb12bae, 0x0cb61b38,
   0x92d28e9b, 0xe5d5be0d, 0x7cdcefb7, 0x0bdbdf21, 0x86d3d2d4, 0xf1d4e242,
   0x68ddb3f8, 0x1fda836e, 0x81be16cd, 0xf6b9265b, 0x6fb077e1, 0x18b74777,
   0x88085ae6, 0xff0f6a70, 0x66063bca, 0x11010b5c, 0x8f659eff, 0xf862ae69,
   0x616bffd3, 0x166ccf45, 0xa00ae278, 0xd70dd2ee, 0x4e048354, 0x3903b3c2,
   0xa7672661, 0xd06016f7, 0x4969474d, 0x3e6e77db, 0xaed16a4a, 0xd9d65adc,
   0x40df0b66, 0x37d83bf0, 0xa9bcae53, 0xdebb9ec5, 0x47b2cf7f, 0x30b5ffe9,
   0xbdbdf21c, 0xcabac28a, 0x53b39330, 0x24b4a3a6, 0xbad03605, 0xcdd70693,
   0x54de5729, 0x23d967bf, 0xb3667a2e, 0xc4614ab8, 0x5d681b02, 0x2a6f2b94,
   0xb40bbe37, 0xc30c8ea1, 0x5a05df1b, 0x2d02ef8d]"

definition UPDC32 :: "byte \<Rightarrow> 32 word \<Rightarrow> 32 word" where
  "UPDC32 octet crc =
     crc_32_tab ! unat ((crc XOR ucast octet) AND 0xff) XOR drop_bit 8 crc"

fun crc32_loop :: "cptr \<Rightarrow> nat \<Rightarrow> 32 word \<Rightarrow> 32 word" where
  "crc32_loop buf 0 crc = crc"
| "crc32_loop buf (Suc len) crc = crc32_loop (shift buf 1) len (UPDC32 (buf 0) crc)"

definition crc32buf :: "cptr \<Rightarrow> nat \<Rightarrow> 32 word" where
  "crc32buf buf len = NOT (crc32_loop buf len 0xFFFFFFFF)"

section \<open>The bit-serial reference\<close>

definition crc_bit :: "32 word \<Rightarrow> 32 word" where
  "crc_bit crc = (if bit crc 0 then drop_bit 1 crc XOR 0xedb88320 else drop_bit 1 crc)"

definition crc_8 :: "32 word \<Rightarrow> 32 word" where
  "crc_8 = crc_bit ^^ 8"

definition crc_serial :: "byte \<Rightarrow> 32 word \<Rightarrow> 32 word" where
  "crc_serial octet crc = crc_8 (crc XOR ucast octet)"


lemma crc_8_unfold: "crc_8 x = crc_bit (crc_bit (crc_bit (crc_bit (crc_bit (crc_bit (crc_bit (crc_bit x)))))))"
  by (simp add: crc_8_def eval_nat_numeral)



lemma upt_256: "[0..<256] = 0 # 1 # [2..<256]"
  by (simp add: upt_conv_Cons numeral_2_eq_2)

lemma crc_table_is_serial: "crc_32_tab = map (\<lambda>i. crc_8 (word_of_nat i)) [0..<256]"
proof -
  have "map (\<lambda>i. crc_8 (word_of_nat i)) [0..<256] =
      crc_8 0 # crc_8 1 # map (\<lambda>i. crc_8 (word_of_nat i)) [2..<256]"
    by (simp add: upt_256)
  also have "\<dots> = crc_32_tab"
    unfolding crc_32_tab_def by (simp add: upt_rec_numeral) (simp add: crc_8_unfold crc_bit_def)
  finally show ?thesis by (rule sym)
qed

section \<open>Linearity\<close>

lemma crc_bit_xor: "crc_bit (x XOR y) = crc_bit x XOR crc_bit y"
  by (rule bit_word_eqI) (auto simp: crc_bit_def bit_simps)

lemma crc_bit_inj: "crc_bit x = crc_bit y \<Longrightarrow> x = y"
proof -
  assume eq: "crc_bit x = crc_bit y"
  have top: "bit (crc_bit z) 31 = bit z 0" for z
    using bit_imp_le_length[of z 32] by (auto simp: crc_bit_def bit_simps)
  have xor_cancel: "a XOR c = b XOR c \<Longrightarrow> a = b" for a b c :: "32 word"
    by (metis (no_types) xor.assoc xor.right_neutral xor_self_eq)
  have "bit x 0 = bit y 0" using top eq by metis
  then have "drop_bit 1 x = drop_bit 1 y"
    using eq xor_cancel by (auto simp: crc_bit_def split: if_splits)
  then have "bit x (Suc n) = bit y (Suc n)" for n
    by (metis bit_drop_bit_eq comp_apply plus_1_eq_Suc)
  with \<open>bit x 0 = bit y 0\<close> show "x = y"
    by (intro bit_word_eqI) (metis not0_implies_Suc)
qed

lemma crc_8_xor: "crc_8 (x XOR y) = crc_8 x XOR crc_8 y"
proof -
  have "(crc_bit ^^ n) (x XOR y) = (crc_bit ^^ n) x XOR (crc_bit ^^ n) y" for n
    by (induction n) (simp_all add: crc_bit_xor)
  then show ?thesis by (simp add: crc_8_def)
qed

lemma crc_8_inj: "crc_8 x = crc_8 y \<longleftrightarrow> x = y"
proof -
  have "(crc_bit ^^ n) x = (crc_bit ^^ n) y \<Longrightarrow> x = y" for n
    by (induction n) (auto dest: crc_bit_inj)
  then show ?thesis by (auto simp: crc_8_def)
qed

lemma crc_8_0: "crc_8 0 = 0"
  using crc_8_xor[of 0 0] by simp

lemma crc_8_high:
  assumes "\<And>n. n < 8 \<Longrightarrow> \<not> bit x n"
  shows "crc_8 x = drop_bit 8 x"
proof -
  have "(crc_bit ^^ k) x = drop_bit k x" if "k \<le> 8" for k
    using that
  proof (induction k)
    case (Suc k)
    with assms[of k] show ?case
      by (simp add: crc_bit_def bit_simps drop_bit_drop_bit flip: drop_bit_eq_div)
  qed simp
  then show ?thesis by (simp add: crc_8_def)
qed

lemma UPDC32_serial: "UPDC32 octet crc = crc_serial octet crc"
proof -
  define x where "x = crc XOR ucast octet"
  have x: "x = (x AND 0xff) XOR (x AND NOT 0xff)"
    by (rule bit_word_eqI) (auto simp: bit_simps)
  have ff: "bit (0xff :: 32 word) n \<longleftrightarrow> n < 8" for n
    using bit_mask_iff[where ?'a = "32 word", of 8 n] by (auto simp: mask_eq_exp_minus_1 possible_bit_def)
  have "unat (x AND 0xff) \<le> unat (0xff :: 32 word)"
    by (metis word_and_le1 word_le_nat_alt)
  then have "unat (x AND 0xff) < 256" by simp
  then have "crc_32_tab ! unat (x AND 0xff) = crc_8 (x AND 0xff)"
    by (simp add: crc_table_is_serial)
  moreover have "crc_8 (x AND NOT 0xff) = drop_bit 8 (x AND NOT 0xff)"
    by (rule crc_8_high) (simp only: bit_and_iff bit_not_iff ff, simp)
  moreover have "drop_bit 8 (x AND NOT 0xff) = drop_bit 8 crc"
  proof (rule bit_word_eqI)
    fix n assume "n < LENGTH(32)"
    have "\<not> bit octet (8 + n)" using bit_imp_le_length[of octet "8 + n"] by auto
    then have "bit x (8 + n) = bit crc (8 + n)"
      by (auto simp: x_def bit_simps)
    then show "bit (drop_bit 8 (x AND NOT 0xff)) n = bit (drop_bit 8 crc) n"
      using bit_imp_le_length[of x "8 + n"]
      by (simp only: bit_drop_bit_eq comp_apply bit_and_iff bit_not_iff ff) auto
  qed
  ultimately have "crc_8 x = crc_32_tab ! unat (x AND 0xff) XOR drop_bit 8 crc"
    using x crc_8_xor by metis
  then show ?thesis by (simp add: UPDC32_def crc_serial_def x_def)
qed

section \<open>Error detection\<close>

lemma crc32_loop_append:
  "crc32_loop buf (a + b) crc = crc32_loop (shift buf (int a)) b (crc32_loop buf a crc)"
  by (induction a arbitrary: buf crc) (simp_all add: add.commute)

lemma crc32_loop_cong:
  "(\<And>i. i < n \<Longrightarrow> p (int i) = q (int i)) \<Longrightarrow> crc32_loop p n crc = crc32_loop q n crc"
proof (induction n arbitrary: p q crc)
  case (Suc n)
  have "shift p 1 (int i) = shift q 1 (int i)" if "i < n" for i
    using Suc.prems[of "Suc i"] that by (simp add: shift_apply add.commute)
  with Suc.IH[of "shift p 1" "shift q 1"] Suc.prems[of 0] show ?case by simp
qed simp

text \<open>The update is a bijection of the register, so a difference never dies out.\<close>

lemma crc32_loop_inj: "crc32_loop p n c = crc32_loop p n d \<longleftrightarrow> c = d"
proof (induction n arbitrary: p c d)
  case (Suc n)
  have "UPDC32 b c = UPDC32 b d \<longleftrightarrow> c = d" for b
    unfolding UPDC32_serial crc_serial_def crc_8_inj
    by (metis (no_types) xor.assoc xor.right_neutral xor_self_eq)
  with Suc show ?case by simp
qed simp

text \<open>Eight steps and a byte difference are eight steps from a difference one byte up.\<close>

lemma crc_8_absorb:
  assumes "\<And>n. 24 \<le> n \<Longrightarrow> \<not> bit w n"
  shows "crc_8 x XOR w = crc_8 (x XOR push_bit 8 w)"
proof -
  have "crc_8 (push_bit 8 w) = drop_bit 8 (push_bit 8 w)"
    by (rule crc_8_high) (simp add: bit_simps)
  also have "\<dots> = w"
    using assms by (intro bit_word_eqI) (auto simp: bit_simps, metis not_le)
  finally show ?thesis by (simp add: crc_8_xor)
qed

text \<open>Four updates, as the difference they make between two runs.\<close>

definition diff4 :: "cptr \<Rightarrow> cptr \<Rightarrow> 32 word" where
  "diff4 p q = ucast (p 0 XOR q 0) XOR push_bit 8 (ucast (p 1 XOR q 1)) XOR
     push_bit 16 (ucast (p 2 XOR q 2)) XOR push_bit 24 (ucast (p 3 XOR q 3))"

lemma UPDC32_diff:
  "UPDC32 a c XOR UPDC32 b d = crc_8 ((c XOR d) XOR ucast (a XOR b))"
proof -
  have "(c XOR ucast a) XOR (d XOR ucast b) = (c XOR d) XOR (ucast (a XOR b) :: 32 word)"
    by (rule bit_word_eqI) (auto simp: bit_simps)
  then show ?thesis
    by (simp add: UPDC32_serial crc_serial_def flip: crc_8_xor)
qed

lemma high_bits_byte: "8 + k \<le> n \<Longrightarrow> \<not> bit (push_bit k (ucast (b :: byte) :: 32 word)) n"
  using bit_imp_le_length[of b "n - k"] by (auto simp: bit_simps)

lemma crc32_loop_diff4:
  "crc32_loop p 4 c XOR crc32_loop q 4 c = crc_8 (crc_8 (crc_8 (crc_8 (diff4 p q))))"
proof -
  define e where "e i = (ucast (p i XOR q i) :: 32 word)" for i
  have small: "\<not> bit (push_bit (8 * k) (e i)) n" if "k \<le> 2" "24 \<le> n" for k i n
    unfolding e_def using that by (intro high_bits_byte) simp
  have absorb: "crc_8 x XOR push_bit (8 * k) (e i) = crc_8 (x XOR push_bit (8 * (k + 1)) (e i))"
    if "k \<le> 2" for x k i
    using crc_8_absorb[OF small, OF that, of x i] by (simp add: push_bit_push_bit algebra_simps)
  note ab = absorb[of 0, simplified] absorb[of 1, simplified] absorb[of 2, simplified]
  have four: "(4::nat) = Suc (Suc (Suc (Suc 0)))" by simp
  have "crc32_loop p 4 c XOR crc32_loop q 4 c =
      crc_8 (crc_8 (crc_8 (crc_8 (e 0) XOR e 1) XOR e 2) XOR e 3)"
    by (simp add: four UPDC32_diff shift_apply e_def)
  also have "\<dots> = crc_8 (crc_8 (crc_8 (crc_8 (e 0 XOR push_bit 8 (e 1) XOR push_bit 16 (e 2) XOR push_bit 24 (e 3)))))"
    by (simp add: ab xor.assoc)
  finally show ?thesis by (simp add: diff4_def e_def xor.assoc)
qed

lemma diff4_0:
  assumes "diff4 p q = 0"
  shows "p 0 = q 0" "p 1 = q 1" "p 2 = q 2" "p 3 = q 3"
proof -
  have far: "\<not> bit b n" if "8 \<le> n" for b :: byte and n
    using that bit_imp_le_length[of b n] by auto
  have b: "\<not> bit (diff4 p q) n" for n using assms by simp
  have bd: "bit (diff4 p q) (8 * k + n) = bit (p (int k) XOR q (int k)) n"
    if "n < 8" "k \<le> 3" for k n
  proof -
    have "k = 0 \<or> k = 1 \<or> k = 2 \<or> k = 3" using that by auto
    with that(1) show ?thesis
      by (elim disjE) (simp_all add: diff4_def bit_xor_iff bit_push_bit_iff bit_unsigned_iff far)
  qed
  have "p (int k) = q (int k)" if "k \<le> 3" for k
    by (rule bit_word_eqI) (use b bd[OF _ that] in \<open>auto simp: bit_xor_iff\<close>)
  from this[of 0] this[of 1] this[of 2] this[of 3]
  show "p 0 = q 0" "p 1 = q 1" "p 2 = q 2" "p 3 = q 3" by simp_all
qed

text \<open>A corruption confined to four consecutive bytes always changes the checksum.\<close>

lemma crc32buf_burst4:
  assumes n: "4 \<le> n"
    and window: "\<And>j. j < n \<Longrightarrow> j < i \<or> i + 4 \<le> j \<Longrightarrow> p (int j) = q (int j)"
    and eq: "crc32buf p n = crc32buf q n"
  shows "bytes_at p n = bytes_at q n"
proof -
  define k where "k = min i (n - 4)"
  define c where "c = crc32_loop p k 0xFFFFFFFF"
  have out: "p (int j) = q (int j)" if "j < n" "j < k \<or> k + 4 \<le> j" for j
    using window[of j] that n by (auto simp: k_def min_def split: if_splits)
  have split: "n = k + (4 + (n - (k + 4)))" using n by (simp add: k_def)
  have cq: "crc32_loop q k 0xFFFFFFFF = c"
    unfolding c_def by (rule crc32_loop_cong) (use out n in \<open>auto simp: k_def\<close>)
  have tail: "crc32_loop (shift q (int k + 4)) (n - (k + 4)) d =
      crc32_loop (shift p (int k + 4)) (n - (k + 4)) d" for d
  proof (rule crc32_loop_cong)
    fix j assume "j < n - (k + 4)"
    with out[of "k + 4 + j"] show "shift q (int k + 4) (int j) = shift p (int k + 4) (int j)"
      by (simp add: shift_apply algebra_simps)
  qed
  have "crc32_loop p n 0xFFFFFFFF = crc32_loop q n 0xFFFFFFFF"
    using eq by (simp add: crc32buf_def)
  then have "crc32_loop (shift p (int k)) 4 c = crc32_loop (shift q (int k)) 4 c"
    by (subst (asm) (1 2) split) (simp add: crc32_loop_append cq tail crc32_loop_inj flip: c_def)
  then have "crc_8 (crc_8 (crc_8 (crc_8 (diff4 (shift p (int k)) (shift q (int k)))))) = 0"
    using crc32_loop_diff4[of "shift p (int k)" c "shift q (int k)"] by simp
  then have "diff4 (shift p (int k)) (shift q (int k)) = 0"
    by (metis crc_8_0 crc_8_inj)
  note d = diff4_0[OF this, unfolded shift_apply]
  have "p (int j) = q (int j)" if "j < n" for j
  proof (cases "j < k \<or> k + 4 \<le> j")
    case False
    then have "j = k \<or> j = k + 1 \<or> j = k + 2 \<or> j = k + 3" by auto
    with d show ?thesis by (auto simp: add.commute)
  qed (use out that in blast)
  then show ?thesis by (simp add: bytes_at_eq_iff)
qed

section \<open>Properties\<close>

text \<open>The reference: the reflected polynomial \<open>0xEDB88320\<close>, bit by bit, over a list of bytes.\<close>

definition crc_reference :: "byte list \<Rightarrow> 32 word" where
  "crc_reference bs = NOT (fold crc_serial bs 0xFFFFFFFF)"

lemma crc32_loop_fold: "crc32_loop p n c = fold crc_serial (bytes_at p n) c"
  by (induction n arbitrary: p c) (simp_all add: bytes_at_Suc UPDC32_serial)

text \<open>C28: The table-driven \<open>crc32buf\<close> computes the bit-serial CRC-32 of its bytes, for any contents and length.\<close>

theorem crc32buf_is_crc32: "crc32buf p n = crc_reference (bytes_at p n)"
  by (simp add: crc32buf_def crc_reference_def crc32_loop_fold)

text \<open>The check value of CRC-32, the checksum of \<open>123456789\<close>.\<close>

lemma crc_check_value: "crc_reference (str ''123456789'') = 0xCBF43926"
  by (simp add: crc_reference_def crc_serial_def crc_8_unfold crc_bit_def str_def of_char_of)

text \<open>Two buffers of the same length that differ in up to four consecutive bytes only never have the
  same checksum.\<close>

theorem crc32buf_detects_burst:
  assumes "4 \<le> n" "\<forall>j<n. j < i \<or> i + 4 \<le> j \<longrightarrow> p (int j) = q (int j)" "crc32buf p n = crc32buf q n"
  shows "bytes_at p n = bytes_at q n"
  by (rule crc32buf_burst4[OF assms(1) _ assms(3)]) (use assms(2) in blast)

theorem crc32buf_detects_burst_witness:
  "crc32buf (lit [1, 2, 3, 4, 5]) 5 \<noteq> crc32buf (lit [1, 9, 3, 4, 5]) 5"
proof
  assume "crc32buf (lit [1, 2, 3, 4, 5]) 5 = crc32buf (lit [1, 9, 3, 4, 5]) 5"
  moreover have "\<forall>j<5. j < (1 :: nat) \<or> 1 + 4 \<le> j \<longrightarrow> lit [1, 2, 3, 4, 5] (int j) = lit [1, 9, 3, 4, 5] (int j)"
    by (auto simp: lit_def)
  ultimately have "bytes_at (lit [1, 2, 3, 4, 5]) 5 = bytes_at (lit [1, 9, 3, 4, 5]) 5"
    by (intro crc32buf_detects_burst[where i = 1]) simp_all
  then have "bytes_at (lit [1, 2, 3, 4, 5]) 5 ! 1 = bytes_at (lit [1, 9, 3, 4, 5]) 5 ! 1" by (rule arg_cong)
  then show False by (subst (asm) (1 2) nth_bytes_at) (simp_all add: lit_def)
qed

end
