(* ===== verification/Uboot_Env.thy ===== *)
theory Uboot_Env
  imports Util Crc32
begin

text \<open>
  The U-Boot environment block (\<open>src/src/uboot_env.c\<close>, \<open>src/src/uboot_env.h\<close>): a linked
  list of name/value pairs, its parser and its writer.

  The nodes live in a typed heap, \<open>pairs\<close>, at the addresses the allocator gives them, and
  are linked by their \<open>next\<close> pointers as in the code (0 is \<open>NULL\<close>).  The strings a node
  owns are kept by their contents, each with the allocation that \<open>strdup_\<close> makes for it.
  The buffer a block is read from is a \<^typ>\<open>cptr\<close>, the one it is written to is memory.
  A walk along a list may be endless (nothing in the code excludes a cycle), so the
  operations are into \<open>option\<close>; \<open>uboot_env_read\<close> and its siblings return \<open>Inl\<close> with the
  reason where the code prints a message and returns \<open>-1\<close>.
\<close>

record nv =
  nv_name :: "byte list"
  nv_value :: "byte list"
  nv_next :: addr

record eheap =
  pairs :: "addr \<Rightarrow> nv"
  brk :: addr

record uboot_env =
  env_size :: int
  vars :: addr

datatype env_error =
    Crc_mismatch "32 word" "32 word"
  | Invalid_env
  | Not_found "byte list"
  | Too_small
  | No_room

type_synonym 'a env_result = "(env_error + 'a) \<times> uboot_env \<times> eheap"

definition NULL :: addr where
  "NULL = 0"

text \<open>\<open>sizeof(struct uboot_name_value)\<close>: three pointers.\<close>

definition nv_bytes :: int where
  "nv_bytes = 24"

definition alloc :: "eheap \<Rightarrow> int \<Rightarrow> addr \<times> eheap" where
  "alloc h n = (let (p, b) = malloc (brk h) n in (p, h\<lparr>brk := b\<rparr>))"

text \<open>\<open>strdup_\<close> and \<open>strndup_\<close> by contents.\<close>

definition strdup_str :: "eheap \<Rightarrow> byte list \<Rightarrow> byte list \<times> eheap" where
  "strdup_str h s = (s, snd (alloc h (int (length s) + 1)))"

definition strndup_str :: "eheap \<Rightarrow> cptr \<Rightarrow> nat \<Rightarrow> byte list \<times> eheap" where
  "strndup_str h p n =
     (let len = strnlen p n in (bytes_at p (nat len), snd (alloc h (len + 1))))"

section \<open>Operations\<close>

definition uboot_env_init :: "int \<Rightarrow> uboot_env" where
  "uboot_env_init len = \<lparr>env_size = len, vars = NULL\<rparr>"

partial_function (option) env_free_loop :: "eheap \<Rightarrow> addr \<Rightarrow> eheap option" where
  "env_free_loop h pair =
     (if pair \<noteq> NULL then env_free_loop h (nv_next (pairs h pair)) else Some h)"

definition uboot_env_free :: "uboot_env \<Rightarrow> eheap \<Rightarrow> (uboot_env \<times> eheap) option" where
  "uboot_env_free env h = do {
     h' \<leftarrow> env_free_loop h (vars env);
     Some (env\<lparr>vars := NULL\<rparr>, h')
   }"

definition le32 :: "cptr \<Rightarrow> 32 word" where
  "le32 buffer = ucast (buffer 0) OR push_bit 8 (ucast (buffer 1)) OR
     push_bit 16 (ucast (buffer 2)) OR push_bit 24 (ucast (buffer 3))"

partial_function (option) scan_name :: "cptr \<Rightarrow> int \<Rightarrow> int \<Rightarrow> int option option" where
  "scan_name buf endp endname =
     (if endname = endp \<or> buf endname = 0 then Some None
      else if buf endname = 61 then Some (Some endname)
      else scan_name buf endp (endname + 1))"

partial_function (option) scan_value :: "cptr \<Rightarrow> int \<Rightarrow> int \<Rightarrow> int option option" where
  "scan_value buf endp endvalue =
     (if endvalue = endp then Some None
      else if buf endvalue = 0 then Some (Some endvalue)
      else scan_value buf endp (endvalue + 1))"

text \<open>The body of the loop once the ends of name and value are known.  The length passed
  for the value is \<open>value - endvalue\<close>, as in the code: the negated length, which wraps
  to a huge \<open>size_t\<close> (see \<open>strndup_value\<close>).\<close>

definition read_pair :: "cptr \<Rightarrow> int \<Rightarrow> int \<Rightarrow> int \<Rightarrow> addr \<Rightarrow> eheap \<Rightarrow> addr \<times> eheap" where
  "read_pair buf name endname endvalue vs h =
     (let value = endname + 1;
          (pair, h1) = alloc h nv_bytes;
          (nm, h2) = strndup_str h1 (shift buf name) (sz (endname - name));
          (vl, h3) = strndup_str h2 (shift buf value) (sz (value - endvalue))
      in (pair, h3\<lparr>pairs := (pairs h3)(pair := \<lparr>nv_name = nm, nv_value = vl, nv_next = vs\<rparr>)\<rparr>))"

partial_function (option) read_loop ::
  "cptr \<Rightarrow> int \<Rightarrow> int \<Rightarrow> addr \<Rightarrow> eheap \<Rightarrow> ((env_error + unit) \<times> addr \<times> eheap) option" where
  "read_loop buf endp name vs h =
     (if name \<noteq> endp \<and> buf name \<noteq> 0 then
        Option.bind (scan_name buf endp (name + 1)) (\<lambda>r.
          case r of
            None \<Rightarrow> Some (Inl Invalid_env, vs, h)
          | Some endname \<Rightarrow>
              Option.bind (scan_value buf endp (endname + 1)) (\<lambda>r'.
                case r' of
                  None \<Rightarrow> Some (Inl Invalid_env, vs, h)
                | Some endvalue \<Rightarrow>
                    (case read_pair buf name endname endvalue vs h of
                       (pair, h') \<Rightarrow> read_loop buf endp (endvalue + 1) pair h')))
      else Some (Inr (), vs, h))"

definition uboot_env_read :: "uboot_env \<Rightarrow> eheap \<Rightarrow> cptr \<Rightarrow> unit env_result option" where
  "uboot_env_read env h buffer = do {
     (env, h) \<leftarrow> uboot_env_free env h;
     let expected_crc32 = le32 buffer;
     let actual_crc32 = crc32buf (shift buffer 4) (sz (env_size env - 4));
     if expected_crc32 \<noteq> actual_crc32
     then Some (Inl (Crc_mismatch expected_crc32 actual_crc32), env, h)
     else do {
       (rc, vs, h) \<leftarrow> read_loop buffer (env_size env) 4 (vars env) h;
       Some (rc, env\<lparr>vars := vs\<rparr>, h)
     }
   }"

text \<open>The search both \<open>setenv\<close> and \<open>getenv\<close> make; 0 when the name is not there.\<close>

partial_function (option) env_find :: "eheap \<Rightarrow> byte list \<Rightarrow> addr \<Rightarrow> addr option" where
  "env_find h name pair =
     (if pair = NULL then Some NULL
      else Option.bind (strcmp (lit (nv_name (pairs h pair))) (lit name)) (\<lambda>c.
        if c = 0 then Some pair else env_find h name (nv_next (pairs h pair))))"

definition uboot_env_setenv ::
  "uboot_env \<Rightarrow> eheap \<Rightarrow> byte list \<Rightarrow> byte list \<Rightarrow> (uboot_env \<times> eheap) option" where
  "uboot_env_setenv env h name value = do {
     pair \<leftarrow> env_find h name (vars env);
     if pair \<noteq> NULL then do {
       let (v, h) = strdup_str h value;
       Some (env, h\<lparr>pairs := (pairs h)(pair := (pairs h pair)\<lparr>nv_value := v\<rparr>)\<rparr>)
     } else do {
       let (pair, h) = alloc h nv_bytes;
       let (n, h) = strdup_str h name;
       let (v, h) = strdup_str h value;
       Some (env\<lparr>vars := pair\<rparr>,
         h\<lparr>pairs := (pairs h)(pair := \<lparr>nv_name = n, nv_value = v, nv_next = vars env\<rparr>)\<rparr>)
     }
   }"

partial_function (option) unset_loop ::
  "uboot_env \<Rightarrow> eheap \<Rightarrow> byte list \<Rightarrow> addr \<Rightarrow> addr \<Rightarrow> (uboot_env \<times> eheap) option" where
  "unset_loop env h name prev pair =
     (if pair = NULL then Some (env, h)
      else Option.bind (strcmp (lit (nv_name (pairs h pair))) (lit name)) (\<lambda>c.
        if c = 0 then
          (if prev \<noteq> NULL
           then Some (env, h\<lparr>pairs := (pairs h)(prev := (pairs h prev)\<lparr>nv_next := nv_next (pairs h pair)\<rparr>)\<rparr>)
           else Some (env\<lparr>vars := nv_next (pairs h pair)\<rparr>, h))
        else unset_loop env h name pair (nv_next (pairs h pair))))"

definition uboot_env_unsetenv ::
  "uboot_env \<Rightarrow> eheap \<Rightarrow> byte list \<Rightarrow> (uboot_env \<times> eheap) option" where
  "uboot_env_unsetenv env h name = unset_loop env h name NULL (vars env)"

definition uboot_env_getenv ::
  "uboot_env \<Rightarrow> eheap \<Rightarrow> byte list \<Rightarrow> (byte list) env_result option" where
  "uboot_env_getenv env h name = do {
     pair \<leftarrow> env_find h name (vars env);
     if pair \<noteq> NULL then do {
       let (v, h) = strdup_str h (nv_value (pairs h pair));
       Some (Inr v, env, h)
     } else Some (Inl (Not_found name), env, h)
   }"

section \<open>Sorting and writing\<close>

definition env_name_compare :: "eheap \<Rightarrow> addr \<Rightarrow> addr \<Rightarrow> int option" where
  "env_name_compare h a b = strcmp (lit (nv_name (pairs h a))) (lit (nv_name (pairs h b)))"

partial_function (option) env_count :: "eheap \<Rightarrow> addr \<Rightarrow> int \<Rightarrow> int option" where
  "env_count h pair cnt =
     (if pair \<noteq> NULL then env_count h (nv_next (pairs h pair)) (cnt + 1) else Some cnt)"

partial_function (option) env_fill :: "eheap \<Rightarrow> addr \<Rightarrow> addr list \<Rightarrow> addr list option" where
  "env_fill h pair arr =
     (if pair \<noteq> NULL then env_fill h (nv_next (pairs h pair)) (arr @ [pair]) else Some arr)"

fun env_relink :: "(addr \<Rightarrow> nv) \<Rightarrow> addr list \<Rightarrow> addr \<Rightarrow> nv" where
  "env_relink ps [] = ps"
| "env_relink ps [a] = ps(a := (ps a)\<lparr>nv_next := NULL\<rparr>)"
| "env_relink ps (a # b # as) = env_relink (ps(a := (ps a)\<lparr>nv_next := b\<rparr>)) (b # as)"

definition uboot_env_sort :: "uboot_env \<Rightarrow> eheap \<Rightarrow> (uboot_env \<times> eheap) option" where
  "uboot_env_sort env h = do {
     cnt \<leftarrow> env_count h (vars env) 0;
     if cnt = 0 then Some (env, h)
     else do {
       let (arr, h) = alloc h (cnt * 8);
       pairarray \<leftarrow> env_fill h (vars env) [];
       pairarray \<leftarrow> sort_elems pairarray (env_name_compare h);
       Some (env\<lparr>vars := hd pairarray\<rparr>, h\<lparr>pairs := env_relink (pairs h) pairarray\<rparr>)
     }
   }"

text \<open>One pair as the loop of \<open>uboot_env_write\<close> puts it at \<open>p\<close>: name, \<open>=\<close>, value, NUL.\<close>

definition put_pair :: "mem \<Rightarrow> addr \<Rightarrow> byte list \<Rightarrow> byte list \<Rightarrow> int \<Rightarrow> int \<Rightarrow> mem" where
  "put_pair m p name value namelen valuelen =
     (let m = memcpy_from m p (lit name) (sz namelen);
          p = p + namelen;
          m = m(p := 61);
          p = p + 1;
          m = memcpy_from m p (lit value) (sz valuelen);
          p = p + valuelen
      in m(p := 0))"

partial_function (option) write_loop ::
  "eheap \<Rightarrow> mem \<Rightarrow> addr \<Rightarrow> addr \<Rightarrow> addr \<Rightarrow> ((env_error + addr) \<times> mem) option" where
  "write_loop h m p endp pair =
     (if pair \<noteq> NULL then
        Option.bind (strlen (lit (nv_name (pairs h pair)))) (\<lambda>namelen.
        Option.bind (strlen (lit (nv_value (pairs h pair)))) (\<lambda>valuelen.
          if p + namelen + 1 + valuelen \<ge> endp then Some (Inl No_room, m)
          else write_loop h
                 (put_pair m p (nv_name (pairs h pair)) (nv_value (pairs h pair)) namelen valuelen)
                 (p + namelen + 1 + valuelen + 1) endp (nv_next (pairs h pair))))
      else Some (Inr p, m))"

definition put_crc :: "mem \<Rightarrow> addr \<Rightarrow> 32 word \<Rightarrow> mem" where
  "put_crc m buffer crc32 =
     m(buffer := ucast crc32,
       buffer + 1 := ucast (drop_bit 8 crc32),
       buffer + 2 := ucast (drop_bit 16 crc32),
       buffer + 3 := ucast (drop_bit 24 crc32))"

definition uboot_env_write ::
  "uboot_env \<Rightarrow> eheap \<Rightarrow> mem \<Rightarrow> addr \<Rightarrow> (unit env_result \<times> mem) option" where
  "uboot_env_write env h m buffer =
     (if env_size env < 8 then Some ((Inl Too_small, env, h), m)
      else do {
        let m = memset m buffer 255 (sz (env_size env));
        let p = buffer + 4;
        let endp = buffer + env_size env - 2;
        (env, h) \<leftarrow> uboot_env_sort env h;
        (r, m) \<leftarrow> write_loop h m p endp (vars env);
        case r of
          Inl e \<Rightarrow> Some ((Inl e, env, h), m)
        | Inr p \<Rightarrow> do {
            let m = m(p := 0);
            let crc32 = crc32buf (rd m (buffer + 4)) (sz (env_size env - 4));
            Some ((Inr (), env, h), put_crc m buffer crc32)
          }
      })"


section \<open>What the list represents\<close>

text \<open>\<open>chain ps p as\<close>: following \<open>next\<close> from \<open>p\<close> visits the nodes \<open>as\<close> and ends in \<open>NULL\<close>.\<close>

fun chain :: "(addr \<Rightarrow> nv) \<Rightarrow> addr \<Rightarrow> addr list \<Rightarrow> bool" where
  "chain ps p [] \<longleftrightarrow> p = NULL"
| "chain ps p (a # as) \<longleftrightarrow> p = a \<and> a \<noteq> NULL \<and> chain ps (nv_next (ps a)) as"

definition nv_pair :: "eheap \<Rightarrow> addr \<Rightarrow> byte list \<times> byte list" where
  "nv_pair h a = (nv_name (pairs h a), nv_value (pairs h a))"

definition good_node :: "eheap \<Rightarrow> addr \<Rightarrow> bool" where
  "good_node h a \<longleftrightarrow> 0 < a \<and> a < brk h \<and> cstring (nv_name (pairs h a)) \<and> cstring (nv_value (pairs h a))"

definition env_wf :: "uboot_env \<Rightarrow> eheap \<Rightarrow> addr list \<Rightarrow> bool" where
  "env_wf env h as \<longleftrightarrow>
     chain (pairs h) (vars env) as \<and> distinct as \<and> (\<forall>a\<in>set as. good_node h a) \<and> 0 < brk h"

text \<open>The abstract state: the list of name/value pairs, first the one found first.\<close>

definition env_rep :: "uboot_env \<Rightarrow> eheap \<Rightarrow> (byte list \<times> byte list) list \<Rightarrow> bool" where
  "env_rep env h ps \<longleftrightarrow> (\<exists>as. env_wf env h as \<and> map (nv_pair h) as = ps)"

fun al_replace :: "'k \<Rightarrow> 'v \<Rightarrow> ('k \<times> 'v) list \<Rightarrow> ('k \<times> 'v) list" where
  "al_replace k v [] = []"
| "al_replace k v ((k', v') # ps) = (if k' = k then (k, v) # ps else (k', v') # al_replace k v ps)"

definition al_set :: "'k \<Rightarrow> 'v \<Rightarrow> ('k \<times> 'v) list \<Rightarrow> ('k \<times> 'v) list" where
  "al_set k v ps = (if k \<in> fst ` set ps then al_replace k v ps else (k, v) # ps)"

fun al_unset :: "'k \<Rightarrow> ('k \<times> 'v) list \<Rightarrow> ('k \<times> 'v) list" where
  "al_unset k [] = []"
| "al_unset k ((k', v') # ps) = (if k' = k then ps else (k', v') # al_unset k ps)"

lemma map_of_al_replace: "map_of (al_replace k v ps) k' = (if k' = k \<and> k \<in> fst ` set ps then Some v else map_of ps k')"
  by (induction ps) (auto simp: rev_image_eqI)

lemma map_of_al_set: "map_of (al_set k v ps) = (map_of ps)(k \<mapsto> v)"
  by (auto simp: al_set_def map_of_al_replace fun_eq_iff)

lemma chain_cong: "\<forall>a\<in>set as. nv_next (ps a) = nv_next (ps' a) \<Longrightarrow> chain ps p as = chain ps' p as"
  by (induction as arbitrary: p) auto

lemma chain_append:
  "chain ps p (xs @ a # ys) \<Longrightarrow> chain ps (nv_next (ps a)) ys \<and> a \<noteq> NULL"
  by (induction xs arbitrary: p) auto

section \<open>The allocator and the string copies\<close>

lemma alloc_brk_mono: "alloc h n = (p, h') \<Longrightarrow> p = brk h \<and> brk h \<le> brk h' \<and> pairs h' = pairs h"
  by (auto simp: alloc_def malloc_def u64_def)

lemma alloc_node: "alloc h nv_bytes = (brk h, h\<lparr>brk := brk h + 24\<rparr>)"
  by (simp add: alloc_def nv_bytes_def malloc_eq malloc_ok_def)

lemma strdup_str_spec: "strdup_str h s = (v, h') \<Longrightarrow> v = s \<and> brk h \<le> brk h' \<and> pairs h' = pairs h"
  by (auto simp: strdup_str_def alloc_def malloc_def u64_def split: prod.splits)

lemma strndup_str_spec:
  assumes p: "points_to_str p s" and r: "strndup_str h p n = (v, h')"
  shows "v = take n s \<and> brk h \<le> brk h' \<and> pairs h' = pairs h"
proof -
  have "bytes_at p (min n (length s)) = take n s"
    using p by (intro nth_equalityI) (auto simp: points_to_str_def list_eq_iff_nth_eq min_def split: if_splits)
  moreover have "v = bytes_at p (min n (length s))" "h' = snd (alloc h (int (min n (length s)) + 1))"
    using p r by (auto simp: strndup_str_def strnlen_points_to Let_def)
  ultimately show ?thesis
    using alloc_brk_mono[of h "int (min n (length s)) + 1" _ h'] by (metis prod.collapse)
qed

lemma env_wf_mono:
  "env_wf env h as \<Longrightarrow> pairs h' = pairs h \<Longrightarrow> brk h \<le> brk h' \<Longrightarrow>
   env_wf env h' as \<and> map (nv_pair h') as = map (nv_pair h) as"
  by (auto simp: env_wf_def good_node_def nv_pair_def)

lemma strcmp_lit:
  "cstring a \<Longrightarrow> cstring b \<Longrightarrow>
   \<exists>c. strcmp (lit a) (lit b) = Some c \<and> (c = 0 \<longleftrightarrow> a = b) \<and> (0 < c \<longleftrightarrow> b < a)"
  by (rule strcmp_points_to) simp_all

section \<open>Searching, setting and removing\<close>

lemma env_find_spec:
  assumes "chain (pairs h) p as" "\<forall>a\<in>set as. good_node h a" "cstring name"
  shows "\<exists>r. env_find h name p = Some r \<and>
    ((r = NULL \<and> (\<forall>a\<in>set as. nv_name (pairs h a) \<noteq> name)) \<or>
     (\<exists>xs ys. as = xs @ r # ys \<and> nv_name (pairs h r) = name \<and> r \<noteq> NULL \<and>
       (\<forall>a\<in>set xs. nv_name (pairs h a) \<noteq> name)))"
  using assms(1,2)
proof (induction as arbitrary: p)
  case Nil
  then show ?case by (subst env_find.simps) simp
next
  case (Cons a as)
  obtain c where c: "strcmp (lit (nv_name (pairs h a))) (lit name) = Some c"
    "c = 0 \<longleftrightarrow> nv_name (pairs h a) = name"
    using strcmp_lit[of "nv_name (pairs h a)" name] Cons.prems assms(3) by (auto simp: good_node_def)
  show ?case
  proof (cases "nv_name (pairs h a) = name")
    case True
    with c Cons.prems have "env_find h name p = Some a" by (subst env_find.simps) auto
    with True Cons.prems show ?thesis by (intro exI[of _ a]) force
  next
    case False
    with Cons obtain r where r: "env_find h name (nv_next (pairs h a)) = Some r"
      "(r = NULL \<and> (\<forall>a\<in>set as. nv_name (pairs h a) \<noteq> name)) \<or>
       (\<exists>xs ys. as = xs @ r # ys \<and> nv_name (pairs h r) = name \<and> r \<noteq> NULL \<and>
         (\<forall>a\<in>set xs. nv_name (pairs h a) \<noteq> name))"
      by fastforce
    have "env_find h name p = Some r"
      using False c Cons.prems r(1) by (subst env_find.simps) simp
    moreover have "\<exists>xs' ys. a # as = xs' @ r # ys \<and> nv_name (pairs h r) = name \<and> r \<noteq> NULL \<and>
         (\<forall>a\<in>set xs'. nv_name (pairs h a) \<noteq> name)"
      if "as = xs @ r # ys" "nv_name (pairs h r) = name" "r \<noteq> NULL"
         "\<forall>a\<in>set xs. nv_name (pairs h a) \<noteq> name" for xs ys
      using that False by (intro exI[of _ "a # xs"] exI[of _ ys]) auto
    ultimately show ?thesis using r(2) False by (intro exI[of _ r]) auto
  qed
qed

lemma al_replace_map:
  assumes "distinct (xs @ r # ys)" "\<forall>a\<in>set xs. nv_name (pairs h a) \<noteq> nv_name (pairs h r)"
    "\<And>a. a \<noteq> r \<Longrightarrow> nv_pair h' a = nv_pair h a" "nv_pair h' r = (nv_name (pairs h r), v)"
  shows "map (nv_pair h') (xs @ r # ys) = al_replace (nv_name (pairs h r)) v (map (nv_pair h) (xs @ r # ys))"
  using assms(1,2)
proof (induction xs)
  case Nil
  then have "map (nv_pair h') ys = map (nv_pair h) ys"
    by (intro map_cong refl assms(3)) auto
  then show ?case by (simp add: assms(4)) (simp add: nv_pair_def)
next
  case (Cons x xs)
  then show ?case using assms(3)[of x] by (auto simp: nv_pair_def)
qed

lemma setenv_rep:
  assumes "env_rep env h ps" "cstring name" "cstring value"
  shows "\<exists>env' h'. uboot_env_setenv env h name value = Some (env', h') \<and>
           env_rep env' h' (al_set name value ps) \<and> env_size env' = env_size env"
proof -
  from assms(1) obtain as where wf: "env_wf env h as" and ps: "ps = map (nv_pair h) as"
    by (auto simp: env_rep_def)
  have as: "chain (pairs h) (vars env) as" "\<forall>a\<in>set as. good_node h a" "distinct as"
    "0 < brk h"
    using wf by (auto simp: env_wf_def)
  from env_find_spec[OF as(1,2) assms(2)] obtain r where r: "env_find h name (vars env) = Some r"
    and cases: "(r = NULL \<and> (\<forall>a\<in>set as. nv_name (pairs h a) \<noteq> name)) \<or>
     (\<exists>xs ys. as = xs @ r # ys \<and> nv_name (pairs h r) = name \<and> r \<noteq> NULL \<and>
       (\<forall>a\<in>set xs. nv_name (pairs h a) \<noteq> name))"
    by blast
  show ?thesis
  proof (cases "r = NULL")
    case True
    with cases have fresh_name: "name \<notin> fst ` set ps"
      by (auto simp: ps nv_pair_def)
    obtain n h2 where n: "strdup_str (h\<lparr>brk := brk h + 24\<rparr>) name = (n, h2)" by fastforce
    obtain v h3 where v: "strdup_str h2 value = (v, h3)" by fastforce
    note ns = strdup_str_spec[OF n] and vs = strdup_str_spec[OF v]
    let ?h = "h3\<lparr>pairs := (pairs h3)(brk h := \<lparr>nv_name = name, nv_value = value, nv_next = vars env\<rparr>)\<rparr>"
    have fresh: "brk h \<notin> set as" using as(2) by (auto simp: good_node_def)
    have "uboot_env_setenv env h name value = Some (env\<lparr>vars := brk h\<rparr>, ?h)"
      using r True n v ns vs by (simp add: uboot_env_setenv_def alloc_node)
    moreover have "chain (pairs ?h) (vars env) as"
      using as(1) fresh ns vs by (subst chain_cong[of as _ "pairs h"]) auto
    then have "env_wf (env\<lparr>vars := brk h\<rparr>) ?h (brk h # as)"
      using as ns vs fresh assms(2,3) by (auto simp: env_wf_def good_node_def NULL_def)
    moreover have "map (nv_pair ?h) (brk h # as) = (name, value) # ps"
      using fresh ns vs by (auto simp: ps nv_pair_def)
    ultimately show ?thesis
      using fresh_name by (auto simp: env_rep_def al_set_def)
  next
    case False
    with cases obtain xs ys where split: "as = xs @ r # ys" "nv_name (pairs h r) = name"
      "\<forall>a\<in>set xs. nv_name (pairs h a) \<noteq> name" by auto
    obtain v h2 where v: "strdup_str h value = (v, h2)" by fastforce
    note vs = strdup_str_spec[OF v]
    let ?h = "h2\<lparr>pairs := (pairs h2)(r := (pairs h2 r)\<lparr>nv_value := value\<rparr>)\<rparr>"
    have "uboot_env_setenv env h name value = Some (env, ?h)"
      using r False v vs by (simp add: uboot_env_setenv_def)
    moreover have "chain (pairs ?h) (vars env) as"
      using as(1) vs by (subst chain_cong[of as _ "pairs h"]) auto
    then have "env_wf env ?h as"
      using as vs assms(3) by (auto simp: env_wf_def good_node_def)
    moreover have "map (nv_pair ?h) as = al_replace name value ps"
      unfolding ps split(1) using al_replace_map[of xs r ys h ?h "value"] as(3) split vs
      by (auto simp: nv_pair_def)
    moreover have "name \<in> fst ` set ps" using split by (force simp: ps nv_pair_def)
    ultimately show ?thesis by (auto simp: env_rep_def al_set_def)
  qed
qed

lemma getenv_rep:
  assumes "env_rep env h ps" "cstring name"
  shows "case map_of ps name of
      None \<Rightarrow> uboot_env_getenv env h name = Some (Inl (Not_found name), env, h)
    | Some v \<Rightarrow> \<exists>h'. uboot_env_getenv env h name = Some (Inr v, env, h') \<and> env_rep env h' ps \<and> cstring v"
proof -
  from assms(1) obtain as where wf: "env_wf env h as" and ps: "ps = map (nv_pair h) as"
    by (auto simp: env_rep_def)
  have as: "chain (pairs h) (vars env) as" "\<forall>a\<in>set as. good_node h a"
    using wf by (auto simp: env_wf_def)
  from env_find_spec[OF as assms(2)] obtain r where r: "env_find h name (vars env) = Some r"
    and cases: "(r = NULL \<and> (\<forall>a\<in>set as. nv_name (pairs h a) \<noteq> name)) \<or>
     (\<exists>xs ys. as = xs @ r # ys \<and> nv_name (pairs h r) = name \<and> r \<noteq> NULL \<and>
       (\<forall>a\<in>set xs. nv_name (pairs h a) \<noteq> name))"
    by blast
  show ?thesis
  proof (cases "r = NULL")
    case True
    with cases have "name \<notin> fst ` set ps" by (auto simp: ps nv_pair_def)
    then have "map_of ps name = None" by (simp add: map_of_eq_None_iff)
    with r True show ?thesis by (simp add: uboot_env_getenv_def)
  next
    case False
    with cases obtain xs ys where split: "as = xs @ r # ys" "nv_name (pairs h r) = name"
      "\<forall>a\<in>set xs. nv_name (pairs h a) \<noteq> name" by auto
    obtain v h2 where v: "strdup_str h (nv_value (pairs h r)) = (v, h2)" by fastforce
    note vs = strdup_str_spec[OF v]
    have "map_of (map (nv_pair h) xs) name = None"
      using split(3) by (auto simp: map_of_eq_None_iff nv_pair_def)
    then have "map_of ps name = Some v"
      using split(2) vs by (simp add: ps split(1) map_add_def) (simp add: nv_pair_def)
    moreover have "uboot_env_getenv env h name = Some (Inr v, env, h2)"
      using r False v by (simp add: uboot_env_getenv_def)
    moreover have "env_wf env h2 as" "map (nv_pair h2) as = ps" "cstring v"
      using env_wf_mono[OF wf, of h2] vs as split by (auto simp: good_node_def ps)
    ultimately show ?thesis by (auto simp: env_rep_def)
  qed
qed

lemma chain_snoc_next:
  "chain ps p (xs @ [b] @ a # as) \<Longrightarrow> distinct (xs @ [b] @ a # as) \<Longrightarrow>
   chain (ps(b := (ps b)\<lparr>nv_next := nv_next (ps a)\<rparr>)) p (xs @ [b] @ as)"
proof (induction xs arbitrary: p)
  case Nil
  then show ?case by (auto intro: chain_cong[THEN iffD1, rotated])
next
  case (Cons x xs)
  then show ?case by (cases xs) auto
qed

lemma al_unset_map:
  "\<forall>a\<in>set xs. nv_name (pairs h a) \<noteq> name \<Longrightarrow> nv_name (pairs h r) = name \<Longrightarrow>
   al_unset name (map (nv_pair h) (xs @ r # ys)) = map (nv_pair h) (xs @ ys)"
  by (induction xs) (auto simp: nv_pair_def)

lemma al_unset_fresh: "k \<notin> fst ` set ps \<Longrightarrow> al_unset k ps = ps"
  by (induction ps) auto

lemma unset_loop_spec:
  assumes "env_wf env h (xs @ as)" "cstring name" "\<forall>a\<in>set xs. nv_name (pairs h a) \<noteq> name"
    "chain (pairs h) p as" "prev = (if xs = [] then NULL else List.last xs)"
  shows "\<exists>env' h'. unset_loop env h name prev p = Some (env', h') \<and> env_size env' = env_size env \<and>
           env_rep env' h' (al_unset name (map (nv_pair h) (xs @ as)))"
  using assms
proof (induction as arbitrary: xs p prev)
  case Nil
  then have "al_unset name (map (nv_pair h) xs) = map (nv_pair h) xs"
    by (intro al_unset_fresh) (auto simp: nv_pair_def)
  with Nil show ?case by (subst unset_loop.simps) (auto simp: env_rep_def)
next
  case (Cons a as)
  have ga: "\<forall>b\<in>set (xs @ a # as). good_node h b" and d: "distinct (xs @ a # as)"
    and ch: "chain (pairs h) (vars env) (xs @ a # as)"
    using Cons.prems by (auto simp: env_wf_def)
  obtain c where c: "strcmp (lit (nv_name (pairs h a))) (lit name) = Some c"
    "c = 0 \<longleftrightarrow> nv_name (pairs h a) = name"
    using strcmp_lit[of "nv_name (pairs h a)" name] ga assms(2) by (auto simp: good_node_def)
  show ?case
  proof (cases "nv_name (pairs h a) = name")
    case False
    with Cons.prems c have "unset_loop env h name prev p = unset_loop env h name a (nv_next (pairs h a))"
      by (subst unset_loop.simps) simp
    with False Cons.prems Cons.IH[of "xs @ [a]" "nv_next (pairs h a)" a] show ?thesis by auto
  next
    case True
    note res = al_unset_map[OF Cons.prems(3) True, of as]
    show ?thesis
    proof (cases "xs = []")
      case xs: True
      then have "unset_loop env h name prev p = Some (env\<lparr>vars := nv_next (pairs h a)\<rparr>, h)"
        using Cons.prems True c by (subst unset_loop.simps) simp
      moreover have "env_wf (env\<lparr>vars := nv_next (pairs h a)\<rparr>) h as"
        using Cons.prems xs by (auto simp: env_wf_def)
      ultimately show ?thesis using res xs by (auto simp: env_rep_def)
    next
      case False
      then obtain us b where xs: "xs = us @ [b]" by (cases xs rule: rev_cases) auto
      let ?h = "h\<lparr>pairs := (pairs h)(b := (pairs h b)\<lparr>nv_next := nv_next (pairs h a)\<rparr>)\<rparr>"
      have "b \<noteq> NULL" using ga xs by (auto simp: good_node_def NULL_def)
      then have "unset_loop env h name prev p = Some (env, ?h)"
        using Cons.prems True c xs by (subst unset_loop.simps) simp
      moreover have "env_wf env ?h (xs @ as)"
        using chain_snoc_next[of "pairs h" "vars env" us b a as] ch d ga Cons.prems(1)
        by (auto simp: xs env_wf_def good_node_def)
      moreover have "map (nv_pair ?h) (xs @ as) = map (nv_pair h) (xs @ as)"
        by (auto simp: nv_pair_def)
      ultimately show ?thesis using res by (auto simp: env_rep_def)
    qed
  qed
qed

lemma unsetenv_rep:
  assumes "env_rep env h ps" "cstring name"
  shows "\<exists>env' h'. uboot_env_unsetenv env h name = Some (env', h') \<and>
           env_size env' = env_size env \<and> env_rep env' h' (al_unset name ps)"
proof -
  from assms(1) obtain as where "env_wf env h as" "ps = map (nv_pair h) as"
    by (auto simp: env_rep_def)
  with unset_loop_spec[of env h "[]" as name "vars env" NULL] assms(2) show ?thesis
    by (auto simp: uboot_env_unsetenv_def env_wf_def)
qed

lemma map_of_al_unset:
  "distinct (map fst ps) \<Longrightarrow> map_of (al_unset k ps) = (map_of ps)(k := None)"
proof (induction ps)
  case (Cons p ps)
  obtain a b where p: "p = (a, b)" by fastforce
  with Cons show ?case
    by (cases "a = k") (auto simp: fun_upd_idem_iff map_of_eq_None_iff fun_upd_twist)
qed simp

section \<open>Initialising and freeing\<close>

lemma init_rep: "0 < brk h \<Longrightarrow> env_rep (uboot_env_init len) h []"
  by (auto simp: env_rep_def uboot_env_init_def env_wf_def)

lemma env_free_loop_chain: "chain (pairs h) p as \<Longrightarrow> env_free_loop h p = Some h"
proof (induction as arbitrary: p)
  case Nil
  then show ?case by (subst env_free_loop.simps) simp
next
  case (Cons a as)
  then show ?case by (subst env_free_loop.simps) auto
qed

lemma free_rep:
  assumes "env_rep env h ps"
  shows "uboot_env_free env h = Some (env\<lparr>vars := NULL\<rparr>, h) \<and> env_rep (env\<lparr>vars := NULL\<rparr>) h []"
  using assms env_free_loop_chain[of h]
  by (auto simp: env_rep_def uboot_env_free_def env_wf_def)

end
