(* ===== verification/Env_Format.thy ===== *)
theory Env_Format
  imports Uboot_Env
begin

text \<open>
  The format of an environment block: what \<open>uboot_env_read\<close> accepts, against a reference
  parser on byte lists; what \<open>uboot_env_sort\<close> and \<open>uboot_env_write\<close> leave behind, against
  a reference printer; the round trip between them; and the rejection of damaged blocks.
  The locale \<open>settings\<close> is what the loader needs of an environment.
\<close>

section \<open>The parser\<close>

text \<open>The reference: the block after the checksum as a list, the pairs found so far.\<close>

definition name_char :: "byte \<Rightarrow> bool" where
  "name_char c \<longleftrightarrow> c \<noteq> 61 \<and> c \<noteq> 0"

function parse_env :: "byte list \<Rightarrow> (byte list \<times> byte list) list \<Rightarrow>
    (env_error + unit) \<times> (byte list \<times> byte list) list" where
  "parse_env bs acc =
     (case bs of
        [] \<Rightarrow> (Inr (), acc)
      | c # cs \<Rightarrow>
          if c = 0 then (Inr (), acc)
          else (case dropWhile name_char cs of
                  [] \<Rightarrow> (Inl Invalid_env, acc)
                | d # rest \<Rightarrow>
                    if d = 0 then (Inl Invalid_env, acc)
                    else (case dropWhile (\<lambda>c. c \<noteq> 0) rest of
                            [] \<Rightarrow> (Inl Invalid_env, acc)
                          | z # rest' \<Rightarrow>
                              parse_env rest'
                                ((c # takeWhile name_char cs, takeWhile (\<lambda>c. c \<noteq> 0) rest) # acc))))"
  by pat_completeness auto
termination
proof (relation "measure (\<lambda>(bs, acc). length bs)", goal_cases)
  case (2 bs acc c cs d rest z rest')
  have "length (dropWhile name_char cs) \<le> length cs" "length (dropWhile (\<lambda>c. c \<noteq> 0) rest) \<le> length rest"
    by (rule length_dropWhile_le)+
  with 2 show ?case by simp
qed simp

declare parse_env.simps [simp del] dropWhile_eq_Nil_conv [simp del]

definition window :: "cptr \<Rightarrow> int \<Rightarrow> int \<Rightarrow> byte list" where
  "window buf i endp = bytes_at (shift buf i) (nat (endp - i))"

lemma window_Nil: "endp \<le> i \<Longrightarrow> window buf i endp = []"
  by (simp add: window_def)

lemma window_Cons: "i < endp \<Longrightarrow> window buf i endp = buf i # window buf (i + 1) endp"
proof -
  assume "i < endp"
  then have "nat (endp - i) = Suc (nat (endp - (i + 1)))" by simp
  then show ?thesis by (simp add: window_def bytes_at_Suc shift_apply)
qed

lemma scan_name_spec:
  "i \<le> endp \<Longrightarrow> scan_name buf endp i =
     Some (case dropWhile name_char (window buf i endp) of
       [] \<Rightarrow> None
     | d # rest \<Rightarrow> if d = 0 then None else Some (i + int (length (takeWhile name_char (window buf i endp)))))"
proof (induction "nat (endp - i)" arbitrary: i)
  case 0
  then show ?case by (subst scan_name.simps) (simp add: window_Nil)
next
  case (Suc k)
  then have i: "i < endp" by simp
  show ?case
  proof (cases "name_char (buf i)")
    case True
    with i have "scan_name buf endp i = scan_name buf endp (i + 1)"
      by (subst scan_name.simps) (auto simp: name_char_def)
    with True i Suc.hyps show ?thesis
      by (cases "dropWhile name_char (window buf (i + 1) endp)") (auto simp: window_Cons)
  next
    case False
    with i show ?thesis by (subst scan_name.simps) (auto simp: window_Cons name_char_def)
  qed
qed

lemma scan_value_spec:
  "i \<le> endp \<Longrightarrow> scan_value buf endp i =
     Some (case dropWhile (\<lambda>c. c \<noteq> 0) (window buf i endp) of
       [] \<Rightarrow> None
     | d # rest \<Rightarrow> Some (i + int (length (takeWhile (\<lambda>c. c \<noteq> 0) (window buf i endp)))))"
proof (induction "nat (endp - i)" arbitrary: i)
  case 0
  then show ?case by (subst scan_value.simps) (simp add: window_Nil)
next
  case (Suc k)
  then have i: "i < endp" by simp
  show ?case
  proof (cases "buf i = 0")
    case False
    with i have "scan_value buf endp i = scan_value buf endp (i + 1)"
      by (subst scan_value.simps) auto
    with False i Suc.hyps show ?thesis
      by (cases "dropWhile (\<lambda>c. c \<noteq> 0) (window buf (i + 1) endp)") (auto simp: window_Cons)
  next
    case True
    with i show ?thesis by (subst scan_value.simps) (auto simp: window_Cons)
  qed
qed

text \<open>Where a prefix of the window ends, the window goes on from there.\<close>

lemma window_split:
  assumes "i \<le> endp" "window buf i endp = xs @ ys"
  shows "bytes_at (shift buf i) (length xs) = xs" "window buf (i + int (length xs)) endp = ys"
    "i + int (length xs) \<le> endp"
proof -
  have len: "length xs + length ys = nat (endp - i)"
    using arg_cong[OF assms(2), of length] by (simp add: window_def)
  then show "i + int (length xs) \<le> endp" using assms(1) by linarith
  have "bytes_at (shift buf i) (length xs + length ys) = xs @ ys"
    using assms(2) len by (simp add: window_def)
  then have *: "bytes_at (shift buf i) (length xs) = xs"
    "bytes_at (shift (shift buf i) (int (length xs))) (length ys) = ys"
    by (simp_all add: bytes_at_append)
  show "bytes_at (shift buf i) (length xs) = xs" by (rule *)
  have "nat (endp - (i + int (length xs))) = length ys" using len assms(1) by linarith
  with * show "window buf (i + int (length xs)) endp = ys" by (simp add: window_def)
qed

text \<open>A name: \<open>n\<close> bytes without a NUL, whatever follows.\<close>

lemma strndup_str_prefix:
  assumes "bytes_at p n = s" "cstring s" "n < 18446744073709551616" "strndup_str h p (sz (int n)) = (v, h')"
  shows "v = s \<and> brk h \<le> brk h' \<and> pairs h' = pairs h"
proof -
  have "p j \<noteq> 0" if "0 \<le> j" "j < int n" for j
  proof -
    from that obtain i where i: "j = int i" "i < n" by (metis nonneg_int_cases of_nat_less_iff)
    then have "p j \<in> set s" using assms(1) by (auto simp: bytes_at_def)
    then show ?thesis using assms(2) by (auto simp: cstring_def)
  qed
  then have "strnlen p n = int n"
    using strnlen_loop_spec[of 0 n p n] by (simp add: strnlen_def)
  moreover have "sz (int n) = n" using assms(3) by (simp add: sz_id)
  ultimately show ?thesis
    using assms(1,4) alloc_brk_mono[of h "int n + 1" _ h']
    by (auto simp: strndup_str_def Let_def) (metis prod.collapse)+
qed

text \<open>The value: the code passes the negated length, a huge \<open>size_t\<close>, and the copy still ends
  at the NUL.\<close>

lemma strndup_negated_length:
  assumes "points_to_str p s" "int (length s) \<le> 9223372036854775808" "strndup_str h p (sz (- int (length s))) = (v, h')"
  shows "v = s \<and> brk h \<le> brk h' \<and> pairs h' = pairs h"
proof -
  have "length s \<le> sz (- int (length s))"
  proof (cases "s = []")
    case False
    then have "(- int (length s)) mod 18446744073709551616 = 18446744073709551616 - int (length s)"
      using assms(2) by (simp add: zmod_zminus1_eq_if)
    then show ?thesis using assms(2) by (simp add: sz_def u64_def)
  qed simp
  with strndup_str_spec[OF assms(1,3)] show ?thesis by simp
qed

lemma dropWhile_hd_not: "dropWhile P xs = d # ys \<Longrightarrow> \<not> P d"
  by (metis hd_dropWhile list.sel(1) list.distinct(1))

lemma takeWhile_cstring: "\<forall>c. P c \<longrightarrow> c \<noteq> 0 \<Longrightarrow> cstring (takeWhile P xs)"
  by (auto simp: cstring_def dest: set_takeWhileD)

text \<open>One round of the loop adds the pair the parser finds.\<close>

lemma read_pair_rep:
  assumes rep: "env_rep (env\<lparr>vars := vs\<rparr>) h qs"
    and name: "bytes_at (shift buf name) (length n) = n" "cstring n"
    and val: "points_to_str (shift buf (name + int (length n) + 1)) v"
    and len: "int (length n) < 9223372036854775808" "int (length v) \<le> 9223372036854775808"
    and r: "read_pair buf name (name + int (length n)) (name + int (length n) + 1 + int (length v)) vs h = (pair, h')"
  shows "env_rep (env\<lparr>vars := pair\<rparr>) h' ((n, v) # qs)"
proof -
  let ?h1 = "h\<lparr>brk := brk h + 24\<rparr>"
  obtain nm h2 where n2: "strndup_str ?h1 (shift buf name) (sz (int (length n))) = (nm, h2)" by fastforce
  obtain vl h3 where v3: "strndup_str h2 (shift buf (name + int (length n) + 1)) (sz (- int (length v))) = (vl, h3)"
    by fastforce
  have s2: "nm = n \<and> brk ?h1 \<le> brk h2 \<and> pairs h2 = pairs ?h1"
    using strndup_str_prefix[OF name _ n2] len by simp
  have s3: "vl = v \<and> brk h2 \<le> brk h3 \<and> pairs h3 = pairs h2"
    using strndup_negated_length[OF val len(2) v3] .
  have "pair = brk h" "h' = h3\<lparr>pairs := (pairs h)(brk h := \<lparr>nv_name = n, nv_value = v, nv_next = vs\<rparr>)\<rparr>"
    using r n2 v3 s2 s3 by (auto simp: read_pair_def alloc_node algebra_simps)
  moreover obtain as where wf: "env_wf (env\<lparr>vars := vs\<rparr>) h as" and qs: "qs = map (nv_pair h) as"
    using rep by (auto simp: env_rep_def)
  moreover have fresh: "brk h \<notin> set as" using wf by (auto simp: env_wf_def good_node_def)
  moreover have "chain ((pairs h)(brk h := \<lparr>nv_name = n, nv_value = v, nv_next = vs\<rparr>)) vs as"
    using wf fresh by (subst chain_cong[of as _ "pairs h"]) (auto simp: env_wf_def)
  ultimately have "env_wf (env\<lparr>vars := pair\<rparr>) h' (brk h # as)"
    using s2 s3 name(2) val by (auto simp: env_wf_def good_node_def NULL_def points_to_str_def)
  moreover have "map (nv_pair h') (brk h # as) = (n, v) # qs"
    using \<open>h' = _\<close> qs fresh by (auto simp: nv_pair_def)
  ultimately show ?thesis by (auto simp: env_rep_def)
qed

lemma read_loop_parse:
  assumes "name \<le> endp" "endp - name < 9223372036854775808" "env_rep (env\<lparr>vars := vs\<rparr>) h qs"
  shows "\<exists>rc vs' h'. read_loop buf endp name vs h = Some (rc, vs', h') \<and>
           (let (rc', ps) = parse_env (window buf name endp) qs
            in rc = rc' \<and> env_rep (env\<lparr>vars := vs'\<rparr>) h' ps)"
  using assms
proof (induction "nat (endp - name)" arbitrary: name vs h qs rule: less_induct)
  case less
  show ?case
  proof (cases "name = endp \<or> buf name = 0")
    case True
    with less.prems show ?thesis
      by (subst read_loop.simps, subst parse_env.simps)
         (auto simp: window_Nil window_Cons order_le_less)
  next
    case False
    with less.prems(1) have lt: "name < endp" and nz: "buf name \<noteq> 0" by auto
    let ?cs = "window buf (name + 1) endp"
    note parse = parse_env.simps[of "window buf name endp" qs, unfolded window_Cons[OF lt]] window_Cons[OF lt, of buf]
    note scan = scan_name_spec[of "name + 1" endp buf]
    show ?thesis
    proof (cases "dropWhile name_char ?cs")
      case Nil
      with lt nz less.prems scan show ?thesis
        by (subst read_loop.simps) (auto simp: parse window_Cons)
    next
      case (Cons d rest)
      show ?thesis
      proof (cases "d = 0")
        case True
        with Cons lt nz less.prems scan show ?thesis
          by (subst read_loop.simps) (auto simp: parse window_Cons)
      next
        case False
        let ?n = "takeWhile name_char ?cs"
        let ?i = "name + 1 + int (length ?n)"
        have cs: "?cs = ?n @ d # rest" using Cons by (metis takeWhile_dropWhile_id)
        note w = window_split[OF _ cs]
        have "?i < endp" using w(2) lt window_Nil[of endp ?i buf] by (metis int_le_less_Suc less_le_not_le linorder_not_le list.distinct(1) zless_imp_add1_zle)
        then have i: "?i < endp" "buf ?i = d" "window buf (?i + 1) endp = rest"
          using w(2) lt window_Cons[OF \<open>?i < endp\<close>, of buf] by auto
        have name: "scan_name buf endp (name + 1) = Some (Some ?i)"
          using scan_name_spec[of "name + 1" endp buf] Cons False lt by simp
        note sv = scan_value_spec[of "?i + 1" endp buf, unfolded i(3)]
        show ?thesis
        proof (cases "dropWhile (\<lambda>c. c \<noteq> 0) rest")
          case Nil
          with sv i lt nz less.prems name Cons False show ?thesis
            by (subst read_loop.simps) (auto simp: parse)
        next
          case val: (Cons z rest')
          let ?v = "takeWhile (\<lambda>c. c \<noteq> 0) rest"
          let ?N = "buf name # ?n"
          let ?e = "?i + 1 + int (length ?v)"
          have z: "z = 0" using dropWhile_hd_not[OF val] by simp
          have rest: "window buf (?i + 1) endp = ?v @ z # rest'"
            using i(3) val by (metis takeWhile_dropWhile_id)
          note wv = window_split[OF _ rest]
          have e: "?e < endp" using wv(2) i(1) window_Nil[of endp ?e buf] by force
          then have e': "buf ?e = 0" "window buf (?e + 1) endp = rest'"
            using wv(2) i(1) z window_Cons[OF \<open>?e < endp\<close>, of buf] by auto
          obtain pair h' where rp: "read_pair buf name ?i ?e vs h = (pair, h')" by fastforce
          have "cstring ?n" "cstring ?v" by (rule takeWhile_cstring, simp add: name_char_def)+
          then have "env_rep (env\<lparr>vars := pair\<rparr>) h' ((?N, ?v) # qs)"
            using rp nz w(1) wv(1) lt i(1) e e'(1) less.prems
            by (intro read_pair_rep[of vs env h qs buf name])
               (auto simp: bytes_at_Suc shift_apply points_to_str_def algebra_simps)
          then obtain rc vs' h'' where "read_loop buf endp (?e + 1) pair h' = Some (rc, vs', h'')"
            "let (rc', ps) = parse_env rest' ((?N, ?v) # qs) in rc = rc' \<and> env_rep (env\<lparr>vars := vs'\<rparr>) h'' ps"
            using less.hyps[of "?e + 1" pair h' "(?N, ?v) # qs"] e e' i(1) lt less.prems by auto
          moreover have "read_loop buf endp name vs h = read_loop buf endp (?e + 1) pair h'"
            using lt nz name sv val i(1) rp by (subst read_loop.simps) simp
          ultimately show ?thesis
            using nz Cons False val by (simp add: parse)
        qed
      qed
    qed
  qed
qed

section \<open>Reading a block\<close>

text \<open>The whole of \<open>uboot_env_read\<close>: it always returns, whatever the block holds.\<close>

lemma read_rep:
  assumes "env_rep env h ps" "4 \<le> env_size env" "env_size env < 9223372036854775808"
  shows "\<exists>rc env' h'. uboot_env_read env h buffer = Some (rc, env', h') \<and> env_size env' = env_size env \<and>
           (let actual = crc32buf (shift buffer 4) (nat (env_size env - 4));
                (rc', ps') = (if le32 buffer \<noteq> actual then (Inl (Crc_mismatch (le32 buffer) actual), [])
                              else parse_env (window buffer 4 (env_size env)) [])
            in rc = rc' \<and> env_rep env' h' ps')"
proof -
  let ?env = "env\<lparr>vars := NULL\<rparr>"
  have free: "uboot_env_free env h = Some (?env, h)" "env_rep ?env h []"
    using free_rep[OF assms(1)] by auto
  have sz: "sz (env_size env - 4) = nat (env_size env - 4)" using assms by (simp add: sz_id)
  obtain rc vs' h' where loop: "read_loop buffer (env_size env) 4 NULL h = Some (rc, vs', h')"
    "let (rc', ps) = parse_env (window buffer 4 (env_size env)) []
     in rc = rc' \<and> env_rep (env\<lparr>vars := vs'\<rparr>) h' ps"
    using read_loop_parse[of 4 "env_size env" NULL env h "[]" buffer] assms free(2) by auto
  show ?thesis
    using free loop by (auto simp: uboot_env_read_def sz Let_def)
qed

section \<open>Sorting\<close>

text \<open>The comparison the sort uses, on nodes that own C strings.\<close>

interpretation name_order: comparison "env_name_compare h" "\<lambda>a. nv_name (pairs h a)"
  "\<lambda>a. cstring (nv_name (pairs h a))" for h
proof unfold_locales
  fix x y
  assume "cstring (nv_name (pairs h x))" "cstring (nv_name (pairs h y))"
  then show "\<exists>c. env_name_compare h x y = Some c \<and> (0 < c) = (nv_name (pairs h y) < nv_name (pairs h x))"
    unfolding env_name_compare_def using strcmp_lit by blast
qed

lemma env_count_chain: "chain (pairs h) p as \<Longrightarrow> env_count h p k = Some (k + int (length as))"
proof (induction as arbitrary: p k)
  case Nil
  then show ?case by (subst env_count.simps) simp
next
  case (Cons a as)
  then show ?case by (subst env_count.simps) auto
qed

lemma env_fill_chain: "chain (pairs h) p as \<Longrightarrow> env_fill h p arr = Some (arr @ as)"
proof (induction as arbitrary: p arr)
  case Nil
  then show ?case by (subst env_fill.simps) simp
next
  case (Cons a as)
  then show ?case by (subst env_fill.simps) auto
qed

lemma env_relink_other: "a \<notin> set as \<Longrightarrow> env_relink ps as a = ps a"
  by (induction ps as rule: env_relink.induct) auto

lemma env_relink_data:
  "nv_name (env_relink ps as a) = nv_name (ps a) \<and> nv_value (env_relink ps as a) = nv_value (ps a)"
  by (induction ps as rule: env_relink.induct) (auto simp del: fun_upd_apply, auto)

lemma env_relink_chain:
  "as \<noteq> [] \<Longrightarrow> distinct as \<Longrightarrow> NULL \<notin> set as \<Longrightarrow> chain (env_relink ps as) (hd as) as"
proof (induction ps as rule: env_relink.induct)
  case (3 ps a b as)
  then show ?case
    using env_relink_other[of a "b # as" "ps(a := (ps a)\<lparr>nv_next := b\<rparr>)"]
    by (auto simp del: fun_upd_apply) (simp_all add: fun_upd_apply)
qed auto

lemma insort_map_key: "map f (insort_key (\<lambda>x. k (f x)) x xs) = insort_key k (f x) (map f xs)"
  by (induction xs) auto

lemma sort_map_key: "map f (sort_key (\<lambda>x. k (f x)) xs) = sort_key k (map f xs)"
  by (induction xs) (auto simp: insort_map_key)

lemma sort_rep:
  assumes "env_rep env h ps"
  shows "\<exists>env' h'. uboot_env_sort env h = Some (env', h') \<and> env_size env' = env_size env \<and>
           env_rep env' h' (sort_key fst ps)"
proof -
  from assms obtain as where wf: "env_wf env h as" and ps: "ps = map (nv_pair h) as"
    by (auto simp: env_rep_def)
  have as: "chain (pairs h) (vars env) as" "\<forall>a\<in>set as. good_node h a" "distinct as" "0 < brk h"
    using wf by (auto simp: env_wf_def)
  note cnt = env_count_chain[OF as(1), of 0] and fill = env_fill_chain[OF as(1), of "[]"]
  show ?thesis
  proof (cases "as = []")
    case True
    with cnt assms ps show ?thesis by (auto simp: uboot_env_sort_def)
  next
    case False
    obtain arr h1 where al: "alloc h (int (length as) * 8) = (arr, h1)" by fastforce
    note h1 = alloc_brk_mono[OF al]
    let ?as = "sort_key (\<lambda>a. nv_name (pairs h a)) as"
    let ?h = "h1\<lparr>pairs := env_relink (pairs h) ?as\<rparr>"
    have fill1: "env_fill h1 (vars env) [] = Some as"
      using env_fill_chain[of h1 "vars env" as "[]"] as(1) h1 by simp
    have "\<forall>x\<in>set as. cstring (nv_name (pairs h1 x))" using as(2) h1 by (auto simp: good_node_def)
    then have qs: "sort_elems as (env_name_compare h1) = Some ?as"
      using name_order.sort_elems_stable[of as h1] False h1 by simp
    have "uboot_env_sort env h = Some (env\<lparr>vars := hd ?as\<rparr>, ?h)"
      using cnt al fill1 qs h1 False by (simp add: uboot_env_sort_def)
    moreover have "NULL \<notin> set ?as" "?as \<noteq> []" using as(2) False
      by (auto simp: good_node_def NULL_def) (metis set_empty set_sort)
    then have "env_wf (env\<lparr>vars := hd ?as\<rparr>) ?h ?as"
      using as env_relink_chain[of ?as "pairs h"] h1 by (auto simp: env_wf_def good_node_def env_relink_data)
    moreover have "map (nv_pair ?h) ?as = sort_key fst ps"
    proof -
      have "nv_pair ?h = nv_pair h" by (auto simp: nv_pair_def env_relink_data)
      then have "map (nv_pair ?h) ?as = map (nv_pair h) (sort_key (\<lambda>a. fst (nv_pair h a)) as)"
        by (simp add: nv_pair_def)
      then show ?thesis by (simp add: ps sort_map_key[where k = fst])
    qed
    ultimately show ?thesis by (auto simp: env_rep_def)
  qed
qed

section \<open>Writing\<close>

definition entry :: "byte list \<times> byte list \<Rightarrow> byte list" where
  "entry p = fst p @ 61 # snd p @ [0]"

definition serialize :: "(byte list \<times> byte list) list \<Rightarrow> byte list" where
  "serialize ps = concat (map entry ps)"

lemma put_pair_spec:
  assumes "int (length n) < 18446744073709551616" "int (length v) < 18446744073709551616"
  shows "put_pair m p n v (int (length n)) (int (length v)) = store m p (entry (n, v))"
proof -
  have "put_pair m p n v (int (length n)) (int (length v)) =
      store (store (store (store m p n) (p + int (length n)) [61]) (p + int (length (n @ [61]))) v)
        (p + int (length (n @ [61] @ v))) [0]"
    using assms by (simp add: put_pair_def Let_def sz_id memcpy_from_lit store_single algebra_simps)
  also have "\<dots> = store m p (((n @ [61]) @ v) @ [0])"
    by (simp only: store_append append_assoc)
  finally show ?thesis by (simp add: entry_def)
qed

lemma write_loop_spec:
  assumes "chain (pairs h) pair as" "\<forall>a\<in>set as. good_node h a" "p \<le> endp" "endp - p < 18446744073709551616"
  shows "\<exists>r m'. write_loop h m p endp pair = Some (r, m') \<and>
           (\<forall>a. a < p \<or> endp \<le> a \<longrightarrow> m' a = m a) \<and>
           (let s = serialize (map (nv_pair h) as)
            in if p + int (length s) \<le> endp then r = Inr (p + int (length s)) \<and> m' = store m p s
               else r = Inl No_room)"
  using assms
proof (induction as arbitrary: pair p m)
  case Nil
  then show ?case by (subst write_loop.simps) (simp add: serialize_def)
next
  case (Cons a as)
  let ?n = "nv_name (pairs h a)" and ?v = "nv_value (pairs h a)"
  let ?e = "entry (?n, ?v)"
  have len: "strlen (lit ?n) = Some (int (length ?n))" "strlen (lit ?v) = Some (int (length ?v))"
    using Cons.prems(2) by (simp_all add: good_node_def strlen_points_to)
  have ser: "serialize (map (nv_pair h) (a # as)) = ?e @ serialize (map (nv_pair h) as)"
    by (simp add: serialize_def nv_pair_def)
  have e: "int (length ?e) = int (length ?n) + 1 + int (length ?v) + 1" by (simp add: entry_def)
  show ?case
  proof (cases "p + int (length ?n) + 1 + int (length ?v) \<ge> endp")
    case True
    then have "write_loop h m p endp pair = Some (Inl No_room, m)"
      using Cons.prems(1) len by (subst write_loop.simps) simp
    with True ser e show ?thesis by simp
  next
    case False
    then have "write_loop h m p endp pair =
        write_loop h (store m p ?e) (p + int (length ?e)) endp (nv_next (pairs h a))"
      using Cons.prems len by (subst write_loop.simps) (simp add: put_pair_spec entry_def algebra_simps)
    moreover have "\<exists>r m'. write_loop h (store m p ?e) (p + int (length ?e)) endp (nv_next (pairs h a)) = Some (r, m') \<and>
         (\<forall>x. x < p + int (length ?e) \<or> endp \<le> x \<longrightarrow> m' x = store m p ?e x) \<and>
         (let s = serialize (map (nv_pair h) as)
          in if p + int (length ?e) + int (length s) \<le> endp
             then r = Inr (p + int (length ?e) + int (length s)) \<and> m' = store (store m p ?e) (p + int (length ?e)) s
             else r = Inl No_room)"
      by (rule Cons.IH) (use Cons.prems False e in auto)
    moreover have "store m p ?e x = m x" if "x < p \<or> endp \<le> x" for x
      using that False e by (intro store_outside) auto
    ultimately show ?thesis
      unfolding ser by (auto simp: store_append add.assoc Let_def split: if_splits)
  qed
qed

text \<open>The block a successful write leaves in the buffer.\<close>

definition crc_bytes :: "32 word \<Rightarrow> byte list" where
  "crc_bytes c = [ucast c, ucast (drop_bit 8 c), ucast (drop_bit 16 c), ucast (drop_bit 24 c)]"

definition env_body :: "nat \<Rightarrow> (byte list \<times> byte list) list \<Rightarrow> byte list" where
  "env_body n ps = serialize ps @ 0 # replicate (n - length (serialize ps) - 1) 255"

definition env_block :: "nat \<Rightarrow> (byte list \<times> byte list) list \<Rightarrow> byte list" where
  "env_block n ps = (let body = env_body (n - 4) ps in crc_bytes (crc32buf (lit body) (length body)) @ body)"

lemma put_crc_store: "put_crc m p c = store m p (crc_bytes c)"
  by (rule ext) (auto simp: put_crc_def crc_bytes_def store_def nth_Cons' nat_eq_iff split: if_splits)

lemma crc32buf_cong: "bytes_at p n = bytes_at q n \<Longrightarrow> crc32buf p n = crc32buf q n"
  unfolding crc32buf_def using crc32_loop_cong[of n p q] by (auto simp: bytes_at_eq_iff)

lemma memset_store: "memset m p c n = store m p (replicate n (word_of_int c))"
  by (auto simp: memset_def memset_loop_spec store_def nat_less_iff intro!: ext)

lemma store_over: "length ys \<le> length xs \<Longrightarrow> store (store m p xs) p ys = store m p (ys @ drop (length ys) xs)"
  by (rule ext) (auto simp: store_def nth_append nat_less_iff)

lemma write_rep:
  assumes rep: "env_rep env h ps" and size: "8 \<le> env_size env" "env_size env < 18446744073709551616"
  shows "\<exists>r env' h' m'. uboot_env_write env h m buffer = Some ((r, env', h'), m') \<and>
           env_size env' = env_size env \<and> env_rep env' h' (sort_key fst ps) \<and>
           (\<forall>a. a < buffer \<or> buffer + env_size env \<le> a \<longrightarrow> m' a = m a) \<and>
           (if 6 + int (length (serialize ps)) \<le> env_size env
            then r = Inr () \<and> m' = store m buffer (env_block (nat (env_size env)) (sort_key fst ps))
            else r = Inl No_room)"
proof -
  let ?N = "nat (env_size env)"
  let ?m = "store m buffer (replicate ?N 255)"
  have set: "memset m buffer 255 (sz (env_size env)) = ?m" using size by (simp add: memset_store sz_id)
  from sort_rep[OF rep] obtain env1 h1 where s: "uboot_env_sort env h = Some (env1, h1)"
    "env_size env1 = env_size env" "env_rep env1 h1 (sort_key fst ps)" by auto
  then obtain as where as: "env_wf env1 h1 as" "sort_key fst ps = map (nv_pair h1) as"
    by (auto simp: env_rep_def)
  let ?s = "serialize (sort_key fst ps)"
  have "length ?s = length (serialize ps)"
    by (simp add: serialize_def length_concat comp_def flip: sum_mset_sum_list)
  note ls = this
  have "\<exists>r m'. write_loop h1 ?m (buffer + 4) (buffer + env_size env - 2) (vars env1) = Some (r, m') \<and>
      (\<forall>a. a < buffer + 4 \<or> buffer + env_size env - 2 \<le> a \<longrightarrow> m' a = ?m a) \<and>
      (let s = ?s
       in if buffer + 4 + int (length s) \<le> buffer + env_size env - 2
          then r = Inr (buffer + 4 + int (length s)) \<and> m' = store ?m (buffer + 4) s
          else r = Inl No_room)"
    unfolding as(2) by (rule write_loop_spec) (use as size in \<open>auto simp: env_wf_def\<close>)
  then obtain r m' where w: "write_loop h1 ?m (buffer + 4) (buffer + env_size env - 2) (vars env1) = Some (r, m')"
    and frame: "\<forall>a. a < buffer + 4 \<or> buffer + env_size env - 2 \<le> a \<longrightarrow> m' a = ?m a"
    and res: "if 6 + int (length ?s) \<le> env_size env
       then r = Inr (buffer + 4 + int (length ?s)) \<and> m' = store ?m (buffer + 4) ?s else r = Inl No_room"
    by (auto simp: Let_def split: if_splits)
  show ?thesis
  proof (cases "6 + int (length ?s) \<le> env_size env")
    case False
    with res have "uboot_env_write env h m buffer = Some ((Inl No_room, env1, h1), m')"
      using size s(1) w by (simp add: uboot_env_write_def set Let_def)
    moreover have "?m a = m a" if "a < buffer \<or> buffer + env_size env \<le> a" for a
      using that size by (intro store_outside) auto
    ultimately show ?thesis using False frame s ls by auto
  next
    case True
    with res have r: "r = Inr (buffer + 4 + int (length ?s))" by simp
    let ?b = "env_body (?N - 4) (sort_key fst ps)"
    have lb: "length ?b = ?N - 4" using True by (simp add: env_body_def)
    have N: "?N = 4 + (?N - 4)" using size by simp
    have rep: "replicate ?N (255::byte) = replicate 4 255 @ replicate (?N - 4) 255"
      by (subst N) (simp only: replicate_add)
    have "m'(buffer + 4 + int (length ?s) := 0) =
        store (store (store m buffer (replicate 4 255)) (buffer + 4) (replicate (?N - 4) 255)) (buffer + 4) (?s @ [0])"
      using res True store_append[of m buffer "replicate 4 255" "replicate (?N - 4) 255"]
      by (simp add: store_single rep) (simp add: store_append)
    also have "\<dots> = store (store m buffer (replicate 4 255)) (buffer + 4) ?b"
      using True by (subst store_over) (auto simp: env_body_def)
    finally have m2: "m'(buffer + 4 + int (length ?s) := 0) = store (store m buffer (replicate 4 255)) (buffer + 4) ?b" .
    let ?m2 = "store (store m buffer (replicate 4 255)) (buffer + 4) ?b"
    have "sz (env_size env - 4) = ?N - 4" using size by (simp add: sz_id nat_diff_distrib)
    moreover have "crc32buf (rd ?m2 (buffer + 4)) (?N - 4) = crc32buf (lit ?b) (?N - 4)"
      using bytes_at_store[of "store m buffer (replicate 4 255)" "buffer + 4" ?b] bytes_at_lit[of ?b]
      unfolding lb by (intro crc32buf_cong) simp
    ultimately have "crc32buf (rd ?m2 (buffer + 4)) (sz (env_size env - 4)) = crc32buf (lit ?b) (length ?b)"
      by (simp add: lb)
    note crc = this
    have "put_crc ?m2 buffer (crc32buf (lit ?b) (length ?b)) = store m buffer (env_block ?N (sort_key fst ps))"
    proof -
      have "?m2 = store m buffer (replicate 4 255 @ ?b)"
        using store_append[of m buffer "replicate 4 255" ?b] by simp
      then show ?thesis by (simp add: put_crc_store store_over crc_bytes_def env_block_def Let_def)
    qed
    then have "uboot_env_write env h m buffer =
        Some ((Inr (), env1, h1), store m buffer (env_block ?N (sort_key fst ps)))"
      using size s(1,2) w r by (simp add: uboot_env_write_def set Let_def m2 crc)
    with True show ?thesis using s ls lb size
      by (auto simp: store_outside env_block_def crc_bytes_def Let_def)
  qed
qed

section \<open>Round trip\<close>

text \<open>The names the format can represent: not empty, no NUL, and no \<open>=\<close> but possibly in
  front (the parser starts looking for the \<open>=\<close> at the second byte of the name).\<close>

definition name_ok :: "byte list \<Rightarrow> bool" where
  "name_ok n \<longleftrightarrow> n \<noteq> [] \<and> cstring n \<and> 61 \<notin> set (tl n)"

lemma takeWhile_stop: "\<forall>x\<in>set xs. P x \<Longrightarrow> \<not> P y \<Longrightarrow>
    takeWhile P (xs @ y # ys) = xs \<and> dropWhile P (xs @ y # ys) = y # ys"
  by (induction xs) auto

lemma parse_entry:
  assumes "name_ok n" "cstring v"
  shows "parse_env (entry (n, v) @ rest) acc = parse_env rest ((n, v) # acc)"
proof -
  from assms(1) obtain c cs where n: "n = c # cs" "c \<noteq> 0" "\<forall>x\<in>set cs. name_char x"
    by (cases n) (auto simp: name_ok_def name_char_def cstring_def)
  have v: "\<forall>x\<in>set v. x \<noteq> 0" using assms(2) by (auto simp: cstring_def)
  have "\<not> name_char 61" by (simp add: name_char_def)
  note t = takeWhile_stop[OF n(3) this, of "v @ 0 # rest"] takeWhile_stop[OF v, of 0 rest]
  show ?thesis
    by (subst parse_env.simps) (use n t in \<open>simp add: entry_def\<close>)
qed

lemma parse_serialize:
  "\<forall>(n, v)\<in>set ps. name_ok n \<and> cstring v \<Longrightarrow>
   parse_env (serialize ps @ 0 # junk) acc = (Inr (), rev ps @ acc)"
proof (induction ps arbitrary: acc)
  case Nil
  then show ?case by (simp add: serialize_def parse_env.simps)
next
  case (Cons p ps)
  then show ?case by (cases p) (auto simp: serialize_def parse_entry)
qed

lemma le32_crc_bytes: "bytes_at p 4 = crc_bytes c \<Longrightarrow> le32 p = c"
proof -
  assume "bytes_at p 4 = crc_bytes c"
  then have "p 0 = ucast c" "p 1 = ucast (drop_bit 8 c)" "p 2 = ucast (drop_bit 16 c)" "p 3 = ucast (drop_bit 24 c)"
    by (auto simp: crc_bytes_def bytes_at_def numeral_eq_Suc)
  note bytes = this
  show ?thesis
  proof (rule bit_word_eqI)
    fix n assume "n < LENGTH(32)"
    then consider "n < 8" | "8 \<le> n \<and> n < 16" | "16 \<le> n \<and> n < 24" | "24 \<le> n \<and> n < 32" by fastforce
    then show "bit (le32 p) n \<longleftrightarrow> bit c n"
      by cases (auto simp: le32_def bytes bit_simps)
  qed
qed

text \<open>Reading the block a write has left gives the pairs back, in reverse order.\<close>

lemma block_contents:
  assumes "bytes_at buf n = env_block n ps" "5 + length (serialize ps) \<le> n"
  shows "le32 buf = crc32buf (shift buf 4) (n - 4)" "window buf 4 (int n) = env_body (n - 4) ps"
proof -
  let ?b = "env_body (n - 4) ps"
  have N: "n = 4 + (n - 4)" using assms(2) by simp
  have lb: "length ?b = n - 4" using assms(2) by (simp add: env_body_def)
  have "bytes_at buf 4 @ bytes_at (shift buf 4) (n - 4) = crc_bytes (crc32buf (lit ?b) (length ?b)) @ ?b"
    using assms(1) bytes_at_append[of buf 4 "n - 4"] N by (simp add: env_block_def Let_def)
  then have b: "bytes_at buf 4 = crc_bytes (crc32buf (lit ?b) (length ?b))" "bytes_at (shift buf 4) (n - 4) = ?b"
    by (subst (asm) append_eq_append_conv; simp add: crc_bytes_def)+
  have "crc32buf (shift buf 4) (n - 4) = crc32buf (lit ?b) (n - 4)"
    using b(2) bytes_at_lit[of ?b] unfolding lb by (intro crc32buf_cong) simp
  then show "le32 buf = crc32buf (shift buf 4) (n - 4)"
    using le32_crc_bytes[OF b(1)] lb by simp
  show "window buf 4 (int n) = ?b"
    using b(2) assms(2) by (simp add: window_def nat_diff_distrib)
qed

lemma parse_body:
  "\<forall>(n, v)\<in>set ps. name_ok n \<and> cstring v \<Longrightarrow> parse_env (env_body n ps) [] = (Inr (), rev ps)"
  using parse_serialize[of ps _ "[]"] by (simp add: env_body_def)

lemma read_written:
  assumes "env_rep env h ps0" "4 \<le> env_size env" "env_size env < 9223372036854775808"
    "bytes_at buf (nat (env_size env)) = env_block (nat (env_size env)) ps"
    "\<forall>(n, v)\<in>set ps. name_ok n \<and> cstring v" "5 + int (length (serialize ps)) \<le> env_size env"
  shows "\<exists>env' h'. uboot_env_read env h buf = Some (Inr (), env', h') \<and>
           env_size env' = env_size env \<and> env_rep env' h' (rev ps)"
  using read_rep[OF assms(1-3), of buf] block_contents[OF assms(4)] parse_body[OF assms(5)] assms(2,6)
  by (auto simp: Let_def nat_diff_distrib)

lemma write_then_read:
  assumes "env_rep env h ps" "8 \<le> env_size env" "env_size env < 9223372036854775808"
    "6 + int (length (serialize ps)) \<le> env_size env"
    "\<forall>(n, v)\<in>set ps. name_ok n"
  shows "\<exists>env1 h1 m' env2 h2. uboot_env_write env h m buffer = Some ((Inr (), env1, h1), m') \<and>
           uboot_env_read env1 h1 (rd m' buffer) = Some (Inr (), env2, h2) \<and>
           env_rep env2 h2 (rev (sort_key fst ps))"
proof -
  let ?N = "nat (env_size env)"
  let ?ps = "sort_key fst ps"
  have ls: "length (serialize ?ps) = length (serialize ps)"
    by (simp add: serialize_def length_concat comp_def flip: sum_mset_sum_list)
  obtain env1 h1 m' where w: "uboot_env_write env h m buffer = Some ((Inr (), env1, h1), m')"
    "env_size env1 = env_size env" "env_rep env1 h1 ?ps" "m' = store m buffer (env_block ?N ?ps)"
    using write_rep[OF assms(1,2), of m buffer] assms(3,4) by auto
  have "length (env_block ?N ?ps) = ?N"
    using assms(4) ls by (simp add: env_block_def Let_def crc_bytes_def env_body_def)
  then have img: "bytes_at (rd m' buffer) ?N = env_block ?N ?ps"
    using bytes_at_store[of m buffer "env_block ?N ?ps"] w(4) by simp
  have "\<forall>(n, v)\<in>set ps. cstring v"
    using assms(1) by (auto simp: env_rep_def env_wf_def good_node_def nv_pair_def)
  then have "\<forall>(n, v)\<in>set ?ps. name_ok n \<and> cstring v" using assms(5) by auto
  with read_written[OF w(3), of "rd m' buffer" ?ps] w(2) assms img ls w(1) show ?thesis by auto
qed

lemma map_of_filter: "map_of ps k = (case filter (\<lambda>p. fst p = k) ps of [] \<Rightarrow> None | p # _ \<Rightarrow> Some (snd p))"
  by (induction ps) auto

text \<open>The pairs read are in the reverse of the order written, so of equal names the last one is found first.\<close>

lemma map_of_rev_sort_rev: "map_of (rev (sort_key fst ps)) = map_of (rev ps)"
  by (rule ext) (simp add: map_of_filter sort_key_stable flip: rev_filter)

lemma map_of_rev_distinct: "distinct (map fst ps) \<Longrightarrow> map_of (rev ps) = map_of ps"
  by (metis distinct_rev map_of_inject_set rev_map set_rev)

lemma map_of_rev_sort: "distinct (map fst ps) \<Longrightarrow> map_of (rev (sort_key fst ps)) = map_of ps"
  by (simp add: map_of_rev_sort_rev map_of_rev_distinct)

section \<open>Corruption is rejected\<close>

text \<open>A block whose checksum was right, damaged in up to four consecutive bytes that are all behind the
  checksum or all of the checksum, is refused.\<close>

lemma crc_bytes_le32: "bytes_at p 4 = crc_bytes (le32 p)"
proof -
  have "bytes_at p 4 = [p 0, p 1, p 2, p 3]" by (simp add: bytes_at_def numeral_eq_Suc)
  moreover have "ucast (le32 p) = p 0" "ucast (drop_bit 8 (le32 p)) = p 1" "ucast (drop_bit 16 (le32 p)) = p 2" "ucast (drop_bit 24 (le32 p)) = p 3"
    by (rule bit_word_eqI; auto simp: le32_def bit_simps dest: bit_imp_le_length)+
  ultimately show ?thesis by (simp add: crc_bytes_def)
qed

lemma read_corrupted:
  assumes "env_rep env h ps" "8 \<le> env_size env" "env_size env < 9223372036854775808"
    and good: "le32 good = crc32buf (shift good 4) (nat (env_size env - 4))"
    and burst: "\<And>j. 0 \<le> j \<Longrightarrow> j < env_size env \<Longrightarrow> j < i \<or> i + 4 \<le> j \<Longrightarrow> bad j = good j"
    and diff: "bytes_at bad (nat (env_size env)) \<noteq> bytes_at good (nat (env_size env))"
    and i: "4 \<le> i \<or> i \<le> 0"
  shows "\<exists>e env' h'. uboot_env_read env h bad = Some (Inl e, env', h') \<and> env_rep env' h' []"
proof -
  let ?n = "nat (env_size env - 4)"
  have n: "nat (env_size env) = 4 + ?n" using assms(2) by simp
  have "le32 bad \<noteq> crc32buf (shift bad 4) ?n"
  proof (cases "4 \<le> i")
    case True
    have "bytes_at bad 4 = bytes_at good 4" using True assms(2) by (simp add: bytes_at_eq_iff burst)
    then have l: "le32 bad = le32 good" using le32_crc_bytes[of bad "le32 good"] by (simp add: crc_bytes_le32[of good])
    have ne: "bytes_at (shift bad 4) ?n \<noteq> bytes_at (shift good 4) ?n"
      using diff \<open>bytes_at bad 4 = bytes_at good 4\<close> unfolding n by (simp add: bytes_at_append)
    show ?thesis
    proof
      assume "le32 bad = crc32buf (shift bad 4) ?n"
      with l good have eq: "crc32buf (shift bad 4) ?n = crc32buf (shift good 4) ?n" by simp
      have "bytes_at (shift bad 4) ?n = bytes_at (shift good 4) ?n"
        by (rule crc32buf_burst4[OF _ _ eq, of "nat (i - 4)"])
           (use assms(2) True in \<open>auto simp: shift_apply intro!: burst\<close>)
      with ne show False by simp
    qed
  next
    case False
    with i have same: "bytes_at (shift bad 4) ?n = bytes_at (shift good 4) ?n"
      using assms(2) by (auto simp: bytes_at_eq_iff shift_apply intro!: burst)
    then have "bytes_at bad 4 \<noteq> bytes_at good 4" using diff unfolding n by (simp add: bytes_at_append)
    then have "le32 bad \<noteq> le32 good" using crc_bytes_le32[of bad] crc_bytes_le32[of good] by auto
    with good crc32buf_cong[OF same] show ?thesis by simp
  qed
  then show ?thesis
    using read_rep[OF assms(1) _ assms(3), of bad] assms(2) by (auto simp: Let_def)
qed

section \<open>The environment as a store of settings\<close>

text \<open>What the loader relies on: a value set is found, the others stay.\<close>

locale settings =
  fixes rep :: "'s \<Rightarrow> ('k \<rightharpoonup> 'v) \<Rightarrow> bool"
    and put :: "'s \<Rightarrow> 'k \<Rightarrow> 'v \<Rightarrow> 's option"
    and get :: "'s \<Rightarrow> 'k \<Rightarrow> ('v option \<times> 's) option"
    and key_ok :: "'k \<Rightarrow> bool" and val_ok :: "'v \<Rightarrow> bool"
  assumes put_rep: "rep s M \<Longrightarrow> key_ok k \<Longrightarrow> val_ok v \<Longrightarrow> \<exists>s'. put s k v = Some s' \<and> rep s' (M(k \<mapsto> v))"
    and get_rep: "rep s M \<Longrightarrow> key_ok k \<Longrightarrow> \<exists>s'. get s k = Some (M k, s') \<and> rep s' M"
begin

primrec put_all :: "'s \<Rightarrow> ('k \<times> 'v) list \<Rightarrow> 's option" where
  "put_all s [] = Some s"
| "put_all s (kv # kvs) = Option.bind (put s (fst kv) (snd kv)) (\<lambda>s'. put_all s' kvs)"

lemma put_all_rep:
  "rep s M \<Longrightarrow> \<forall>(k, v)\<in>set kvs. key_ok k \<and> val_ok v \<Longrightarrow>
   \<exists>s'. put_all s kvs = Some s' \<and> rep s' (M ++ map_of (rev kvs))"
proof (induction kvs arbitrary: s M)
  case (Cons kv kvs)
  then obtain s1 where "put s (fst kv) (snd kv) = Some s1" "rep s1 (M(fst kv \<mapsto> snd kv))"
    using put_rep[of s M "fst kv" "snd kv"] by (cases kv) auto
  with Cons.IH[of s1 "M(fst kv \<mapsto> snd kv)"] Cons.prems show ?case by (simp del: fun_upd_apply)
qed simp

lemma get_after_puts:
  assumes "rep s M" "\<forall>(k, v)\<in>set kvs. key_ok k \<and> val_ok v" "key_ok k"
  shows "\<exists>s' s''. put_all s kvs = Some s' \<and> get s' k = Some ((M ++ map_of (rev kvs)) k, s'')"
  using put_all_rep[OF assms(1,2)] get_rep assms(3) by blast

end

definition env_map :: "uboot_env \<times> eheap \<Rightarrow> (byte list \<rightharpoonup> byte list) \<Rightarrow> bool" where
  "env_map s M \<longleftrightarrow> (\<exists>ps. env_rep (fst s) (snd s) ps \<and> M = map_of ps)"

definition env_get :: "uboot_env \<times> eheap \<Rightarrow> byte list \<Rightarrow> (byte list option \<times> uboot_env \<times> eheap) option" where
  "env_get s name = map_option (\<lambda>(r, s'). (case r of Inl e \<Rightarrow> None | Inr v \<Rightarrow> Some v, s'))
     (uboot_env_getenv (fst s) (snd s) name)"

interpretation env_settings: settings env_map "\<lambda>s. uboot_env_setenv (fst s) (snd s)" env_get cstring cstring
proof unfold_locales
  fix s M k v
  assume "env_map s M" "cstring k" "cstring v"
  then show "\<exists>s'. uboot_env_setenv (fst s) (snd s) k v = Some s' \<and> env_map s' (M(k \<mapsto> v))"
    using setenv_rep[of "fst s" "snd s" _ k v] by (fastforce simp: env_map_def map_of_al_set)
next
  fix s M k
  assume "env_map s M" "cstring k"
  then obtain ps where ps: "env_rep (fst s) (snd s) ps" "M = map_of ps" by (auto simp: env_map_def)
  with getenv_rep[OF ps(1) \<open>cstring k\<close>] show "\<exists>s'. env_get s k = Some (M k, s') \<and> env_map s' M"
    by (cases "map_of ps k") (force simp: env_get_def env_map_def)+
qed

end
