(* ===== verification/Fdt_Base.thy ===== *)
theory Fdt_Base
  imports Util
begin

text \<open>
  The flattened device tree: byte order, header and constants (\<open>src/src/libfdt/fdt.h\<close>,
  \<open>libfdt_env.h\<close>, \<open>libfdt.h\<close>, \<open>libfdt_internal.h\<close>).

  A tree is a region of memory at an address \<open>f\<close> (\<open>fdt\<close> in the code).  The machine is
  little endian (\<open>load32\<close>, \<open>store32\<close>), the tree big endian; \<open>fdt32_to_cpu\<close> swaps.  Header
  fields are read as \<^typ>\<open>int\<close> values of \<open>uint32_t\<close>.  An \<open>int\<close> of the code is an \<^typ>\<open>int\<close>;
  mixed signed and unsigned arithmetic is written with \<open>u32\<close>, \<open>u64\<close> and \<open>s32\<close> as C
  converts it.  Every \<open>can_assume(...)\<close> of the code is false, see \<open>can_assume_false\<close>.
\<close>

section \<open>Constants\<close>

abbreviation (input) FDT_MAGIC :: int where "FDT_MAGIC \<equiv> 0xd00dfeed"
abbreviation (input) FDT_SW_MAGIC :: int where "FDT_SW_MAGIC \<equiv> 0x2ff20112"
abbreviation (input) FDT_TAGSIZE :: int where "FDT_TAGSIZE \<equiv> 4"
abbreviation (input) FDT_BEGIN_NODE :: int where "FDT_BEGIN_NODE \<equiv> 1"
abbreviation (input) FDT_END_NODE :: int where "FDT_END_NODE \<equiv> 2"
abbreviation (input) FDT_PROP :: int where "FDT_PROP \<equiv> 3"
abbreviation (input) FDT_NOP :: int where "FDT_NOP \<equiv> 4"
abbreviation (input) FDT_END :: int where "FDT_END \<equiv> 9"

abbreviation (input) FDT_V1_SIZE :: int where "FDT_V1_SIZE \<equiv> 28"
abbreviation (input) FDT_V2_SIZE :: int where "FDT_V2_SIZE \<equiv> 32"
abbreviation (input) FDT_V3_SIZE :: int where "FDT_V3_SIZE \<equiv> 36"
abbreviation (input) FDT_V16_SIZE :: int where "FDT_V16_SIZE \<equiv> 36"
abbreviation (input) FDT_V17_SIZE :: int where "FDT_V17_SIZE \<equiv> 40"

abbreviation (input) FDT_FIRST_SUPPORTED_VERSION :: int where "FDT_FIRST_SUPPORTED_VERSION \<equiv> 2"
abbreviation (input) FDT_LAST_COMPATIBLE_VERSION :: int where "FDT_LAST_COMPATIBLE_VERSION \<equiv> 16"
abbreviation (input) FDT_LAST_SUPPORTED_VERSION :: int where "FDT_LAST_SUPPORTED_VERSION \<equiv> 17"

abbreviation (input) FDT_ERR_NOTFOUND :: int where "FDT_ERR_NOTFOUND \<equiv> 1"
abbreviation (input) FDT_ERR_EXISTS :: int where "FDT_ERR_EXISTS \<equiv> 2"
abbreviation (input) FDT_ERR_NOSPACE :: int where "FDT_ERR_NOSPACE \<equiv> 3"
abbreviation (input) FDT_ERR_BADOFFSET :: int where "FDT_ERR_BADOFFSET \<equiv> 4"
abbreviation (input) FDT_ERR_BADPATH :: int where "FDT_ERR_BADPATH \<equiv> 5"
abbreviation (input) FDT_ERR_BADPHANDLE :: int where "FDT_ERR_BADPHANDLE \<equiv> 6"
abbreviation (input) FDT_ERR_BADSTATE :: int where "FDT_ERR_BADSTATE \<equiv> 7"
abbreviation (input) FDT_ERR_TRUNCATED :: int where "FDT_ERR_TRUNCATED \<equiv> 8"
abbreviation (input) FDT_ERR_BADMAGIC :: int where "FDT_ERR_BADMAGIC \<equiv> 9"
abbreviation (input) FDT_ERR_BADVERSION :: int where "FDT_ERR_BADVERSION \<equiv> 10"
abbreviation (input) FDT_ERR_BADSTRUCTURE :: int where "FDT_ERR_BADSTRUCTURE \<equiv> 11"
abbreviation (input) FDT_ERR_BADLAYOUT :: int where "FDT_ERR_BADLAYOUT \<equiv> 12"
abbreviation (input) FDT_ERR_INTERNAL :: int where "FDT_ERR_INTERNAL \<equiv> 13"
abbreviation (input) FDT_ERR_BADNCELLS :: int where "FDT_ERR_BADNCELLS \<equiv> 14"
abbreviation (input) FDT_ERR_BADVALUE :: int where "FDT_ERR_BADVALUE \<equiv> 15"
abbreviation (input) FDT_ERR_BADOVERLAY :: int where "FDT_ERR_BADOVERLAY \<equiv> 16"
abbreviation (input) FDT_ERR_NOPHANDLES :: int where "FDT_ERR_NOPHANDLES \<equiv> 17"
abbreviation (input) FDT_ERR_BADFLAGS :: int where "FDT_ERR_BADFLAGS \<equiv> 18"
abbreviation (input) FDT_ERR_ALIGNMENT :: int where "FDT_ERR_ALIGNMENT \<equiv> 19"

abbreviation (input) FDT_MAX_PHANDLE :: int where "FDT_MAX_PHANDLE \<equiv> 0xfffffffe"

definition FDT_ASSUME_MASK :: int where
  "FDT_ASSUME_MASK = 0"

definition can_assume :: "int \<Rightarrow> bool" where
  "can_assume bits \<longleftrightarrow> FDT_ASSUME_MASK AND bits \<noteq> 0"

lemma can_assume_false: "\<not> can_assume bits"
  by (simp add: can_assume_def FDT_ASSUME_MASK_def)

section \<open>Byte order\<close>

definition fdt16_to_cpu :: "16 word \<Rightarrow> 16 word" where
  "fdt16_to_cpu x = push_bit 8 (ucast (extract_byte x 0)) OR ucast (extract_byte x 1)"

definition fdt32_to_cpu :: "32 word \<Rightarrow> 32 word" where
  "fdt32_to_cpu x = push_bit 24 (ucast (extract_byte x 0)) OR push_bit 16 (ucast (extract_byte x 1)) OR
     push_bit 8 (ucast (extract_byte x 2)) OR ucast (extract_byte x 3)"

definition fdt64_to_cpu :: "64 word \<Rightarrow> 64 word" where
  "fdt64_to_cpu x = push_bit 56 (ucast (extract_byte x 0)) OR push_bit 48 (ucast (extract_byte x 1)) OR
     push_bit 40 (ucast (extract_byte x 2)) OR push_bit 32 (ucast (extract_byte x 3)) OR
     push_bit 24 (ucast (extract_byte x 4)) OR push_bit 16 (ucast (extract_byte x 5)) OR
     push_bit 8 (ucast (extract_byte x 6)) OR ucast (extract_byte x 7)"

definition cpu_to_fdt16 :: "16 word \<Rightarrow> 16 word" where
  "cpu_to_fdt16 x = push_bit 8 (ucast (extract_byte x 0)) OR ucast (extract_byte x 1)"

definition cpu_to_fdt32 :: "32 word \<Rightarrow> 32 word" where
  "cpu_to_fdt32 x = push_bit 24 (ucast (extract_byte x 0)) OR push_bit 16 (ucast (extract_byte x 1)) OR
     push_bit 8 (ucast (extract_byte x 2)) OR ucast (extract_byte x 3)"

definition cpu_to_fdt64 :: "64 word \<Rightarrow> 64 word" where
  "cpu_to_fdt64 x = push_bit 56 (ucast (extract_byte x 0)) OR push_bit 48 (ucast (extract_byte x 1)) OR
     push_bit 40 (ucast (extract_byte x 2)) OR push_bit 32 (ucast (extract_byte x 3)) OR
     push_bit 24 (ucast (extract_byte x 4)) OR push_bit 16 (ucast (extract_byte x 5)) OR
     push_bit 8 (ucast (extract_byte x 6)) OR ucast (extract_byte x 7)"

text \<open>The byte-wise helpers.\<close>

definition fdt16_ld :: "cptr \<Rightarrow> 16 word" where
  "fdt16_ld bp = push_bit 8 (ucast (bp 0)) OR ucast (bp 1)"

definition fdt32_ld :: "cptr \<Rightarrow> 32 word" where
  "fdt32_ld bp = push_bit 24 (ucast (bp 0)) OR push_bit 16 (ucast (bp 1)) OR
     push_bit 8 (ucast (bp 2)) OR ucast (bp 3)"

definition fdt32_st :: "mem \<Rightarrow> addr \<Rightarrow> 32 word \<Rightarrow> mem" where
  "fdt32_st m bp val =
     m(bp := ucast (drop_bit 24 val), bp + 1 := ucast (drop_bit 16 val),
       bp + 2 := ucast (drop_bit 8 val), bp + 3 := ucast val)"

definition fdt64_ld :: "cptr \<Rightarrow> 64 word" where
  "fdt64_ld bp = push_bit 56 (ucast (bp 0)) OR push_bit 48 (ucast (bp 1)) OR
     push_bit 40 (ucast (bp 2)) OR push_bit 32 (ucast (bp 3)) OR
     push_bit 24 (ucast (bp 4)) OR push_bit 16 (ucast (bp 5)) OR
     push_bit 8 (ucast (bp 6)) OR ucast (bp 7)"

definition fdt64_st :: "mem \<Rightarrow> addr \<Rightarrow> 64 word \<Rightarrow> mem" where
  "fdt64_st m bp val =
     m(bp := ucast (drop_bit 56 val), bp + 1 := ucast (drop_bit 48 val),
       bp + 2 := ucast (drop_bit 40 val), bp + 3 := ucast (drop_bit 32 val),
       bp + 4 := ucast (drop_bit 24 val), bp + 5 := ucast (drop_bit 16 val),
       bp + 6 := ucast (drop_bit 8 val), bp + 7 := ucast val)"

text \<open>\<open>fdt32_ld_\<close> and \<open>fdt64_ld_\<close>, on aligned pointers; and a 32-bit word of the structure
  block as the code reads it, \<open>fdt32_to_cpu(*p)\<close>.\<close>

definition fdt32_ld' :: "mem \<Rightarrow> addr \<Rightarrow> int" where
  "fdt32_ld' m p = uint (fdt32_to_cpu (load32 (rd m p)))"

definition fdt64_ld' :: "mem \<Rightarrow> addr \<Rightarrow> int" where
  "fdt64_ld' m p = uint (fdt64_to_cpu (load64 (rd m p)))"

section \<open>The header\<close>

definition fdt_get_header :: "mem \<Rightarrow> addr \<Rightarrow> int \<Rightarrow> int" where
  "fdt_get_header m f field = uint (fdt32_ld (rd m (f + field)))"

definition fdt_set_hdr :: "mem \<Rightarrow> addr \<Rightarrow> int \<Rightarrow> int \<Rightarrow> mem" where
  "fdt_set_hdr m f field val = store32 m (f + field) (cpu_to_fdt32 (word_of_int val))"

abbreviation fdt_magic :: "mem \<Rightarrow> addr \<Rightarrow> int" where "fdt_magic m f \<equiv> fdt_get_header m f 0"
abbreviation fdt_totalsize :: "mem \<Rightarrow> addr \<Rightarrow> int" where "fdt_totalsize m f \<equiv> fdt_get_header m f 4"
abbreviation fdt_off_dt_struct :: "mem \<Rightarrow> addr \<Rightarrow> int" where "fdt_off_dt_struct m f \<equiv> fdt_get_header m f 8"
abbreviation fdt_off_dt_strings :: "mem \<Rightarrow> addr \<Rightarrow> int" where "fdt_off_dt_strings m f \<equiv> fdt_get_header m f 12"
abbreviation fdt_off_mem_rsvmap :: "mem \<Rightarrow> addr \<Rightarrow> int" where "fdt_off_mem_rsvmap m f \<equiv> fdt_get_header m f 16"
abbreviation fdt_version :: "mem \<Rightarrow> addr \<Rightarrow> int" where "fdt_version m f \<equiv> fdt_get_header m f 20"
abbreviation fdt_last_comp_version :: "mem \<Rightarrow> addr \<Rightarrow> int" where
  "fdt_last_comp_version m f \<equiv> fdt_get_header m f 24"
abbreviation fdt_boot_cpuid_phys :: "mem \<Rightarrow> addr \<Rightarrow> int" where
  "fdt_boot_cpuid_phys m f \<equiv> fdt_get_header m f 28"
abbreviation fdt_size_dt_strings :: "mem \<Rightarrow> addr \<Rightarrow> int" where
  "fdt_size_dt_strings m f \<equiv> fdt_get_header m f 32"
abbreviation fdt_size_dt_struct :: "mem \<Rightarrow> addr \<Rightarrow> int" where
  "fdt_size_dt_struct m f \<equiv> fdt_get_header m f 36"

abbreviation fdt_set_magic :: "mem \<Rightarrow> addr \<Rightarrow> int \<Rightarrow> mem" where "fdt_set_magic m f \<equiv> fdt_set_hdr m f 0"
abbreviation fdt_set_totalsize :: "mem \<Rightarrow> addr \<Rightarrow> int \<Rightarrow> mem" where "fdt_set_totalsize m f \<equiv> fdt_set_hdr m f 4"
abbreviation fdt_set_off_dt_struct :: "mem \<Rightarrow> addr \<Rightarrow> int \<Rightarrow> mem" where
  "fdt_set_off_dt_struct m f \<equiv> fdt_set_hdr m f 8"
abbreviation fdt_set_off_dt_strings :: "mem \<Rightarrow> addr \<Rightarrow> int \<Rightarrow> mem" where
  "fdt_set_off_dt_strings m f \<equiv> fdt_set_hdr m f 12"
abbreviation fdt_set_off_mem_rsvmap :: "mem \<Rightarrow> addr \<Rightarrow> int \<Rightarrow> mem" where
  "fdt_set_off_mem_rsvmap m f \<equiv> fdt_set_hdr m f 16"
abbreviation fdt_set_version :: "mem \<Rightarrow> addr \<Rightarrow> int \<Rightarrow> mem" where "fdt_set_version m f \<equiv> fdt_set_hdr m f 20"
abbreviation fdt_set_last_comp_version :: "mem \<Rightarrow> addr \<Rightarrow> int \<Rightarrow> mem" where
  "fdt_set_last_comp_version m f \<equiv> fdt_set_hdr m f 24"
abbreviation fdt_set_boot_cpuid_phys :: "mem \<Rightarrow> addr \<Rightarrow> int \<Rightarrow> mem" where
  "fdt_set_boot_cpuid_phys m f \<equiv> fdt_set_hdr m f 28"
abbreviation fdt_set_size_dt_strings :: "mem \<Rightarrow> addr \<Rightarrow> int \<Rightarrow> mem" where
  "fdt_set_size_dt_strings m f \<equiv> fdt_set_hdr m f 32"
abbreviation fdt_set_size_dt_struct :: "mem \<Rightarrow> addr \<Rightarrow> int \<Rightarrow> mem" where
  "fdt_set_size_dt_struct m f \<equiv> fdt_set_hdr m f 36"

text \<open>\<open>FDT_ALIGN\<close> in \<open>size_t\<close>, stored to an \<open>int\<close>; \<open>a\<close> a power of two.\<close>

definition FDT_ALIGN :: "int \<Rightarrow> int \<Rightarrow> int" where
  "FDT_ALIGN x a = u64 (x + a - 1) AND NOT (a - 1)"

definition FDT_TAGALIGN :: "int \<Rightarrow> int" where
  "FDT_TAGALIGN x = s32 (FDT_ALIGN x FDT_TAGSIZE)"

definition fdt_offset_ptr' :: "mem \<Rightarrow> addr \<Rightarrow> int \<Rightarrow> addr" where
  "fdt_offset_ptr' m f offset = f + fdt_off_dt_struct m f + offset"

definition fdt_mem_rsv' :: "mem \<Rightarrow> addr \<Rightarrow> int \<Rightarrow> addr" where
  "fdt_mem_rsv' m f n = f + fdt_off_mem_rsvmap m f + 16 * n"

section \<open>Facts\<close>

text \<open>Swapping is the same both ways and undoes itself; a swapped machine load is the
  byte-wise big-endian load.\<close>

lemma cpu_to_fdt32_eq: "cpu_to_fdt32 = fdt32_to_cpu"
  by (rule ext) (simp add: cpu_to_fdt32_def fdt32_to_cpu_def)

lemma fdt32_to_cpu_bits:
  assumes "k < 8"
  shows "bit (fdt32_to_cpu x) k = bit x (24 + k)" "bit (fdt32_to_cpu x) (8 + k) = bit x (16 + k)"
    "bit (fdt32_to_cpu x) (16 + k) = bit x (8 + k)" "bit (fdt32_to_cpu x) (24 + k) = bit x k"
  using assms by (auto simp: fdt32_to_cpu_def bit_simps bit_extract_byte)

lemma fdt32_ld_bits:
  assumes "k < 8"
  shows "bit (fdt32_ld p) k = bit (p 3) k" "bit (fdt32_ld p) (8 + k) = bit (p 2) k"
    "bit (fdt32_ld p) (16 + k) = bit (p 1) k" "bit (fdt32_ld p) (24 + k) = bit (p 0) k"
  using assms by (auto simp: fdt32_ld_def bit_simps dest: bit_byte_bound)

lemma fdt32_to_cpu_twice [simp]: "fdt32_to_cpu (fdt32_to_cpu x) = x"
  by (rule word32_eqI) (simp_all add: fdt32_to_cpu_bits)

lemma fdt32_to_cpu_load32: "fdt32_to_cpu (load32 p) = fdt32_ld p"
  by (rule word32_eqI) (simp_all add: fdt32_to_cpu_bits load32_bits fdt32_ld_bits)

lemma fdt32_ld'_eq: "fdt32_ld' m p = uint (fdt32_ld (rd m p))"
  by (simp add: fdt32_ld'_def fdt32_to_cpu_load32)

definition be32_bytes :: "32 word \<Rightarrow> byte list" where
  "be32_bytes x = map (extract_byte x) [3, 2, 1, 0]"

lemma length_be32_bytes [simp]: "length (be32_bytes x) = 4"
  by (simp add: be32_bytes_def)

lemma extract_byte_fdt32:
  "extract_byte (fdt32_to_cpu x) 0 = extract_byte x 3" "extract_byte (fdt32_to_cpu x) 1 = extract_byte x 2"
  "extract_byte (fdt32_to_cpu x) 2 = extract_byte x 1" "extract_byte (fdt32_to_cpu x) 3 = extract_byte x 0"
  by (rule bit_word_eqI, simp add: bit_extract_byte fdt32_to_cpu_bits fdt32_to_cpu_bits(1)[unfolded add_0])+

lemma store32_cpu_to_fdt32: "store32 m p (cpu_to_fdt32 x) = store m p (be32_bytes x)"
  by (simp add: store32_def cpu_to_fdt32_eq extract_byte_fdt32 be32_bytes_def del: One_nat_def)

lemma fdt32_st_store: "fdt32_st m p x = store m p (be32_bytes x)"
  by (rule ext) (auto simp: fdt32_st_def be32_bytes_def extract_byte_def store_def nth_Cons' nat_eq_iff split: if_splits)

lemma fdt32_ld_be32: "bytes_at p 4 = be32_bytes x \<Longrightarrow> fdt32_ld p = x"
proof -
  assume "bytes_at p 4 = be32_bytes x"
  then have "p 0 = extract_byte x 3" "p 1 = extract_byte x 2" "p 2 = extract_byte x 1" "p 3 = extract_byte x 0"
    by (auto simp: be32_bytes_def bytes_at_def numeral_eq_Suc)
  then show ?thesis
    by (intro word32_eqI) (simp_all add: fdt32_ld_bits bit_extract_byte)
qed

lemma fdt32_ld_st: "fdt32_ld (rd (fdt32_st m p x) p) = x"
  by (rule fdt32_ld_be32) (simp add: fdt32_st_store bytes_at_store_len)

lemma fdt32_ld_cong: "(\<And>i. 0 \<le> i \<Longrightarrow> i < 4 \<Longrightarrow> p i = q i) \<Longrightarrow> fdt32_ld p = fdt32_ld q"
  by (simp add: fdt32_ld_def)

section \<open>Header fields\<close>

lemma fdt_get_header_range [simp]: "0 \<le> fdt_get_header m f k" "fdt_get_header m f k < 4294967296"
  using uint_lt2p[of "fdt32_ld (rd m (f + k))"] by (simp_all add: fdt_get_header_def)

lemma fdt_get_set_hdr:
  assumes "k = j \<or> k + 4 \<le> j \<or> j + 4 \<le> k"
  shows "fdt_get_header (fdt_set_hdr m f k v) f j = (if j = k then u32 v else fdt_get_header m f j)"
proof (cases "j = k")
  case True
  have "fdt32_ld (rd (store m (f + k) (be32_bytes (word_of_int v))) (f + k)) = word_of_int v"
    by (rule fdt32_ld_be32) (simp add: bytes_at_store_len)
  with True show ?thesis
    by (simp add: fdt_get_header_def fdt_set_hdr_def store32_cpu_to_fdt32 u32_def uint_word_of_int)
next
  case False
  with assms have "fdt32_ld (rd (store m (f + k) (be32_bytes (word_of_int v))) (f + j)) = fdt32_ld (rd m (f + j))"
    by (intro fdt32_ld_cong) (auto simp: store_outside)
  with False show ?thesis
    by (simp add: fdt_get_header_def fdt_set_hdr_def store32_cpu_to_fdt32)
qed

lemma fdt_set_hdr_outside: "a < f + k \<or> f + k + 4 \<le> a \<Longrightarrow> fdt_set_hdr m f k v a = m a"
  by (simp add: fdt_set_hdr_def store32_cpu_to_fdt32 store_outside)

lemma FDT_TAGALIGN_eq:
  assumes "is_int x"
  shows "FDT_TAGALIGN x = s32 (x + 3 - (x + 3) mod 4)"
proof -
  have a: "(y::int) AND NOT 3 = y - y mod 4" for y using int_and_not_mask[of y 2] by simp
  have "s32 (u64 z - u64 z mod 4) = s32 (z - z mod 4)" for z
  proof -
    have "u64 z mod 4 = z mod 4" by (simp add: u64_def mod_mod_cancel)
    moreover have "s32 (u64 z - c) = s32 (z - c)" for c
    proof -
      have "(u64 z + (2147483648 - c)) mod 4294967296 = (z + (2147483648 - c)) mod 4294967296"
        by (rule mod_add_cong) (simp_all add: u64_def mod_mod_cancel)
      then show ?thesis by (simp add: s32_def algebra_simps)
    qed
    ultimately show ?thesis by simp
  qed
  from this[of "x + 4 - 1"] have "s32 (u64 (x + 4 - 1) AND NOT 3) = s32 (x + 3 - (x + 3) mod 4)"
    unfolding a by (simp add: add.commute)
  then show ?thesis by (simp add: FDT_TAGALIGN_def FDT_ALIGN_def)
qed

lemma FDT_TAGALIGN_is_int [simp]: "is_int (FDT_TAGALIGN x)"
  by (simp add: FDT_TAGALIGN_def)

lemma FDT_TAGALIGN_progress:
  assumes "is_int x" "x \<le> - 4 \<or> 0 \<le> x"
  shows "FDT_TAGALIGN x < 0 \<or> x \<le> FDT_TAGALIGN x \<and> FDT_TAGALIGN x \<le> x + 3"
proof -
  let ?y = "x + 3 - (x + 3) mod 4"
  have y: "x \<le> ?y" "?y \<le> x + 3"
    using pos_mod_bound[of 4 "x + 3"] pos_mod_sign[of 4 "x + 3"] by linarith+
  show ?thesis
  proof (cases "0 \<le> x")
    case True
    with s32_cases[of ?y] y assms show ?thesis by (simp add: FDT_TAGALIGN_eq is_int_def) linarith
  next
    case False
    with y assms have "s32 ?y = ?y" by (intro s32_id) (auto simp: is_int_def)
    with False y assms show ?thesis by (simp add: FDT_TAGALIGN_eq)
  qed
qed

end
