(* ===== verification/Fdt_Core.thy ===== *)
theory Fdt_Core
  imports Fdt_Base
begin

text \<open>
  Checking a tree and walking its structure block (\<open>src/src/libfdt/fdt.c\<close>).

  A trailing underscore of a C name is a prime here.  \<open>fdt_next_tag\<close> returns the tag and
  \<open>*nextoffset\<close>; a pointer that may be \<open>NULL\<close> is an option; an \<open>int *depth\<close> that may be
  \<open>NULL\<close> is an option that is passed in and returned.
\<close>

section \<open>Sanity checks\<close>

definition fdt_ro_probe' :: "mem \<Rightarrow> addr \<Rightarrow> int" where
  "fdt_ro_probe' m f =
     (let totalsize = fdt_totalsize m f in
      if f AND 7 \<noteq> 0 then - FDT_ERR_ALIGNMENT
      else if fdt_magic m f = FDT_MAGIC \<and> fdt_version m f < FDT_FIRST_SUPPORTED_VERSION
        then - FDT_ERR_BADVERSION
      else if fdt_magic m f = FDT_MAGIC \<and> fdt_last_comp_version m f > FDT_LAST_SUPPORTED_VERSION
        then - FDT_ERR_BADVERSION
      else if fdt_magic m f \<noteq> FDT_MAGIC \<and> fdt_magic m f = FDT_SW_MAGIC \<and> fdt_size_dt_struct m f = 0
        then - FDT_ERR_BADSTATE
      else if fdt_magic m f \<noteq> FDT_MAGIC \<and> fdt_magic m f \<noteq> FDT_SW_MAGIC then - FDT_ERR_BADMAGIC
      else if totalsize < INT_MAX then totalsize
      else - FDT_ERR_TRUNCATED)"

definition check_off' :: "int \<Rightarrow> int \<Rightarrow> int \<Rightarrow> bool" where
  "check_off' hdrsize totalsize off \<longleftrightarrow> off \<ge> hdrsize \<and> off \<le> totalsize"

definition check_block' :: "int \<Rightarrow> int \<Rightarrow> int \<Rightarrow> int \<Rightarrow> bool" where
  "check_block' hdrsize totalsize base bsize =
     (if \<not> check_off' hdrsize totalsize base then False
      else if u32 (base + bsize) < base then False
      else if \<not> check_off' hdrsize totalsize (u32 (base + bsize)) then False
      else True)"

definition fdt_header_size' :: "int \<Rightarrow> int" where
  "fdt_header_size' version =
     (if version \<le> 1 then FDT_V1_SIZE
      else if version \<le> 2 then FDT_V2_SIZE
      else if version \<le> 3 then FDT_V3_SIZE
      else if version \<le> 16 then FDT_V16_SIZE
      else FDT_V17_SIZE)"

definition fdt_header_size :: "mem \<Rightarrow> addr \<Rightarrow> int" where
  "fdt_header_size m f = fdt_header_size' (fdt_version m f)"

definition fdt_check_header :: "mem \<Rightarrow> addr \<Rightarrow> int" where
  "fdt_check_header m f =
     (if f AND 7 \<noteq> 0 then - FDT_ERR_ALIGNMENT
      else if fdt_magic m f \<noteq> FDT_MAGIC then - FDT_ERR_BADMAGIC
      else if fdt_version m f < FDT_FIRST_SUPPORTED_VERSION \<or>
              fdt_last_comp_version m f > FDT_LAST_SUPPORTED_VERSION then - FDT_ERR_BADVERSION
      else if fdt_version m f < fdt_last_comp_version m f then - FDT_ERR_BADVERSION
      else (let hdrsize = fdt_header_size m f in
        if fdt_totalsize m f < hdrsize \<or> fdt_totalsize m f > INT_MAX then - FDT_ERR_TRUNCATED
        else if \<not> check_off' hdrsize (fdt_totalsize m f) (fdt_off_mem_rsvmap m f) then - FDT_ERR_TRUNCATED
        else if fdt_version m f < 17 \<and> \<not> check_off' hdrsize (fdt_totalsize m f) (fdt_off_dt_struct m f)
          then - FDT_ERR_TRUNCATED
        else if \<not> fdt_version m f < 17 \<and>
                \<not> check_block' hdrsize (fdt_totalsize m f) (fdt_off_dt_struct m f) (fdt_size_dt_struct m f)
          then - FDT_ERR_TRUNCATED
        else if \<not> check_block' hdrsize (fdt_totalsize m f) (fdt_off_dt_strings m f) (fdt_size_dt_strings m f)
          then - FDT_ERR_TRUNCATED
        else 0))"

section \<open>Walking the structure block\<close>

text \<open>The arguments are converted to \<open>int\<close> and \<open>unsigned int\<close>, as a call does.\<close>

definition fdt_offset_ptr :: "mem \<Rightarrow> addr \<Rightarrow> int \<Rightarrow> int \<Rightarrow> addr option" where
  "fdt_offset_ptr m f offset len =
     (let offset = s32 offset; len = u32 len;
          uoffset = u32 offset;
          absoffset = u32 (offset + fdt_off_dt_struct m f)
      in if offset < 0 then None
         else if absoffset < uoffset \<or> u32 (absoffset + len) < absoffset \<or>
                 u32 (absoffset + len) > fdt_totalsize m f then None
         else if fdt_version m f \<ge> 17 \<and>
                 (u32 (uoffset + len) < uoffset \<or> u32 (offset + len) > fdt_size_dt_struct m f) then None
         else Some (fdt_offset_ptr' m f offset))"

text \<open>A tag other than the end takes the walk forward, or to an offset that ends it.\<close>

definition walk_measure :: "int \<Rightarrow> nat" where
  "walk_measure offset = (if s32 offset < 0 then 0 else nat (2147483648 - s32 offset))"

lemma walk_measure_less:
  "0 \<le> s32 offset \<Longrightarrow> nx < 0 \<or> s32 offset < nx \<Longrightarrow> is_int nx \<Longrightarrow> walk_measure nx < walk_measure offset"
  using s32_range[of offset] by (auto simp: walk_measure_def s32_is_int)

lemma fdt_offset_ptr_s32 [simp]: "fdt_offset_ptr m f (s32 offset) len = fdt_offset_ptr m f offset len"
  by (simp add: fdt_offset_ptr_def)

lemma fdt_offset_ptr_nonneg: "fdt_offset_ptr m f offset len = Some p \<Longrightarrow> 0 \<le> s32 offset"
  by (auto simp: fdt_offset_ptr_def Let_def split: if_splits)

text \<open>The loop over the name of a node: the offset behind its NUL, \<open>None\<close> when it runs out of
  the block.\<close>

function next_tag_name :: "mem \<Rightarrow> addr \<Rightarrow> int \<Rightarrow> int option" where
  "next_tag_name m f offset =
     (case fdt_offset_ptr m f offset 1 of
        None \<Rightarrow> None
      | Some p \<Rightarrow> if m p \<noteq> 0 then next_tag_name m f (s32 (offset + 1)) else Some (s32 (offset + 1)))"
  by pat_completeness auto
termination
proof (relation "measure (\<lambda>(m, f, offset). walk_measure offset)", goal_cases)
  case (2 m f offset p)
  then have o: "0 \<le> s32 offset" by (auto dest: fdt_offset_ptr_nonneg)
  have "s32 (offset + 1) = s32 (s32 offset + 1)" by (simp add: s32_add)
  moreover have "s32 (s32 offset + 1) < 0 \<or> s32 offset < s32 (s32 offset + 1)"
    using s32_cases[of "s32 offset + 1"] o s32_range[of offset] by auto
  ultimately show ?case using walk_measure_less[OF o] by simp
qed simp

declare next_tag_name.simps [simp del]

text \<open>The two other cases of the \<open>switch\<close>: where the item at \<open>offset\<close>, behind its tag, ends;
  \<open>None\<close> for the early returns.\<close>

definition next_tag_prop :: "mem \<Rightarrow> addr \<Rightarrow> int \<Rightarrow> int option" where
  "next_tag_prop m f offset =
     (case fdt_offset_ptr m f offset 4 of
        None \<Rightarrow> None
      | Some lenp \<Rightarrow>
          let len = fdt32_ld' m lenp;
              sum = u32 (len + offset)
          in if INT_MAX \<le> sum \<or> sum < u32 offset then None
             else let offset = s32 (offset + (12 - FDT_TAGSIZE) + len)
                  in if fdt_version m f < 16 \<and> len \<ge> 8 \<and> u32 (offset - len) mod 8 \<noteq> 0
                     then Some (s32 (offset + 4)) else Some offset)"

definition next_tag_skip :: "mem \<Rightarrow> addr \<Rightarrow> int \<Rightarrow> int \<Rightarrow> int option" where
  "next_tag_skip m f tag offset =
     (if tag = FDT_BEGIN_NODE then next_tag_name m f offset
      else if tag = FDT_PROP then next_tag_prop m f offset
      else if tag = FDT_END \<or> tag = FDT_END_NODE \<or> tag = FDT_NOP then Some offset
      else None)"

definition fdt_next_tag :: "mem \<Rightarrow> addr \<Rightarrow> int \<Rightarrow> int \<times> int" where
  "fdt_next_tag m f startoffset =
     (case fdt_offset_ptr m f startoffset FDT_TAGSIZE of
        None \<Rightarrow> (FDT_END, - FDT_ERR_TRUNCATED)
      | Some tagp \<Rightarrow>
          let tag = fdt32_ld' m tagp in
          (case next_tag_skip m f tag (s32 (startoffset + FDT_TAGSIZE)) of
             None \<Rightarrow> (FDT_END, - FDT_ERR_BADSTRUCTURE)
           | Some offset \<Rightarrow>
               if fdt_offset_ptr m f startoffset (offset - startoffset) = None
               then (FDT_END, - FDT_ERR_BADSTRUCTURE)
               else (tag, FDT_TAGALIGN offset)))"

definition fdt_check_node_offset' :: "mem \<Rightarrow> addr \<Rightarrow> int \<Rightarrow> int" where
  "fdt_check_node_offset' m f offset =
     (if offset < 0 \<or> u64 offset mod FDT_TAGSIZE \<noteq> 0 then - FDT_ERR_BADOFFSET
      else let (tag, offset) = fdt_next_tag m f offset
           in if tag \<noteq> FDT_BEGIN_NODE then - FDT_ERR_BADOFFSET else offset)"

definition fdt_check_prop_offset' :: "mem \<Rightarrow> addr \<Rightarrow> int \<Rightarrow> int" where
  "fdt_check_prop_offset' m f offset =
     (if offset < 0 \<or> u64 offset mod FDT_TAGSIZE \<noteq> 0 then - FDT_ERR_BADOFFSET
      else let (tag, offset) = fdt_next_tag m f offset
           in if tag \<noteq> FDT_PROP then - FDT_ERR_BADOFFSET else offset)"

section \<open>Progress\<close>

lemma next_tag_name_nonneg: "next_tag_name m f offset = Some r \<Longrightarrow> 0 \<le> s32 offset"
  by (subst (asm) next_tag_name.simps) (auto split: option.splits dest: fdt_offset_ptr_nonneg)

lemma next_tag_prop_nonneg: "next_tag_prop m f offset = Some r \<Longrightarrow> 0 \<le> s32 offset"
  by (auto simp: next_tag_prop_def split: option.splits dest: fdt_offset_ptr_nonneg)

lemma next_tag_name_progress:
  "next_tag_name m f offset = Some r \<Longrightarrow> (r \<le> - 4 \<or> s32 offset < r) \<and> is_int r"
proof (induction m f offset arbitrary: r rule: next_tag_name.induct)
  case (1 m f offset)
  note r = "1.prems"[unfolded next_tag_name.simps[of m f offset]]
  obtain p where p: "fdt_offset_ptr m f offset 1 = Some p" using r by (auto split: option.splits)
  have "s32 (offset + 1) = s32 (s32 offset + 1)" by (simp add: s32_add)
  then have step: "s32 (offset + 1) \<le> - 4 \<or> s32 offset < s32 (offset + 1)"
    using s32_cases[of "s32 offset + 1"] fdt_offset_ptr_nonneg[OF p] s32_range[of offset] by auto
  show ?case
  proof (cases "m p = 0")
    case True
    with r p step show ?thesis by auto
  next
    case False
    with r p have r': "next_tag_name m f (s32 (offset + 1)) = Some r" by simp
    then have "0 \<le> s32 (offset + 1)" using next_tag_name_nonneg[OF r'] by simp
    with "1.IH"[OF p False r'] step show ?thesis by auto
  qed
qed

lemma next_tag_prop_end:
  assumes "next_tag_prop m f offset = Some r" "is_int offset"
  shows "(r \<le> - 4 \<or> offset + 8 \<le> r) \<and> is_int r"
proof -
  from assms(1) obtain lenp where lenp: "fdt_offset_ptr m f offset 4 = Some lenp"
    by (auto simp: next_tag_prop_def split: option.splits)
  let ?len = "fdt32_ld' m lenp"
  have o: "0 \<le> offset" "offset \<le> 2147483647"
    using fdt_offset_ptr_nonneg[OF lenp] assms(2) by (simp_all add: s32_is_int is_int_def)
  have len: "0 \<le> ?len" "?len < 4294967296"
    using uint_lt2p[of "fdt32_ld (rd m lenp)"] by (simp_all add: fdt32_ld'_eq)
  from assms(1) lenp have s: "u32 (?len + offset) < 2147483647" "\<not> u32 (?len + offset) < u32 offset"
    and r: "r = s32 (s32 (offset + 8 + ?len) + 4) \<or> r = s32 (offset + 8 + ?len)"
    by (auto simp: next_tag_prop_def Let_def INT_MAX_def split: if_splits)
  have "u32 (offset + ?len) = offset + ?len"
    using s(2) o len by (intro u32_add_exact) (simp_all add: u32_id add.commute)
  then have "offset + ?len < 2147483647" using s(1) by (simp add: add.commute)
  moreover have "r = s32 (offset + ?len + 12) \<or> r = s32 (offset + ?len + 8)"
    using r by (auto simp: s32_add algebra_simps)
  ultimately show ?thesis
    using o len s32_cases[of "offset + ?len + 12"] s32_cases[of "offset + ?len + 8"] by (auto simp: is_int_def)
qed

lemma next_tag_prop_progress:
  "next_tag_prop m f offset = Some r \<Longrightarrow> is_int offset \<Longrightarrow> (r \<le> - 4 \<or> offset < r) \<and> is_int r"
  using next_tag_prop_end[of m f offset r] by auto

lemma fdt_next_tag_progress:
  assumes "fdt_next_tag m f offset = (tag, nx)" "tag \<noteq> FDT_END"
  shows "0 \<le> s32 offset \<and> (nx < 0 \<or> s32 offset < nx) \<and> is_int nx"
proof -
  let ?o = "s32 offset"
  from assms obtain tagp offset' where tagp: "fdt_offset_ptr m f offset 4 = Some tagp"
    and nx: "nx = FDT_TAGALIGN offset'"
    and skip: "next_tag_skip m f tag (s32 (offset + 4)) = Some offset'"
    by (auto simp: fdt_next_tag_def Let_def split: option.splits if_splits)
  have o: "0 \<le> ?o" "?o \<le> 2147483647" using fdt_offset_ptr_nonneg[OF tagp] by simp_all
  have "s32 (offset + 4) = s32 (?o + 4)" by (simp add: s32_add)
  then have step: "s32 (offset + 4) \<le> - 4 \<or> ?o < s32 (offset + 4)"
    using s32_cases[of "?o + 4"] o by (auto; linarith)
  have "(offset' \<le> - 4 \<or> ?o < offset') \<and> is_int offset'"
    using skip assms(2) step next_tag_name_progress[of m f "s32 (offset + 4)" offset']
      next_tag_prop_progress[of m f "s32 (offset + 4)" offset']
      next_tag_name_nonneg[of m f "s32 (offset + 4)" offset']
      next_tag_prop_nonneg[of m f "s32 (offset + 4)" offset']
    by (auto simp: next_tag_skip_def split: if_splits)
  with o FDT_TAGALIGN_progress[of offset'] show ?thesis by (auto simp: nx)
qed

lemma fdt_next_tag_less:
  "(tag, nx) = fdt_next_tag m f offset \<Longrightarrow> tag \<noteq> FDT_END \<Longrightarrow> walk_measure nx < walk_measure offset"
  using fdt_next_tag_progress[of m f offset tag nx] walk_measure_less by metis

lemma fdt_next_tag_is_int: "fdt_next_tag m f offset = (tag, nx) \<Longrightarrow> is_int nx"
  by (auto simp: fdt_next_tag_def Let_def split: option.splits if_splits) (simp_all add: is_int_def)

lemma fdt_next_tag_neg: "s32 offset < 0 \<Longrightarrow> fdt_next_tag m f offset = (FDT_END, - FDT_ERR_TRUNCATED)"
  by (simp add: fdt_next_tag_def fdt_offset_ptr_def)

section \<open>Nodes\<close>

function next_node_loop :: "mem \<Rightarrow> addr \<Rightarrow> int \<Rightarrow> int option \<Rightarrow> int \<times> int option" where
  "next_node_loop m f offset depth =
     (let (tag, nextoffset) = fdt_next_tag m f offset in
      if tag = FDT_BEGIN_NODE then (offset, map_option (\<lambda>d. d + 1) depth)
      else if tag = FDT_END_NODE then
        (case depth of
           None \<Rightarrow> next_node_loop m f nextoffset None
         | Some d \<Rightarrow> if d - 1 < 0 then (nextoffset, Some (d - 1))
                     else next_node_loop m f nextoffset (Some (d - 1)))
      else if tag = FDT_END then
        (if nextoffset \<ge> 0 \<or> (nextoffset = - FDT_ERR_TRUNCATED \<and> depth = None)
         then (- FDT_ERR_NOTFOUND, depth) else (nextoffset, depth))
      else next_node_loop m f nextoffset depth)"
  by pat_completeness auto
termination
  by (relation "measure (\<lambda>(m, f, offset, depth). walk_measure offset)")
     (auto intro: fdt_next_tag_less)

declare next_node_loop.simps [simp del]

definition fdt_next_node :: "mem \<Rightarrow> addr \<Rightarrow> int \<Rightarrow> int option \<Rightarrow> int \<times> int option" where
  "fdt_next_node m f offset depth =
     (if offset \<ge> 0 then
        (let nextoffset = fdt_check_node_offset' m f offset in
         if nextoffset < 0 then (nextoffset, depth) else next_node_loop m f nextoffset depth)
      else next_node_loop m f 0 depth)"

definition fdt_first_subnode :: "mem \<Rightarrow> addr \<Rightarrow> int \<Rightarrow> int" where
  "fdt_first_subnode m f offset =
     (let (offset, depth) = fdt_next_node m f offset (Some 0) in
      if offset < 0 \<or> depth \<noteq> Some 1 then - FDT_ERR_NOTFOUND else offset)"

text \<open>The node a walk returns lies behind the one it started from.\<close>

lemma next_node_loop_progress:
  "next_node_loop m f offset depth = (r, d) \<Longrightarrow> is_int offset \<Longrightarrow> (r < 0 \<or> offset \<le> r) \<and> is_int r"
proof (induction "walk_measure offset" arbitrary: offset depth r d rule: less_induct)
  case less
  obtain tag nx where t: "fdt_next_tag m f offset = (tag, nx)" by fastforce
  note r = less.prems(1)[unfolded next_node_loop.simps[of m f offset depth] t Let_def prod.case]
  note nx = fdt_next_tag_is_int[OF t]
  show ?case
  proof (cases "tag = FDT_BEGIN_NODE \<or> tag = FDT_END")
    case True
    with r less.prems(2) nx show ?thesis by (auto simp: is_int_def split: if_splits)
  next
    case False
    then have p: "nx < 0 \<or> offset < nx"
      using fdt_next_tag_progress[OF t] less.prems(2) by (auto simp: s32_is_int)
    have rec: "(r' < 0 \<or> offset \<le> r') \<and> is_int r'" if "next_node_loop m f nx d0 = (r', d')" for d0 r' d'
    proof -
      have "(r' < 0 \<or> nx \<le> r') \<and> is_int r'"
        using less.hyps[OF fdt_next_tag_less[OF t[symmetric]] that nx] False by simp
      moreover have "nx < 0 \<Longrightarrow> r' < 0"
        using that fdt_next_tag_neg[of nx m f] nx
        by (auto simp: next_node_loop.simps[of m f nx] s32_is_int split: if_splits)
      ultimately show ?thesis using p by auto
    qed
    with r False p nx show ?thesis by (auto split: if_splits option.splits)
  qed
qed

lemma fdt_check_node_offset'_less:
  assumes "0 \<le> fdt_check_node_offset' m f offset"
  shows "0 \<le> offset \<and> s32 offset < fdt_check_node_offset' m f offset"
proof -
  obtain tag nx where t: "fdt_next_tag m f offset = (tag, nx)" by fastforce
  with assms have "tag = FDT_BEGIN_NODE" "0 \<le> offset" "fdt_check_node_offset' m f offset = nx"
    by (auto simp: fdt_check_node_offset'_def split: if_splits)
  with assms fdt_next_tag_progress[OF t] show ?thesis by auto
qed

lemma fdt_check_prop_offset'_less:
  assumes "0 \<le> fdt_check_prop_offset' m f offset"
  shows "0 \<le> offset \<and> s32 offset < fdt_check_prop_offset' m f offset"
proof -
  obtain tag nx where t: "fdt_next_tag m f offset = (tag, nx)" by fastforce
  with assms have "tag = FDT_PROP" "0 \<le> offset" "fdt_check_prop_offset' m f offset = nx"
    by (auto simp: fdt_check_prop_offset'_def split: if_splits)
  with assms fdt_next_tag_progress[OF t] show ?thesis by auto
qed

lemma check_offset_is_int:
  "is_int (fdt_check_node_offset' m f offset)" "is_int (fdt_check_prop_offset' m f offset)"
  using fdt_next_tag_is_int[of m f offset]
  by (auto simp: fdt_check_node_offset'_def fdt_check_prop_offset'_def is_int_def split: prod.splits)

lemma fdt_next_node_progress:
  assumes "fdt_next_node m f offset depth = (r, d)" "0 \<le> offset"
  shows "(r < 0 \<or> s32 offset < r) \<and> is_int r"
proof (cases "fdt_check_node_offset' m f offset < 0")
  case True
  with assms check_offset_is_int(1)[of m f offset] show ?thesis by (auto simp: fdt_next_node_def)
next
  case False
  then have "s32 offset < fdt_check_node_offset' m f offset"
    using fdt_check_node_offset'_less by simp
  moreover have "next_node_loop m f (fdt_check_node_offset' m f offset) depth = (r, d)"
    using assms False by (simp add: fdt_next_node_def)
  ultimately show ?thesis using next_node_loop_progress check_offset_is_int(1) by fastforce
qed

text \<open>Before a walk, the offset may be any negative number.\<close>

lemma fdt_next_node_is_int: "fdt_next_node m f offset depth = (r, d) \<Longrightarrow> is_int r"
  using next_node_loop_progress[of m f 0 depth r d] fdt_next_node_progress[of m f offset depth r d]
  by (cases "offset < 0") (auto simp: fdt_next_node_def is_int_def)

text \<open>The measure of a loop over offsets that ends at a negative one.\<close>

definition loop_measure :: "int \<Rightarrow> nat" where
  "loop_measure offset = (if offset < 0 then 0 else Suc (walk_measure offset))"

lemma loop_measure_less:
  "0 \<le> offset \<Longrightarrow> r < 0 \<or> 0 \<le> s32 offset \<and> s32 offset < r \<and> is_int r \<Longrightarrow> loop_measure r < loop_measure offset"
  using walk_measure_less[of offset r] by (auto simp: loop_measure_def)

lemma fdt_next_node_nonneg:
  "fdt_next_node m f offset depth = (r, d) \<Longrightarrow> 0 \<le> offset \<Longrightarrow> 0 \<le> r \<Longrightarrow> 0 \<le> s32 offset"
  using fdt_next_tag_neg[of offset m f]
  by (cases "s32 offset < 0") (auto simp: fdt_next_node_def fdt_check_node_offset'_def split: if_splits)

lemma fdt_next_node_less:
  "(r, d) = fdt_next_node m f offset depth \<Longrightarrow> 0 \<le> offset \<Longrightarrow> loop_measure r < loop_measure offset"
  by (rule loop_measure_less)
     (use fdt_next_node_progress[of m f offset depth r d] fdt_next_node_nonneg[of m f offset depth r d] in auto)

text \<open>The same for a loop that may start from \<open>-1\<close>, before the first node.\<close>

definition start_measure :: "int \<Rightarrow> nat" where
  "start_measure offset = (if offset < 0 then Suc (Suc (walk_measure 0)) else loop_measure offset)"

lemma fdt_next_node_start_less:
  assumes "(r, d) = fdt_next_node m f offset depth" "0 \<le> r"
  shows "start_measure r < start_measure offset"
proof -
  have "s32 r = r" using fdt_next_node_is_int[OF assms(1)[symmetric]] by (simp add: s32_is_int)
  then have "walk_measure r \<le> walk_measure 0"
    using assms(2) by (auto simp: walk_measure_def s32_id)
  with assms(2) fdt_next_node_less[OF assms(1)] show ?thesis
    by (auto simp: start_measure_def loop_measure_def)
qed

text \<open>\<open>fdt_next_subnode\<close> skips what is below the node.  An offset is an \<open>int\<close>, so the loop
  starts from a converted argument.\<close>

function next_subnode_loop :: "mem \<Rightarrow> addr \<Rightarrow> int \<Rightarrow> int \<Rightarrow> int" where
  "next_subnode_loop m f offset depth =
     (let (r, d) = fdt_next_node m f (s32 offset) (Some depth) in
      if r < 0 \<or> the d < 1 then - FDT_ERR_NOTFOUND
      else if the d > 1 then next_subnode_loop m f r (the d)
      else r)"
  by pat_completeness auto
termination
  by (relation "measure (\<lambda>(m, f, offset, depth). start_measure (s32 offset))")
     (auto simp: s32_is_int fdt_next_node_is_int[OF sym] intro: fdt_next_node_start_less)

declare next_subnode_loop.simps [simp del]

definition fdt_next_subnode :: "mem \<Rightarrow> addr \<Rightarrow> int \<Rightarrow> int" where
  "fdt_next_subnode m f offset = next_subnode_loop m f offset 1"

section \<open>Strings and moving\<close>

function find_string_loop :: "mem \<Rightarrow> addr \<Rightarrow> addr \<Rightarrow> cptr \<Rightarrow> nat \<Rightarrow> addr option" where
  "find_string_loop m p lastp s len =
     (if p \<le> lastp then
        (if memcmp (rd m p) s len = 0 then Some p else find_string_loop m (p + 1) lastp s len)
      else None)"
  by pat_completeness auto
termination
  by (relation "measure (\<lambda>(m, p, lastp, s, len). nat (lastp + 1 - p))") auto

declare find_string_loop.simps [simp del]

definition fdt_find_string' :: "mem \<Rightarrow> addr \<Rightarrow> int \<Rightarrow> cptr \<Rightarrow> addr option option" where
  "fdt_find_string' m strtab tabsize s = do {
     l \<leftarrow> strlen s;
     let len = s32 (l + 1);
     let lastp = strtab + tabsize - len;
     Some (find_string_loop m strtab lastp s (sz len))
   }"

definition fdt_move :: "mem \<Rightarrow> addr \<Rightarrow> addr \<Rightarrow> int \<Rightarrow> int \<times> mem" where
  "fdt_move m f buf bufsize =
     (if bufsize < 0 then (- FDT_ERR_NOSPACE, m)
      else if fdt_ro_probe' m f < 0 then (fdt_ro_probe' m f, m)
      else if fdt_totalsize m f > u32 bufsize then (- FDT_ERR_NOSPACE, m)
      else (0, memmove m buf f (sz (fdt_totalsize m f))))"

end
