(* ===== verification/Fdt_Ro.thy ===== *)
theory Fdt_Ro
  imports Fdt_Core
begin

text \<open>
  The read-only interface (\<open>src/src/libfdt/fdt_ro.c\<close>): names, strings, paths, properties,
  phandles, string lists.

  A function that returns a pointer and stores a length through \<open>lenp\<close> returns the pair,
  the pointer as an option.  A function that calls \<open>strlen_\<close>, directly or not, is into
  \<open>option\<close>: \<open>None\<close> is not returning.  Names are \<^typ>\<open>cptr\<close>s.
\<close>

definition chars :: "string \<Rightarrow> cptr" where
  "chars s = lit (str s)"

section \<open>The strings block\<close>

definition get_string_len :: "mem \<Rightarrow> addr \<Rightarrow> int \<Rightarrow> int \<Rightarrow> int + int" where
  "get_string_len m f stroffset len =
     (if fdt_magic m f = FDT_MAGIC then
        (if stroffset < 0 then Inl (- FDT_ERR_BADOFFSET)
         else if fdt_version m f \<ge> 17 then
           (if u32 stroffset \<ge> fdt_size_dt_strings m f then Inl (- FDT_ERR_BADOFFSET)
            else if u32 (fdt_size_dt_strings m f - stroffset) < len
            then Inr (u32 (fdt_size_dt_strings m f - stroffset)) else Inr len)
         else Inr len)
      else if fdt_magic m f = FDT_SW_MAGIC then
        (if stroffset \<ge> 0 \<or> u32 (- stroffset) > fdt_size_dt_strings m f then Inl (- FDT_ERR_BADOFFSET)
         else if u32 (- stroffset) < len then Inr (u32 (- stroffset)) else Inr len)
      else Inl (- FDT_ERR_INTERNAL))"

definition fdt_get_string :: "mem \<Rightarrow> addr \<Rightarrow> int \<Rightarrow> addr option \<times> int" where
  "fdt_get_string m f stroffset =
     (let totalsize = fdt_ro_probe' m f;
          absoffset = u32 (stroffset + fdt_off_dt_strings m f)
      in if totalsize < 0 then (None, totalsize)
         else if absoffset \<ge> u32 totalsize then (None, - FDT_ERR_BADOFFSET)
         else (case get_string_len m f stroffset (u32 (totalsize - absoffset)) of
                 Inl err \<Rightarrow> (None, err)
               | Inr len \<Rightarrow>
                   (case memchr (rd m (f + absoffset)) 0 (sz len) of
                      None \<Rightarrow> (None, - FDT_ERR_TRUNCATED)
                    | Some n \<Rightarrow> (Some (f + absoffset), n))))"

definition fdt_string :: "mem \<Rightarrow> addr \<Rightarrow> int \<Rightarrow> addr option" where
  "fdt_string m f stroffset = fst (fdt_get_string m f stroffset)"

definition fdt_string_eq' :: "mem \<Rightarrow> addr \<Rightarrow> int \<Rightarrow> cptr \<Rightarrow> int \<Rightarrow> bool" where
  "fdt_string_eq' m f stroffset s len =
     (case fdt_get_string m f stroffset of
        (None, slen) \<Rightarrow> False
      | (Some p, slen) \<Rightarrow> slen = len \<and> memcmp (rd m p) s (sz len) = 0)"

section \<open>Memory reservations\<close>

definition fdt_mem_rsv :: "mem \<Rightarrow> addr \<Rightarrow> int \<Rightarrow> addr option" where
  "fdt_mem_rsv m f n =
     (let offset = u32 (n * 16);
          absoffset = u32 (fdt_off_mem_rsvmap m f + offset)
      in if absoffset < fdt_off_mem_rsvmap m f then None
         else if absoffset > u64 (fdt_totalsize m f - 16) then None
         else Some (fdt_mem_rsv' m f n))"

definition fdt_get_mem_rsv :: "mem \<Rightarrow> addr \<Rightarrow> int \<Rightarrow> int + int \<times> int" where
  "fdt_get_mem_rsv m f n =
     (if fdt_ro_probe' m f < 0 then Inl (fdt_ro_probe' m f)
      else case fdt_mem_rsv m f n of
             None \<Rightarrow> Inl (- FDT_ERR_BADOFFSET)
           | Some re \<Rightarrow> Inr (fdt64_ld' m re, fdt64_ld' m (re + 8)))"

partial_function (option) num_mem_rsv_loop :: "mem \<Rightarrow> addr \<Rightarrow> int \<Rightarrow> int option" where
  "num_mem_rsv_loop m f i =
     (case fdt_mem_rsv m f i of
        None \<Rightarrow> Some (- FDT_ERR_TRUNCATED)
      | Some re \<Rightarrow> if fdt64_ld' m (re + 8) = 0 then Some i else num_mem_rsv_loop m f (i + 1))"

definition fdt_num_mem_rsv :: "mem \<Rightarrow> addr \<Rightarrow> int option" where
  "fdt_num_mem_rsv m f = num_mem_rsv_loop m f 0"

section \<open>Node names\<close>

text \<open>The leaf of a name in the old format, behind its last \<open>/\<close>.\<close>

definition get_name_leaf :: "mem \<Rightarrow> addr \<Rightarrow> addr \<Rightarrow> addr option option" where
  "get_name_leaf m f nameptr =
     (if fdt_version m f < 16
      then map_option (map_option (\<lambda>leaf. nameptr + leaf + 1)) (strrchr (rd m nameptr) 47)
      else Some (Some nameptr))"

definition fdt_get_name :: "mem \<Rightarrow> addr \<Rightarrow> int \<Rightarrow> (addr option \<times> int) option" where
  "fdt_get_name m f nodeoffset =
     (if fdt_ro_probe' m f < 0 then Some (None, fdt_ro_probe' m f)
      else if fdt_check_node_offset' m f nodeoffset < 0
      then Some (None, fdt_check_node_offset' m f nodeoffset)
      else do {
        r \<leftarrow> get_name_leaf m f (fdt_offset_ptr' m f nodeoffset + 4);
        case r of
          None \<Rightarrow> Some (None, - FDT_ERR_BADSTRUCTURE)
        | Some nameptr \<Rightarrow> do {
            l \<leftarrow> strlen (rd m nameptr);
            Some (Some nameptr, s32 l)
          }
      })"

definition fdt_nodename_eq' :: "mem \<Rightarrow> addr \<Rightarrow> int \<Rightarrow> cptr \<Rightarrow> int \<Rightarrow> bool option" where
  "fdt_nodename_eq' m f offset s len = do {
     (r, olen) \<leftarrow> fdt_get_name m f offset;
     Some (case r of
             None \<Rightarrow> False
           | Some p \<Rightarrow>
               if olen < len then False
               else if memcmp (rd m p) s (sz len) \<noteq> 0 then False
               else if m (p + len) = 0 then True
               else if memchr s 64 (sz len) = None \<and> m (p + len) = 64 then True
               else False)
   }"

section \<open>Properties\<close>

function nextprop' :: "mem \<Rightarrow> addr \<Rightarrow> int \<Rightarrow> int" where
  "nextprop' m f offset =
     (let (tag, nextoffset) = fdt_next_tag m f offset in
      if tag = FDT_END then (if nextoffset \<ge> 0 then - FDT_ERR_BADSTRUCTURE else nextoffset)
      else if tag = FDT_PROP then offset
      else if tag = FDT_NOP then nextprop' m f nextoffset
      else - FDT_ERR_NOTFOUND)"
  by pat_completeness auto
termination
  by (relation "measure (\<lambda>(m, f, offset). walk_measure offset)") (auto intro: fdt_next_tag_less)

declare nextprop'.simps [simp del]

definition fdt_first_property_offset :: "mem \<Rightarrow> addr \<Rightarrow> int \<Rightarrow> int" where
  "fdt_first_property_offset m f nodeoffset =
     (let offset = fdt_check_node_offset' m f nodeoffset in
      if offset < 0 then offset else nextprop' m f offset)"

definition fdt_next_property_offset :: "mem \<Rightarrow> addr \<Rightarrow> int \<Rightarrow> int" where
  "fdt_next_property_offset m f offset =
     (let offset = fdt_check_prop_offset' m f offset in
      if offset < 0 then offset else nextprop' m f offset)"

text \<open>A property is its address; its fields are at 4 (\<open>len\<close>), 8 (\<open>nameoff\<close>), 12 (\<open>data\<close>).\<close>

definition fdt_get_property_by_offset' :: "mem \<Rightarrow> addr \<Rightarrow> int \<Rightarrow> addr option \<times> int" where
  "fdt_get_property_by_offset' m f offset =
     (let err = fdt_check_prop_offset' m f offset in
      if err < 0 then (None, err)
      else let prop = fdt_offset_ptr' m f offset in (Some prop, s32 (fdt32_ld' m (prop + 4))))"

definition fdt_get_property_by_offset :: "mem \<Rightarrow> addr \<Rightarrow> int \<Rightarrow> addr option \<times> int" where
  "fdt_get_property_by_offset m f offset =
     (if fdt_version m f < 16 then (None, - FDT_ERR_BADVERSION)
      else fdt_get_property_by_offset' m f offset)"

lemma nextprop'_progress:
  "is_int offset \<Longrightarrow> (nextprop' m f offset < 0 \<or> offset \<le> nextprop' m f offset) \<and> is_int (nextprop' m f offset)"
proof (induction m f offset rule: nextprop'.induct)
  case (1 m f offset)
  obtain tag nx where t: "fdt_next_tag m f offset = (tag, nx)" by fastforce
  have nx: "is_int nx" by (rule fdt_next_tag_is_int[OF t])
  show ?case
  proof (cases "tag = FDT_NOP")
    case True
    have p: "nx < 0 \<or> offset < nx" using fdt_next_tag_progress[OF t] True "1.prems" by (auto simp: s32_is_int)
    moreover have "nx < 0 \<Longrightarrow> nextprop' m f nx < 0"
      using fdt_next_tag_neg[of nx m f] nx by (simp add: nextprop'.simps[of m f nx] s32_is_int)
    moreover have "(nextprop' m f nx < 0 \<or> nx \<le> nextprop' m f nx) \<and> is_int (nextprop' m f nx)"
      using "1.IH"[of "(tag, nx)" tag nx] t True nx by simp
    ultimately show ?thesis using t True by (auto simp: nextprop'.simps[of m f offset])
  next
    case False
    with t nx "1.prems" show ?thesis by (auto simp: nextprop'.simps[of m f offset] is_int_def)
  qed
qed

lemma fdt_next_property_offset_less:
  assumes "0 \<le> offset"
  shows "loop_measure (fdt_next_property_offset m f offset) < loop_measure offset"
proof (rule loop_measure_less[OF assms])
  let ?c = "fdt_check_prop_offset' m f offset"
  have neg: "s32 offset < 0 \<Longrightarrow> ?c < 0"
    using fdt_next_tag_neg[of offset m f] by (simp add: fdt_check_prop_offset'_def)
  show "fdt_next_property_offset m f offset < 0 \<or> 0 \<le> s32 offset \<and>
        s32 offset < fdt_next_property_offset m f offset \<and> is_int (fdt_next_property_offset m f offset)"
  proof (cases "?c < 0")
    case False
    with neg fdt_check_prop_offset'_less[of m f offset] nextprop'_progress[of ?c m f] check_offset_is_int(2)[of m f offset]
    show ?thesis by (fastforce simp: fdt_next_property_offset_def)
  qed (simp add: fdt_next_property_offset_def)
qed

text \<open>The search for a property of a node by name: property, length, offset.\<close>

function get_property_loop :: "mem \<Rightarrow> addr \<Rightarrow> int \<Rightarrow> cptr \<Rightarrow> int \<Rightarrow> addr option \<times> int \<times> int" where
  "get_property_loop m f offset name namelen =
     (if offset \<ge> 0 then
        (case fdt_get_property_by_offset' m f offset of
           (None, len) \<Rightarrow> (None, - FDT_ERR_INTERNAL, offset)
         | (Some prop, len) \<Rightarrow>
             if fdt_string_eq' m f (s32 (fdt32_ld' m (prop + 8))) name namelen
             then (Some prop, len, offset)
             else get_property_loop m f (fdt_next_property_offset m f offset) name namelen)
      else (None, offset, offset))"
  by pat_completeness auto
termination
  by (relation "measure (\<lambda>(m, f, offset, name, namelen). loop_measure offset)")
     (auto intro: fdt_next_property_offset_less)

declare get_property_loop.simps [simp del]

definition fdt_get_property_namelen' ::
  "mem \<Rightarrow> addr \<Rightarrow> int \<Rightarrow> cptr \<Rightarrow> int \<Rightarrow> addr option \<times> int \<times> int" where
  "fdt_get_property_namelen' m f offset name namelen =
     get_property_loop m f (fdt_first_property_offset m f offset) name namelen"

definition fdt_get_property_namelen :: "mem \<Rightarrow> addr \<Rightarrow> int \<Rightarrow> cptr \<Rightarrow> int \<Rightarrow> addr option \<times> int" where
  "fdt_get_property_namelen m f offset name namelen =
     (if fdt_version m f < 16 then (None, - FDT_ERR_BADVERSION)
      else (case fdt_get_property_namelen' m f offset name namelen of (p, len, poffset) \<Rightarrow> (p, len)))"

definition fdt_get_property :: "mem \<Rightarrow> addr \<Rightarrow> int \<Rightarrow> cptr \<Rightarrow> (addr option \<times> int) option" where
  "fdt_get_property m f nodeoffset name = do {
     l \<leftarrow> strlen name;
     Some (fdt_get_property_namelen m f nodeoffset name (s32 l))
   }"

text \<open>The address of the data of a property, realigned for the old versions.\<close>

definition prop_data :: "mem \<Rightarrow> addr \<Rightarrow> int \<Rightarrow> addr \<Rightarrow> addr" where
  "prop_data m f poffset prop =
     (if fdt_version m f < 16 \<and> u64 (poffset + 12) mod 8 \<noteq> 0 \<and> fdt32_ld' m (prop + 4) \<ge> 8
      then prop + 12 + 4 else prop + 12)"

definition fdt_getprop_namelen :: "mem \<Rightarrow> addr \<Rightarrow> int \<Rightarrow> cptr \<Rightarrow> int \<Rightarrow> addr option \<times> int" where
  "fdt_getprop_namelen m f nodeoffset name namelen =
     (case fdt_get_property_namelen' m f nodeoffset name namelen of
        (None, len, poffset) \<Rightarrow> (None, len)
      | (Some prop, len, poffset) \<Rightarrow> (Some (prop_data m f poffset prop), len))"

text \<open>The result also holds \<open>*namep\<close>.\<close>

definition fdt_getprop_by_offset :: "mem \<Rightarrow> addr \<Rightarrow> int \<Rightarrow> addr option \<times> addr option \<times> int" where
  "fdt_getprop_by_offset m f offset =
     (case fdt_get_property_by_offset' m f offset of
        (None, len) \<Rightarrow> (None, None, len)
      | (Some prop, len) \<Rightarrow>
          (case fdt_get_string m f (s32 (fdt32_ld' m (prop + 8))) of
             (None, namelen) \<Rightarrow> (None, None, namelen)
           | (Some name, namelen) \<Rightarrow> (Some (prop_data m f offset prop), Some name, len)))"

definition fdt_getprop :: "mem \<Rightarrow> addr \<Rightarrow> int \<Rightarrow> cptr \<Rightarrow> (addr option \<times> int) option" where
  "fdt_getprop m f nodeoffset name = do {
     l \<leftarrow> strlen name;
     Some (fdt_getprop_namelen m f nodeoffset name (s32 l))
   }"

definition fdt_get_phandle :: "mem \<Rightarrow> addr \<Rightarrow> int \<Rightarrow> int option" where
  "fdt_get_phandle m f nodeoffset = do {
     (php, len) \<leftarrow> fdt_getprop m f nodeoffset (chars ''phandle'');
     if php = None \<or> len \<noteq> 4 then do {
       (php, len) \<leftarrow> fdt_getprop m f nodeoffset (chars ''linux,phandle'');
       if php = None \<or> len \<noteq> 4 then Some 0 else Some (fdt32_ld' m (the php))
     } else Some (fdt32_ld' m (the php))
   }"

end
