(* ===== verification/Fdt_Nodes.thy ===== *)
theory Fdt_Nodes
  imports Fdt_Ro
begin

text \<open>
  Finding nodes (the rest of \<open>src/src/libfdt/fdt_ro.c\<close>): by name, path, alias, phandle,
  property value and \<open>compatible\<close> string; parents and depths; string lists.
\<close>

section \<open>Subnodes and paths\<close>

function subnode_loop :: "mem \<Rightarrow> addr \<Rightarrow> int \<Rightarrow> int \<Rightarrow> cptr \<Rightarrow> int \<Rightarrow> int option" where
  "subnode_loop m f offset depth name namelen =
     (if offset \<ge> 0 \<and> depth \<ge> 0 then
        Option.bind (if depth = 1 then fdt_nodename_eq' m f offset name namelen else Some False) (\<lambda>eq.
          if eq then Some offset
          else case fdt_next_node m f offset (Some depth) of
                 (offset', depth') \<Rightarrow> subnode_loop m f offset' (the depth') name namelen)
      else if depth < 0 then Some (- FDT_ERR_NOTFOUND) else Some offset)"
  by pat_completeness auto
termination
  by (relation "measure (\<lambda>(m, f, offset, depth, name, namelen). loop_measure offset)")
     (auto intro: fdt_next_node_less)

declare subnode_loop.simps [simp del]

definition fdt_subnode_offset_namelen :: "mem \<Rightarrow> addr \<Rightarrow> int \<Rightarrow> cptr \<Rightarrow> int \<Rightarrow> int option" where
  "fdt_subnode_offset_namelen m f offset name namelen =
     (if fdt_ro_probe' m f < 0 then Some (fdt_ro_probe' m f)
      else subnode_loop m f offset 0 name namelen)"

definition fdt_subnode_offset :: "mem \<Rightarrow> addr \<Rightarrow> int \<Rightarrow> cptr \<Rightarrow> int option" where
  "fdt_subnode_offset m f parentoffset name = do {
     l \<leftarrow> strlen name;
     fdt_subnode_offset_namelen m f parentoffset name (s32 l)
   }"

text \<open>A path is walked by an index into it; \<open>endp\<close> is the end.  \<open>path_slashes\<close> is the inner
  loop, \<open>None\<close> when the slashes run to the end.\<close>

partial_function (option) path_slashes :: "cptr \<Rightarrow> int \<Rightarrow> int \<Rightarrow> int option option" where
  "path_slashes path p endp =
     (if path p = 47 then (if p + 1 = endp then Some None else path_slashes path (p + 1) endp)
      else Some (Some p))"

partial_function (option) path_loop :: "mem \<Rightarrow> addr \<Rightarrow> cptr \<Rightarrow> int \<Rightarrow> int \<Rightarrow> int \<Rightarrow> int option" where
  "path_loop m f path p endp offset =
     (if p < endp then
        Option.bind (path_slashes path p endp) (\<lambda>r.
          case r of
            None \<Rightarrow> Some offset
          | Some p \<Rightarrow>
              (let q = (case memchr (shift path p) 47 (sz (endp - p)) of None \<Rightarrow> endp | Some i \<Rightarrow> p + i) in
               Option.bind (fdt_subnode_offset_namelen m f offset (shift path p) (s32 (q - p))) (\<lambda>offset.
                 if offset < 0 then Some offset else path_loop m f path q endp offset)))
      else Some offset)"

text \<open>\<open>fdt_path_offset_namelen\<close> and \<open>fdt_get_alias_namelen\<close> call each other.  The recursion is
  at most two deep, because the alias lookup asks for an absolute path and only returns
  absolute ones; it is unrolled here, with the lookup as a parameter of the path walk, and
  \<open>fdt_path_offset_namelen_rec\<close> has the equation of the code.\<close>

definition path_offset_with ::
  "(cptr \<Rightarrow> int \<Rightarrow> addr option option) \<Rightarrow> (cptr \<Rightarrow> int option) \<Rightarrow> mem \<Rightarrow> addr \<Rightarrow> cptr \<Rightarrow> int \<Rightarrow> int option" where
  "path_offset_with alias path_offset m f path namelen =
     (if fdt_ro_probe' m f < 0 then Some (fdt_ro_probe' m f)
      else if namelen \<le> 0 then Some (- FDT_ERR_BADPATH)
      else if path 0 \<noteq> 47 then do {
        let q = (case memchr path 47 (sz namelen) of None \<Rightarrow> namelen | Some i \<Rightarrow> i);
        p \<leftarrow> alias path (s32 q);
        case p of
          None \<Rightarrow> Some (- FDT_ERR_BADPATH)
        | Some p \<Rightarrow> do {
            offset \<leftarrow> path_offset (rd m p);
            path_loop m f path q namelen offset
          }
      }
      else path_loop m f path 0 namelen 0)"

definition abs_path_offset :: "mem \<Rightarrow> addr \<Rightarrow> cptr \<Rightarrow> int option" where
  "abs_path_offset m f path = do {
     l \<leftarrow> strlen path;
     path_offset_with (\<lambda>_ _. None) (\<lambda>_. None) m f path (s32 l)
   }"

text \<open>\<open>fdt_path_getprop_namelen\<close> with its path lookup as a parameter.\<close>

definition path_getprop_with ::
  "(cptr \<Rightarrow> int option) \<Rightarrow> mem \<Rightarrow> addr \<Rightarrow> cptr \<Rightarrow> cptr \<Rightarrow> int \<Rightarrow> (addr option \<times> int) option" where
  "path_getprop_with path_offset m f path propname propnamelen = do {
     offset \<leftarrow> path_offset path;
     Some (if offset < 0 then (None, 0) else fdt_getprop_namelen m f offset propname propnamelen)
   }"

definition alias_with :: "(cptr \<Rightarrow> int option) \<Rightarrow> mem \<Rightarrow> addr \<Rightarrow> cptr \<Rightarrow> int \<Rightarrow> addr option option" where
  "alias_with path_offset m f name namelen = do {
     (alias, len) \<leftarrow> path_getprop_with path_offset m f (chars ''/aliases'') name namelen;
     Some (case alias of
             None \<Rightarrow> None
           | Some a \<Rightarrow> if len > 0 \<and> m (a + len - 1) = 0 \<and> m a = 47 then Some a else None)
   }"

definition fdt_get_alias_namelen :: "mem \<Rightarrow> addr \<Rightarrow> cptr \<Rightarrow> int \<Rightarrow> addr option option" where
  "fdt_get_alias_namelen m f = alias_with (abs_path_offset m f) m f"

definition fdt_path_offset_namelen :: "mem \<Rightarrow> addr \<Rightarrow> cptr \<Rightarrow> int \<Rightarrow> int option" where
  "fdt_path_offset_namelen m f =
     path_offset_with (fdt_get_alias_namelen m f) (abs_path_offset m f) m f"

definition fdt_path_offset :: "mem \<Rightarrow> addr \<Rightarrow> cptr \<Rightarrow> int option" where
  "fdt_path_offset m f path = do {
     l \<leftarrow> strlen path;
     fdt_path_offset_namelen m f path (s32 l)
   }"

definition fdt_path_getprop_namelen ::
  "mem \<Rightarrow> addr \<Rightarrow> cptr \<Rightarrow> cptr \<Rightarrow> int \<Rightarrow> (addr option \<times> int) option" where
  "fdt_path_getprop_namelen m f = path_getprop_with (fdt_path_offset m f) m f"

definition fdt_get_alias :: "mem \<Rightarrow> addr \<Rightarrow> cptr \<Rightarrow> addr option option" where
  "fdt_get_alias m f name = do {
     l \<leftarrow> strlen name;
     fdt_get_alias_namelen m f name (s32 l)
   }"

definition fdt_get_symbol_namelen :: "mem \<Rightarrow> addr \<Rightarrow> cptr \<Rightarrow> int \<Rightarrow> addr option option" where
  "fdt_get_symbol_namelen m f name namelen =
     map_option fst (fdt_path_getprop_namelen m f (chars ''/__symbols__'') name namelen)"

definition fdt_get_symbol :: "mem \<Rightarrow> addr \<Rightarrow> cptr \<Rightarrow> addr option option" where
  "fdt_get_symbol m f name = do {
     l \<leftarrow> strlen name;
     fdt_get_symbol_namelen m f name (s32 l)
   }"

section \<open>Parents, depths and the path of a node\<close>

text \<open>What a search that walks all nodes up to \<open>nodeoffset\<close> returns when it falls through.\<close>

definition walk_error :: "int \<Rightarrow> int" where
  "walk_error offset =
     (if offset = - FDT_ERR_NOTFOUND \<or> offset \<ge> 0 then - FDT_ERR_BADOFFSET
      else if offset = - FDT_ERR_BADOFFSET then - FDT_ERR_BADSTRUCTURE
      else offset)"

function supernode_loop :: "mem \<Rightarrow> addr \<Rightarrow> int \<Rightarrow> int \<Rightarrow> int \<Rightarrow> int \<Rightarrow> int \<Rightarrow> int \<times> int option" where
  "supernode_loop m f offset depth nodeoffset supernodedepth supernodeoffset =
     (if offset \<ge> 0 \<and> offset \<le> nodeoffset then
        (let supernodeoffset = (if depth = supernodedepth then offset else supernodeoffset) in
         if offset = nodeoffset then
           (if supernodedepth > depth then (- FDT_ERR_NOTFOUND, Some depth)
            else (supernodeoffset, Some depth))
         else case fdt_next_node m f offset (Some depth) of
                (offset', depth') \<Rightarrow>
                  supernode_loop m f offset' (the depth') nodeoffset supernodedepth supernodeoffset)
      else (walk_error offset, None))"
  by pat_completeness auto
termination
  by (relation "measure (\<lambda>(m, f, offset, _). loop_measure offset)") (auto intro: fdt_next_node_less)

declare supernode_loop.simps [simp del]

text \<open>The second component is what is stored through \<open>nodedepth\<close>, if anything.\<close>

definition fdt_supernode_atdepth_offset :: "mem \<Rightarrow> addr \<Rightarrow> int \<Rightarrow> int \<Rightarrow> int \<times> int option" where
  "fdt_supernode_atdepth_offset m f nodeoffset supernodedepth =
     (if fdt_ro_probe' m f < 0 then (fdt_ro_probe' m f, None)
      else if supernodedepth < 0 then (- FDT_ERR_NOTFOUND, None)
      else supernode_loop m f 0 0 nodeoffset supernodedepth (- FDT_ERR_INTERNAL))"

definition fdt_node_depth :: "mem \<Rightarrow> addr \<Rightarrow> int \<Rightarrow> int" where
  "fdt_node_depth m f nodeoffset =
     (case fdt_supernode_atdepth_offset m f nodeoffset 0 of
        (err, nodedepth) \<Rightarrow>
          if err \<noteq> 0 then (if err < 0 then err else - FDT_ERR_INTERNAL) else the nodedepth)"

definition fdt_parent_offset :: "mem \<Rightarrow> addr \<Rightarrow> int \<Rightarrow> int" where
  "fdt_parent_offset m f nodeoffset =
     (let nodedepth = fdt_node_depth m f nodeoffset in
      if nodedepth < 0 then nodedepth
      else fst (fdt_supernode_atdepth_offset m f nodeoffset (nodedepth - 1)))"

text \<open>\<open>fdt_get_path\<close> writes to \<open>buf\<close> as it walks; the tree is read from the memory as it is
  then.\<close>

partial_function (option) get_path_back :: "mem \<Rightarrow> addr \<Rightarrow> int \<Rightarrow> int option" where
  "get_path_back m buf p =
     (let p = p - 1 in if m (buf + p - 1) \<noteq> 47 then get_path_back m buf p else Some p)"

partial_function (option) get_path_up :: "mem \<Rightarrow> addr \<Rightarrow> int \<Rightarrow> int \<Rightarrow> int \<Rightarrow> (int \<times> int) option" where
  "get_path_up m buf p pdepth depth =
     (if pdepth > depth then
        Option.bind (get_path_back m buf p) (\<lambda>p. get_path_up m buf p (pdepth - 1) depth)
      else Some (p, pdepth))"

definition get_path_enter ::
  "mem \<Rightarrow> addr \<Rightarrow> int \<Rightarrow> addr \<Rightarrow> int \<Rightarrow> int \<Rightarrow> int \<Rightarrow> int \<Rightarrow> (int + mem \<times> int \<times> int) option" where
  "get_path_enter m f offset buf buflen p pdepth depth =
     (if pdepth \<ge> depth then do {
        (name, namelen) \<leftarrow> fdt_get_name m f offset;
        Some (case name of
                None \<Rightarrow> Inl namelen
              | Some nm \<Rightarrow>
                  if p + namelen + 1 \<le> buflen
                  then Inr ((memcpy m (buf + p) nm (sz namelen))(buf + p + namelen := 47),
                            p + namelen + 1, pdepth + 1)
                  else Inr (m, p, pdepth))
      } else Some (Inr (m, p, pdepth)))"

partial_function (option) get_path_loop ::
  "mem \<Rightarrow> addr \<Rightarrow> int \<Rightarrow> int \<Rightarrow> int \<Rightarrow> addr \<Rightarrow> int \<Rightarrow> int \<Rightarrow> int \<Rightarrow> (int \<times> mem) option" where
  "get_path_loop m f offset depth nodeoffset buf buflen p pdepth =
     (if offset \<ge> 0 \<and> offset \<le> nodeoffset then
        Option.bind (get_path_up m buf p pdepth depth) (\<lambda>pp.
        Option.bind (get_path_enter m f offset buf buflen (fst pp) (snd pp) depth) (\<lambda>r.
          case r of
            Inl err \<Rightarrow> Some (err, m)
          | Inr (m, p, pdepth) \<Rightarrow>
              if offset = nodeoffset then
                (if pdepth < depth + 1 then Some (- FDT_ERR_NOSPACE, m)
                 else let p = (if p > 1 then p - 1 else p) in Some (0, m(buf + p := 0)))
              else (case fdt_next_node m f offset (Some depth) of
                      (offset', depth') \<Rightarrow>
                        get_path_loop m f offset' (the depth') nodeoffset buf buflen p pdepth)))
      else Some (walk_error offset, m))"

definition fdt_get_path :: "mem \<Rightarrow> addr \<Rightarrow> int \<Rightarrow> addr \<Rightarrow> int \<Rightarrow> (int \<times> mem) option" where
  "fdt_get_path m f nodeoffset buf buflen =
     (if fdt_ro_probe' m f < 0 then Some (fdt_ro_probe' m f, m)
      else if buflen < 2 then Some (- FDT_ERR_NOSPACE, m)
      else get_path_loop m f 0 0 nodeoffset buf buflen 0 0)"

section \<open>Searching all nodes\<close>

text \<open>The loops call \<open>fdt_next_node\<close> from \<open>startoffset\<close>, which may be \<open>-1\<close>, until it returns a
  negative number.  \<open>search_nodes\<close> is this loop for a test that decides a node: \<open>Some r\<close> to
  stop with \<open>r\<close>.\<close>

function search_nodes :: "mem \<Rightarrow> addr \<Rightarrow> (int \<Rightarrow> int option option) \<Rightarrow> int \<Rightarrow> int option" where
  "search_nodes m f test offset =
     (case fdt_next_node m f offset None of
        (offset', _) \<Rightarrow>
          if offset' \<ge> 0 then
            Option.bind (test offset') (\<lambda>r.
              case r of Some res \<Rightarrow> Some res | None \<Rightarrow> search_nodes m f test offset')
          else Some offset')"
  by pat_completeness auto
termination
  by (relation "measure (\<lambda>(m, f, test, offset). start_measure offset)")
     (auto intro: fdt_next_node_start_less)

declare search_nodes.simps [simp del]

definition prop_value_test :: "mem \<Rightarrow> addr \<Rightarrow> cptr \<Rightarrow> cptr \<Rightarrow> int \<Rightarrow> int \<Rightarrow> int option option" where
  "prop_value_test m f propname propval proplen offset = do {
     (val, len) \<leftarrow> fdt_getprop m f offset propname;
     Some (case val of
             None \<Rightarrow> None
           | Some v \<Rightarrow> if len = proplen \<and> memcmp (rd m v) propval (sz len) = 0 then Some offset else None)
   }"

definition fdt_node_offset_by_prop_value ::
  "mem \<Rightarrow> addr \<Rightarrow> int \<Rightarrow> cptr \<Rightarrow> cptr \<Rightarrow> int \<Rightarrow> int option" where
  "fdt_node_offset_by_prop_value m f startoffset propname propval proplen =
     (if fdt_ro_probe' m f < 0 then Some (fdt_ro_probe' m f)
      else search_nodes m f (prop_value_test m f propname propval proplen) startoffset)"

definition phandle_test :: "mem \<Rightarrow> addr \<Rightarrow> int \<Rightarrow> int \<Rightarrow> int option option" where
  "phandle_test m f phandle offset = do {
     p \<leftarrow> fdt_get_phandle m f offset;
     Some (if p = phandle then Some offset else None)
   }"

definition fdt_node_offset_by_phandle :: "mem \<Rightarrow> addr \<Rightarrow> int \<Rightarrow> int option" where
  "fdt_node_offset_by_phandle m f phandle =
     (if phandle = 0 \<or> phandle = 0xffffffff then Some (- FDT_ERR_BADPHANDLE)
      else if fdt_ro_probe' m f < 0 then Some (fdt_ro_probe' m f)
      else search_nodes m f (phandle_test m f phandle) (- 1))"

text \<open>The largest phandle: \<open>Inr\<close> the value stored through \<open>phandle\<close>, \<open>Inl\<close> the error returned.\<close>

function max_phandle_loop :: "mem \<Rightarrow> addr \<Rightarrow> int \<Rightarrow> int \<Rightarrow> (int + int) option" where
  "max_phandle_loop m f offset mx =
     (case fdt_next_node m f offset None of
        (offset', _) \<Rightarrow>
          if offset' \<ge> 0 then
            Option.bind (fdt_get_phandle m f offset') (\<lambda>val.
              max_phandle_loop m f offset' (if val > mx then val else mx))
          else if offset' = - FDT_ERR_NOTFOUND then Some (Inr mx) else Some (Inl offset'))"
  by pat_completeness auto
termination
  by (relation "measure (\<lambda>(m, f, offset, mx). start_measure offset)")
     (auto intro: fdt_next_node_start_less)

declare max_phandle_loop.simps [simp del]

definition fdt_find_max_phandle :: "mem \<Rightarrow> addr \<Rightarrow> (int + int) option" where
  "fdt_find_max_phandle m f = max_phandle_loop m f (- 1) 0"

definition fdt_generate_phandle :: "mem \<Rightarrow> addr \<Rightarrow> (int + int) option" where
  "fdt_generate_phandle m f = do {
     r \<leftarrow> fdt_find_max_phandle m f;
     Some (case r of
             Inl err \<Rightarrow> Inl err
           | Inr mx \<Rightarrow> if mx = FDT_MAX_PHANDLE then Inl (- FDT_ERR_NOPHANDLES) else Inr (u32 (mx + 1)))
   }"

section \<open>String lists\<close>

partial_function (option) contains_loop :: "cptr \<Rightarrow> int \<Rightarrow> int \<Rightarrow> cptr \<Rightarrow> int option" where
  "contains_loop strlist listlen len s =
     (if listlen \<ge> len then
        (if memcmp s strlist (sz (len + 1)) = 0 then Some 1
         else case memchr strlist 0 (sz listlen) of
                None \<Rightarrow> Some 0
              | Some p \<Rightarrow> contains_loop (shift strlist (p + 1)) (s32 (listlen - (p + 1))) len s)
      else Some 0)"

definition fdt_stringlist_contains :: "cptr \<Rightarrow> int \<Rightarrow> cptr \<Rightarrow> int option" where
  "fdt_stringlist_contains strlist listlen s = do {
     l \<leftarrow> strlen s;
     contains_loop strlist listlen (s32 l) s
   }"

partial_function (option) stringlist_count_loop :: "mem \<Rightarrow> addr \<Rightarrow> addr \<Rightarrow> int \<Rightarrow> int option" where
  "stringlist_count_loop m l endp cnt =
     (if l < endp then
        (let len = s32 (strnlen (rd m l) (sz (endp - l)) + 1) in
         if l + len > endp then Some (- FDT_ERR_BADVALUE)
         else stringlist_count_loop m (l + len) endp (cnt + 1))
      else Some cnt)"

definition fdt_stringlist_count :: "mem \<Rightarrow> addr \<Rightarrow> int \<Rightarrow> cptr \<Rightarrow> int option" where
  "fdt_stringlist_count m f nodeoffset property = do {
     (l, len) \<leftarrow> fdt_getprop m f nodeoffset property;
     case l of None \<Rightarrow> Some len | Some l \<Rightarrow> stringlist_count_loop m l (l + len) 0
   }"

partial_function (option) stringlist_search_loop ::
  "mem \<Rightarrow> addr \<Rightarrow> addr \<Rightarrow> cptr \<Rightarrow> int \<Rightarrow> int \<Rightarrow> int option" where
  "stringlist_search_loop m l endp s len idx =
     (if l < endp then
        (let len' = s32 (strnlen (rd m l) (sz (endp - l)) + 1) in
         if l + len' > endp then Some (- FDT_ERR_BADVALUE)
         else if len' = len \<and> memcmp (rd m l) s (sz len') = 0 then Some idx
         else stringlist_search_loop m (l + len') endp s len (idx + 1))
      else Some (- FDT_ERR_NOTFOUND))"

definition fdt_stringlist_search :: "mem \<Rightarrow> addr \<Rightarrow> int \<Rightarrow> cptr \<Rightarrow> cptr \<Rightarrow> int option" where
  "fdt_stringlist_search m f nodeoffset property s = do {
     (l, len) \<leftarrow> fdt_getprop m f nodeoffset property;
     case l of
       None \<Rightarrow> Some len
     | Some l \<Rightarrow> do {
         n \<leftarrow> strlen s;
         stringlist_search_loop m l (l + len) s (s32 (n + 1)) 0
       }
   }"

partial_function (option) stringlist_get_loop ::
  "mem \<Rightarrow> addr \<Rightarrow> addr \<Rightarrow> int \<Rightarrow> (addr option \<times> int) option" where
  "stringlist_get_loop m l endp idx =
     (if l < endp then
        (let len = s32 (strnlen (rd m l) (sz (endp - l)) + 1) in
         if l + len > endp then Some (None, - FDT_ERR_BADVALUE)
         else if idx = 0 then Some (Some l, len - 1)
         else stringlist_get_loop m (l + len) endp (idx - 1))
      else Some (None, - FDT_ERR_NOTFOUND))"

definition fdt_stringlist_get :: "mem \<Rightarrow> addr \<Rightarrow> int \<Rightarrow> cptr \<Rightarrow> int \<Rightarrow> (addr option \<times> int) option" where
  "fdt_stringlist_get m f nodeoffset property idx = do {
     (l, len) \<leftarrow> fdt_getprop m f nodeoffset property;
     case l of None \<Rightarrow> Some (None, len) | Some l \<Rightarrow> stringlist_get_loop m l (l + len) idx
   }"

definition fdt_node_check_compatible :: "mem \<Rightarrow> addr \<Rightarrow> int \<Rightarrow> cptr \<Rightarrow> int option" where
  "fdt_node_check_compatible m f nodeoffset compatible = do {
     (prop, len) \<leftarrow> fdt_getprop m f nodeoffset (chars ''compatible'');
     case prop of
       None \<Rightarrow> Some len
     | Some p \<Rightarrow> do {
         r \<leftarrow> fdt_stringlist_contains (rd m p) len compatible;
         Some (if r = 0 then 1 else 0)
       }
   }"

definition compatible_test :: "mem \<Rightarrow> addr \<Rightarrow> cptr \<Rightarrow> int \<Rightarrow> int option option" where
  "compatible_test m f compatible offset = do {
     err \<leftarrow> fdt_node_check_compatible m f offset compatible;
     Some (if err < 0 \<and> err \<noteq> - FDT_ERR_NOTFOUND then Some err
           else if err = 0 then Some offset else None)
   }"

definition fdt_node_offset_by_compatible :: "mem \<Rightarrow> addr \<Rightarrow> int \<Rightarrow> cptr \<Rightarrow> int option" where
  "fdt_node_offset_by_compatible m f startoffset compatible =
     (if fdt_ro_probe' m f < 0 then Some (fdt_ro_probe' m f)
      else search_nodes m f (compatible_test m f compatible) startoffset)"

section \<open>The equations of the code\<close>

lemma path_offset_with_abs:
  "path 0 = 47 \<Longrightarrow> path_offset_with a p m f path n = path_offset_with a' p' m f path n"
  by (simp add: path_offset_with_def)

lemma fdt_path_offset_abs:
  assumes "path 0 = 47"
  shows "fdt_path_offset m f path = abs_path_offset m f path"
  unfolding fdt_path_offset_def abs_path_offset_def fdt_path_offset_namelen_def
  using path_offset_with_abs[of path, OF assms] by (intro Option.bind_cong refl) blast

lemma alias_with_path_offset: "alias_with (fdt_path_offset m f) m f = alias_with (abs_path_offset m f) m f"
  by (intro ext) (simp add: alias_with_def path_getprop_with_def fdt_path_offset_abs chars_def str_def lit_def)

lemma alias_with_absolute: "alias_with po m f name n = Some (Some a) \<Longrightarrow> rd m a 0 = 47"
  by (auto simp: alias_with_def split: bind_splits option.splits if_splits)

lemma fdt_path_offset_namelen_rec:
  "fdt_path_offset_namelen m f path n =
     path_offset_with (alias_with (fdt_path_offset m f) m f) (fdt_path_offset m f) m f path n"
proof -
  have "fdt_path_offset m f (rd m a) = abs_path_offset m f (rd m a)"
    if "alias_with (abs_path_offset m f) m f name k = Some (Some a)" for name k a
    using fdt_path_offset_abs[of "rd m a", OF alias_with_absolute[OF that]] .
  then show ?thesis
    unfolding fdt_path_offset_namelen_def alias_with_path_offset fdt_get_alias_namelen_def path_offset_with_def
    by (auto simp: Let_def split: option.splits intro!: Option.bind_cong)
qed

end
