(* ===== verification/Fdt_Wip.thy ===== *)
theory Fdt_Wip
  imports Fdt_Nodes
begin

text \<open>
  Writing in place (\<open>src/src/libfdt/fdt_wip.c\<close>) and the error names
  (\<open>src/src/libfdt/fdt_strerror.c\<close>).

  A function that writes the tree returns the memory with its \<open>int\<close>.  Names and values are
  \<^typ>\<open>cptr\<close>s outside of the tree.
\<close>

definition fdt_setprop_inplace_namelen_partial ::
  "mem \<Rightarrow> addr \<Rightarrow> int \<Rightarrow> cptr \<Rightarrow> int \<Rightarrow> int \<Rightarrow> cptr \<Rightarrow> int \<Rightarrow> int \<times> mem" where
  "fdt_setprop_inplace_namelen_partial m f nodeoffset name namelen idx val len =
     (case fdt_getprop_namelen m f nodeoffset name namelen of
        (None, proplen) \<Rightarrow> (proplen, m)
      | (Some propval, proplen) \<Rightarrow>
          if u32 proplen < u32 (len + idx) then (- FDT_ERR_NOSPACE, m)
          else (0, memcpy_from m (propval + idx) val (sz len)))"

definition fdt_setprop_inplace ::
  "mem \<Rightarrow> addr \<Rightarrow> int \<Rightarrow> cptr \<Rightarrow> cptr \<Rightarrow> int \<Rightarrow> (int \<times> mem) option" where
  "fdt_setprop_inplace m f nodeoffset name val len = do {
     (propval, proplen) \<leftarrow> fdt_getprop m f nodeoffset name;
     if propval = None then Some (proplen, m)
     else if proplen \<noteq> len then Some (- FDT_ERR_NOSPACE, m)
     else do {
       l \<leftarrow> strlen name;
       Some (fdt_setprop_inplace_namelen_partial m f nodeoffset name (s32 l) 0 val len)
     }
   }"

text \<open>The \<open>_u32\<close>, \<open>_u64\<close> and \<open>_cell\<close> wrappers of \<open>libfdt.h\<close> pass the bytes of a swapped local.\<close>

definition cell32 :: "int \<Rightarrow> cptr" where
  "cell32 val = lit (map (extract_byte (cpu_to_fdt32 (word_of_int val))) [0, 1, 2, 3])"

definition cell64 :: "int \<Rightarrow> cptr" where
  "cell64 val = lit (map (extract_byte (cpu_to_fdt64 (word_of_int val))) [0, 1, 2, 3, 4, 5, 6, 7])"

definition fdt_setprop_inplace_u32 :: "mem \<Rightarrow> addr \<Rightarrow> int \<Rightarrow> cptr \<Rightarrow> int \<Rightarrow> (int \<times> mem) option" where
  "fdt_setprop_inplace_u32 m f nodeoffset name val = fdt_setprop_inplace m f nodeoffset name (cell32 val) 4"

definition fdt_setprop_inplace_u64 :: "mem \<Rightarrow> addr \<Rightarrow> int \<Rightarrow> cptr \<Rightarrow> int \<Rightarrow> (int \<times> mem) option" where
  "fdt_setprop_inplace_u64 m f nodeoffset name val = fdt_setprop_inplace m f nodeoffset name (cell64 val) 8"

definition fdt_setprop_inplace_cell :: "mem \<Rightarrow> addr \<Rightarrow> int \<Rightarrow> cptr \<Rightarrow> int \<Rightarrow> (int \<times> mem) option" where
  "fdt_setprop_inplace_cell = fdt_setprop_inplace_u32"

function fdt_nop_region' :: "mem \<Rightarrow> addr \<Rightarrow> addr \<Rightarrow> mem" where
  "fdt_nop_region' m p endp =
     (if p < endp then fdt_nop_region' (store32 m p (cpu_to_fdt32 (word_of_int FDT_NOP))) (p + 4) endp
      else m)"
  by pat_completeness auto
termination
  by (relation "measure (\<lambda>(m, p, endp). nat (endp - p))") auto

declare fdt_nop_region'.simps [simp del]

definition fdt_nop_property :: "mem \<Rightarrow> addr \<Rightarrow> int \<Rightarrow> cptr \<Rightarrow> (int \<times> mem) option" where
  "fdt_nop_property m f nodeoffset name = do {
     (prop, len) \<leftarrow> fdt_get_property m f nodeoffset name;
     Some (case prop of
             None \<Rightarrow> (len, m)
           | Some p \<Rightarrow> (0, fdt_nop_region' m p (p + s32 (len + 12))))
   }"

function node_end_loop :: "mem \<Rightarrow> addr \<Rightarrow> int \<Rightarrow> int \<Rightarrow> int" where
  "node_end_loop m f offset depth =
     (if offset \<ge> 0 \<and> depth \<ge> 0 then
        (case fdt_next_node m f offset (Some depth) of
           (offset', depth') \<Rightarrow> node_end_loop m f offset' (the depth'))
      else offset)"
  by pat_completeness auto
termination
  by (relation "measure (\<lambda>(m, f, offset, depth). loop_measure offset)") (auto intro: fdt_next_node_less)

declare node_end_loop.simps [simp del]

definition fdt_node_end_offset' :: "mem \<Rightarrow> addr \<Rightarrow> int \<Rightarrow> int" where
  "fdt_node_end_offset' m f offset = node_end_loop m f offset 0"

definition fdt_nop_node :: "mem \<Rightarrow> addr \<Rightarrow> int \<Rightarrow> int \<times> mem" where
  "fdt_nop_node m f nodeoffset =
     (let endoffset = fdt_node_end_offset' m f nodeoffset in
      if endoffset < 0 then (endoffset, m)
      else let start = (case fdt_offset_ptr m f nodeoffset 0 of None \<Rightarrow> 0 | Some p \<Rightarrow> p)
           in (0, fdt_nop_region' m start (start + (endoffset - nodeoffset))))"

section \<open>Error names\<close>

definition fdt_errtable :: "string option list" where
  "fdt_errtable =
     [None, Some ''FDT_ERR_NOTFOUND'', Some ''FDT_ERR_EXISTS'', Some ''FDT_ERR_NOSPACE'',
      Some ''FDT_ERR_BADOFFSET'', Some ''FDT_ERR_BADPATH'', Some ''FDT_ERR_BADPHANDLE'',
      Some ''FDT_ERR_BADSTATE'', Some ''FDT_ERR_TRUNCATED'', Some ''FDT_ERR_BADMAGIC'',
      Some ''FDT_ERR_BADVERSION'', Some ''FDT_ERR_BADSTRUCTURE'', Some ''FDT_ERR_BADLAYOUT'',
      Some ''FDT_ERR_INTERNAL'', Some ''FDT_ERR_BADNCELLS'', Some ''FDT_ERR_BADVALUE'',
      Some ''FDT_ERR_BADOVERLAY'', Some ''FDT_ERR_NOPHANDLES'', Some ''FDT_ERR_BADFLAGS'',
      Some ''FDT_ERR_ALIGNMENT'']"

definition fdt_strerror :: "int \<Rightarrow> string" where
  "fdt_strerror errval =
     (if errval > 0 then ''<valid offset/length>''
      else if errval = 0 then ''<no error>''
      else if s32 (- errval) < int (length fdt_errtable) then
        (case fdt_errtable ! nat (- errval) of Some s \<Rightarrow> s | None \<Rightarrow> ''<unknown error>'')
      else ''<unknown error>'')"

end
