(* ===== verification/Fdt_Rw.thy ===== *)
theory Fdt_Rw
  imports Fdt_Wip
begin

text \<open>
  Growing and shrinking a tree (\<open>src/src/libfdt/fdt_rw.c\<close>).  Every edit is a splice: the
  bytes behind the splice point move, and the header follows.
\<close>

section \<open>Probing and splicing\<close>

definition fdt_blocks_misordered' :: "mem \<Rightarrow> addr \<Rightarrow> int \<Rightarrow> int \<Rightarrow> bool" where
  "fdt_blocks_misordered' m f mem_rsv_size struct_size \<longleftrightarrow>
     fdt_off_mem_rsvmap m f < FDT_ALIGN 40 8 \<or>
     fdt_off_dt_struct m f < u32 (fdt_off_mem_rsvmap m f + mem_rsv_size) \<or>
     fdt_off_dt_strings m f < u32 (fdt_off_dt_struct m f + struct_size) \<or>
     fdt_totalsize m f < u32 (fdt_off_dt_strings m f + fdt_size_dt_strings m f)"

definition fdt_rw_probe' :: "mem \<Rightarrow> addr \<Rightarrow> int \<times> mem" where
  "fdt_rw_probe' m f =
     (if fdt_ro_probe' m f < 0 then (fdt_ro_probe' m f, m)
      else if fdt_version m f < 17 then (- FDT_ERR_BADVERSION, m)
      else if fdt_blocks_misordered' m f 16 (s32 (fdt_size_dt_struct m f)) then (- FDT_ERR_BADLAYOUT, m)
      else if fdt_version m f > 17 then (0, fdt_set_version m f 17)
      else (0, m))"

definition fdt_data_size' :: "mem \<Rightarrow> addr \<Rightarrow> int" where
  "fdt_data_size' m f = u32 (fdt_off_dt_strings m f + fdt_size_dt_strings m f)"

definition fdt_splice' :: "mem \<Rightarrow> addr \<Rightarrow> addr \<Rightarrow> int \<Rightarrow> int \<Rightarrow> int \<times> mem" where
  "fdt_splice' m f p oldlen newlen =
     (let dsize = fdt_data_size' m f;
          soff = u64 (p - f)
      in if oldlen < 0 \<or> u64 (soff + oldlen) < soff \<or> u64 (soff + oldlen) > dsize
         then (- FDT_ERR_BADOFFSET, m)
         else if p < f \<or> u32 (dsize + newlen) < u32 oldlen then (- FDT_ERR_BADOFFSET, m)
         else if u32 (dsize - oldlen + newlen) > fdt_totalsize m f then (- FDT_ERR_NOSPACE, m)
         else (0, memmove m (p + newlen) (p + oldlen) (sz ((f + dsize) - (p + oldlen)))))"

definition fdt_splice_mem_rsv' :: "mem \<Rightarrow> addr \<Rightarrow> addr \<Rightarrow> int \<Rightarrow> int \<Rightarrow> int \<times> mem" where
  "fdt_splice_mem_rsv' m f p oldn newn =
     (let delta = s32 ((newn - oldn) * 16);
          (err, m) = fdt_splice' m f p (s32 (oldn * 16)) (s32 (newn * 16))
      in if err \<noteq> 0 then (err, m)
         else let m = fdt_set_off_dt_struct m f (fdt_off_dt_struct m f + delta);
                  m = fdt_set_off_dt_strings m f (fdt_off_dt_strings m f + delta)
              in (0, m))"

definition fdt_splice_struct' :: "mem \<Rightarrow> addr \<Rightarrow> addr \<Rightarrow> int \<Rightarrow> int \<Rightarrow> int \<times> mem" where
  "fdt_splice_struct' m f p oldlen newlen =
     (let delta = newlen - oldlen;
          (err, m) = fdt_splice' m f p oldlen newlen
      in if err \<noteq> 0 then (err, m)
         else let m = fdt_set_size_dt_struct m f (fdt_size_dt_struct m f + delta);
                  m = fdt_set_off_dt_strings m f (fdt_off_dt_strings m f + delta)
              in (0, m))"

definition fdt_del_last_string' :: "mem \<Rightarrow> addr \<Rightarrow> cptr \<Rightarrow> mem option" where
  "fdt_del_last_string' m f s = do {
     l \<leftarrow> strlen s;
     let newlen = s32 (l + 1);
     Some (fdt_set_size_dt_strings m f (fdt_size_dt_strings m f - newlen))
   }"

definition fdt_splice_string' :: "mem \<Rightarrow> addr \<Rightarrow> int \<Rightarrow> int \<times> mem" where
  "fdt_splice_string' m f newlen =
     (let p = f + fdt_off_dt_strings m f + fdt_size_dt_strings m f;
          (err, m) = fdt_splice' m f p 0 newlen
      in if err \<noteq> 0 then (err, m)
         else (0, fdt_set_size_dt_strings m f (fdt_size_dt_strings m f + newlen)))"

text \<open>The offset of the string in the table or an error, and \<open>*allocated\<close>.\<close>

definition fdt_find_add_string' :: "mem \<Rightarrow> addr \<Rightarrow> cptr \<Rightarrow> (int \<times> bool \<times> mem) option" where
  "fdt_find_add_string' m f s = do {
     let strtab = f + fdt_off_dt_strings m f;
     l \<leftarrow> strlen s;
     let len = s32 (l + 1);
     r \<leftarrow> fdt_find_string' m strtab (s32 (fdt_size_dt_strings m f)) s;
     case r of
       Some p \<Rightarrow> Some (s32 (p - strtab), False, m)
     | None \<Rightarrow>
         (let new = strtab + fdt_size_dt_strings m f;
              (err, m) = fdt_splice_string' m f len
          in if err \<noteq> 0 then Some (err, False, m)
             else Some (s32 (new - strtab), True, memcpy_from m new s (sz len)))
   }"

section \<open>Memory reservations\<close>

definition fdt_add_mem_rsv :: "mem \<Rightarrow> addr \<Rightarrow> int \<Rightarrow> int \<Rightarrow> (int \<times> mem) option" where
  "fdt_add_mem_rsv m f address bytes =
     (let (err, m) = fdt_rw_probe' m f in
      if err \<noteq> 0 then Some (err, m)
      else do {
        n \<leftarrow> fdt_num_mem_rsv m f;
        let re = fdt_mem_rsv' m f n;
        let (err, m) = fdt_splice_mem_rsv' m f re 0 1;
        if err \<noteq> 0 then Some (err, m)
        else do {
          let m = store64 m re (cpu_to_fdt64 (word_of_int address));
          Some (0, store64 m (re + 8) (cpu_to_fdt64 (word_of_int bytes)))
        }
      })"

definition fdt_del_mem_rsv :: "mem \<Rightarrow> addr \<Rightarrow> int \<Rightarrow> (int \<times> mem) option" where
  "fdt_del_mem_rsv m f n =
     (let re = fdt_mem_rsv' m f n;
          (err, m) = fdt_rw_probe' m f
      in if err \<noteq> 0 then Some (err, m)
         else do {
           k \<leftarrow> fdt_num_mem_rsv m f;
           if n \<ge> k then Some (- FDT_ERR_NOTFOUND, m) else Some (fdt_splice_mem_rsv' m f re 1 0)
         })"

section \<open>Properties\<close>

text \<open>The result is \<open>(err, *prop, memory)\<close>; \<open>*prop\<close> is only used when \<open>err\<close> is 0.\<close>

definition fdt_resize_property' ::
  "mem \<Rightarrow> addr \<Rightarrow> int \<Rightarrow> cptr \<Rightarrow> int \<Rightarrow> (int \<times> addr \<times> mem) option" where
  "fdt_resize_property' m f nodeoffset name len = do {
     (prop, oldlen) \<leftarrow> fdt_get_property m f nodeoffset name;
     case prop of
       None \<Rightarrow> Some (oldlen, 0, m)
     | Some p \<Rightarrow>
         (let (err, m) = fdt_splice_struct' m f (p + 12) (FDT_TAGALIGN oldlen) (FDT_TAGALIGN len)
          in if err \<noteq> 0 then Some (err, p, m)
             else Some (0, p, store32 m (p + 4) (cpu_to_fdt32 (word_of_int len))))
   }"

definition fdt_add_property' ::
  "mem \<Rightarrow> addr \<Rightarrow> int \<Rightarrow> cptr \<Rightarrow> int \<Rightarrow> (int \<times> addr \<times> mem) option" where
  "fdt_add_property' m f nodeoffset name len =
     (let nextoffset = fdt_check_node_offset' m f nodeoffset in
      if nextoffset < 0 then Some (nextoffset, 0, m)
      else do {
        (namestroff, allocated, m) \<leftarrow> fdt_find_add_string' m f name;
        if namestroff < 0 then Some (namestroff, 0, m)
        else do {
          let prop = fdt_offset_ptr' m f nextoffset;
          let proplen = s32 (12 + FDT_ALIGN len FDT_TAGSIZE);
          let (err, m) = fdt_splice_struct' m f prop 0 proplen;
          if err \<noteq> 0 then
            (if allocated then do {
               m \<leftarrow> fdt_del_last_string' m f name;
               Some (err, prop, m)
             } else Some (err, prop, m))
          else do {
            let m = store32 m prop (cpu_to_fdt32 (word_of_int FDT_PROP));
            let m = store32 m (prop + 8) (cpu_to_fdt32 (word_of_int namestroff));
            Some (0, prop, store32 m (prop + 4) (cpu_to_fdt32 (word_of_int len)))
          }
        }
      })"

definition fdt_set_name :: "mem \<Rightarrow> addr \<Rightarrow> int \<Rightarrow> cptr \<Rightarrow> (int \<times> mem) option" where
  "fdt_set_name m f nodeoffset name =
     (let (err, m) = fdt_rw_probe' m f in
      if err \<noteq> 0 then Some (err, m)
      else do {
        (namep, oldlen) \<leftarrow> fdt_get_name m f nodeoffset;
        case namep of
          None \<Rightarrow> Some (oldlen, m)
        | Some p \<Rightarrow> do {
            l \<leftarrow> strlen name;
            let newlen = s32 l;
            let (err, m) = fdt_splice_struct' m f p (FDT_TAGALIGN (oldlen + 1)) (FDT_TAGALIGN (newlen + 1));
            if err \<noteq> 0 then Some (err, m)
            else Some (0, memcpy_from m p name (sz (newlen + 1)))
          }
      })"

definition fdt_setprop_placeholder ::
  "mem \<Rightarrow> addr \<Rightarrow> int \<Rightarrow> cptr \<Rightarrow> int \<Rightarrow> (int \<times> addr \<times> mem) option" where
  "fdt_setprop_placeholder m f nodeoffset name len =
     (let (err, m) = fdt_rw_probe' m f in
      if err \<noteq> 0 then Some (err, 0, m)
      else do {
        (err, prop, m) \<leftarrow> fdt_resize_property' m f nodeoffset name len;
        (err, prop, m) \<leftarrow>
          (if err = - FDT_ERR_NOTFOUND then fdt_add_property' m f nodeoffset name len
           else Some (err, prop, m));
        if err \<noteq> 0 then Some (err, 0, m) else Some (0, prop + 12, m)
      })"

definition fdt_setprop ::
  "mem \<Rightarrow> addr \<Rightarrow> int \<Rightarrow> cptr \<Rightarrow> cptr \<Rightarrow> int \<Rightarrow> (int \<times> mem) option" where
  "fdt_setprop m f nodeoffset name val len = do {
     (err, prop_data, m) \<leftarrow> fdt_setprop_placeholder m f nodeoffset name len;
     if err \<noteq> 0 then Some (err, m)
     else if len \<noteq> 0 then Some (0, memcpy_from m prop_data val (sz len))
     else Some (0, m)
   }"

definition fdt_setprop_u32 :: "mem \<Rightarrow> addr \<Rightarrow> int \<Rightarrow> cptr \<Rightarrow> int \<Rightarrow> (int \<times> mem) option" where
  "fdt_setprop_u32 m f nodeoffset name val = fdt_setprop m f nodeoffset name (cell32 val) 4"

definition fdt_setprop_u64 :: "mem \<Rightarrow> addr \<Rightarrow> int \<Rightarrow> cptr \<Rightarrow> int \<Rightarrow> (int \<times> mem) option" where
  "fdt_setprop_u64 m f nodeoffset name val = fdt_setprop m f nodeoffset name (cell64 val) 8"

definition fdt_setprop_cell :: "mem \<Rightarrow> addr \<Rightarrow> int \<Rightarrow> cptr \<Rightarrow> int \<Rightarrow> (int \<times> mem) option" where
  "fdt_setprop_cell = fdt_setprop_u32"

definition fdt_appendprop ::
  "mem \<Rightarrow> addr \<Rightarrow> int \<Rightarrow> cptr \<Rightarrow> cptr \<Rightarrow> int \<Rightarrow> (int \<times> mem) option" where
  "fdt_appendprop m f nodeoffset name val len =
     (let (err, m) = fdt_rw_probe' m f in
      if err \<noteq> 0 then Some (err, m)
      else do {
        (prop, oldlen) \<leftarrow> fdt_get_property m f nodeoffset name;
        case prop of
          Some p \<Rightarrow>
            (let newlen = s32 (len + oldlen);
                 (err, m) = fdt_splice_struct' m f (p + 12) (FDT_TAGALIGN oldlen) (FDT_TAGALIGN newlen)
             in if err \<noteq> 0 then Some (err, m)
                else Some (0, memcpy_from (store32 m (p + 4) (cpu_to_fdt32 (word_of_int newlen)))
                                (p + 12 + oldlen) val (sz len)))
        | None \<Rightarrow> do {
            (err, p, m) \<leftarrow> fdt_add_property' m f nodeoffset name len;
            if err \<noteq> 0 then Some (err, m)
            else Some (0, memcpy_from m (p + 12) val (sz len))
          }
      })"

definition fdt_appendprop_u32 :: "mem \<Rightarrow> addr \<Rightarrow> int \<Rightarrow> cptr \<Rightarrow> int \<Rightarrow> (int \<times> mem) option" where
  "fdt_appendprop_u32 m f nodeoffset name val = fdt_appendprop m f nodeoffset name (cell32 val) 4"

definition fdt_appendprop_u64 :: "mem \<Rightarrow> addr \<Rightarrow> int \<Rightarrow> cptr \<Rightarrow> int \<Rightarrow> (int \<times> mem) option" where
  "fdt_appendprop_u64 m f nodeoffset name val = fdt_appendprop m f nodeoffset name (cell64 val) 8"

definition fdt_appendprop_cell :: "mem \<Rightarrow> addr \<Rightarrow> int \<Rightarrow> cptr \<Rightarrow> int \<Rightarrow> (int \<times> mem) option" where
  "fdt_appendprop_cell = fdt_appendprop_u32"

definition fdt_delprop :: "mem \<Rightarrow> addr \<Rightarrow> int \<Rightarrow> cptr \<Rightarrow> (int \<times> mem) option" where
  "fdt_delprop m f nodeoffset name =
     (let (err, m) = fdt_rw_probe' m f in
      if err \<noteq> 0 then Some (err, m)
      else do {
        (prop, len) \<leftarrow> fdt_get_property m f nodeoffset name;
        case prop of
          None \<Rightarrow> Some (len, m)
        | Some p \<Rightarrow> Some (fdt_splice_struct' m f p (s32 (12 + FDT_ALIGN len FDT_TAGSIZE)) 0)
      })"

section \<open>Nodes\<close>

text \<open>The offset behind the properties of the parent.\<close>

function add_subnode_skip :: "mem \<Rightarrow> addr \<Rightarrow> int \<Rightarrow> int" where
  "add_subnode_skip m f offset =
     (let (tag, nextoffset) = fdt_next_tag m f offset in
      if tag = FDT_PROP \<or> tag = FDT_NOP then add_subnode_skip m f nextoffset else offset)"
  by pat_completeness auto
termination
  by (relation "measure (\<lambda>(m, f, offset). walk_measure offset)") (auto intro: fdt_next_tag_less)

declare add_subnode_skip.simps [simp del]

definition put_subnode :: "mem \<Rightarrow> addr \<Rightarrow> cptr \<Rightarrow> int \<Rightarrow> int \<Rightarrow> mem" where
  "put_subnode m nh name namelen nodelen =
     (let m = store32 m nh (cpu_to_fdt32 (word_of_int FDT_BEGIN_NODE));
          m = memset m (nh + 4) 0 (sz (FDT_ALIGN (namelen + 1) FDT_TAGSIZE));
          m = memcpy_from m (nh + 4) name (sz namelen)
      in store32 m (nh + nodelen - FDT_TAGSIZE) (cpu_to_fdt32 (word_of_int FDT_END_NODE)))"

definition fdt_add_subnode_namelen ::
  "mem \<Rightarrow> addr \<Rightarrow> int \<Rightarrow> cptr \<Rightarrow> int \<Rightarrow> (int \<times> mem) option" where
  "fdt_add_subnode_namelen m f parentoffset name namelen =
     (let (err, m) = fdt_rw_probe' m f in
      if err \<noteq> 0 then Some (err, m)
      else do {
        offset \<leftarrow> fdt_subnode_offset_namelen m f parentoffset name namelen;
        if offset \<ge> 0 then Some (- FDT_ERR_EXISTS, m)
        else if offset \<noteq> - FDT_ERR_NOTFOUND then Some (offset, m)
        else (let (tag, nextoffset) = fdt_next_tag m f parentoffset in
          if tag \<noteq> FDT_BEGIN_NODE then Some (- FDT_ERR_INTERNAL, m)
          else let offset = add_subnode_skip m f nextoffset;
                   nh = fdt_offset_ptr' m f offset;
                   nodelen = s32 (4 + FDT_ALIGN (namelen + 1) FDT_TAGSIZE + FDT_TAGSIZE);
                   (err, m) = fdt_splice_struct' m f nh 0 nodelen
               in if err \<noteq> 0 then Some (err, m)
                  else Some (offset, put_subnode m nh name namelen nodelen))
      })"

definition fdt_add_subnode :: "mem \<Rightarrow> addr \<Rightarrow> int \<Rightarrow> cptr \<Rightarrow> (int \<times> mem) option" where
  "fdt_add_subnode m f parentoffset name = do {
     l \<leftarrow> strlen name;
     fdt_add_subnode_namelen m f parentoffset name (s32 l)
   }"

definition fdt_del_node :: "mem \<Rightarrow> addr \<Rightarrow> int \<Rightarrow> int \<times> mem" where
  "fdt_del_node m f nodeoffset =
     (let (err, m) = fdt_rw_probe' m f in
      if err \<noteq> 0 then (err, m)
      else let endoffset = fdt_node_end_offset' m f nodeoffset in
           if endoffset < 0 then (endoffset, m)
           else fdt_splice_struct' m f (fdt_offset_ptr' m f nodeoffset) (endoffset - nodeoffset) 0)"

section \<open>Moving a tree to a new buffer\<close>

definition fdt_packblocks' :: "mem \<Rightarrow> addr \<Rightarrow> addr \<Rightarrow> int \<Rightarrow> int \<Rightarrow> int \<Rightarrow> mem" where
  "fdt_packblocks' m old new mem_rsv_size struct_size strings_size =
     (let mem_rsv_off = FDT_ALIGN 40 8;
          struct_off = mem_rsv_off + mem_rsv_size;
          strings_off = struct_off + struct_size;
          m = memmove m (new + mem_rsv_off) (old + fdt_off_mem_rsvmap m old) (sz mem_rsv_size);
          m = fdt_set_off_mem_rsvmap m new mem_rsv_off;
          m = memmove m (new + struct_off) (old + fdt_off_dt_struct m old) (sz struct_size);
          m = fdt_set_off_dt_struct m new struct_off;
          m = fdt_set_size_dt_struct m new struct_size;
          m = memmove m (new + strings_off) (old + fdt_off_dt_strings m old) (sz strings_size);
          m = fdt_set_off_dt_strings m new strings_off
      in fdt_set_size_dt_strings m new (fdt_size_dt_strings m old))"

function open_struct_size :: "mem \<Rightarrow> addr \<Rightarrow> int \<Rightarrow> int" where
  "open_struct_size m f offset =
     (let (tag, nextoffset) = fdt_next_tag m f offset in
      if tag \<noteq> FDT_END then open_struct_size m f nextoffset else nextoffset)"
  by pat_completeness auto
termination
  by (relation "measure (\<lambda>(m, f, offset). walk_measure offset)") (auto intro: fdt_next_tag_less)

declare open_struct_size.simps [simp del]

text \<open>\<open>fdt_open_into\<close> once the blocks need to be put in order.\<close>

definition open_reorder :: "mem \<Rightarrow> addr \<Rightarrow> addr \<Rightarrow> int \<Rightarrow> int \<Rightarrow> int \<Rightarrow> int \<times> mem" where
  "open_reorder m f buf bufsize mem_rsv_size struct_size =
     (let fdtend = f + fdt_totalsize m f;
          newsize = s32 (FDT_ALIGN 40 8 + mem_rsv_size + struct_size + fdt_size_dt_strings m f)
      in if bufsize < newsize then (- FDT_ERR_NOSPACE, m)
         else let overlap = buf + newsize > f \<and> buf < fdtend;
                  tmp = (if overlap then fdtend else buf)
              in if overlap \<and> tmp + newsize > buf + bufsize then (- FDT_ERR_NOSPACE, m)
                 else let m = fdt_packblocks' m f tmp mem_rsv_size struct_size (s32 (fdt_size_dt_strings m f));
                          m = memmove m buf tmp (sz newsize);
                          m = fdt_set_magic m buf FDT_MAGIC;
                          m = fdt_set_totalsize m buf bufsize;
                          m = fdt_set_version m buf 17;
                          m = fdt_set_last_comp_version m buf 16
                      in (0, fdt_set_boot_cpuid_phys m buf (fdt_boot_cpuid_phys m f)))"

definition fdt_open_into :: "mem \<Rightarrow> addr \<Rightarrow> addr \<Rightarrow> int \<Rightarrow> (int \<times> mem) option" where
  "fdt_open_into m f buf bufsize =
     (if fdt_ro_probe' m f < 0 then Some (fdt_ro_probe' m f, m)
      else do {
        n \<leftarrow> fdt_num_mem_rsv m f;
        let mem_rsv_size = s32 ((n + 1) * 16);
        let struct_size =
          (if fdt_version m f \<ge> 17 then s32 (fdt_size_dt_struct m f) else open_struct_size m f 0);
        if fdt_version m f < 16 then Some (- FDT_ERR_BADVERSION, m)
        else if fdt_version m f = 16 \<and> struct_size < 0 then Some (struct_size, m)
        else if \<not> fdt_blocks_misordered' m f mem_rsv_size struct_size then
          (let (err, m) = fdt_move m f buf bufsize in
           if err \<noteq> 0 then Some (err, m)
           else let m = fdt_set_version m buf 17;
                    m = fdt_set_size_dt_struct m buf struct_size
                in Some (0, fdt_set_totalsize m buf bufsize))
        else Some (open_reorder m f buf bufsize mem_rsv_size struct_size)
      })"

definition fdt_pack :: "mem \<Rightarrow> addr \<Rightarrow> (int \<times> mem) option" where
  "fdt_pack m f =
     (let (err, m) = fdt_rw_probe' m f in
      if err \<noteq> 0 then Some (err, m)
      else do {
        n \<leftarrow> fdt_num_mem_rsv m f;
        let mem_rsv_size = s32 ((n + 1) * 16);
        let m = fdt_packblocks' m f f mem_rsv_size (s32 (fdt_size_dt_struct m f)) (s32 (fdt_size_dt_strings m f));
        Some (0, fdt_set_totalsize m f (fdt_data_size' m f))
      })"

end
