(* ===== verification/Uart.thy ===== *)
theory Uart
  imports Util
begin

text \<open>
  Device registers and the PL011 serial port (\<open>src/src/pl011_uart.c\<close>, \<open>pl011_uart.h\<close>).

  The devices are not part of the program: a \<open>device\<close> is a parameter, what a register read
  returns, what a write does, and what the device does to memory on its own between two
  accesses of the processor (\<open>dma\<close>).  An \<open>io\<close> state is the device's state, memory, and the
  accesses the program has made, in order.
\<close>

record 'd device =
  reg_read :: "'d \<Rightarrow> addr \<Rightarrow> 32 word \<times> 'd"
  reg_write :: "'d \<Rightarrow> addr \<Rightarrow> 32 word \<Rightarrow> 'd"
  dma :: "'d \<Rightarrow> mem \<Rightarrow> 'd \<times> mem"

datatype access = Read addr "32 word" | Write addr "32 word"

record 'd io =
  dev :: 'd
  ram :: mem
  accesses :: "access list"

definition rreg :: "'d device \<Rightarrow> addr \<Rightarrow> 'd io \<Rightarrow> 32 word \<times> 'd io" where
  "rreg D a s = (case reg_read D (dev s) a of
     (v, d) \<Rightarrow> (v, s\<lparr>dev := d, accesses := accesses s @ [Read a v]\<rparr>))"

definition wreg :: "'d device \<Rightarrow> addr \<Rightarrow> 32 word \<Rightarrow> 'd io \<Rightarrow> 'd io" where
  "wreg D a v s = s\<lparr>dev := reg_write D (dev s) a v, accesses := accesses s @ [Write a v]\<rparr>"

definition run_dma :: "'d device \<Rightarrow> 'd io \<Rightarrow> 'd io" where
  "run_dma D s = (case dma D (dev s) (ram s) of (d, m) \<Rightarrow> s\<lparr>dev := d, ram := m\<rparr>)"

text \<open>The values written to a register, in order.\<close>

definition writes_to :: "addr \<Rightarrow> access list \<Rightarrow> 32 word list" where
  "writes_to a xs = [v. Write b v \<leftarrow> xs, b = a]"

section \<open>The serial port\<close>

definition UART0_BASE :: addr where "UART0_BASE = 0x09000000"
definition UART_DR :: addr where "UART_DR = UART0_BASE + 0x00"
definition UART_FR :: addr where "UART_FR = UART0_BASE + 0x18"
definition UART_IBRD :: addr where "UART_IBRD = UART0_BASE + 0x24"
definition UART_FBRD :: addr where "UART_FBRD = UART0_BASE + 0x28"
definition UART_LCRH :: addr where "UART_LCRH = UART0_BASE + 0x2C"
definition UART_CR :: addr where "UART_CR = UART0_BASE + 0x30"
definition UART_IMSC :: addr where "UART_IMSC = UART0_BASE + 0x38"

definition uart_init :: "'d device \<Rightarrow> 'd io \<Rightarrow> 'd io" where
  "uart_init D s =
     (let s = wreg D UART_CR 0 s;
          s = wreg D UART_IBRD 1 s;
          s = wreg D UART_FBRD 40 s;
          s = wreg D UART_LCRH (push_bit 5 3) s;
          s = wreg D UART_IMSC 0 s
      in wreg D UART_CR (push_bit 9 1 OR push_bit 8 1 OR 1) s)"

text \<open>The wait of \<open>uart_putc\<close>, with the iterations that are left.\<close>

fun uart_wait :: "'d device \<Rightarrow> nat \<Rightarrow> 'd io \<Rightarrow> 'd io" where
  "uart_wait D 0 s = s"
| "uart_wait D (Suc n) s =
     (case rreg D UART_FR s of (v, s) \<Rightarrow> if v AND push_bit 5 1 \<noteq> 0 then uart_wait D n s else s)"

definition uart_putc :: "'d device \<Rightarrow> byte \<Rightarrow> 'd io \<Rightarrow> 'd io" where
  "uart_putc D c s = wreg D UART_DR (ucast c) (uart_wait D 100000 s)"

partial_function (option) uart_puts :: "'d device \<Rightarrow> cptr \<Rightarrow> 'd io \<Rightarrow> 'd io option" where
  "uart_puts D p s =
     (if p 0 \<noteq> 0 then uart_puts D (shift p 1) (uart_putc D (p 0) s) else Some s)"

section \<open>What the device sees\<close>

lemma writes_to_append [simp]: "writes_to a (xs @ ys) = writes_to a xs @ writes_to a ys"
  by (simp add: writes_to_def)

lemma writes_to_simps [simp]:
  "writes_to a [] = []" "writes_to a (Read b v # xs) = writes_to a xs"
  "writes_to a (Write b v # xs) = (if b = a then [v] else []) @ writes_to a xs"
  by (simp_all add: writes_to_def)

lemma wreg_simps [simp]: "accesses (wreg D a v s) = accesses s @ [Write a v]" "ram (wreg D a v s) = ram s"
  by (simp_all add: wreg_def)

lemma rreg_simps [simp]:
  "accesses (snd (rreg D a s)) = accesses s @ [Read a (fst (rreg D a s))]" "ram (snd (rreg D a s)) = ram s"
  by (simp_all add: rreg_def split: prod.splits)

text \<open>A wait only reads the flag register, at most \<open>n\<close> times.\<close>

lemma uart_wait_spec:
  "\<exists>vs. accesses (uart_wait D n s) = accesses s @ map (Read UART_FR) vs \<and> length vs \<le> n \<and>
        ram (uart_wait D n s) = ram s \<and>
        (length vs < n \<longrightarrow> vs \<noteq> [] \<and> List.last vs AND push_bit 5 1 = 0)"
proof (induction n arbitrary: s)
  case 0
  then show ?case by simp
next
  case (Suc n)
  obtain v s1 where r: "rreg D UART_FR s = (v, s1)" by fastforce
  have s1: "accesses s1 = accesses s @ [Read UART_FR v]" "ram s1 = ram s"
    using rreg_simps[of D UART_FR s] by (simp_all add: r)
  show ?case
  proof (cases "v AND push_bit 5 1 = 0")
    case True
    then show ?thesis using r s1 by (intro exI[of _ "[v]"]) simp
  next
    case False
    obtain vs where vs: "accesses (uart_wait D n s1) = accesses s1 @ map (Read UART_FR) vs" "length vs \<le> n"
      "ram (uart_wait D n s1) = ram s1" "length vs < n \<longrightarrow> vs \<noteq> [] \<and> List.last vs AND push_bit 5 1 = 0"
      using Suc by blast
    then show ?thesis using r s1 False by (intro exI[of _ "v # vs"]) auto
  qed
qed

lemma uart_putc_writes:
  "writes_to UART_DR (accesses (uart_putc D c s)) = writes_to UART_DR (accesses s) @ [ucast c]"
  "ram (uart_putc D c s) = ram s"
proof -
  obtain vs where vs: "accesses (uart_wait D 100000 s) = accesses s @ map (Read UART_FR) vs"
    "ram (uart_wait D 100000 s) = ram s"
    using uart_wait_spec by blast
  have "writes_to UART_DR (map (Read UART_FR) vs) = []" by (induction vs) simp_all
  with vs show "writes_to UART_DR (accesses (uart_putc D c s)) = writes_to UART_DR (accesses s) @ [ucast c]"
    "ram (uart_putc D c s) = ram s"
    by (simp_all add: uart_putc_def del: uart_wait.simps)
qed

text \<open>A C string is sent byte by byte, whatever the device answers.\<close>

lemma uart_puts_sends:
  "points_to_str p cs \<Longrightarrow> \<exists>s'. uart_puts D p s = Some s' \<and> ram s' = ram s \<and>
     writes_to UART_DR (accesses s') = writes_to UART_DR (accesses s) @ map ucast cs"
proof (induction cs arbitrary: p s)
  case Nil
  then show ?case by (subst uart_puts.simps) (simp add: points_to_str_Nil)
next
  case (Cons c cs)
  then obtain s' where "uart_puts D (shift p 1) (uart_putc D c s) = Some s'" "ram s' = ram s"
    "writes_to UART_DR (accesses s') = writes_to UART_DR (accesses s) @ ucast c # map ucast cs"
    by (force simp: points_to_str_Cons uart_putc_writes)
  with Cons.prems show ?case by (subst uart_puts.simps) (auto simp: points_to_str_Cons)
qed

section \<open>Properties\<close>

text \<open>A port for examples: the transmitter is never full.\<close>

definition idle_port :: "unit device" where
  "idle_port = \<lparr>reg_read = (\<lambda>d a. (0, d)), reg_write = (\<lambda>d a v. d), dma = (\<lambda>d m. (d, m))\<rparr>"

text \<open>C40: \<open>uart_puts\<close> of a C string returns, whatever the device answers, and writes the bytes of the
  string to the data register, all of them and in order; memory is left alone.\<close>

theorem uart_puts_writes:
  assumes "points_to_str p cs"
  shows "\<exists>s'. uart_puts D p s = Some s' \<and> ram s' = ram s \<and>
           writes_to UART_DR (accesses s') = writes_to UART_DR (accesses s) @ map ucast cs"
  by (rule uart_puts_sends[OF assms])

theorem uart_puts_writes_witness:
  "\<exists>s'. uart_puts idle_port (lit [72, 105]) \<lparr>dev = (), ram = (\<lambda>_. 0), accesses = []\<rparr> = Some s' \<and>
     writes_to UART_DR (accesses s') = [72, 105]"
  using uart_puts_writes[of "lit [72, 105]" "[72, 105]" idle_port "\<lparr>dev = (), ram = (\<lambda>_. 0), accesses = []\<rparr>"] by auto

text \<open>\<open>uart_putc\<close> writes the byte as its last access, after at most 100000 reads of the flag register,
  and after fewer only when the last of them showed room in the transmitter.\<close>

theorem uart_putc_waits:
  "\<exists>vs. accesses (uart_putc D c s) = accesses s @ map (Read UART_FR) vs @ [Write UART_DR (ucast c)] \<and>
        length vs \<le> 100000 \<and> (length vs = 100000 \<or> vs \<noteq> [] \<and> \<not> bit (List.last vs) 5)"
proof -
  obtain vs where "accesses (uart_wait D 100000 s) = accesses s @ map (Read UART_FR) vs" "length vs \<le> 100000"
    "length vs < 100000 \<longrightarrow> vs \<noteq> [] \<and> List.last vs AND push_bit 5 1 = 0"
    using uart_wait_spec by blast
  moreover have "\<not> bit v 5" if "v AND push_bit 5 1 = 0" for v :: "32 word"
    using that and_exp_eq_0_iff_not_bit[of v 5] by (simp add: push_bit_eq_mult)
  ultimately show ?thesis
    by (intro exI[of _ vs]) (auto simp: uart_putc_def simp del: uart_wait.simps)
qed

end
