(* ===== verification/Virtio.thy ===== *)
theory Virtio
  imports Uart
begin

text \<open>
  The virtio block device driver (\<open>src/src/virtio_blk.c\<close>, \<open>src/src/virtio.h\<close>).

  The queue is in memory, at the addresses the linker gives the static variables
  (\<open>layout\<close>).  The descriptors are written field by field as in the code; \<open>desc_at\<close> reads
  one back as a record.  The polling loop lets the device act on memory before each test of
  the status byte; a device that never answers is \<open>None\<close>.  \<open>fatal\<close> ends the run, with its
  message as \<open>Inl\<close>.
\<close>

section \<open>Registers and constants\<close>

definition VIRTIO_BLK_MMIO_BASE :: addr where "VIRTIO_BLK_MMIO_BASE = 0xa000000"

definition REG :: "int \<Rightarrow> addr" where "REG offset = VIRTIO_BLK_MMIO_BASE + offset"

abbreviation (input) VIRT_MMIO_MAGIC :: addr where "VIRT_MMIO_MAGIC \<equiv> REG 0x000"
abbreviation (input) VIRT_MMIO_VERSION :: addr where "VIRT_MMIO_VERSION \<equiv> REG 0x004"
abbreviation (input) VIRT_MMIO_DEVICE_ID :: addr where "VIRT_MMIO_DEVICE_ID \<equiv> REG 0x008"
abbreviation (input) VIRT_MMIO_VENDOR_ID :: addr where "VIRT_MMIO_VENDOR_ID \<equiv> REG 0x00C"
abbreviation (input) VIRT_MMIO_DEVICE_FEATURES :: addr where "VIRT_MMIO_DEVICE_FEATURES \<equiv> REG 0x010"
abbreviation (input) VIRT_MMIO_DEVICE_FEATURES_SEL :: addr where "VIRT_MMIO_DEVICE_FEATURES_SEL \<equiv> REG 0x014"
abbreviation (input) VIRT_MMIO_DRIVER_FEATURES :: addr where "VIRT_MMIO_DRIVER_FEATURES \<equiv> REG 0x020"
abbreviation (input) VIRT_MMIO_DRIVER_FEATURES_SEL :: addr where "VIRT_MMIO_DRIVER_FEATURES_SEL \<equiv> REG 0x024"
abbreviation (input) VIRT_MMIO_QUEUE_SEL :: addr where "VIRT_MMIO_QUEUE_SEL \<equiv> REG 0x030"
abbreviation (input) VIRT_MMIO_QUEUE_NUM_MAX :: addr where "VIRT_MMIO_QUEUE_NUM_MAX \<equiv> REG 0x034"
abbreviation (input) VIRT_MMIO_QUEUE_NUM :: addr where "VIRT_MMIO_QUEUE_NUM \<equiv> REG 0x038"
abbreviation (input) VIRT_MMIO_QUEUE_READY :: addr where "VIRT_MMIO_QUEUE_READY \<equiv> REG 0x044"
abbreviation (input) VIRT_MMIO_QUEUE_NOTIFY :: addr where "VIRT_MMIO_QUEUE_NOTIFY \<equiv> REG 0x050"
abbreviation (input) VIRT_MMIO_STATUS :: addr where "VIRT_MMIO_STATUS \<equiv> REG 0x070"
abbreviation (input) VIRT_MMIO_QUEUE_DESC_LOW :: addr where "VIRT_MMIO_QUEUE_DESC_LOW \<equiv> REG 0x080"
abbreviation (input) VIRT_MMIO_QUEUE_DESC_HIGH :: addr where "VIRT_MMIO_QUEUE_DESC_HIGH \<equiv> REG 0x084"
abbreviation (input) VIRT_MMIO_QUEUE_DRIVER_LOW :: addr where "VIRT_MMIO_QUEUE_DRIVER_LOW \<equiv> REG 0x090"
abbreviation (input) VIRT_MMIO_QUEUE_DRIVER_HIGH :: addr where "VIRT_MMIO_QUEUE_DRIVER_HIGH \<equiv> REG 0x094"
abbreviation (input) VIRT_MMIO_QUEUE_DEVICE_LOW :: addr where "VIRT_MMIO_QUEUE_DEVICE_LOW \<equiv> REG 0x0A0"
abbreviation (input) VIRT_MMIO_QUEUE_DEVICE_HIGH :: addr where "VIRT_MMIO_QUEUE_DEVICE_HIGH \<equiv> REG 0x0A4"

abbreviation (input) SECTOR_SIZE :: int where "SECTOR_SIZE \<equiv> 512"
abbreviation (input) QUEUE_SIZE :: int where "QUEUE_SIZE \<equiv> 8"
abbreviation (input) VIRTIO_BLK_T_IN :: "32 word" where "VIRTIO_BLK_T_IN \<equiv> 0"
abbreviation (input) VIRTIO_BLK_T_OUT :: "32 word" where "VIRTIO_BLK_T_OUT \<equiv> 1"
abbreviation (input) VIRTQ_DESC_F_NEXT :: "16 word" where "VIRTQ_DESC_F_NEXT \<equiv> 1"
abbreviation (input) VIRTQ_DESC_F_WRITE :: "16 word" where "VIRTQ_DESC_F_WRITE \<equiv> 2"
abbreviation (input) VIRTIO_BLK_S_OK :: byte where "VIRTIO_BLK_S_OK \<equiv> 0"

text \<open>Where the static variables are.\<close>

record layout =
  desc_p :: addr
  avail_p :: addr
  used_p :: addr
  req_p :: addr
  status_p :: addr

text \<open>The packed structures, as one reads them from memory.\<close>

record virtq_desc =
  d_addr :: "64 word"
  d_len :: "32 word"
  d_flags :: "16 word"
  d_next :: "16 word"

record virtio_blk_req =
  r_type :: "32 word"
  r_reserved :: "32 word"
  r_sector :: "64 word"

definition get_desc :: "mem \<Rightarrow> addr \<Rightarrow> virtq_desc" where
  "get_desc m p =
     \<lparr>d_addr = load64 (rd m p), d_len = load32 (rd m (p + 8)),
      d_flags = load16 (rd m (p + 12)), d_next = load16 (rd m (p + 14))\<rparr>"

definition desc_at :: "layout \<Rightarrow> mem \<Rightarrow> int \<Rightarrow> virtq_desc" where
  "desc_at L m i = get_desc m (desc_p L + 16 * i)"

definition req_at :: "layout \<Rightarrow> mem \<Rightarrow> virtio_blk_req" where
  "req_at L m =
     \<lparr>r_type = load32 (rd m (req_p L)), r_reserved = load32 (rd m (req_p L + 4)),
      r_sector = load64 (rd m (req_p L + 8))\<rparr>"

definition avail_idx :: "layout \<Rightarrow> mem \<Rightarrow> 16 word" where
  "avail_idx L m = load16 (rd m (avail_p L + 2))"

definition avail_ring :: "layout \<Rightarrow> mem \<Rightarrow> int \<Rightarrow> 16 word" where
  "avail_ring L m i = load16 (rd m (avail_p L + 4 + 2 * i))"

section \<open>Initialisation\<close>

definition features_low :: "32 word \<Rightarrow> 32 word" where
  "features_low features =
     features AND NOT (push_bit 5 1) AND NOT (push_bit 7 1) AND NOT (push_bit 11 1) AND
       NOT (push_bit 12 1) AND NOT (push_bit 27 1) AND NOT (push_bit 29 1) AND NOT (push_bit 28 1)"

text \<open>The four identification registers, read until one does not match.\<close>

definition probe_ids :: "'d device \<Rightarrow> 'd io \<Rightarrow> bool \<times> 'd io" where
  "probe_ids D s =
     (case rreg D VIRT_MMIO_MAGIC s of (v, s) \<Rightarrow>
      if v \<noteq> 0x74726976 then (False, s)
      else case rreg D VIRT_MMIO_VERSION s of (v, s) \<Rightarrow>
      if v \<noteq> 2 then (False, s)
      else case rreg D VIRT_MMIO_DEVICE_ID s of (v, s) \<Rightarrow>
      if v \<noteq> 2 then (False, s)
      else case rreg D VIRT_MMIO_VENDOR_ID s of (v, s) \<Rightarrow>
      if v \<noteq> 0x554d4551 then (False, s) else (True, s))"

definition negotiate :: "'d device \<Rightarrow> 'd io \<Rightarrow> 'd io" where
  "negotiate D s =
     (let s = wreg D VIRT_MMIO_STATUS 0 s;
          s = wreg D VIRT_MMIO_STATUS 1 s;
          s = wreg D VIRT_MMIO_STATUS (1 OR 2) s;
          s = wreg D VIRT_MMIO_DEVICE_FEATURES_SEL 0 s;
          (features, s) = rreg D VIRT_MMIO_DEVICE_FEATURES s;
          s = wreg D VIRT_MMIO_DRIVER_FEATURES_SEL 0 s;
          s = wreg D VIRT_MMIO_DRIVER_FEATURES (features_low features) s;
          s = wreg D VIRT_MMIO_DEVICE_FEATURES_SEL 1 s;
          (features, s) = rreg D VIRT_MMIO_DEVICE_FEATURES s;
          s = wreg D VIRT_MMIO_DRIVER_FEATURES_SEL 1 s;
          s = wreg D VIRT_MMIO_DRIVER_FEATURES (features AND push_bit 0 1) s
      in wreg D VIRT_MMIO_STATUS (1 OR 2 OR 8) s)"

text \<open>The zeroed structures (128, 22, 70 and 16 bytes) and the addresses the device is given.\<close>

definition clear_queue :: "layout \<Rightarrow> mem \<Rightarrow> mem" where
  "clear_queue L m =
     (let m = memset m (desc_p L) 0 128;
          m = memset m (avail_p L) 0 22;
          m = memset m (used_p L) 0 70
      in memset m (req_p L) 0 16)"

definition publish_queue :: "'d device \<Rightarrow> layout \<Rightarrow> 'd io \<Rightarrow> 'd io" where
  "publish_queue D L s =
     (let s = wreg D VIRT_MMIO_QUEUE_DESC_LOW (word_of_int (desc_p L)) s;
          s = wreg D VIRT_MMIO_QUEUE_DESC_HIGH (word_of_int (desc_p L div 4294967296)) s;
          s = wreg D VIRT_MMIO_QUEUE_DRIVER_LOW (word_of_int (avail_p L)) s;
          s = wreg D VIRT_MMIO_QUEUE_DRIVER_HIGH (word_of_int (avail_p L div 4294967296)) s;
          s = wreg D VIRT_MMIO_QUEUE_DEVICE_LOW (word_of_int (used_p L)) s
      in wreg D VIRT_MMIO_QUEUE_DEVICE_HIGH (word_of_int (used_p L div 4294967296)) s)"

text \<open>The test of the status register is \<open>VIRT_MMIO_STATUS & 8 == 0\<close> in the code, which C
  reads as \<open>VIRT_MMIO_STATUS & (8 == 0)\<close>.\<close>

definition no_device_text :: string where
  "no_device_text =
     ''Couldn'' @ CHR 0x27 # ''t find a virtio blk device.\<newline>\<newline>'' @
     ''Check the QEMU command line for the following:\<newline>'' @
     ''\<newline>'' @
     ''    -global virtio-mmio.force-legacy=false\<newline>'' @
     ''    -drive if=none,file=disk.img,format=raw,id=vdisk\<newline>'' @
     ''    -device virtio-blk-device,drive=vdisk,bus=virtio-mmio-bus.0\<newline>''"

definition virtio_blk_init :: "'d device \<Rightarrow> layout \<Rightarrow> 'd io \<Rightarrow> (string + unit) \<times> 'd io" where
  "virtio_blk_init D L s =
     (case probe_ids D s of (found, s) \<Rightarrow>
      if \<not> found then (Inl no_device_text, s)
      else case rreg D VIRT_MMIO_STATUS (negotiate D s) of (v, s) \<Rightarrow>
      if v AND (if (8::32 word) = 0 then 1 else 0) \<noteq> 0
      then (Inl (''virtio disk didn'' @ CHR 0x27 # ''t like our feature selection?\<newline>''), s)
      else case rreg D VIRT_MMIO_QUEUE_READY (wreg D VIRT_MMIO_QUEUE_SEL 0 s) of (v, s) \<Rightarrow>
      if v \<noteq> 0 then (Inl ''virtio disk queue in use?\<newline>'', s)
      else case rreg D VIRT_MMIO_QUEUE_NUM_MAX s of (v, s) \<Rightarrow>
      if uint v < QUEUE_SIZE then (Inl ''virtio disk queue num max too low?\<newline>'', s)
      else let s = wreg D VIRT_MMIO_QUEUE_NUM (word_of_int QUEUE_SIZE) s;
               s = s\<lparr>ram := clear_queue L (ram s)\<rparr>;
               s = publish_queue D L s;
               s = wreg D VIRT_MMIO_QUEUE_READY 1 s
           in (Inr (), wreg D VIRT_MMIO_STATUS (1 OR 2 OR 8 OR 4) s))"

section \<open>Requests\<close>

definition put_desc :: "mem \<Rightarrow> addr \<Rightarrow> int \<Rightarrow> int \<Rightarrow> 16 word \<Rightarrow> 16 word \<Rightarrow> mem" where
  "put_desc m p address len flags nxt =
     (let m = store64 m p (word_of_int address);
          m = store32 m (p + 8) (word_of_int len);
          m = store16 m (p + 12) flags
      in store16 m (p + 14) nxt)"

text \<open>The queue as it is when the device is notified.\<close>

definition build_request :: "layout \<Rightarrow> 32 word \<Rightarrow> int \<Rightarrow> int \<Rightarrow> addr \<Rightarrow> mem \<Rightarrow> mem" where
  "build_request L type lba len_bytes buffer m =
     (let m = store32 m (req_p L) type;
          m = store32 m (req_p L + 4) 0;
          m = store64 m (req_p L + 8) (word_of_int lba);
          m = put_desc m (desc_p L) (req_p L) 16 VIRTQ_DESC_F_NEXT 1;
          m = put_desc m (desc_p L + 16) buffer len_bytes
                (if type = VIRTIO_BLK_T_IN then VIRTQ_DESC_F_WRITE OR VIRTQ_DESC_F_NEXT
                 else VIRTQ_DESC_F_NEXT) 2;
          m = m(status_p L := 0xff);
          m = put_desc m (desc_p L + 32) (status_p L) 1 VIRTQ_DESC_F_WRITE 0;
          idx = avail_idx L m AND word_of_int (QUEUE_SIZE - 1);
          m = store16 m (avail_p L + 4 + 2 * uint idx) 0;
          m = store16 m (avail_p L + 2) (avail_idx L m + 1);
          m = store16 m (used_p L + 2) 0
      in store16 m (used_p L) 0)"

partial_function (option) poll_status :: "'d device \<Rightarrow> layout \<Rightarrow> 'd io \<Rightarrow> 'd io option" where
  "poll_status D L s =
     (if ram s (status_p L) = 0xff then poll_status D L (run_dma D s) else Some s)"

text \<open>\<open>len_bytes\<close> is a \<open>uint32_t\<close> and is returned as an \<open>int\<close>.\<close>

definition do_virtio_blk_io ::
  "'d device \<Rightarrow> layout \<Rightarrow> 32 word \<Rightarrow> int \<Rightarrow> int \<Rightarrow> addr \<Rightarrow> 'd io \<Rightarrow> (int \<times> 'd io) option" where
  "do_virtio_blk_io D L type lba len_bytes buffer s = do {
     let len_bytes = u32 len_bytes;
     let s = s\<lparr>ram := build_request L type lba len_bytes buffer (ram s)\<rparr>;
     let s = wreg D VIRT_MMIO_QUEUE_NOTIFY 0 s;
     s \<leftarrow> poll_status D L (run_dma D s);
     Some (if ram s (status_p L) = VIRTIO_BLK_S_OK then s32 len_bytes
           else - uint (ram s (status_p L)), s)
   }"

definition virtio_blk_read :: "'d device \<Rightarrow> layout \<Rightarrow> int \<Rightarrow> int \<Rightarrow> addr \<Rightarrow> 'd io \<Rightarrow> (int \<times> 'd io) option" where
  "virtio_blk_read D L lba len_bytes buffer s = do_virtio_blk_io D L VIRTIO_BLK_T_IN lba len_bytes buffer s"

definition virtio_blk_write :: "'d device \<Rightarrow> layout \<Rightarrow> int \<Rightarrow> int \<Rightarrow> addr \<Rightarrow> 'd io \<Rightarrow> (int \<times> 'd io) option" where
  "virtio_blk_write D L lba len_bytes buffer s = do_virtio_blk_io D L VIRTIO_BLK_T_OUT lba len_bytes buffer s"

section \<open>What the device sees during initialisation\<close>

lemma rreg_accesses:
  "rreg D a s = (v, s') \<Longrightarrow> accesses s' = accesses s @ [Read a v] \<and> ram s' = ram s"
  using rreg_simps[of D a s] by auto

lemma probe_ids_accesses:
  "probe_ids D s = (b, s') \<Longrightarrow> \<exists>rs. accesses s' = accesses s @ rs \<and> (\<forall>a. writes_to a rs = []) \<and> ram s' = ram s"
  by (auto simp: probe_ids_def split: prod.splits if_splits dest!: rreg_accesses)

lemma negotiate_accesses:
  "\<exists>f0 f1. accesses (negotiate D s) = accesses s @
     [Write (REG 0x070) 0, Write (REG 0x070) 1, Write (REG 0x070) 3,
      Write (REG 0x014) 0, Read (REG 0x010) f0, Write (REG 0x024) 0, Write (REG 0x020) (features_low f0),
      Write (REG 0x014) 1, Read (REG 0x010) f1, Write (REG 0x024) 1, Write (REG 0x020) (f1 AND 1),
      Write (REG 0x070) 11] \<and> ram (negotiate D s) = ram s"
  by (auto simp: negotiate_def Let_def split: prod.splits dest!: rreg_accesses)

lemma REG_eq [simp]: "REG a = REG b \<longleftrightarrow> a = b"
  by (simp add: REG_def)

text \<open>Once the device has been found, the status register is stepped through reset,
  acknowledge, driver, features, and, when nothing else failed, driver-ok.\<close>

lemma init_status:
  assumes "virtio_blk_init D L s = (r, s')"
  shows "\<exists>ws. writes_to (REG 0x070) (accesses s') = writes_to (REG 0x070) (accesses s) @ ws \<and>
           ws \<in> {[], [0, 1, 3, 11], [0, 1, 3, 11, 15]} \<and> (r = Inr () \<longleftrightarrow> ws = [0, 1, 3, 11, 15])"
proof -
  obtain b s1 where p: "probe_ids D s = (b, s1)" by fastforce
  obtain rs where rs: "accesses s1 = accesses s @ rs" "writes_to (REG 0x070) rs = []"
    using probe_ids_accesses[OF p] by auto
  obtain f0 f1 where n: "accesses (negotiate D s1) = accesses s1 @
     [Write (REG 0x070) 0, Write (REG 0x070) 1, Write (REG 0x070) 3,
      Write (REG 0x014) 0, Read (REG 0x010) f0, Write (REG 0x024) 0, Write (REG 0x020) (features_low f0),
      Write (REG 0x014) 1, Read (REG 0x010) f1, Write (REG 0x024) 1, Write (REG 0x020) (f1 AND 1),
      Write (REG 0x070) 11]"
    using negotiate_accesses[of D s1] by blast
  show ?thesis
    using assms p rs n
    by (auto simp: virtio_blk_init_def publish_queue_def Let_def split: prod.splits if_splits dest!: rreg_accesses)
qed

lemma bit_one_hot: "bit (push_bit n (1 :: 32 word)) i \<longleftrightarrow> i = n \<and> i < 32"
  by (auto simp: bit_simps)

lemma features_low_masked: "bit (features_low f) i \<longleftrightarrow> bit f i \<and> i \<notin> {5, 7, 11, 12, 27, 28, 29}"
proof (cases "i < 32")
  case True
  then show ?thesis
    by (simp only: features_low_def bit_and_iff bit_not_iff bit_one_hot possible_bit_word) auto
next
  case False
  then show ?thesis using bit_imp_le_length[of "features_low f" i] bit_imp_le_length[of f i] by auto
qed

text \<open>The features the driver accepts: none it cannot handle, and above bit 32 only version 1.\<close>

lemma init_features:
  assumes "virtio_blk_init D L s = (Inr (), s')"
  shows "\<exists>f0 f1. writes_to (REG 0x020) (accesses s') = writes_to (REG 0x020) (accesses s) @ [features_low f0, f1 AND 1]"
proof -
  obtain b s1 where p: "probe_ids D s = (b, s1)" by fastforce
  obtain rs where rs: "accesses s1 = accesses s @ rs" "writes_to (REG 0x020) rs = []"
    using probe_ids_accesses[OF p] by auto
  obtain f0 f1 where n: "accesses (negotiate D s1) = accesses s1 @
     [Write (REG 0x070) 0, Write (REG 0x070) 1, Write (REG 0x070) 3,
      Write (REG 0x014) 0, Read (REG 0x010) f0, Write (REG 0x024) 0, Write (REG 0x020) (features_low f0),
      Write (REG 0x014) 1, Read (REG 0x010) f1, Write (REG 0x024) 1, Write (REG 0x020) (f1 AND 1),
      Write (REG 0x070) 11]"
    using negotiate_accesses[of D s1] by blast
  show ?thesis
    using assms p rs n
    by (auto simp: virtio_blk_init_def publish_queue_def Let_def split: prod.splits if_splits dest!: rreg_accesses)
qed

section \<open>What the device finds when it is notified\<close>

definition disjoint_from :: "addr \<Rightarrow> int \<Rightarrow> addr \<Rightarrow> int \<Rightarrow> bool" where
  "disjoint_from p m q n \<longleftrightarrow> p + m \<le> q \<or> q + n \<le> p"

text \<open>The linker keeps the static variables apart.\<close>

definition layout_ok :: "layout \<Rightarrow> bool" where
  "layout_ok L \<longleftrightarrow>
     disjoint_from (desc_p L) 128 (avail_p L) 22 \<and> disjoint_from (desc_p L) 128 (used_p L) 70 \<and>
     disjoint_from (desc_p L) 128 (req_p L) 16 \<and> disjoint_from (desc_p L) 128 (status_p L) 1 \<and>
     disjoint_from (avail_p L) 22 (used_p L) 70 \<and> disjoint_from (avail_p L) 22 (req_p L) 16 \<and>
     disjoint_from (avail_p L) 22 (status_p L) 1 \<and> disjoint_from (used_p L) 70 (req_p L) 16 \<and>
     disjoint_from (used_p L) 70 (status_p L) 1 \<and> disjoint_from (req_p L) 16 (status_p L) 1"

lemma put_desc_outside: "a < p \<or> p + 16 \<le> a \<Longrightarrow> put_desc m p ad l fl nx a = m a"
  by (auto simp: put_desc_def Let_def store_word_outside)

lemma apart: "disjoint_from p m q n \<Longrightarrow> inside p m a \<Longrightarrow> \<not> inside q n a"
  "disjoint_from p m q n \<Longrightarrow> inside q n a \<Longrightarrow> \<not> inside p m a"
  by (auto simp: disjoint_from_def inside_def)

lemma outside_region:
  "\<not> inside p n a \<Longrightarrow> p \<le> q \<Longrightarrow> q + 2 \<le> p + n \<Longrightarrow> store16 m q x a = m a"
  "\<not> inside p n a \<Longrightarrow> p \<le> q \<Longrightarrow> q + 4 \<le> p + n \<Longrightarrow> store32 m q y a = m a"
  "\<not> inside p n a \<Longrightarrow> p \<le> q \<Longrightarrow> q + 8 \<le> p + n \<Longrightarrow> store64 m q z a = m a"
  "\<not> inside p n a \<Longrightarrow> p \<le> q \<Longrightarrow> q + 16 \<le> p + n \<Longrightarrow> put_desc m q ad l fl nx a = m a"
  by (auto simp: inside_def store_word_outside put_desc_outside)

lemma layout_inside:
  assumes "layout_ok L"
  shows "inside (desc_p L) 128 a \<Longrightarrow> \<not> inside (avail_p L) 22 a \<and> \<not> inside (used_p L) 70 a \<and>
      \<not> inside (req_p L) 16 a \<and> a \<noteq> status_p L"
    and "inside (avail_p L) 22 a \<Longrightarrow> \<not> inside (desc_p L) 128 a \<and> \<not> inside (used_p L) 70 a \<and>
      \<not> inside (req_p L) 16 a \<and> a \<noteq> status_p L"
    and "inside (req_p L) 16 a \<Longrightarrow> \<not> inside (desc_p L) 128 a \<and> \<not> inside (avail_p L) 22 a \<and>
      \<not> inside (used_p L) 70 a \<and> a \<noteq> status_p L"
    and "\<not> inside (desc_p L) 128 (status_p L) \<and> \<not> inside (avail_p L) 22 (status_p L) \<and>
      \<not> inside (used_p L) 70 (status_p L) \<and> \<not> inside (req_p L) 16 (status_p L)"
proof -
  have st: "inside (status_p L) 1 a \<longleftrightarrow> a = status_p L" for a by (auto simp: inside_def)
  note d = assms[unfolded layout_ok_def]
  show "inside (desc_p L) 128 a \<Longrightarrow> \<not> inside (avail_p L) 22 a \<and> \<not> inside (used_p L) 70 a \<and>
      \<not> inside (req_p L) 16 a \<and> a \<noteq> status_p L"
    using d apart st by metis
  show "inside (avail_p L) 22 a \<Longrightarrow> \<not> inside (desc_p L) 128 a \<and> \<not> inside (used_p L) 70 a \<and>
      \<not> inside (req_p L) 16 a \<and> a \<noteq> status_p L"
    using d apart st by metis
  show "inside (req_p L) 16 a \<Longrightarrow> \<not> inside (desc_p L) 128 a \<and> \<not> inside (avail_p L) 22 a \<and>
      \<not> inside (used_p L) 70 a \<and> a \<noteq> status_p L"
    using d apart st by metis
  show "\<not> inside (desc_p L) 128 (status_p L) \<and> \<not> inside (avail_p L) 22 (status_p L) \<and>
      \<not> inside (used_p L) 70 (status_p L) \<and> \<not> inside (req_p L) 16 (status_p L)"
    using d apart st by metis
qed

lemma get_desc_cong: "same_on p 16 m m' \<Longrightarrow> get_desc m p = get_desc m' p"
  by (simp add: get_desc_def load_same_on[of p 16 m m'])

lemma get_put_desc:
  "get_desc (put_desc m p ad l fl nx) p =
     \<lparr>d_addr = word_of_int ad, d_len = word_of_int l, d_flags = fl, d_next = nx\<rparr>"
proof -
  let ?m1 = "store64 m p (word_of_int ad)"
  let ?m2 = "store32 ?m1 (p + 8) (word_of_int l)"
  let ?m3 = "store16 ?m2 (p + 12) fl"
  let ?m4 = "store16 ?m3 (p + 14) nx"
  have "same_on p 8 ?m4 ?m1" "same_on (p + 8) 4 ?m4 ?m2" "same_on (p + 12) 2 ?m4 ?m3"
    by (auto simp: same_on_def store_word_outside)
  then show ?thesis
    using load_same_on(3)[of p 8 ?m4 ?m1 p] load_same_on(2)[of "p + 8" 4 ?m4 ?m2 "p + 8"]
      load_same_on(1)[of "p + 12" 2 ?m4 ?m3 "p + 12"]
    by (simp add: get_desc_def put_desc_def load64_store64 load32_store32 load16_store16)
qed

lemma request_built:
  fixes L m type lba len buffer
  assumes ok: "layout_ok L"
  defines "i \<equiv> uint (avail_idx L m AND 7)" and "m' \<equiv> build_request L type lba len buffer m"
  shows "desc_at L m' 0 = \<lparr>d_addr = word_of_int (req_p L), d_len = 16, d_flags = 1, d_next = 1\<rparr>"
    and "desc_at L m' 1 = \<lparr>d_addr = word_of_int buffer, d_len = word_of_int len,
           d_flags = (if type = 0 then 3 else 1), d_next = 2\<rparr>"
    and "desc_at L m' 2 = \<lparr>d_addr = word_of_int (status_p L), d_len = 1, d_flags = 2, d_next = 0\<rparr>"
    and "req_at L m' = \<lparr>r_type = type, r_reserved = 0, r_sector = word_of_int lba\<rparr>"
    and "m' (status_p L) = 0xff"
    and "avail_ring L m' i = 0" and "avail_idx L m' = avail_idx L m + 1"
    and "\<forall>a. m' a \<noteq> m a \<longrightarrow> desc_p L \<le> a \<and> a < desc_p L + 48 \<or> avail_p L + 2 \<le> a \<and> a < avail_p L + 20 \<or>
           used_p L \<le> a \<and> a < used_p L + 4 \<or> req_p L \<le> a \<and> a < req_p L + 16 \<or> a = status_p L"
proof -
  let ?m1 = "store32 m (req_p L) type"
  let ?m2 = "store32 ?m1 (req_p L + 4) 0"
  let ?m3 = "store64 ?m2 (req_p L + 8) (word_of_int lba)"
  let ?m4 = "put_desc ?m3 (desc_p L) (req_p L) 16 1 1"
  let ?m5 = "put_desc ?m4 (desc_p L + 16) buffer len (if type = 0 then 2 OR 1 else 1) 2"
  let ?m6 = "?m5(status_p L := 0xff)"
  let ?m7 = "put_desc ?m6 (desc_p L + 32) (status_p L) 1 2 0"
  let ?m8 = "store16 ?m7 (avail_p L + 4 + 2 * i) 0"
  let ?m9 = "store16 ?m8 (avail_p L + 2) (avail_idx L m + 1)"
  let ?m10 = "store16 ?m9 (used_p L + 2) 0"
  have "avail_idx L m AND 7 \<le> 7" by (rule word_and_le1)
  then have i: "0 \<le> i" "i < 8" by (simp_all add: i_def word_le_def)
  note lay = layout_inside[OF ok]
  have desc: "inside (desc_p L) 128 a" if "desc_p L \<le> a" "a < desc_p L + 48" for a
    using that by (simp add: inside_def)
  have avail: "inside (avail_p L) 22 a" if "avail_p L \<le> a" "a < avail_p L + 20" for a
    using that by (simp add: inside_def)
  have req: "inside (req_p L) 16 a" if "req_p L \<le> a" "a < req_p L + 16" for a
    using that by (simp add: inside_def)
  have keep: "same_on p n ma mb" if "\<And>a. p \<le> a \<Longrightarrow> a < p + n \<Longrightarrow> ma a = mb a" for p n ma mb
    using that by (simp add: same_on_def)
  have used: "store16 mm (used_p L + 2) x a = mm a" "store16 mm (used_p L) x a = mm a"
    if "\<not> inside (used_p L) 70 a" for mm x a
    using that by (simp_all add: outside_region[of "used_p L" 70])
  have av: "store16 mm (avail_p L + 4 + 2 * i) x a = mm a" "store16 mm (avail_p L + 2) x a = mm a"
    if "\<not> inside (avail_p L) 22 a" for mm x a
    using that i by (simp_all add: outside_region[of "avail_p L" 22])
  have de: "put_desc mm (desc_p L) x y z w a = mm a" "put_desc mm (desc_p L + 16) x y z w a = mm a"
    "put_desc mm (desc_p L + 32) x y z w a = mm a"
    if "\<not> inside (desc_p L) 128 a" for mm x y z w a
    using that by (simp_all add: outside_region[of "desc_p L" 128])
  have re: "store32 mm (req_p L) x a = mm a" "store32 mm (req_p L + 4) x a = mm a" "store64 mm (req_p L + 8) y a = mm a"
    if "\<not> inside (req_p L) 16 a" for mm x y a
    using that by (simp_all add: outside_region[of "req_p L" 16])
  have ai: "avail_idx L ?m7 = avail_idx L m"
    unfolding avail_idx_def using lay(2)[OF avail] by (intro load_cong) (simp add: de re)
  have "avail_idx L ?m8 = avail_idx L ?m7"
    unfolding avail_idx_def using i by (intro load_cong) (simp add: store_word_outside)
  with ai have ai8: "avail_idx L ?m8 = avail_idx L m" by simp
  have m': "m' = store16 ?m10 (used_p L) 0"
    using ai ai8 by (simp add: m'_def build_request_def Let_def i_def)
  have s4: "same_on (desc_p L) 16 m' ?m4"
    unfolding m' using lay(1)[OF desc] by (intro keep) (simp add: used av put_desc_outside)
  have s5: "same_on (desc_p L + 16) 16 m' ?m5"
    unfolding m' using lay(1)[OF desc] by (intro keep) (simp add: used av put_desc_outside)
  have s7: "same_on (desc_p L + 32) 16 m' ?m7"
    unfolding m' using lay(1)[OF desc] by (intro keep) (simp add: used av)
  have s3: "same_on (req_p L) 16 m' ?m3"
    unfolding m' using lay(3)[OF req] by (intro keep) (simp add: used av de)
  have s8: "same_on (avail_p L + 4 + 2 * i) 2 m' ?m8"
    unfolding m' using lay(2)[OF avail] i by (intro keep) (simp add: used store_word_outside)
  have s9: "same_on (avail_p L + 2) 2 m' ?m9"
    unfolding m' using lay(2)[OF avail] by (intro keep) (simp add: used)
  show "desc_at L m' 0 = \<lparr>d_addr = word_of_int (req_p L), d_len = 16, d_flags = 1, d_next = 1\<rparr>"
    using get_desc_cong[OF s4] by (simp add: desc_at_def get_put_desc)
  show "desc_at L m' 1 = \<lparr>d_addr = word_of_int buffer, d_len = word_of_int len,
           d_flags = (if type = 0 then 3 else 1), d_next = 2\<rparr>"
    using get_desc_cong[OF s5] by (simp add: desc_at_def get_put_desc)
  show "desc_at L m' 2 = \<lparr>d_addr = word_of_int (status_p L), d_len = 1, d_flags = 2, d_next = 0\<rparr>"
    using get_desc_cong[OF s7] by (simp add: desc_at_def get_put_desc)
  show "req_at L m' = \<lparr>r_type = type, r_reserved = 0, r_sector = word_of_int lba\<rparr>"
  proof -
    have "same_on (req_p L) 4 ?m3 ?m1" "same_on (req_p L + 4) 4 ?m3 ?m2"
      by (auto simp: same_on_def store_word_outside)
    then show ?thesis
      using load_same_on(2)[OF s3] load_same_on(3)[OF s3]
        load_same_on(2)[of "req_p L" 4 ?m3 ?m1 "req_p L"] load_same_on(2)[of "req_p L + 4" 4 ?m3 ?m2 "req_p L + 4"]
      by (simp add: req_at_def load32_store32 load64_store64)
  qed
  show "m' (status_p L) = 0xff" unfolding m' using lay(4) by (simp add: used av de)
  show "avail_ring L m' i = 0"
    using load_same_on(1)[OF s8] by (simp add: avail_ring_def load16_store16)
  show "avail_idx L m' = avail_idx L m + 1"
    using load_same_on(1)[OF s9] by (simp add: avail_idx_def load16_store16)
  show "\<forall>a. m' a \<noteq> m a \<longrightarrow> desc_p L \<le> a \<and> a < desc_p L + 48 \<or> avail_p L + 2 \<le> a \<and> a < avail_p L + 20 \<or>
           used_p L \<le> a \<and> a < used_p L + 4 \<or> req_p L \<le> a \<and> a < req_p L + 16 \<or> a = status_p L"
  proof (intro allI impI, rule ccontr)
    fix a
    assume "m' a \<noteq> m a" and n: "\<not> (desc_p L \<le> a \<and> a < desc_p L + 48 \<or> avail_p L + 2 \<le> a \<and> a < avail_p L + 20 \<or>
           used_p L \<le> a \<and> a < used_p L + 4 \<or> req_p L \<le> a \<and> a < req_p L + 16 \<or> a = status_p L)"
    have o: "\<not> inside (desc_p L) 48 a" "\<not> inside (avail_p L + 2) 18 a" "\<not> inside (used_p L) 4 a"
      "\<not> inside (req_p L) 16 a" "a \<noteq> status_p L"
      using n unfolding inside_def by linarith+
    have "m' a = m a"
      unfolding m' using o i
      by (simp add: re outside_region[OF o(1)] outside_region[OF o(2)] outside_region[OF o(3)])
    with \<open>m' a \<noteq> m a\<close> show False by simp
  qed
qed

section \<open>Waiting for the device\<close>

text \<open>The state after the device has had \<open>k\<close> turns.\<close>

abbreviation after_dma :: "'d device \<Rightarrow> nat \<Rightarrow> 'd io \<Rightarrow> 'd io" where
  "after_dma D k s \<equiv> (run_dma D ^^ k) s"

lemma poll_answered:
  "ram (after_dma D k s) (status_p L) \<noteq> 0xff \<Longrightarrow> \<forall>j<k. ram (after_dma D j s) (status_p L) = 0xff \<Longrightarrow>
   poll_status D L s = Some (after_dma D k s)"
proof (induction k arbitrary: s)
  case 0
  then show ?case by (subst poll_status.simps) simp
next
  case (Suc k)
  have "ram s (status_p L) = 0xff" using Suc.prems(2) by (force dest: spec[of _ 0])
  moreover have "poll_status D L (run_dma D s) = Some (after_dma D k (run_dma D s))"
  proof (rule Suc.IH)
    show "ram (after_dma D k (run_dma D s)) (status_p L) \<noteq> 0xff"
      using Suc.prems(1) by (simp add: funpow_swap1)
    show "\<forall>j<k. ram (after_dma D j (run_dma D s)) (status_p L) = 0xff"
      using Suc.prems(2) by (auto simp: funpow_swap1 dest: spec[of _ "Suc _"])
  qed
  ultimately show ?case by (subst poll_status.simps) (simp add: funpow_swap1)
qed

lemma poll_returns:
  assumes "poll_status D L s = Some t"
  shows "\<exists>k. t = after_dma D k s \<and> ram t (status_p L) \<noteq> 0xff"
proof (rule poll_status.raw_induct[of "\<lambda>D L s t. \<exists>k. t = after_dma D k s \<and> ram t (status_p L) \<noteq> 0xff", OF _ assms])
  fix poll and D :: "'d device" and L and s t :: "'d io"
  assume IH: "\<And>D L s t. poll D L s = Some t \<Longrightarrow> \<exists>k. t = after_dma D k s \<and> ram t (status_p L) \<noteq> 0xff"
    and eq: "(if ram s (status_p L) = 0xff then poll D L (run_dma D s) else Some s) = Some t"
  show "\<exists>k. t = after_dma D k s \<and> ram t (status_p L) \<noteq> 0xff"
  proof (cases "ram s (status_p L) = 0xff")
    case True
    with eq IH obtain k where "t = after_dma D k (run_dma D s)" "ram t (status_p L) \<noteq> 0xff" by fastforce
    then show ?thesis by (intro exI[of _ "Suc k"]) (simp add: funpow_swap1)
  next
    case False
    with eq show ?thesis by (intro exI[of _ 0]) simp
  qed
qed

text \<open>A request returns exactly when the device answers at all, with the length for status 0
  and the negated status otherwise.\<close>

definition request_sent :: "'d device \<Rightarrow> layout \<Rightarrow> 32 word \<Rightarrow> int \<Rightarrow> int \<Rightarrow> addr \<Rightarrow> 'd io \<Rightarrow> 'd io" where
  "request_sent D L type lba len buffer s =
     wreg D (REG 0x050) 0 (s\<lparr>ram := build_request L type lba (u32 len) buffer (ram s)\<rparr>)"

lemma first_answer:
  fixes P :: "nat \<Rightarrow> bool"
  assumes "\<exists>k\<ge>1. P k"
  obtains k where "1 \<le> k" "P k" "\<forall>j. 1 \<le> j \<and> j < k \<longrightarrow> \<not> P j"
proof -
  let ?k = "LEAST k. 1 \<le> k \<and> P k"
  from assms have "1 \<le> ?k \<and> P ?k" using LeastI_ex[of "\<lambda>k. 1 \<le> k \<and> P k"] by blast
  moreover have "\<forall>j. 1 \<le> j \<and> j < ?k \<longrightarrow> \<not> P j" using not_less_Least[of _ "\<lambda>k. 1 \<le> k \<and> P k"] by blast
  ultimately show thesis using that by blast
qed

lemma io_returns_iff:
  "(\<exists>r s'. do_virtio_blk_io D L type lba len buffer s = Some (r, s')) \<longleftrightarrow>
   (\<exists>k\<ge>1. ram (after_dma D k (request_sent D L type lba len buffer s)) (status_p L) \<noteq> 0xff)"
proof
  let ?q = "request_sent D L type lba len buffer s"
  assume "\<exists>r s'. do_virtio_blk_io D L type lba len buffer s = Some (r, s')"
  then obtain t where "poll_status D L (run_dma D ?q) = Some t"
    by (auto simp: do_virtio_blk_io_def request_sent_def Let_def split: bind_splits)
  from poll_returns[OF this] obtain k where "t = after_dma D k (run_dma D ?q)" "ram t (status_p L) \<noteq> 0xff"
    by blast
  then show "\<exists>k\<ge>1. ram (after_dma D k ?q) (status_p L) \<noteq> 0xff"
    by (intro exI[of _ "Suc k"]) (simp add: funpow_swap1)
next
  let ?q = "request_sent D L type lba len buffer s"
  assume "\<exists>k\<ge>1. ram (after_dma D k ?q) (status_p L) \<noteq> 0xff"
  then obtain k where k: "1 \<le> k" "ram (after_dma D k ?q) (status_p L) \<noteq> 0xff"
    "\<forall>j. 1 \<le> j \<and> j < k \<longrightarrow> \<not> ram (after_dma D j ?q) (status_p L) \<noteq> 0xff"
    by (rule first_answer)
  then obtain k' where k': "k = Suc k'" by (cases k) auto
  have "poll_status D L (run_dma D ?q) = Some (after_dma D k' (run_dma D ?q))"
    using k by (intro poll_answered) (auto simp: k' funpow_swap1 dest: spec[of _ "Suc _"])
  then show "\<exists>r s'. do_virtio_blk_io D L type lba len buffer s = Some (r, s')"
    by (simp add: do_virtio_blk_io_def request_sent_def Let_def)
qed

lemma io_result:
  assumes "do_virtio_blk_io D L type lba len buffer s = Some (r, s')"
  shows "\<exists>k\<ge>1. s' = after_dma D k (request_sent D L type lba len buffer s) \<and>
           ram s' (status_p L) \<noteq> 0xff \<and>
           r = (if ram s' (status_p L) = 0 then s32 len else - uint (ram s' (status_p L)))"
proof -
  let ?q = "request_sent D L type lba len buffer s"
  from assms obtain t where t: "poll_status D L (run_dma D ?q) = Some t" "s' = t"
    "r = (if ram t (status_p L) = 0 then s32 len else - uint (ram t (status_p L)))"
    by (auto simp: do_virtio_blk_io_def request_sent_def Let_def split: bind_splits if_splits)
  from poll_returns[OF t(1)] obtain k where "t = after_dma D k (run_dma D ?q)" "ram t (status_p L) \<noteq> 0xff"
    by blast
  with t show ?thesis by (intro exI[of _ "Suc k"]) (simp add: funpow_swap1)
qed

section \<open>Properties\<close>

text \<open>A device and a layout for examples: the four identification registers of a QEMU block
  device, room for 1024 descriptors, every other register 0; it answers a request by status 0
  after one turn.\<close>

definition ex_layout :: layout where
  "ex_layout = \<lparr>desc_p = 0x1000, avail_p = 0x1080, used_p = 0x10a0, req_p = 0x1100, status_p = 0x1110\<rparr>"

definition ex_device :: "unit device" where
  "ex_device = \<lparr>
     reg_read = (\<lambda>d a. (if a = REG 0x000 then 0x74726976 else if a = REG 0x004 then 2
       else if a = REG 0x008 then 2 else if a = REG 0x00C then 0x554d4551
       else if a = REG 0x034 then 1024 else 0, d)),
     reg_write = (\<lambda>d a v. d), dma = (\<lambda>d m. (d, m(status_p ex_layout := 0)))\<rparr>"

definition ex_io :: "unit io" where
  "ex_io = \<lparr>dev = (), ram = (\<lambda>_. 0), accesses = []\<rparr>"

lemma ex_layout_ok: "layout_ok ex_layout"
  by (simp add: layout_ok_def disjoint_from_def ex_layout_def)

lemma ex_init: "fst (virtio_blk_init ex_device ex_layout ex_io) = Inr ()"
  by (simp add: virtio_blk_init_def probe_ids_def negotiate_def rreg_def wreg_def ex_device_def ex_io_def
      publish_queue_def Let_def)

text \<open>C34: The initialisation steps the device through reset, acknowledge, driver, features-ok and driver-ok,
  in that order and skipping none: it succeeds exactly when all five were written, writes nothing to
  the status register of a device it does not recognise, and stops before driver-ok when the queue
  cannot be used.\<close>

theorem init_handshake:
  assumes "virtio_blk_init D L s = (r, s')"
  shows "\<exists>ws. writes_to (REG 0x070) (accesses s') = writes_to (REG 0x070) (accesses s) @ ws \<and>
           ws \<in> {[], [0, 1, 3, 11], [0, 1, 3, 11, 15]} \<and> (r = Inr () \<longleftrightarrow> ws = [0, 1, 3, 11, 15])"
  by (rule init_status[OF assms])

theorem init_handshake_witness:
  "writes_to (REG 0x070) (accesses (snd (virtio_blk_init ex_device ex_layout ex_io))) = [0, 1, 3, 11, 15]"
  using init_handshake[of ex_device ex_layout ex_io "fst (virtio_blk_init ex_device ex_layout ex_io)"
      "snd (virtio_blk_init ex_device ex_layout ex_io)"] ex_init
  by (auto simp: ex_io_def)

text \<open>The driver accepts only features it can handle: of the low word what the device offers less
  read-only, SCSI, writeback, multi-queue, any-layout, indirect descriptors and event index, of the
  high word version 1 alone.\<close>

theorem init_accepts_features:
  assumes "virtio_blk_init D L s = (Inr (), s')"
  shows "\<exists>before after f0 f1 a0 a1. accesses s' = accesses s @ before @
           [Write (REG 0x014) 0, Read (REG 0x010) f0, Write (REG 0x024) 0, Write (REG 0x020) a0,
            Write (REG 0x014) 1, Read (REG 0x010) f1, Write (REG 0x024) 1, Write (REG 0x020) a1] @ after \<and>
           writes_to (REG 0x020) (before @ after) = [] \<and>
           (\<forall>i. bit a0 i \<longleftrightarrow> bit f0 i \<and> i \<notin> {5, 7, 11, 12, 27, 28, 29}) \<and>
           (\<forall>i. bit a1 i \<longleftrightarrow> bit f1 i \<and> i = 0)"
proof -
  obtain s1 where p: "probe_ids D s = (True, s1)"
    using assms by (auto simp: virtio_blk_init_def split: prod.splits if_splits)
  obtain rs where rs: "accesses s1 = accesses s @ rs" "\<forall>a. writes_to a rs = []"
    using probe_ids_accesses[OF p] by auto
  obtain f0 f1 where n: "accesses (negotiate D s1) = accesses s1 @
     [Write (REG 0x070) 0, Write (REG 0x070) 1, Write (REG 0x070) 3,
      Write (REG 0x014) 0, Read (REG 0x010) f0, Write (REG 0x024) 0, Write (REG 0x020) (features_low f0),
      Write (REG 0x014) 1, Read (REG 0x010) f1, Write (REG 0x024) 1, Write (REG 0x020) (f1 AND 1),
      Write (REG 0x070) 11]"
    using negotiate_accesses[of D s1] by blast
  obtain rest where rest: "accesses s' = accesses (negotiate D s1) @ rest" "writes_to (REG 0x020) rest = []"
    using assms p
    by (auto simp: virtio_blk_init_def publish_queue_def Let_def split: prod.splits if_splits dest!: rreg_accesses)
  show ?thesis
    by (rule exI[of _ "rs @ [Write (REG 0x070) 0, Write (REG 0x070) 1, Write (REG 0x070) 3]"],
        rule exI[of _ "Write (REG 0x070) 11 # rest"], rule exI[of _ f0], rule exI[of _ f1],
        rule exI[of _ "features_low f0"], rule exI[of _ "f1 AND 1"])
       (use rs n rest in \<open>auto simp: features_low_masked bit_and_iff bit_1_iff\<close>)
qed

theorem init_accepts_features_witness:
  "\<exists>a1. Write (REG 0x020) a1 \<in> set (accesses (snd (virtio_blk_init ex_device ex_layout ex_io))) \<and> \<not> bit a1 1"
proof -
  have "virtio_blk_init ex_device ex_layout ex_io = (Inr (), snd (virtio_blk_init ex_device ex_layout ex_io))"
    using ex_init by (metis prod.collapse)
  from init_accepts_features[OF this] show ?thesis by force
qed

text \<open>C26: When the device is notified, the queue holds the request: the three descriptors chained in
  order (header, buffer, status), each with its address, length and direction, the header with the
  type and sector, the status byte preset, the head of the chain in the available ring and the
  index moved on; and nothing outside of the driver's variables has been written.\<close>

theorem request_in_queue:
  assumes "layout_ok L" "m' = build_request L type lba len buffer m"
  shows "desc_at L m' 0 = \<lparr>d_addr = word_of_int (req_p L), d_len = 16, d_flags = 1, d_next = 1\<rparr> \<and>
    desc_at L m' 1 = \<lparr>d_addr = word_of_int buffer, d_len = word_of_int len,
           d_flags = (if type = 0 then 3 else 1), d_next = 2\<rparr> \<and>
    desc_at L m' 2 = \<lparr>d_addr = word_of_int (status_p L), d_len = 1, d_flags = 2, d_next = 0\<rparr> \<and>
    req_at L m' = \<lparr>r_type = type, r_reserved = 0, r_sector = word_of_int lba\<rparr> \<and>
    m' (status_p L) = 0xff \<and>
    avail_ring L m' (uint (avail_idx L m AND 7)) = 0 \<and> avail_idx L m' = avail_idx L m + 1 \<and>
    (\<forall>a. m' a \<noteq> m a \<longrightarrow> desc_p L \<le> a \<and> a < desc_p L + 48 \<or> avail_p L + 2 \<le> a \<and> a < avail_p L + 20 \<or>
           used_p L \<le> a \<and> a < used_p L + 4 \<or> req_p L \<le> a \<and> a < req_p L + 16 \<or> a = status_p L)"
  unfolding assms(2) by (intro conjI) (rule request_built[OF assms(1)])+

theorem request_in_queue_witness:
  "avail_idx ex_layout (build_request ex_layout 1 16 512 0x2000 (\<lambda>_. 0)) =
     avail_idx ex_layout (\<lambda>_. 0) + 1"
  using request_in_queue[OF ex_layout_ok refl] by blast

text \<open>C27: A request returns exactly when the device ever answers; it then returns right after the
  device's first answer, with the length for status 0 and the negated status otherwise.\<close>

theorem request_result:
  "(case do_virtio_blk_io D L type lba len buffer s of
      None \<Rightarrow> \<forall>k. ram (after_dma D (Suc k) (request_sent D L type lba len buffer s)) (status_p L) = 0xff
    | Some (r, s') \<Rightarrow> \<exists>k\<ge>1. s' = after_dma D k (request_sent D L type lba len buffer s) \<and>
        ram s' (status_p L) \<noteq> 0xff \<and>
        r = (if ram s' (status_p L) = 0 then s32 len else - uint (ram s' (status_p L))))"
  using io_returns_iff[of D L type lba len buffer s] io_result[of D L type lba len buffer s]
  by (cases "do_virtio_blk_io D L type lba len buffer s") auto

end
