(* ===== verification/Nanoprintf.thy ===== *)
theory Nanoprintf
  imports Util
begin

text \<open>
  The formatter (\<open>src/src/nanoprintf.h\<close>) in the configuration of \<open>src/src/util.c\<close>: field widths,
  precisions, the large length modifiers and binary are compiled in; small modifiers, floats,
  \<open>%n\<close> and the \<open>#\<close> flag are not, so \<open>need_0x\<close> is always 0 and is left out.

  A format is the list of its bytes up to the NUL; \<open>cur\<close> is what is left of it, and the NUL is what
  \<open>*cur\<close> reads at its end.  A specification is shorter than \<open>INT_MAX\<close> bytes.  The argument list
  holds what the caller passed: a 32-bit value (\<open>Va_w\<close>), a 64-bit value (\<open>Va_x\<close>, also a pointer that is
  printed), or a pointer to a string (\<open>Va_s\<close>, NULL being \<open>None\<close>).  \<open>None\<close> as a result is undefined
  behaviour, an argument that is missing or of another kind, or a string loop that does not end.
  Arithmetic on \<open>int\<close> is reduced with \<open>s32\<close>.
\<close>

section \<open>Conversion specifications\<close>

datatype npf_opt = OPT_NONE | OPT_LITERAL | OPT_STAR

datatype npf_len_mod =
  LEN_MOD_NONE | LEN_MOD_LONG | LEN_MOD_LONG_DOUBLE | LEN_MOD_LARGE_LONG_LONG |
  LEN_MOD_LARGE_INTMAX | LEN_MOD_LARGE_SIZET | LEN_MOD_LARGE_PTRDIFFT

datatype npf_conv =
  CONV_NONE | CONV_PERCENT | CONV_CHAR | CONV_STRING | CONV_SIGNED_INT | CONV_BINARY |
  CONV_OCTAL | CONV_HEX_INT | CONV_UNSIGNED_INT | CONV_POINTER

record npf_format_spec =
  field_width :: int
  prec :: int
  prec_opt :: npf_opt
  field_width_opt :: npf_opt
  left_justified :: byte
  leading_zero_pad :: byte
  prepend :: byte
  case_adjust :: int
  length_modifier :: npf_len_mod
  conv_spec :: npf_conv

text \<open>\<open>*cur\<close>, and the digits of a width or precision.\<close>

definition deref :: "byte list \<Rightarrow> byte" where
  "deref cur = (case cur of [] \<Rightarrow> 0 | c # _ \<Rightarrow> c)"

fun npf_flags :: "byte list \<Rightarrow> npf_format_spec \<Rightarrow> npf_format_spec \<times> byte list" where
  "npf_flags [] fs = (fs, [])"
| "npf_flags (c # cur) fs =
     (if c = 45 then npf_flags cur (fs\<lparr>left_justified := 45\<rparr>)
      else if c = 48 then npf_flags cur (fs\<lparr>leading_zero_pad := 1\<rparr>)
      else if c = 43 then npf_flags cur (fs\<lparr>prepend := 43\<rparr>)
      else if c = 32 then npf_flags cur (if prepend fs = 0 then fs\<lparr>prepend := 32\<rparr> else fs)
      else (fs, c # cur))"

fun npf_digits :: "int \<Rightarrow> byte list \<Rightarrow> int \<times> byte list" where
  "npf_digits n [] = (n, [])"
| "npf_digits n (c # cur) =
     (if 48 \<le> c \<and> c \<le> 57 then npf_digits (s32 (n * 10 + (uint c - 48))) cur else (n, c # cur))"

definition npf_width :: "npf_format_spec \<Rightarrow> byte list \<Rightarrow> npf_format_spec \<times> byte list" where
  "npf_width fs cur =
     (if deref cur = 42 then (fs\<lparr>field_width := 0, field_width_opt := OPT_STAR\<rparr>, tl cur)
      else case npf_digits 0 cur of
        (n, cur') \<Rightarrow>
          (fs\<lparr>field_width := n, field_width_opt := (if 48 \<le> deref cur \<and> deref cur \<le> 57 then OPT_LITERAL else OPT_NONE)\<rparr>, cur'))"

definition npf_precision :: "npf_format_spec \<Rightarrow> byte list \<Rightarrow> npf_format_spec \<times> byte list" where
  "npf_precision fs cur =
     (if deref cur = 46 then
        let cur = tl cur in
        if deref cur = 42 then (fs\<lparr>prec := 0, prec_opt := OPT_STAR\<rparr>, tl cur)
        else if deref cur = 45 then
          (case npf_digits 0 (tl cur) of (n, cur) \<Rightarrow> (fs\<lparr>prec := n, prec_opt := OPT_NONE\<rparr>, cur))
        else (case npf_digits 0 cur of (n, cur) \<Rightarrow> (fs\<lparr>prec := n, prec_opt := OPT_LITERAL\<rparr>, cur))
      else (fs\<lparr>prec := 0, prec_opt := OPT_NONE\<rparr>, cur))"

definition npf_length_modifier :: "byte list \<Rightarrow> npf_len_mod \<times> byte list" where
  "npf_length_modifier cur =
     (if deref cur = 108 then
        (if deref (tl cur) = 108 then (LEN_MOD_LARGE_LONG_LONG, tl (tl cur)) else (LEN_MOD_LONG, tl cur))
      else if deref cur = 106 then (LEN_MOD_LARGE_INTMAX, tl cur)
      else if deref cur = 122 then (LEN_MOD_LARGE_SIZET, tl cur)
      else if deref cur = 116 then (LEN_MOD_LARGE_PTRDIFFT, tl cur)
      else (LEN_MOD_NONE, cur))"

text \<open>The conversion character; \<open>None\<close> is the early return of 0.\<close>

definition npf_conversion :: "byte \<Rightarrow> npf_format_spec \<Rightarrow> npf_format_spec option" where
  "npf_conversion c fs =
     (if c = 37 then Some (fs\<lparr>conv_spec := CONV_PERCENT\<rparr>)
      else if c = 99 then Some (fs\<lparr>conv_spec := CONV_CHAR\<rparr>)
      else if c = 115 then Some (fs\<lparr>conv_spec := CONV_STRING\<rparr>)
      else if c = 105 \<or> c = 100 then Some (fs\<lparr>conv_spec := CONV_SIGNED_INT\<rparr>)
      else if c = 111 then Some (fs\<lparr>conv_spec := CONV_OCTAL\<rparr>)
      else if c = 117 then Some (fs\<lparr>conv_spec := CONV_UNSIGNED_INT\<rparr>)
      else if c = 88 then Some (fs\<lparr>case_adjust := 0, conv_spec := CONV_HEX_INT\<rparr>)
      else if c = 120 then Some (fs\<lparr>conv_spec := CONV_HEX_INT\<rparr>)
      else if c = 112 then Some (fs\<lparr>conv_spec := CONV_POINTER\<rparr>)
      else if c = 66 then Some (fs\<lparr>case_adjust := 0, conv_spec := CONV_BINARY\<rparr>)
      else if c = 98 then Some (fs\<lparr>conv_spec := CONV_BINARY\<rparr>)
      else None)"

text \<open>The fields before anything is parsed; each of them is written before it is used.\<close>

definition npf_fresh :: npf_format_spec where
  "npf_fresh =
     \<lparr>field_width = 0, prec = 0, prec_opt = OPT_NONE, field_width_opt = OPT_NONE, left_justified = 0,
      leading_zero_pad = 0, prepend = 0, case_adjust = 32, length_modifier = LEN_MOD_NONE, conv_spec = CONV_NONE\<rparr>"

definition npf_parse_format_spec :: "byte list \<Rightarrow> int \<times> npf_format_spec" where
  "npf_parse_format_spec format =
     (case npf_flags (tl format) npf_fresh of (fs, cur) \<Rightarrow>
      case npf_width fs cur of (fs, cur) \<Rightarrow>
      case npf_precision fs cur of (fs, cur) \<Rightarrow>
      case npf_length_modifier cur of (m, cur) \<Rightarrow>
      case npf_conversion (deref cur) (fs\<lparr>length_modifier := m\<rparr>) of
        None \<Rightarrow> (0, fs)
      | Some fs \<Rightarrow> (int (length format) - int (length (tl cur)), fs))"

section \<open>Digits\<close>

text \<open>The digits, least significant first.\<close>

partial_function (option) npf_utoa_rev :: "int \<Rightarrow> int \<Rightarrow> int \<Rightarrow> byte list option" where
  "npf_utoa_rev val base case_adj =
     (let d = val mod base;
          c = word_of_int ((if d < 10 then 48 else 65 - 10 + case_adj) + d);
          val = val div base
      in if val \<noteq> 0 then do { cs \<leftarrow> npf_utoa_rev val base case_adj; Some (c # cs) } else Some [c])"

text \<open>The compiler's \<open>__builtin_clzll\<close> on a 64-bit value that is not 0: its leading zero bits.\<close>

definition clzll :: "64 word \<Rightarrow> int" where
  "clzll w = int (length (takeWhile (\<lambda>i. \<not> bit w i) (rev [0..<64])))"

definition npf_bin_len :: "int \<Rightarrow> int" where
  "npf_bin_len u = (if u = 0 then 1 else s32 (64 - clzll (word_of_int u)))"

text \<open>The software version, compiled where there is no such builtin.\<close>

function npf_bin_len_loop :: "int \<Rightarrow> int \<Rightarrow> int" where
  "npf_bin_len_loop n u = (if u \<le> 0 then n else npf_bin_len_loop (n + 1) (drop_bit 1 u))"
  by pat_completeness auto
termination by (relation "measure (\<lambda>(n, u). nat u)") (auto simp: drop_bit_eq_div)

declare npf_bin_len_loop.simps [simp del]

section \<open>Arguments\<close>

datatype va_arg = Va_w int | Va_x int | Va_s "cptr option"

definition s64 :: "int \<Rightarrow> int" where
  "s64 x = (x + 9223372036854775808) mod 18446744073709551616 - 9223372036854775808"

definition va_word :: "va_arg list \<Rightarrow> (int \<times> va_arg list) option" where
  "va_word args = (case args of Va_w v # args \<Rightarrow> Some (v, args) | _ \<Rightarrow> None)"

definition va_long :: "va_arg list \<Rightarrow> (int \<times> va_arg list) option" where
  "va_long args = (case args of Va_x v # args \<Rightarrow> Some (v, args) | _ \<Rightarrow> None)"

definition va_str :: "va_arg list \<Rightarrow> (cptr option \<times> va_arg list) option" where
  "va_str args = (case args of Va_s p # args \<Rightarrow> Some (p, args) | _ \<Rightarrow> None)"

definition extract_signed :: "npf_len_mod \<Rightarrow> va_arg list \<Rightarrow> (int \<times> va_arg list) option" where
  "extract_signed m args =
     (case m of
        LEN_MOD_NONE \<Rightarrow> do { (v, args) \<leftarrow> va_word args; Some (s32 v, args) }
      | LEN_MOD_LONG_DOUBLE \<Rightarrow> Some (0, args)
      | _ \<Rightarrow> do { (v, args) \<leftarrow> va_long args; Some (s64 v, args) })"

definition extract_unsigned :: "npf_len_mod \<Rightarrow> va_arg list \<Rightarrow> (int \<times> va_arg list) option" where
  "extract_unsigned m args =
     (case m of
        LEN_MOD_NONE \<Rightarrow> do { (v, args) \<leftarrow> va_word args; Some (u32 v, args) }
      | LEN_MOD_LONG_DOUBLE \<Rightarrow> Some (0, args)
      | _ \<Rightarrow> do { (v, args) \<leftarrow> va_long args; Some (u64 v, args) })"

text \<open>\<open>*\<close> arguments, then the precision of a pointer and the \<open>0\<close> flag against a precision.\<close>

definition star_width :: "npf_format_spec \<Rightarrow> va_arg list \<Rightarrow> (npf_format_spec \<times> va_arg list) option" where
  "star_width fs args =
     (if field_width_opt fs = OPT_STAR then do {
        (v, args) \<leftarrow> va_word args;
        Some (if s32 v < 0 then fs\<lparr>field_width := s32 (- s32 v), left_justified := 1\<rparr>
              else fs\<lparr>field_width := s32 v\<rparr>, args)
      } else Some (fs, args))"

definition star_prec :: "npf_format_spec \<Rightarrow> va_arg list \<Rightarrow> (npf_format_spec \<times> va_arg list) option" where
  "star_prec fs args =
     (if prec_opt fs = OPT_STAR then do {
        (v, args) \<leftarrow> va_word args;
        Some (if s32 v < 0 then fs\<lparr>prec := 0, prec_opt := OPT_NONE\<rparr> else fs\<lparr>prec := s32 v\<rparr>, args)
      } else Some (fs, args))"

definition adjust_spec :: "npf_format_spec \<Rightarrow> npf_format_spec" where
  "adjust_spec fs =
     (let fs = (if prec_opt fs = OPT_NONE \<and> conv_spec fs = CONV_POINTER then fs\<lparr>prec := 16\<rparr> else fs)
      in if prec_opt fs \<noteq> OPT_NONE \<and>
            (conv_spec fs = CONV_SIGNED_INT \<or> conv_spec fs = CONV_OCTAL \<or> conv_spec fs = CONV_HEX_INT \<or>
             conv_spec fs = CONV_UNSIGNED_INT)
         then fs\<lparr>leading_zero_pad := 0\<rparr> else fs)"

section \<open>One conversion\<close>

text \<open>What \<open>cbuf\<close> points at, its length, the sign and whether the number is 0.\<close>

datatype npf_buf = Reversed "byte list" | Binval int | Text "cptr option"

record npf_text =
  cbuf :: npf_buf
  cbuf_len :: int
  sign_c :: byte
  is_zero :: bool

definition text_of :: "npf_buf \<Rightarrow> int \<Rightarrow> npf_text" where
  "text_of b n = \<lparr>cbuf = b, cbuf_len = n, sign_c = 0, is_zero = False\<rparr>"

text \<open>The length of a string argument, up to the precision.\<close>

partial_function (option) npf_string_len :: "npf_format_spec \<Rightarrow> cptr \<Rightarrow> int \<Rightarrow> int option" where
  "npf_string_len fs s n =
     (if (prec_opt fs = OPT_NONE \<or> n < prec fs) \<and> s 0 \<noteq> 0
      then npf_string_len fs (shift s 1) (s32 (n + 1)) else Some n)"

definition convert_signed :: "npf_format_spec \<Rightarrow> va_arg list \<Rightarrow> (npf_text \<times> va_arg list) option" where
  "convert_signed fs args = do {
     (val, args) \<leftarrow> extract_signed (length_modifier fs) args;
     ds \<leftarrow> (if val = 0 \<and> prec_opt fs \<noteq> OPT_NONE \<and> prec fs = 0 then Some []
           else npf_utoa_rev (if val < 0 then u64 (0 - u64 val) else u64 val) 10 (case_adjust fs));
     Some (\<lparr>cbuf = Reversed ds, cbuf_len = int (length ds),
            sign_c = (if val < 0 then 45 else prepend fs), is_zero = (val = 0)\<rparr>, args)
   }"

definition convert_unsigned :: "npf_format_spec \<Rightarrow> va_arg list \<Rightarrow> (npf_text \<times> va_arg list) option" where
  "convert_unsigned fs args = do {
     (val, args) \<leftarrow> (if conv_spec fs = CONV_POINTER then do { (v, args) \<leftarrow> va_long args; Some (u64 v, args) }
                    else extract_unsigned (length_modifier fs) args);
     if val = 0 \<and> prec_opt fs \<noteq> OPT_NONE \<and> prec fs = 0
     then Some ((text_of (Reversed []) 0)\<lparr>is_zero := True\<rparr>, args)
     else if conv_spec fs = CONV_BINARY
     then Some ((text_of (Binval val) (npf_bin_len val))\<lparr>is_zero := (val = 0)\<rparr>, args)
     else do {
       let base = (if conv_spec fs = CONV_OCTAL then 8 else if conv_spec fs = CONV_UNSIGNED_INT then 10 else 16);
       ds \<leftarrow> npf_utoa_rev val base (case_adjust fs);
       Some ((text_of (Reversed ds) (int (length ds)))\<lparr>is_zero := (val = 0)\<rparr>, args)
     }
   }"

definition npf_convert :: "npf_format_spec \<Rightarrow> va_arg list \<Rightarrow> (npf_text \<times> va_arg list) option" where
  "npf_convert fs args =
     (case conv_spec fs of
        CONV_NONE \<Rightarrow> Some (text_of (Reversed []) 0, args)
      | CONV_PERCENT \<Rightarrow> Some (text_of (Reversed [37]) 1, args)
      | CONV_CHAR \<Rightarrow> do {
          (v, args) \<leftarrow> va_word args;
          let c = word_of_int v;
          Some (text_of (Reversed [c]) (if c \<noteq> 0 then 1 else 0), args)
        }
      | CONV_STRING \<Rightarrow> do {
          (p, args) \<leftarrow> va_str args;
          n \<leftarrow> (case p of None \<Rightarrow> Some 0 | Some s \<Rightarrow> npf_string_len fs s 0);
          Some (text_of (Text p) n, args)
        }
      | CONV_SIGNED_INT \<Rightarrow> convert_signed fs args
      | _ \<Rightarrow> convert_unsigned fs args)"

section \<open>Output\<close>

text \<open>\<open>NPF_PUTC\<close>: the count and the caller's function, on the state of its context.\<close>

definition npf_putc_cnt :: "(byte \<Rightarrow> 's \<Rightarrow> 's) \<Rightarrow> byte \<Rightarrow> int \<times> 's \<Rightarrow> int \<times> 's" where
  "npf_putc_cnt pc c st = (case st of (n, ctx) \<Rightarrow> (s32 (n + 1), pc c ctx))"

fun npf_repeat :: "(byte \<Rightarrow> 's \<Rightarrow> 's) \<Rightarrow> byte \<Rightarrow> nat \<Rightarrow> int \<times> 's \<Rightarrow> int \<times> 's" where
  "npf_repeat pc c 0 st = st"
| "npf_repeat pc c (Suc k) st = npf_repeat pc c k (npf_putc_cnt pc c st)"

fun npf_put_string :: "(byte \<Rightarrow> 's \<Rightarrow> 's) \<Rightarrow> cptr \<Rightarrow> int \<Rightarrow> nat \<Rightarrow> int \<times> 's \<Rightarrow> int \<times> 's" where
  "npf_put_string pc s i 0 st = st"
| "npf_put_string pc s i (Suc k) st = npf_put_string pc s (i + 1) k (npf_putc_cnt pc (s i) st)"

fun npf_put_reversed :: "(byte \<Rightarrow> 's \<Rightarrow> 's) \<Rightarrow> byte list \<Rightarrow> nat \<Rightarrow> int \<times> 's \<Rightarrow> int \<times> 's" where
  "npf_put_reversed pc cs 0 st = st"
| "npf_put_reversed pc cs (Suc k) st = npf_put_reversed pc cs k (npf_putc_cnt pc (cs ! k) st)"

fun npf_put_binary :: "(byte \<Rightarrow> 's \<Rightarrow> 's) \<Rightarrow> int \<Rightarrow> nat \<Rightarrow> int \<times> 's \<Rightarrow> int \<times> 's" where
  "npf_put_binary pc v 0 st = st"
| "npf_put_binary pc v (Suc k) st = npf_put_binary pc v k (npf_putc_cnt pc (word_of_int (48 + (drop_bit k v AND 1))) st)"

definition npf_pad_char :: "npf_format_spec \<Rightarrow> bool \<Rightarrow> byte" where
  "npf_pad_char fs zero =
     (if field_width_opt fs = OPT_NONE then 0
      else if leading_zero_pad fs \<noteq> 0 \<and> left_justified fs = 0
        then (if prec_opt fs \<noteq> OPT_NONE \<and> prec fs = 0 \<and> zero then 32 else 48)
      else 32)"

definition npf_prec_pad :: "npf_format_spec \<Rightarrow> npf_text \<Rightarrow> int" where
  "npf_prec_pad fs t = (if conv_spec fs \<noteq> CONV_STRING then max 0 (s32 (prec fs - cbuf_len t)) else 0)"

definition npf_field_pad :: "npf_format_spec \<Rightarrow> npf_text \<Rightarrow> int" where
  "npf_field_pad fs t =
     max 0 (s32 (field_width fs - cbuf_len t - (if sign_c t \<noteq> 0 then 1 else 0) - npf_prec_pad fs t))"

text \<open>The payload, after the padding on the left: \<open>cbuf\<close> is a \<open>Text\<close> for the string conversion only.\<close>

definition npf_payload :: "(byte \<Rightarrow> 's \<Rightarrow> 's) \<Rightarrow> npf_format_spec \<Rightarrow> npf_text \<Rightarrow> byte \<Rightarrow> int \<times> 's \<Rightarrow> int \<times> 's" where
  "npf_payload pc fs t sign st =
     (let k = nat (cbuf_len t);
          lead = (let st = (if sign \<noteq> 0 then npf_putc_cnt pc sign st else st)
                  in npf_repeat pc 48 (nat (npf_prec_pad fs t)) st)
      in case cbuf t of
           Text p \<Rightarrow> (case p of None \<Rightarrow> st | Some s \<Rightarrow> npf_put_string pc s 0 k st)
         | Binval v \<Rightarrow> npf_put_binary pc v k lead
         | Reversed cs \<Rightarrow> npf_put_reversed pc cs k lead)"

definition npf_output :: "(byte \<Rightarrow> 's \<Rightarrow> 's) \<Rightarrow> npf_format_spec \<Rightarrow> npf_text \<Rightarrow> int \<times> 's \<Rightarrow> int \<times> 's" where
  "npf_output pc fs t st =
     (let pad_c = npf_pad_char fs (is_zero t);
          field_pad = nat (npf_field_pad fs t);
          sign = sign_c t
      in if left_justified fs = 0 \<and> pad_c \<noteq> 0 then
           let early = (pad_c = 48 \<and> sign \<noteq> 0);
               st = (if early then npf_putc_cnt pc sign st else st);
               st = npf_repeat pc pad_c field_pad st
           in npf_payload pc fs t (if early then 0 else sign) st
         else
           let st = npf_payload pc fs t sign st
           in if left_justified fs \<noteq> 0 \<and> pad_c \<noteq> 0 then npf_repeat pc pad_c field_pad st else st)"

section \<open>The main loop\<close>

definition npf_one :: "(byte \<Rightarrow> 's \<Rightarrow> 's) \<Rightarrow> npf_format_spec \<Rightarrow> va_arg list \<Rightarrow> int \<times> 's \<Rightarrow> ((int \<times> 's) \<times> va_arg list) option" where
  "npf_one pc fs args st = do {
     (fs, args) \<leftarrow> star_width fs args;
     (fs, args) \<leftarrow> star_prec fs args;
     let fs = adjust_spec fs;
     (t, args) \<leftarrow> npf_convert fs args;
     Some (npf_output pc fs t st, args)
   }"

lemma length_npf_flags: "npf_flags cur fs = (fs', cur') \<Longrightarrow> length cur' \<le> length cur"
  by (induction cur fs arbitrary: fs' cur' rule: npf_flags.induct) (fastforce split: if_splits)+

lemma length_npf_digits: "npf_digits n cur = (n', cur') \<Longrightarrow> length cur' \<le> length cur"
  by (induction n cur rule: npf_digits.induct) (auto split: if_splits)

lemma length_npf_width: "npf_width fs cur = (fs', cur') \<Longrightarrow> length cur' \<le> length cur"
  by (auto simp: npf_width_def split: if_splits prod.splits dest: length_npf_digits)

lemma length_npf_precision: "npf_precision fs cur = (fs', cur') \<Longrightarrow> length cur' \<le> length cur"
  by (fastforce simp: npf_precision_def Let_def split: if_splits prod.splits dest: length_npf_digits)

lemma length_npf_length_modifier: "npf_length_modifier cur = (m, cur') \<Longrightarrow> length cur' \<le> length cur"
  by (auto simp: npf_length_modifier_def split: if_splits)

lemma npf_parse_progress:
  assumes "npf_parse_format_spec format = (k, fs)"
  shows "0 \<le> k \<and> k \<le> int (length format)"
proof -
  obtain f1 c1 where 1: "npf_flags (tl format) npf_fresh = (f1, c1)" by fastforce
  obtain f2 c2 where 2: "npf_width f1 c1 = (f2, c2)" by fastforce
  obtain f3 c3 where 3: "npf_precision f2 c2 = (f3, c3)" by fastforce
  obtain m c4 where 4: "npf_length_modifier c3 = (m, c4)" by fastforce
  have "length (tl c4) \<le> length format"
    using length_npf_flags[OF 1] length_npf_width[OF 2] length_npf_precision[OF 3] length_npf_length_modifier[OF 4]
    by simp
  then show ?thesis
    using assms by (auto simp: npf_parse_format_spec_def 1 2 3 4 split: option.splits)
qed

function npf_loop :: "(byte \<Rightarrow> 's \<Rightarrow> 's) \<Rightarrow> byte list \<Rightarrow> va_arg list \<Rightarrow> int \<times> 's \<Rightarrow> (int \<times> 's) option" where
  "npf_loop pc cur args st =
     (case cur of
        [] \<Rightarrow> Some st
      | c # rest \<Rightarrow>
          (case (if c \<noteq> 37 then (0, npf_fresh) else npf_parse_format_spec cur) of
             (fs_len, fs) \<Rightarrow>
               if fs_len = 0 then npf_loop pc rest args (npf_putc_cnt pc c st)
               else (case npf_one pc fs args st of
                       None \<Rightarrow> None
                     | Some (st, args) \<Rightarrow> npf_loop pc (drop (nat fs_len) cur) args st)))"
  by pat_completeness auto
termination
  by (relation "measure (\<lambda>(pc, cur, args, st). length cur)") (auto split: if_splits dest!: npf_parse_progress[OF sym])

declare npf_loop.simps [simp del]

definition npf_vpprintf :: "(byte \<Rightarrow> 's \<Rightarrow> 's) \<Rightarrow> 's \<Rightarrow> byte list \<Rightarrow> va_arg list \<Rightarrow> (int \<times> 's) option" where
  "npf_vpprintf pc pc_ctx format args = npf_loop pc format args (0, pc_ctx)"

definition npf_pprintf :: "(byte \<Rightarrow> 's \<Rightarrow> 's) \<Rightarrow> 's \<Rightarrow> byte list \<Rightarrow> va_arg list \<Rightarrow> (int \<times> 's) option" where
  "npf_pprintf pc pc_ctx format val = npf_vpprintf pc pc_ctx format val"

section \<open>Into a buffer\<close>

record npf_bufputc_ctx =
  bc_dst :: addr
  bc_len :: int
  bc_cur :: int
  bc_mem :: mem

definition npf_bufputc :: "byte \<Rightarrow> npf_bufputc_ctx \<Rightarrow> npf_bufputc_ctx" where
  "npf_bufputc c bpc =
     (if bc_cur bpc < bc_len bpc
      then bpc\<lparr>bc_mem := (bc_mem bpc)(bc_dst bpc + bc_cur bpc := c), bc_cur := bc_cur bpc + 1\<rparr> else bpc)"

definition npf_bufputc_nop :: "byte \<Rightarrow> npf_bufputc_ctx \<Rightarrow> npf_bufputc_ctx" where
  "npf_bufputc_nop c bpc = bpc"

text \<open>A NULL buffer is address 0.\<close>

definition npf_vsnprintf :: "mem \<Rightarrow> addr \<Rightarrow> int \<Rightarrow> byte list \<Rightarrow> va_arg list \<Rightarrow> (int \<times> mem) option" where
  "npf_vsnprintf m buffer bufsz format vlist = do {
     let ctx = \<lparr>bc_dst = buffer, bc_len = bufsz, bc_cur = 0, bc_mem = m\<rparr>;
     let pc = (if buffer \<noteq> 0 then npf_bufputc else npf_bufputc_nop);
     (n, ctx) \<leftarrow> npf_vpprintf pc ctx format vlist;
     let m = bc_mem ctx;
     Some (n, if buffer \<noteq> 0 \<and> bufsz \<noteq> 0
              then m(buffer + (if n < 0 then 0 else min (u32 n) (bufsz - 1)) := 0) else m)
   }"

definition npf_snprintf :: "mem \<Rightarrow> addr \<Rightarrow> int \<Rightarrow> byte list \<Rightarrow> va_arg list \<Rightarrow> (int \<times> mem) option" where
  "npf_snprintf m buffer bufsz format val = npf_vsnprintf m buffer bufsz format val"

end
