(* ===== verification/Nanoprintf_Spec.thy ===== *)
theory Nanoprintf_Spec
  imports Nanoprintf
begin

text \<open>
  What the formatter prints, against the definition of the conversions in C.

  \<open>directive\<close> is a conversion as it is written in a format, \<open>directive_text\<close> its bytes, and
  \<open>number_field\<close> and \<open>string_field\<close> what it prints.
\<close>

section \<open>Digits in a base\<close>

definition digit_char :: "int \<Rightarrow> nat \<Rightarrow> byte" where
  "digit_char adj d = word_of_int ((if d < 10 then 48 else 55 + adj) + int d)"

function digits_of :: "nat \<Rightarrow> int \<Rightarrow> nat \<Rightarrow> byte list" where
  "digits_of base adj n = (if base < 2 \<or> n < base then [] else digits_of base adj (n div base)) @ [digit_char adj (n mod base)]"
  by pat_completeness auto
termination by (relation "measure (\<lambda>(base, adj, n). n)") auto

declare digits_of.simps [simp del]

lemma digits_of_nonempty [simp]: "digits_of base adj n \<noteq> []"
  by (subst digits_of.simps) simp

lemma utoa_digits:
  "2 \<le> base \<Longrightarrow> npf_utoa_rev (int n) (int base) adj = Some (rev (digits_of base adj n))"
proof (induction base adj n rule: digits_of.induct)
  case (1 base adj n)
  have d: "int n mod int base = int (n mod base)" "int n div int base = int (n div base)"
    by (simp_all add: zmod_int zdiv_int)
  have z: "n div base = 0 \<longleftrightarrow> n < base" using "1.prems" by (simp add: div_eq_0_iff)
  show ?case
  proof (cases "n < base")
    case True
    then show ?thesis
      using z by (subst npf_utoa_rev.simps, subst digits_of.simps) (simp add: d Let_def digit_char_def)
  next
    case False
    then have "npf_utoa_rev (int (n div base)) (int base) adj = Some (rev (digits_of base adj (n div base)))"
      using 1 by simp
    then show ?thesis
      using z False "1.prems"
      by (subst npf_utoa_rev.simps, subst digits_of.simps) (simp add: d Let_def digit_char_def)
  qed
qed

lemma digits_of_length:
  "2 \<le> base \<Longrightarrow> n < base ^ Suc k \<Longrightarrow> length (digits_of base adj n) \<le> Suc k"
proof (induction k arbitrary: n)
  case 0
  then show ?case by (subst digits_of.simps) simp
next
  case (Suc k)
  then have "n div base < base ^ Suc k" by (simp add: less_mult_imp_div_less mult.commute)
  with Suc show ?case by (subst digits_of.simps) simp
qed

lemma digits_of_length_exact:
  "2 \<le> base \<Longrightarrow> base ^ k \<le> n \<Longrightarrow> n < base ^ Suc k \<Longrightarrow> length (digits_of base adj n) = Suc k"
proof (induction k arbitrary: n)
  case 0
  then show ?case by (subst digits_of.simps) simp
next
  case (Suc k)
  from Suc.prems have "base ^ k \<le> n div base" "n div base < base ^ Suc k"
    by (simp_all add: less_mult_imp_div_less mult.commute less_eq_div_iff_mult_less_eq)
  moreover have "base \<le> base ^ Suc k" using Suc.prems(1) by (intro self_le_power) simp_all
  then have "base \<le> n" using Suc.prems(2) by (rule order.trans)
  ultimately show ?case using Suc by (subst digits_of.simps) simp
qed

lemma char_to_digit_char:
  assumes "d < 16" "adj \<in> {0, 32}"
  shows "char_to_digit (digit_char adj d) = int d"
proof -
  have "uint (word_of_int x :: byte) = x" if "0 \<le> x" "x < 256" for x
    using that by (simp add: uint_word_of_int_eq take_bit_int_eq_self_iff)
  then have "uint (digit_char adj d) = (if d < 10 then 48 else 55 + adj) + int d"
    unfolding digit_char_def using assms by (subst \<open>\<And>x. 0 \<le> x \<Longrightarrow> x < 256 \<Longrightarrow> uint (word_of_int x :: byte) = x\<close>) (auto split: if_splits)
  then show ?thesis using assms by (auto simp: char_to_digit_def Let_def)
qed

lemma digits_of_value:
  "2 \<le> base \<Longrightarrow> base \<le> 16 \<Longrightarrow> adj \<in> {0, 32} \<Longrightarrow> digits_value (int base) 0 (digits_of base adj n) = int n"
proof (induction base adj n rule: digits_of.induct)
  case (1 base adj n)
  have "n mod base < 16" using "1.prems" by (intro order.strict_trans2[OF mod_less_divisor]) simp_all
  then have "char_to_digit (digit_char adj (n mod base)) = int (n mod base)"
    using "1.prems"(3) by (rule char_to_digit_char)
  moreover have "int (n div base) * int base + int (n mod base) = int n"
    by (metis of_nat_add of_nat_mult div_mult_mod_eq)
  ultimately show ?case using 1
    by (subst digits_of.simps) (auto simp: digits_value_append)
qed

lemma digits_of_are_digits:
  "2 \<le> base \<Longrightarrow> base \<le> 16 \<Longrightarrow> adj \<in> {0, 32} \<Longrightarrow> c \<in> set (digits_of base adj n) \<Longrightarrow> is_digit_of (int base) c"
proof (induction base adj n rule: digits_of.induct)
  case (1 base adj n)
  have "n mod base < base" using "1.prems" by simp
  then have "is_digit_of (int base) (digit_char adj (n mod base))"
    using "1.prems"(2,3) char_to_digit_char[of "n mod base" adj] by (simp add: is_digit_of_def)
  with 1 show ?case by (subst (asm) (2) digits_of.simps) (auto split: if_splits)
qed

lemma digits_of_decimal: "digits_of 10 adj n = decimal n"
proof (induction n rule: decimal.induct)
  case (1 n)
  have "digit_char adj (n mod 10) = word_of_nat (48 + n mod 10)"
    by (simp add: digit_char_def)
  with 1 show ?case by (subst digits_of.simps, subst decimal.simps) simp
qed

lemma binary_digits: "digits_of 2 adj n = (if n < 2 then [] else digits_of 2 adj (n div 2)) @ [word_of_int (48 + int (n mod 2))]"
  by (subst digits_of.simps) (simp add: digit_char_def less_trans[of _ 2 10])

section \<open>The length of a binary number\<close>

lemma top_bit:
  fixes u :: int
  assumes "0 < u" "u < 18446744073709551616"
  obtains k where "k < 64" "2 ^ k \<le> nat u" "nat u < 2 ^ Suc k" "bit (word_of_int u :: 64 word) k"
    "\<forall>i>k. \<not> bit (word_of_int u :: 64 word) i"
proof -
  have "1 \<le> nat u" using assms(1) by simp
  from ex_power_ivl1[OF order_refl this] obtain k where k: "2 ^ k \<le> nat u" "nat u < 2 ^ Suc k" by auto
  then have k': "2 ^ k \<le> u" "u < 2 ^ Suc k"
    using assms(1) by (simp_all add: le_nat_iff nat_less_iff)
  have "k < 64"
  proof (rule ccontr)
    assume "\<not> k < 64"
    then have "(2::int) ^ 64 \<le> 2 ^ k" by (intro power_increasing) simp_all
    with k'(1) assms(2) show False by simp
  qed
  moreover have "u div 2 ^ k = 1" using k' by (intro int_div_pos_eq[of _ _ _ "u - 2 ^ k"]) auto
  then have "bit (word_of_int u :: 64 word) k" using \<open>k < 64\<close> by (simp add: bit_word_of_int_iff bit_iff_odd[of u])
  moreover have "\<not> bit (word_of_int u :: 64 word) i" if "k < i" for i
  proof -
    have "(2::int) ^ Suc k \<le> 2 ^ i" using that by (intro power_increasing) simp_all
    with k' assms(1) have "u div 2 ^ i = 0" by (intro div_pos_pos_trivial) linarith+
    then show ?thesis by (simp add: bit_word_of_int_iff bit_iff_odd[of u])
  qed
  ultimately show thesis using that k by blast
qed

lemma takeWhile_clzll:
  assumes "k < 64" "bit (w :: 64 word) k" "\<forall>i>k. \<not> bit w i"
  shows "clzll w = 63 - int k"
proof -
  have "[0..<64] = [0..<k] @ k # [Suc k..<64]" using assms(1) upt_add_eq_append[of 0 k "64 - k"] upt_conv_Cons[of k 64] by simp
  then have "rev [0..<64] = rev [Suc k..<64] @ k # rev [0..<k]" by simp
  then have "takeWhile (\<lambda>i. \<not> bit w i) (rev [0..<64]) = rev [Suc k..<64]"
    using assms(2,3) by (simp add: takeWhile_append)
  with assms(1) show ?thesis by (simp add: clzll_def of_nat_diff)
qed

lemma bin_len_digits:
  assumes "0 \<le> u" "u < 18446744073709551616"
  shows "npf_bin_len u = int (length (digits_of 2 adj (nat u)))"
proof (cases "u = 0")
  case True
  then show ?thesis by (simp add: npf_bin_len_def binary_digits)
next
  case False
  with assms(1) have "0 < u" by simp
  from top_bit[OF this assms(2)] obtain k where k: "k < 64" "2 ^ k \<le> nat u" "nat u < 2 ^ Suc k"
    "bit (word_of_int u :: 64 word) k" "\<forall>i>k. \<not> bit (word_of_int u :: 64 word) i" by blast
  have "length (digits_of 2 adj (nat u)) = Suc k" by (rule digits_of_length_exact) (use k in auto)
  with k takeWhile_clzll[OF k(1,4,5)] False show ?thesis by (simp add: npf_bin_len_def s32_id)
qed

lemma bin_len_loop_digits: "0 < u \<Longrightarrow> npf_bin_len_loop n u = n + int (length (digits_of 2 adj (nat u)))"
proof (induction n u rule: npf_bin_len_loop.induct)
  case (1 n u)
  show ?case
  proof (cases "u = 1")
    case True
    then show ?thesis by (subst npf_bin_len_loop.simps, subst npf_bin_len_loop.simps, subst binary_digits) (simp add: drop_bit_eq_div)
  next
    case False
    then have "0 < u div 2" "2 \<le> nat u" using "1.prems" by auto
    with 1 show ?thesis
      by (subst npf_bin_len_loop.simps, subst binary_digits) (simp add: drop_bit_eq_div nat_div_distrib)
  qed
qed

section \<open>What is handed to the caller's function\<close>

definition emit :: "(byte \<Rightarrow> 's \<Rightarrow> 's) \<Rightarrow> byte list \<Rightarrow> int \<times> 's \<Rightarrow> int \<times> 's" where
  "emit pc bs st = fold (npf_putc_cnt pc) bs st"

lemma emit_simps [simp]: "emit pc [] st = st" "emit pc (b # bs) st = emit pc bs (npf_putc_cnt pc b st)"
  "emit pc (bs @ cs) st = emit pc cs (emit pc bs st)"
  by (simp_all add: emit_def)

lemma emit_pair: "- 2147483648 \<le> n \<Longrightarrow> n \<le> 2147483647 \<Longrightarrow> emit pc bs (n, ctx) = (s32 (n + int (length bs)), fold pc bs ctx)"
proof (induction bs arbitrary: n ctx)
  case Nil
  then show ?case by (simp add: s32_id)
next
  case (Cons b bs)
  then show ?case by (simp add: npf_putc_cnt_def s32_add algebra_simps)
qed

lemma npf_repeat_emit [simp]: "npf_repeat pc c k st = emit pc (replicate k c) st"
  by (induction k arbitrary: st) simp_all

lemma npf_put_string_emit: "npf_put_string pc s i k st = emit pc (bytes_at (shift s i) k) st"
  by (induction k arbitrary: i st) (simp_all add: bytes_at_Suc shift_apply)

lemma npf_put_reversed_emit: "k \<le> length cs \<Longrightarrow> npf_put_reversed pc cs k st = emit pc (rev (take k cs)) st"
  by (induction k arbitrary: st) (simp_all add: take_Suc_conv_app_nth)

lemma npf_put_binary_emit: "npf_put_binary pc v k st = emit pc (map (\<lambda>j. word_of_int (48 + (drop_bit j v AND 1))) (rev [0..<k])) st"
  by (induction k arbitrary: st) simp_all

text \<open>The bytes of one conversion, in order.\<close>

definition payload_bytes :: "npf_text \<Rightarrow> byte list" where
  "payload_bytes t =
     (case cbuf t of
        Text p \<Rightarrow> (case p of None \<Rightarrow> [] | Some s \<Rightarrow> bytes_at s (nat (cbuf_len t)))
      | Binval v \<Rightarrow> map (\<lambda>j. word_of_int (48 + (drop_bit j v AND 1))) (rev [0..<nat (cbuf_len t)])
      | Reversed cs \<Rightarrow> rev (take (nat (cbuf_len t)) cs))"

definition lead_bytes :: "npf_format_spec \<Rightarrow> npf_text \<Rightarrow> byte list" where
  "lead_bytes fs t = (case cbuf t of Text _ \<Rightarrow> [] | _ \<Rightarrow> replicate (nat (npf_prec_pad fs t)) 48)"

definition sign_bytes :: "npf_text \<Rightarrow> byte list" where
  "sign_bytes t = (if sign_c t = 0 then [] else [sign_c t])"

definition field_bytes :: "npf_format_spec \<Rightarrow> npf_text \<Rightarrow> byte list" where
  "field_bytes fs t =
     (let pad_c = npf_pad_char fs (is_zero t);
          pad = replicate (if pad_c = 0 then 0 else nat (npf_field_pad fs t)) pad_c;
          body = lead_bytes fs t @ payload_bytes t
      in if left_justified fs \<noteq> 0 then sign_bytes t @ body @ pad
         else if pad_c = 48 then sign_bytes t @ pad @ body
         else pad @ sign_bytes t @ body)"

text \<open>A text has its digits in the buffer, and a string no sign.\<close>

definition text_ok :: "npf_text \<Rightarrow> bool" where
  "text_ok t \<longleftrightarrow> (case cbuf t of Text _ \<Rightarrow> sign_c t = 0 | Binval _ \<Rightarrow> True | Reversed cs \<Rightarrow> nat (cbuf_len t) \<le> length cs)"

lemma npf_payload_emit:
  "text_ok t \<Longrightarrow> npf_payload pc fs t sign st =
     emit pc ((case cbuf t of Text _ \<Rightarrow> [] | _ \<Rightarrow> if sign = 0 then [] else [sign]) @ lead_bytes fs t @ payload_bytes t) st"
  by (auto simp: npf_payload_def text_ok_def lead_bytes_def payload_bytes_def npf_put_string_emit npf_put_reversed_emit
        npf_put_binary_emit Let_def shift_def split: npf_buf.splits option.splits)

lemma npf_output_emit: "text_ok t \<Longrightarrow> npf_output pc fs t st = emit pc (field_bytes fs t) st"
  by (auto simp: npf_output_def npf_payload_emit field_bytes_def sign_bytes_def text_ok_def Let_def split: npf_buf.splits)

lemma npf_convert_ok:
  assumes "npf_convert fs args = Some (t, args')"
  shows "text_ok t"
  using assms
  by (auto simp: npf_convert_def convert_signed_def convert_unsigned_def text_of_def text_ok_def Let_def
        split: npf_conv.splits if_splits bind_splits option.splits)

definition one_bytes :: "npf_format_spec \<Rightarrow> va_arg list \<Rightarrow> (byte list \<times> va_arg list) option" where
  "one_bytes fs args = do {
     (fs, args) \<leftarrow> star_width fs args;
     (fs, args) \<leftarrow> star_prec fs args;
     let fs = adjust_spec fs;
     (t, args) \<leftarrow> npf_convert fs args;
     Some (field_bytes fs t, args)
   }"

lemma npf_one_emit: "npf_one pc fs args st = map_option (\<lambda>(bs, args). (emit pc bs st, args)) (one_bytes fs args)"
  by (auto simp: npf_one_def one_bytes_def Let_def npf_output_emit npf_convert_ok split: bind_splits)

text \<open>The whole text of a format.\<close>

function format_bytes :: "byte list \<Rightarrow> va_arg list \<Rightarrow> byte list option" where
  "format_bytes cur args =
     (case cur of
        [] \<Rightarrow> Some []
      | c # rest \<Rightarrow>
          (case (if c \<noteq> 37 then (0, npf_fresh) else npf_parse_format_spec cur) of
             (fs_len, fs) \<Rightarrow>
               if fs_len = 0 then map_option (Cons c) (format_bytes rest args)
               else (case one_bytes fs args of
                       None \<Rightarrow> None
                     | Some (bs, args) \<Rightarrow> map_option (append bs) (format_bytes (drop (nat fs_len) cur) args))))"
  by pat_completeness auto
termination
  by (relation "measure (\<lambda>(cur, args). length cur)") (auto split: if_splits dest!: npf_parse_progress[OF sym])

declare format_bytes.simps [simp del]

lemma npf_loop_emit: "npf_loop pc cur args st = map_option (\<lambda>bs. emit pc bs st) (format_bytes cur args)"
proof (induction cur args arbitrary: st rule: format_bytes.induct)
  case (1 cur args)
  show ?case
  proof (cases cur)
    case Nil
    then show ?thesis by (simp add: npf_loop.simps format_bytes.simps)
  next
    case (Cons c rest)
    obtain k fs where k: "(if c \<noteq> 37 then (0, npf_fresh) else npf_parse_format_spec cur) = (k, fs)" by fastforce
    show ?thesis
    proof (cases "k = 0")
      case True
      with k 1(1)[OF Cons k[symmetric] True] Cons show ?thesis
        by (subst npf_loop.simps, subst format_bytes.simps) (simp add: option.map_comp comp_def)
    next
      case False
      with k 1(2)[OF Cons k[symmetric] False] Cons show ?thesis
        by (subst npf_loop.simps, subst format_bytes.simps)
          (auto simp: npf_one_emit option.map_comp comp_def split: option.splits)
    qed
  qed
qed

lemma npf_vpprintf_bytes:
  "npf_vpprintf pc ctx format args = map_option (\<lambda>bs. (s32 (int (length bs)), fold pc bs ctx)) (format_bytes format args)"
  by (simp add: npf_vpprintf_def npf_loop_emit emit_pair)

section \<open>Conversions as they are written\<close>

record directive =
  d_minus :: bool
  d_zero :: bool
  d_plus :: bool
  d_space :: bool
  d_width :: "nat option"
  d_prec :: "nat option"
  d_mod :: npf_len_mod
  d_conv :: byte

definition flag_text :: "directive \<Rightarrow> byte list" where
  "flag_text d =
     (if d_minus d then [45] else []) @ (if d_zero d then [48] else []) @
     (if d_plus d then [43] else []) @ (if d_space d then [32] else [])"

definition width_text :: "directive \<Rightarrow> byte list" where
  "width_text d = (case d_width d of None \<Rightarrow> [] | Some w \<Rightarrow> decimal w)"

definition prec_text :: "directive \<Rightarrow> byte list" where
  "prec_text d = (case d_prec d of None \<Rightarrow> [] | Some p \<Rightarrow> 46 # decimal p)"

definition mod_text :: "npf_len_mod \<Rightarrow> byte list" where
  "mod_text m =
     (case m of LEN_MOD_NONE \<Rightarrow> [] | LEN_MOD_LONG \<Rightarrow> [108] | LEN_MOD_LONG_DOUBLE \<Rightarrow> [76] | LEN_MOD_LARGE_LONG_LONG \<Rightarrow> [108, 108]
      | LEN_MOD_LARGE_INTMAX \<Rightarrow> [106] | LEN_MOD_LARGE_SIZET \<Rightarrow> [122] | LEN_MOD_LARGE_PTRDIFFT \<Rightarrow> [116])"

definition directive_text :: "directive \<Rightarrow> byte list" where
  "directive_text d = 37 # flag_text d @ width_text d @ prec_text d @ mod_text (d_mod d) @ [d_conv d]"

definition conv_chars :: "(byte \<times> npf_conv) list" where
  "conv_chars =
     [(37, CONV_PERCENT), (99, CONV_CHAR), (115, CONV_STRING), (100, CONV_SIGNED_INT), (105, CONV_SIGNED_INT),
      (117, CONV_UNSIGNED_INT), (111, CONV_OCTAL), (120, CONV_HEX_INT), (88, CONV_HEX_INT), (112, CONV_POINTER),
      (98, CONV_BINARY), (66, CONV_BINARY)]"

definition directive_ok :: "directive \<Rightarrow> bool" where
  "directive_ok d \<longleftrightarrow> d_mod d \<noteq> LEN_MOD_LONG_DOUBLE \<and> d_conv d \<in> fst ` set conv_chars \<and>
     (case d_width d of None \<Rightarrow> True | Some w \<Rightarrow> 0 < w \<and> w < 2147483648) \<and>
     (case d_prec d of None \<Rightarrow> True | Some p \<Rightarrow> p < 2147483648)"

definition spec_of :: "directive \<Rightarrow> npf_format_spec" where
  "spec_of d =
     \<lparr>field_width = (case d_width d of None \<Rightarrow> 0 | Some w \<Rightarrow> int w),
      prec = (case d_prec d of None \<Rightarrow> 0 | Some p \<Rightarrow> int p),
      prec_opt = (if d_prec d = None then OPT_NONE else OPT_LITERAL),
      field_width_opt = (if d_width d = None then OPT_NONE else OPT_LITERAL),
      left_justified = (if d_minus d then 45 else 0), leading_zero_pad = (if d_zero d then 1 else 0),
      prepend = (if d_plus d then 43 else if d_space d then 32 else 0),
      case_adjust = (if d_conv d = 88 \<or> d_conv d = 66 then 0 else 32),
      length_modifier = d_mod d, conv_spec = the (map_of conv_chars (d_conv d))\<rparr>"

section \<open>Parsing them\<close>

lemma deref_simps [simp]: "deref [] = 0" "deref (c # cs) = c"
  by (simp_all add: deref_def)

lemma deref_append: "deref (xs @ ys) = (if xs = [] then deref ys else deref xs)"
  by (cases xs) simp_all

lemma decimal_char: "is_digit_of 10 c \<longleftrightarrow> 48 \<le> c \<and> c \<le> 57"
  by (auto simp: is_digit_of_def char_to_digit_def Let_def word_le_def)

lemma decimal_digit_value: "48 \<le> c \<and> c \<le> 57 \<Longrightarrow> uint c - 48 = char_to_digit c \<and> 0 \<le> char_to_digit c"
  by (auto simp: char_to_digit_def Let_def word_le_def)

lemma digits_value_mono: "0 \<le> acc \<Longrightarrow> \<forall>c\<in>set ds. is_digit_of 10 c \<Longrightarrow> acc \<le> digits_value 10 acc ds"
proof (induction ds arbitrary: acc)
  case (Cons c ds)
  have "0 \<le> char_to_digit c" using Cons.prems(2) decimal_char[of c] decimal_digit_value[of c] by simp
  then show ?case using Cons.IH[of "acc * 10 + char_to_digit c"] Cons.prems by simp
qed simp

lemma npf_digits_value:
  "0 \<le> acc \<Longrightarrow> \<forall>c\<in>set ds. is_digit_of 10 c \<Longrightarrow> digits_value 10 acc ds < 2147483648 \<Longrightarrow> \<not> is_digit_of 10 (deref rest) \<Longrightarrow>
   npf_digits acc (ds @ rest) = (digits_value 10 acc ds, rest)"
proof (induction ds arbitrary: acc)
  case Nil
  then show ?case by (cases rest) (auto simp: decimal_char)
next
  case (Cons c ds)
  have c: "48 \<le> c \<and> c \<le> 57" using Cons.prems(2) by (simp add: decimal_char)
  let ?acc = "acc * 10 + char_to_digit c"
  have "?acc \<le> digits_value 10 ?acc ds"
    using Cons.prems decimal_digit_value[OF c] by (intro digits_value_mono) simp_all
  then have "s32 ?acc = ?acc" "0 \<le> ?acc"
    using Cons.prems decimal_digit_value[OF c] by (auto intro!: s32_id)
  then show ?case using Cons.IH[of ?acc] Cons.prems decimal_digit_value[OF c] c by simp
qed

lemma npf_digits_decimal:
  "n < 2147483648 \<Longrightarrow> \<not> is_digit_of 10 (deref rest) \<Longrightarrow> npf_digits 0 (decimal n @ rest) = (int n, rest)"
  using npf_digits_value[of 0 "decimal n" rest] decimal_digits by (simp add: digits_value_decimal)

lemma npf_digits_stop: "\<not> is_digit_of 10 (deref cur) \<Longrightarrow> npf_digits n cur = (n, cur)"
  by (cases cur) (auto simp: decimal_char)

lemma decimal_nonempty [simp]: "decimal n \<noteq> []"
  by (subst decimal.simps) simp

lemma deref_decimal: "is_digit_of 10 (deref (decimal n))"
  using decimal_digits[of "deref (decimal n)" n] by (cases "decimal n") auto

lemma deref_decimal_pos: "0 < n \<Longrightarrow> deref (decimal n) \<noteq> 48"
proof (induction n rule: decimal.induct)
  case (1 n)
  have "uint (word_of_nat (48 + n mod 10) :: byte) = 48 + int (n mod 10)" by (rule uint_decimal_digit) simp
  then have "(word_of_nat (48 + n mod 10) :: byte) = 48 \<Longrightarrow> n mod 10 = 0" by simp
  with 1 show ?case by (subst decimal.simps) (auto simp: deref_append)
qed

lemma npf_flags_text:
  assumes "deref cur \<notin> {45, 48, 43, 32}"
  shows "npf_flags (flag_text d @ cur) npf_fresh =
    (npf_fresh\<lparr>left_justified := (if d_minus d then 45 else 0), leading_zero_pad := (if d_zero d then 1 else 0),
       prepend := (if d_plus d then 43 else if d_space d then 32 else 0)\<rparr>, cur)"
proof -
  have "npf_flags cur fs = (fs, cur)" for fs using assms by (cases cur) simp_all
  then show ?thesis by (simp add: flag_text_def npf_fresh_def)
qed

lemma npf_width_text:
  assumes "\<not> is_digit_of 10 (deref cur)" "deref cur \<noteq> 42" "case d_width d of None \<Rightarrow> True | Some w \<Rightarrow> w < 2147483648"
  shows "npf_width fs (width_text d @ cur) =
    (fs\<lparr>field_width := (case d_width d of None \<Rightarrow> 0 | Some w \<Rightarrow> int w),
        field_width_opt := (if d_width d = None then OPT_NONE else OPT_LITERAL)\<rparr>, cur)"
proof (cases "d_width d")
  case None
  with assms show ?thesis by (simp add: npf_width_def width_text_def npf_digits_stop decimal_char)
next
  case (Some w)
  with assms have "npf_digits 0 (decimal w @ cur) = (int w, cur)" by (simp add: npf_digits_decimal)
  with Some deref_decimal[of w] show ?thesis
    by (auto simp: npf_width_def width_text_def deref_append decimal_char)
qed

lemma npf_precision_text:
  assumes "\<not> is_digit_of 10 (deref cur)" "deref cur \<noteq> 46" "case d_prec d of None \<Rightarrow> True | Some p \<Rightarrow> p < 2147483648"
  shows "npf_precision fs (prec_text d @ cur) =
    (fs\<lparr>prec := (case d_prec d of None \<Rightarrow> 0 | Some p \<Rightarrow> int p),
        prec_opt := (if d_prec d = None then OPT_NONE else OPT_LITERAL)\<rparr>, cur)"
proof (cases "d_prec d")
  case None
  with assms show ?thesis by (simp add: npf_precision_def prec_text_def)
next
  case (Some p)
  with assms have "npf_digits 0 (decimal p @ cur) = (int p, cur)" by (simp add: npf_digits_decimal)
  with Some deref_decimal[of p] show ?thesis
    by (auto simp: npf_precision_def prec_text_def deref_append decimal_char Let_def)
qed

lemma npf_length_modifier_text:
  "m \<noteq> LEN_MOD_LONG_DOUBLE \<Longrightarrow> deref cur \<notin> {108, 106, 122, 116} \<Longrightarrow>
   npf_length_modifier (mod_text m @ cur) = (m, cur)"
  by (cases m) (simp_all add: npf_length_modifier_def mod_text_def)

lemma npf_conversion_char:
  "c \<in> fst ` set conv_chars \<Longrightarrow> case_adjust fs = 32 \<Longrightarrow>
   npf_conversion c fs = Some (fs\<lparr>case_adjust := (if c = 88 \<or> c = 66 then 0 else 32), conv_spec := the (map_of conv_chars c)\<rparr>)"
  by (auto simp: conv_chars_def npf_conversion_def)

lemma parse_directive:
  assumes "directive_ok d"
  shows "npf_parse_format_spec (directive_text d @ rest) = (int (length (directive_text d)), spec_of d)"
proof -
  have conv: "d_conv d \<in> fst ` set conv_chars" using assms by (simp add: directive_ok_def)
  then have c: "d_conv d \<notin> {45, 48, 43, 32, 42, 46, 108, 106, 122, 116}" "\<not> is_digit_of 10 (d_conv d)"
    by (auto simp: conv_chars_def decimal_char)
  let ?c = "d_conv d # rest" and ?m = "mod_text (d_mod d)"
  have m: "deref (?m @ ?c) \<notin> {45, 48, 43, 32, 42, 46}" "\<not> is_digit_of 10 (deref (?m @ ?c))"
    using c by (auto simp: mod_text_def deref_append decimal_char split: npf_len_mod.splits)
  then have p: "deref (prec_text d @ ?m @ ?c) \<notin> {45, 48, 43, 32, 42}" "\<not> is_digit_of 10 (deref (prec_text d @ ?m @ ?c))"
    by (auto simp: prec_text_def deref_append decimal_char split: option.splits)
  have w: "deref (width_text d @ prec_text d @ ?m @ ?c) \<notin> {45, 48, 43, 32}"
  proof (cases "d_width d")
    case None
    with p show ?thesis by (simp add: width_text_def)
  next
    case (Some w)
    with assms have "0 < w" by (simp add: directive_ok_def)
    with deref_decimal_pos[OF this] deref_decimal[of w] show ?thesis
      by (auto simp: width_text_def Some deref_append decimal_char)
  qed
  have fresh: "case_adjust npf_fresh = 32" by (simp add: npf_fresh_def)
  have bounds: "case d_width d of None \<Rightarrow> True | Some w \<Rightarrow> w < 2147483648" "case d_prec d of None \<Rightarrow> True | Some p \<Rightarrow> p < 2147483648"
    "d_mod d \<noteq> LEN_MOD_LONG_DOUBLE"
    using assms by (auto simp: directive_ok_def split: option.splits)
  have "deref ?c \<notin> {108, 106, 122, 116}" "deref (?m @ ?c) \<noteq> 46" "deref (prec_text d @ ?m @ ?c) \<noteq> 42"
    using c m p by auto
  note steps = npf_flags_text[OF w] npf_width_text[OF p(2) this(3) bounds(1)] npf_precision_text[OF m(2) this(2) bounds(2)]
    npf_length_modifier_text[OF bounds(3) this(1)] npf_conversion_char[OF conv]
  show ?thesis
    unfolding npf_parse_format_spec_def directive_text_def
    by (simp add: steps fresh split del: if_split) (simp add: npf_fresh_def spec_of_def)
qed

end
