(* ===== verification/Nanoprintf_Props.thy ===== *)
theory Nanoprintf_Props
  imports Nanoprintf_Spec
begin

text \<open>
  Numbers and strings as C prints them, formats as sequences of texts and conversions, and the
  properties of the formatter.
\<close>

section \<open>Numbers\<close>

text \<open>Sign and digits in a field: at least as many digits as the precision, padded to the width with
  spaces on either side, or with zeros between sign and digits.\<close>

definition layout_field :: "directive \<Rightarrow> bool \<Rightarrow> byte list \<Rightarrow> byte list \<Rightarrow> byte list" where
  "layout_field d zeros sign ds =
     (let body = replicate ((case d_prec d of None \<Rightarrow> 0 | Some p \<Rightarrow> p) - length ds) 48 @ ds;
          pad = (case d_width d of None \<Rightarrow> 0 | Some w \<Rightarrow> w) - (length sign + length body)
      in if d_minus d then sign @ body @ replicate pad 32
         else if zeros then sign @ replicate pad 48 @ body
         else replicate pad 32 @ sign @ body)"

definition conv_of :: "directive \<Rightarrow> npf_conv" where
  "conv_of d = the (map_of conv_chars (d_conv d))"

definition is_signed :: "directive \<Rightarrow> bool" where
  "is_signed d \<longleftrightarrow> conv_of d = CONV_SIGNED_INT"

text \<open>The flag \<open>0\<close> is ignored when a precision is given, as C has it.  \<open>%b\<close> is the exception: the code does not drop the
  flag there, where C23, which has \<open>%b\<close>, does; only the empty text of 0 with precision 0 is padded with spaces.\<close>

definition zero_padded :: "directive \<Rightarrow> int \<Rightarrow> bool" where
  "zero_padded d v \<longleftrightarrow> d_zero d \<and>
     (d_prec d = None \<or> conv_of d = CONV_BINARY \<and> \<not> (v = 0 \<and> d_prec d = Some 0))"

definition is_number :: "directive \<Rightarrow> bool" where
  "is_number d \<longleftrightarrow> directive_ok d \<and>
     conv_of d \<in> {CONV_SIGNED_INT, CONV_UNSIGNED_INT, CONV_OCTAL, CONV_HEX_INT, CONV_BINARY}"

definition base_of :: "directive \<Rightarrow> nat" where
  "base_of d = (case conv_of d of CONV_OCTAL \<Rightarrow> 8 | CONV_HEX_INT \<Rightarrow> 16 | CONV_BINARY \<Rightarrow> 2 | _ \<Rightarrow> 10)"

definition adjust_of :: "directive \<Rightarrow> int" where
  "adjust_of d = (if d_conv d = 88 \<or> d_conv d = 66 then 0 else 32)"

definition number_digits :: "directive \<Rightarrow> int \<Rightarrow> byte list" where
  "number_digits d v = (if v = 0 \<and> d_prec d = Some 0 then [] else digits_of (base_of d) (adjust_of d) (nat \<bar>v\<bar>))"

definition number_sign :: "directive \<Rightarrow> int \<Rightarrow> byte list" where
  "number_sign d v =
     (if \<not> is_signed d then [] else if v < 0 then [45] else if d_plus d then [43] else if d_space d then [32] else [])"

definition number_field :: "directive \<Rightarrow> int \<Rightarrow> byte list" where
  "number_field d v = layout_field d (zero_padded d v) (number_sign d v) (number_digits d v)"

text \<open>The argument: a value in the range of the type the conversion asks for.\<close>

definition in_range :: "directive \<Rightarrow> int \<Rightarrow> bool" where
  "in_range d v \<longleftrightarrow>
     (let b = (if d_mod d = LEN_MOD_NONE then 2147483648 else 9223372036854775808)
      in if is_signed d then - b \<le> v \<and> v < b else 0 \<le> v \<and> v < 2 * b)"

definition arg_of :: "directive \<Rightarrow> int \<Rightarrow> va_arg" where
  "arg_of d v = (if d_mod d = LEN_MOD_NONE then Va_w v else Va_x v)"

lemma in_range_abs: "in_range d v \<Longrightarrow> \<bar>v\<bar> < 18446744073709551616"
  by (auto simp: in_range_def Let_def split: if_splits)

lemma abs_u64:
  assumes "- 9223372036854775808 \<le> v" "v < 9223372036854775808"
  shows "(if v < 0 then u64 (0 - u64 v) else u64 v) = \<bar>v\<bar>"
proof (cases "v < 0")
  case True
  have "u64 (0 - u64 v) = u64 (- v)" by (simp add: u64_def mod_simps)
  with True assms show ?thesis by (simp add: u64_id)
next
  case False
  with assms show ?thesis by (simp add: u64_id)
qed

lemma extract_signed_arg:
  "in_range d v \<Longrightarrow> is_signed d \<Longrightarrow> d_mod d \<noteq> LEN_MOD_LONG_DOUBLE \<Longrightarrow> extract_signed (d_mod d) (arg_of d v # args) = Some (v, args)"
  by (cases "d_mod d") (simp_all add: extract_signed_def arg_of_def va_word_def va_long_def in_range_def s32_id s64_def)

lemma extract_unsigned_arg:
  "in_range d v \<Longrightarrow> \<not> is_signed d \<Longrightarrow> d_mod d \<noteq> LEN_MOD_LONG_DOUBLE \<Longrightarrow> extract_unsigned (d_mod d) (arg_of d v # args) = Some (v, args)"
  by (cases "d_mod d") (simp_all add: extract_unsigned_def arg_of_def va_word_def va_long_def in_range_def u32_id u64_id)

lemma binary_payload:
  "0 \<le> v \<Longrightarrow> map (\<lambda>j. word_of_int (48 + (drop_bit j v AND 1))) (rev [0..<length (digits_of 2 adj (nat v))]) = digits_of 2 adj (nat v)"
proof (induction "nat v" arbitrary: v rule: less_induct)
  case less
  have low: "v AND 1 = int (nat v mod 2)" using less.prems by (simp add: and_one_eq zmod_int)
  show ?case
  proof (cases "nat v < 2")
    case True
    then show ?thesis using low by (subst (1 2) binary_digits) simp
  next
    case False
    let ?n = "length (digits_of 2 adj (nat (v div 2)))"
    have IH: "map (\<lambda>j. word_of_int (48 + (drop_bit j (v div 2) AND 1))) (rev [0..<?n]) = digits_of 2 adj (nat (v div 2))"
      using False by (intro less.hyps) auto
    have "rev [0..<Suc ?n] = map Suc (rev [0..<?n]) @ [0]"
      by (simp add: rev_map[symmetric] map_Suc_upt upt_conv_Cons del: upt_Suc)
    with IH have "map (\<lambda>j. word_of_int (48 + (drop_bit j v AND 1))) (rev [0..<Suc ?n]) =
        digits_of 2 adj (nat (v div 2)) @ [word_of_int (48 + int (nat v mod 2))]"
      by (simp add: comp_def drop_bit_Suc low del: upt_Suc)
    moreover have "digits_of 2 adj (nat v) = digits_of 2 adj (nat (v div 2)) @ [word_of_int (48 + int (nat v mod 2))]"
      using False by (subst binary_digits) (simp add: nat_div_distrib)
    ultimately show ?thesis by simp
  qed
qed

text \<open>A conversion without \<open>*\<close> takes its argument and gives the text the specification asks for.\<close>

definition shows_number :: "npf_text \<Rightarrow> directive \<Rightarrow> int \<Rightarrow> bool" where
  "shows_number t d v \<longleftrightarrow> payload_bytes t = number_digits d v \<and> cbuf_len t = int (length (number_digits d v)) \<and>
     sign_bytes t = number_sign d v \<and> is_zero t = (v = 0) \<and> (\<forall>p. cbuf t \<noteq> Text p)"

lemma length_number_digits: "in_range d v \<Longrightarrow> length (number_digits d v) \<le> 64"
proof -
  assume "in_range d v"
  then have "nat \<bar>v\<bar> < 2 ^ Suc 63" using in_range_abs[of d v] by (simp add: nat_less_iff)
  moreover have "(2::nat) ^ Suc 63 \<le> base_of d ^ Suc 63" by (intro power_mono) (auto simp: base_of_def split: npf_conv.splits)
  ultimately have "length (digits_of (base_of d) (adjust_of d) (nat \<bar>v\<bar>)) \<le> Suc 63"
    by (intro digits_of_length) (auto simp: base_of_def split: npf_conv.splits)
  then show ?thesis by (simp add: number_digits_def)
qed

lemma spec_of_simps [simp]:
  "conv_spec (spec_of d) = conv_of d" "case_adjust (spec_of d) = adjust_of d" "length_modifier (spec_of d) = d_mod d"
  "prec_opt (spec_of d) = (if d_prec d = None then OPT_NONE else OPT_LITERAL)"
  "prec (spec_of d) = (case d_prec d of None \<Rightarrow> 0 | Some p \<Rightarrow> int p)"
  "field_width_opt (spec_of d) = (if d_width d = None then OPT_NONE else OPT_LITERAL)"
  "field_width (spec_of d) = (case d_width d of None \<Rightarrow> 0 | Some w \<Rightarrow> int w)"
  "prepend (spec_of d) = (if d_plus d then 43 else if d_space d then 32 else 0)"
  "left_justified (spec_of d) = (if d_minus d then 45 else 0)"
  "leading_zero_pad (spec_of d) = (if d_zero d then 1 else 0)"
  by (simp_all add: spec_of_def conv_of_def adjust_of_def)

lemma adjust_spec_fields [simp]:
  "conv_spec (adjust_spec fs) = conv_spec fs" "case_adjust (adjust_spec fs) = case_adjust fs"
  "length_modifier (adjust_spec fs) = length_modifier fs" "prec_opt (adjust_spec fs) = prec_opt fs"
  "field_width_opt (adjust_spec fs) = field_width_opt fs" "field_width (adjust_spec fs) = field_width fs"
  "prepend (adjust_spec fs) = prepend fs" "left_justified (adjust_spec fs) = left_justified fs"
  "conv_spec fs \<noteq> CONV_POINTER \<Longrightarrow> prec (adjust_spec fs) = prec fs"
  by (simp_all add: adjust_spec_def Let_def)

lemma prec_zero: "(d_prec d \<noteq> None \<and> (case d_prec d of None \<Rightarrow> 0 | Some p \<Rightarrow> int p) = 0) \<longleftrightarrow> d_prec d = Some 0"
  by (cases "d_prec d") auto

lemma utoa_number: "0 \<le> v \<Longrightarrow> npf_utoa_rev v (int (base_of d)) adj = Some (rev (digits_of (base_of d) adj (nat v)))"
  using utoa_digits[of "base_of d" "nat v" adj] by (auto simp: base_of_def split: npf_conv.splits)

lemma convert_signed_number:
  assumes "is_signed d" "in_range d v" "d_mod d \<noteq> LEN_MOD_LONG_DOUBLE"
  shows "convert_signed (adjust_spec (spec_of d)) (arg_of d v # args) =
    Some (\<lparr>cbuf = Reversed (rev (number_digits d v)), cbuf_len = int (length (number_digits d v)),
           sign_c = (if v < 0 then 45 else prepend (spec_of d)), is_zero = (v = 0)\<rparr>, args)"
proof -
  have "- 9223372036854775808 \<le> v" "v < 9223372036854775808"
    using assms(1,2) by (auto simp: in_range_def split: if_splits)
  note uval = abs_u64[OF this]
  have conv: "conv_of d = CONV_SIGNED_INT" "base_of d = 10" using assms(1) by (simp_all add: is_signed_def base_of_def)
  have utoa: "npf_utoa_rev \<bar>v\<bar> 10 (adjust_of d) = Some (rev (digits_of 10 (adjust_of d) (nat \<bar>v\<bar>)))"
    using utoa_number[of "\<bar>v\<bar>" d "adjust_of d"] conv by simp
  have cond: "(v = 0 \<and> (if d_prec d = None then OPT_NONE else OPT_LITERAL) \<noteq> OPT_NONE \<and> (case d_prec d of None \<Rightarrow> 0 | Some p \<Rightarrow> int p) = 0)
      \<longleftrightarrow> v = 0 \<and> d_prec d = Some 0"
    by (cases "d_prec d") auto
  have p: "prec (adjust_spec (spec_of d)) = (case d_prec d of None \<Rightarrow> 0 | Some p \<Rightarrow> int p)" by (simp add: conv)
  obtain z where z: "(v = 0 \<and> d_prec d = Some 0) = z" by simp
  show ?thesis
    unfolding convert_signed_def spec_of_simps adjust_spec_fields(3) extract_signed_arg[OF assms(2,1,3)] number_digits_def
    by (cases z) (simp_all only: p cond z uval utoa conv spec_of_simps adjust_spec_fields
       if_True if_False bind.simps rev.simps rev_rev_ident length_rev prod.case list.size of_nat_0)
qed

lemma convert_unsigned_number:
  assumes "is_number d" "\<not> is_signed d" "in_range d v"
  shows "\<exists>b. convert_unsigned (adjust_spec (spec_of d)) (arg_of d v # args) =
      Some ((text_of b (int (length (number_digits d v))))\<lparr>is_zero := (v = 0)\<rparr>, args) \<and>
    payload_bytes ((text_of b (int (length (number_digits d v))))\<lparr>is_zero := (v = 0)\<rparr>) = number_digits d v \<and> (\<forall>p. b \<noteq> Text p)"
proof -
  have v: "0 \<le> v" "v < 18446744073709551616" using assms(2,3) by (auto simp: in_range_def Let_def split: if_splits)
  have m: "d_mod d \<noteq> LEN_MOD_LONG_DOUBLE" using assms(1) by (simp add: is_number_def directive_ok_def)
  have conv: "conv_of d \<in> {CONV_UNSIGNED_INT, CONV_OCTAL, CONV_HEX_INT, CONV_BINARY}"
    using assms(1,2) by (simp add: is_number_def is_signed_def)
  note ex = extract_unsigned_arg[OF assms(3,2) m]
  consider "v = 0 \<and> d_prec d = Some 0" | "\<not> (v = 0 \<and> d_prec d = Some 0)" "conv_of d = CONV_BINARY"
    | "\<not> (v = 0 \<and> d_prec d = Some 0)" "conv_of d \<noteq> CONV_BINARY" by blast
  then show ?thesis
  proof cases
    case 1
    then show ?thesis
      using ex conv by (intro exI[of _ "Reversed []"]) (auto simp: convert_unsigned_def number_digits_def text_of_def payload_bytes_def)
  next
    case 2
    then have d: "number_digits d v = digits_of 2 (adjust_of d) (nat v)" using v by (auto simp: number_digits_def base_of_def)
    show ?thesis
      using ex 2 v bin_len_digits[OF v, of "adjust_of d"] binary_payload[OF v(1), of "adjust_of d"]
      by (intro exI[of _ "Binval v"]) (auto simp: convert_unsigned_def d text_of_def payload_bytes_def prec_zero split: option.splits)
  next
    case 3
    have d: "number_digits d v = digits_of (base_of d) (adjust_of d) (nat v)" using 3(1) v by (auto simp: number_digits_def)
    have "(if conv_of d = CONV_OCTAL then 8 else if conv_of d = CONV_UNSIGNED_INT then 10 else 16) = int (base_of d)"
      using conv 3(2) by (auto simp: base_of_def)
    then show ?thesis
      using ex 3 conv utoa_number[OF v(1), of d "adjust_of d"]
      by (intro exI[of _ "Reversed (rev (number_digits d v))"])
        (auto simp: convert_unsigned_def d text_of_def payload_bytes_def prec_zero split: option.splits)
  qed
qed

lemma convert_number:
  assumes "is_number d" "in_range d v"
  shows "\<exists>t. npf_convert (adjust_spec (spec_of d)) (arg_of d v # args) = Some (t, args) \<and> shows_number t d v"
proof (cases "is_signed d")
  case True
  then have "conv_of d = CONV_SIGNED_INT" "d_mod d \<noteq> LEN_MOD_LONG_DOUBLE"
    using assms(1) by (simp_all add: is_signed_def is_number_def directive_ok_def)
  then show ?thesis
    using convert_signed_number[OF True assms(2), of args] True
    by (auto simp: npf_convert_def shows_number_def payload_bytes_def sign_bytes_def number_sign_def)
next
  case False
  then have "npf_convert (adjust_spec (spec_of d)) (arg_of d v # args) = convert_unsigned (adjust_spec (spec_of d)) (arg_of d v # args)"
    using assms(1) by (auto simp: is_number_def is_signed_def npf_convert_def)
  then show ?thesis
    using convert_unsigned_number[OF assms(1) False assms(2), of args] False
    by (force simp: shows_number_def sign_bytes_def number_sign_def text_of_def)
qed

lemma star_spec_of: "star_width (spec_of d) args = Some (spec_of d, args)" "star_prec (spec_of d) args = Some (spec_of d, args)"
  by (simp_all add: star_width_def star_prec_def)

lemma sign_bytes_length: "(if sign_c t \<noteq> 0 then 1 else 0) = int (length (sign_bytes t))"
  by (simp add: sign_bytes_def)

text \<open>The paddings, which no overflow touches.\<close>

lemma pads:
  fixes t :: npf_text
  assumes d: "directive_ok d" "conv_of d \<notin> {CONV_POINTER, CONV_STRING}"
    and t: "cbuf_len t = int n" "n < 2147483648"
  defines "p \<equiv> (case d_prec d of None \<Rightarrow> 0 | Some p \<Rightarrow> p)" and "w \<equiv> (case d_width d of None \<Rightarrow> 0 | Some w \<Rightarrow> w)"
  shows "nat (npf_prec_pad (adjust_spec (spec_of d)) t) = p - n"
    "nat (npf_field_pad (adjust_spec (spec_of d)) t) = w - (length (sign_bytes t) + ((p - n) + n))"
proof -
  have p: "int p = prec (adjust_spec (spec_of d))" "int w = field_width (adjust_spec (spec_of d))" "p < 2147483648" "w < 2147483648"
    using d by (auto simp: p_def w_def directive_ok_def split: option.splits)
  have s: "length (sign_bytes t) \<le> 1" by (simp add: sign_bytes_def)
  have 1: "npf_prec_pad (adjust_spec (spec_of d)) t = int (p - n)"
    using d(2) t p(3) unfolding npf_prec_pad_def p(1)[symmetric] by (simp add: s32_id max_def)
  then show "nat (npf_prec_pad (adjust_spec (spec_of d)) t) = p - n" by simp
  have "s32 (int w - int n - int (length (sign_bytes t)) - int (p - n)) = int w - int n - int (length (sign_bytes t)) - int (p - n)"
    using s t(2) p(3,4) by (intro s32_id) linarith+
  then show "nat (npf_field_pad (adjust_spec (spec_of d)) t) = w - (length (sign_bytes t) + ((p - n) + n))"
    unfolding npf_field_pad_def sign_bytes_length p(2)[symmetric] t(1) 1 by simp
qed

lemma field_number:
  assumes "is_number d" "shows_number t d v" "length (number_digits d v) < 2147483648"
  shows "field_bytes (adjust_spec (spec_of d)) t = number_field d v"
proof -
  let ?fs = "adjust_spec (spec_of d)" and ?ds = "number_digits d v" and ?sg = "number_sign d v"
  let ?p = "case d_prec d of None \<Rightarrow> 0 | Some p \<Rightarrow> p" and ?w = "case d_width d of None \<Rightarrow> 0 | Some w \<Rightarrow> w"
  have t: "payload_bytes t = ?ds" "cbuf_len t = int (length ?ds)" "sign_bytes t = ?sg" "is_zero t = (v = 0)" "\<forall>p. cbuf t \<noteq> Text p"
    using assms(2) by (simp_all add: shows_number_def)
  have d: "directive_ok d" "conv_of d \<notin> {CONV_POINTER, CONV_STRING}" using assms(1) by (auto simp: is_number_def)
  note pads = pads[OF d t(2) assms(3), unfolded t(3)]
  have lead: "lead_bytes ?fs t = replicate (?p - length ?ds) 48"
    using t(5) pads(1) by (auto simp: lead_bytes_def split: npf_buf.splits)
  have zero: "leading_zero_pad ?fs \<noteq> 0 \<longleftrightarrow> d_zero d \<and> (d_prec d = None \<or> conv_of d = CONV_BINARY)"
    using assms(1) by (auto simp: adjust_spec_def is_number_def)
  have padc: "npf_pad_char ?fs (is_zero t) = (if d_width d = None then 0 else if zero_padded d v \<and> \<not> d_minus d then 48 else 32)"
    unfolding npf_pad_char_def zero t(4) zero_padded_def using assms(1) by (auto simp: is_number_def split: option.splits)
  show ?thesis
    unfolding field_bytes_def padc number_field_def layout_field_def Let_def t(1,3) lead pads(2)
    by (auto split: option.splits)
qed

lemma number_bytes:
  assumes "is_number d" "in_range d v"
  shows "one_bytes (spec_of d) (arg_of d v # args) = Some (number_field d v, args)"
proof -
  obtain t where "npf_convert (adjust_spec (spec_of d)) (arg_of d v # args) = Some (t, args)" "shows_number t d v"
    using convert_number[OF assms] by blast
  with length_number_digits[OF assms(2)] show ?thesis
    by (simp add: one_bytes_def star_spec_of field_number[OF assms(1)])
qed

section \<open>Strings\<close>

lemma string_len_points_to:
  "points_to_str s cs \<Longrightarrow> 0 \<le> n \<Longrightarrow> n + int (length cs) < 2147483648 \<Longrightarrow>
   npf_string_len fs s n = Some (n + int (if prec_opt fs = OPT_NONE then length cs else min (length cs) (nat (prec fs - n))))"
proof (induction cs arbitrary: s n)
  case Nil
  then show ?case by (subst npf_string_len.simps) (simp add: points_to_str_Nil)
next
  case (Cons c cs)
  then have "s 0 = c" "c \<noteq> 0" "points_to_str (shift s 1) cs" "s32 (n + 1) = n + 1"
    by (simp_all add: points_to_str_Cons s32_id)
  with Cons.IH[of "shift s 1" "n + 1"] Cons.prems show ?case
    by (subst npf_string_len.simps) (auto simp: min_def)
qed

definition string_shown :: "directive \<Rightarrow> byte list \<Rightarrow> byte list" where
  "string_shown d cs = (case d_prec d of None \<Rightarrow> cs | Some p \<Rightarrow> take p cs)"

definition string_field :: "directive \<Rightarrow> byte list \<Rightarrow> byte list" where
  "string_field d cs =
     (let shown = string_shown d cs;
          pad = replicate ((case d_width d of None \<Rightarrow> 0 | Some w \<Rightarrow> w) - length shown) 32
      in if d_minus d then shown @ pad else pad @ shown)"

definition is_string :: "directive \<Rightarrow> bool" where
  "is_string d \<longleftrightarrow> directive_ok d \<and> d_conv d = 115 \<and> \<not> d_zero d"

lemma string_bytes:
  assumes "is_string d" "points_to_str s cs" "length cs < 2147483648"
  shows "one_bytes (spec_of d) (Va_s (Some s) # args) = Some (string_field d cs, args)"
proof -
  let ?fs = "adjust_spec (spec_of d)" and ?n = "length (string_shown d cs)"
  let ?t = "text_of (Text (Some s)) (int ?n)"
  have conv: "conv_of d = CONV_STRING" using assms(1) by (simp add: is_string_def conv_of_def conv_chars_def)
  have "npf_string_len ?fs s 0 = Some (int ?n)"
    using string_len_points_to[OF assms(2), of 0 ?fs] assms(3) conv
    by (auto simp: string_shown_def min.commute split: option.splits)
  then have c: "npf_convert ?fs (Va_s (Some s) # args) = Some (?t, args)"
    by (simp add: npf_convert_def conv va_str_def)
  have "bytes_at s (length cs) = cs" using assms(2) by (simp add: points_to_str_def)
  moreover have "?n \<le> length cs" by (simp add: string_shown_def split: option.splits)
  ultimately have "bytes_at s ?n = take ?n cs"
    using bytes_at_append[of s ?n "length cs - ?n"] by (metis append_eq_conv_conj le_add_diff_inverse length_bytes_at)
  also have "take ?n cs = string_shown d cs" by (auto simp: string_shown_def min_def split: option.splits)
  finally have b: "bytes_at s ?n = string_shown d cs" .
  define w where "w = (case d_width d of None \<Rightarrow> 0 | Some w \<Rightarrow> w)"
  have w: "int w = field_width ?fs" "w < 2147483648"
    using assms(1) by (auto simp: w_def is_string_def directive_ok_def split: option.splits)
  have "s32 (int w - int ?n) = int w - int ?n"
    using w(2) \<open>?n \<le> length cs\<close> assms(3) by (intro s32_id) linarith+
  then have pad: "nat (npf_field_pad ?fs ?t) = w - ?n"
    unfolding npf_field_pad_def w(1)[symmetric] by (simp add: npf_prec_pad_def conv text_of_def)
  have z: "leading_zero_pad ?fs = 0" using assms(1) by (simp add: adjust_spec_def is_string_def Let_def)
  show ?thesis
    using b pad z
    by (simp add: one_bytes_def star_spec_of c field_bytes_def string_field_def Let_def npf_pad_char_def w_def[symmetric]
          sign_bytes_def lead_bytes_def payload_bytes_def text_of_def) (simp add: w_def)
qed

section \<open>Formats\<close>

lemma format_Nil [simp]: "format_bytes [] args = Some []"
  by (simp add: format_bytes.simps)

lemma format_char: "c \<noteq> 37 \<Longrightarrow> format_bytes (c # rest) args = map_option (Cons c) (format_bytes rest args)"
  by (subst format_bytes.simps) simp

lemma format_literal: "37 \<notin> set cs \<Longrightarrow> format_bytes (cs @ rest) args = map_option (append cs) (format_bytes rest args)"
  by (induction cs; cases "format_bytes rest args") (auto simp: format_char)

lemma format_percent:
  "npf_parse_format_spec (37 # rest) = (k, fs) \<Longrightarrow> k \<noteq> 0 \<Longrightarrow> one_bytes fs args = Some (bs, args') \<Longrightarrow>
   format_bytes (37 # rest) args = map_option (append bs) (format_bytes (drop (nat k) (37 # rest)) args')"
  by (subst format_bytes.simps) simp

lemma format_directive:
  assumes "directive_ok d" "one_bytes (spec_of d) args = Some (bs, args')"
  shows "format_bytes (directive_text d @ rest) args = map_option (append bs) (format_bytes rest args')"
proof -
  have t: "37 # tl (directive_text d) @ rest = directive_text d @ rest" "length (directive_text d) \<noteq> 0"
    by (simp_all add: directive_text_def)
  show ?thesis
    using format_percent[of "tl (directive_text d) @ rest", unfolded t(1), OF parse_directive[OF assms(1)] _ assms(2)] t(2)
    by simp
qed

lemma format_number:
  "is_number d \<Longrightarrow> in_range d v \<Longrightarrow>
   format_bytes (directive_text d @ rest) (arg_of d v # args) = map_option (append (number_field d v)) (format_bytes rest args)"
  using format_directive[OF _ number_bytes] by (simp add: is_number_def)

lemma format_string:
  "is_string d \<Longrightarrow> points_to_str s cs \<Longrightarrow> length cs < 2147483648 \<Longrightarrow>
   format_bytes (directive_text d @ rest) (Va_s (Some s) # args) = map_option (append (string_field d cs)) (format_bytes rest args)"
  using format_directive[OF _ string_bytes] by (simp add: is_string_def)

lemma format_string_lit:
  "is_string d \<Longrightarrow> cstring cs \<Longrightarrow> length cs < 2147483648 \<Longrightarrow>
   format_bytes (directive_text d @ rest) (Va_s (Some (lit cs)) # args) = map_option (append (string_field d cs)) (format_bytes rest args)"
  by (rule format_string) simp_all

text \<open>A format as the pieces it consists of, with their arguments and what they print.\<close>

datatype piece = Literal "byte list" | Number directive int | Chars directive "byte list"

definition piece_ok :: "piece \<Rightarrow> bool" where
  "piece_ok x \<longleftrightarrow> (case x of Literal cs \<Rightarrow> 37 \<notin> set cs | Number d v \<Rightarrow> is_number d \<and> in_range d v
     | Chars d cs \<Rightarrow> is_string d \<and> cstring cs \<and> length cs < 2147483648)"

definition piece_format :: "piece \<Rightarrow> byte list" where
  "piece_format x = (case x of Literal cs \<Rightarrow> cs | Number d v \<Rightarrow> directive_text d | Chars d cs \<Rightarrow> directive_text d)"

definition piece_args :: "piece \<Rightarrow> va_arg list" where
  "piece_args x = (case x of Literal cs \<Rightarrow> [] | Number d v \<Rightarrow> [arg_of d v] | Chars d cs \<Rightarrow> [Va_s (Some (lit cs))])"

definition piece_text :: "piece \<Rightarrow> byte list" where
  "piece_text x = (case x of Literal cs \<Rightarrow> cs | Number d v \<Rightarrow> number_field d v | Chars d cs \<Rightarrow> string_field d cs)"

lemma format_pieces:
  "\<forall>x\<in>set xs. piece_ok x \<Longrightarrow>
   format_bytes (concat (map piece_format xs)) (concat (map piece_args xs)) = Some (concat (map piece_text xs))"
proof (induction xs)
  case (Cons x xs)
  then show ?case
    by (cases x) (simp_all add: piece_ok_def piece_format_def piece_args_def piece_text_def format_literal format_number format_string_lit)
qed simp

section \<open>Arguments that fit\<close>

definition skip :: "(va_arg \<Rightarrow> bool) \<Rightarrow> va_arg list \<Rightarrow> va_arg list option" where
  "skip P args = (case args of [] \<Rightarrow> None | a # args \<Rightarrow> if P a then Some args else None)"

definition is_word_arg :: "va_arg \<Rightarrow> bool" where
  "is_word_arg a \<longleftrightarrow> (case a of Va_w _ \<Rightarrow> True | _ \<Rightarrow> False)"

definition is_long_arg :: "va_arg \<Rightarrow> bool" where
  "is_long_arg a \<longleftrightarrow> (case a of Va_x _ \<Rightarrow> True | _ \<Rightarrow> False)"

definition is_string_arg :: "va_arg \<Rightarrow> bool" where
  "is_string_arg a \<longleftrightarrow> (case a of Va_s None \<Rightarrow> True | Va_s (Some s) \<Rightarrow> \<exists>cs. points_to_str s cs | _ \<Rightarrow> False)"

definition skip_value :: "npf_format_spec \<Rightarrow> va_arg list \<Rightarrow> va_arg list option" where
  "skip_value fs args =
     (case conv_spec fs of
        CONV_NONE \<Rightarrow> Some args | CONV_PERCENT \<Rightarrow> Some args
      | CONV_CHAR \<Rightarrow> skip is_word_arg args
      | CONV_STRING \<Rightarrow> skip is_string_arg args
      | CONV_POINTER \<Rightarrow> skip is_long_arg args
      | _ \<Rightarrow> (case length_modifier fs of
                LEN_MOD_NONE \<Rightarrow> skip is_word_arg args | LEN_MOD_LONG_DOUBLE \<Rightarrow> Some args
              | _ \<Rightarrow> skip is_long_arg args))"

definition skip_args :: "npf_format_spec \<Rightarrow> va_arg list \<Rightarrow> va_arg list option" where
  "skip_args fs args = do {
     args \<leftarrow> (if field_width_opt fs = OPT_STAR then skip is_word_arg args else Some args);
     args \<leftarrow> (if prec_opt fs = OPT_STAR then skip is_word_arg args else Some args);
     skip_value fs args
   }"

function args_fit :: "byte list \<Rightarrow> va_arg list \<Rightarrow> bool" where
  "args_fit cur args =
     (case cur of
        [] \<Rightarrow> True
      | c # rest \<Rightarrow>
          (case (if c \<noteq> 37 then (0, npf_fresh) else npf_parse_format_spec cur) of
             (fs_len, fs) \<Rightarrow>
               if fs_len = 0 then args_fit rest args
               else (case skip_args fs args of None \<Rightarrow> False | Some args \<Rightarrow> args_fit (drop (nat fs_len) cur) args)))"
  by pat_completeness auto
termination
  by (relation "measure (\<lambda>(cur, args). length cur)") (auto split: if_splits dest!: npf_parse_progress[OF sym])

declare args_fit.simps [simp del]

lemma skip_word: "skip is_word_arg args = Some args' \<Longrightarrow> \<exists>v. va_word args = Some (v, args')"
  by (auto simp: skip_def is_word_arg_def va_word_def split: list.splits va_arg.splits if_splits)

lemma skip_long: "skip is_long_arg args = Some args' \<Longrightarrow> \<exists>v. va_long args = Some (v, args')"
  by (auto simp: skip_def is_long_arg_def va_long_def split: list.splits va_arg.splits if_splits)

lemma string_len_terminates: "points_to_str s cs \<Longrightarrow> \<exists>k. npf_string_len fs s n = Some k"
proof (induction cs arbitrary: s n)
  case Nil
  then show ?case by (subst npf_string_len.simps) (simp add: points_to_str_Nil)
next
  case (Cons c cs)
  then have "points_to_str (shift s 1) cs" by (simp add: points_to_str_Cons)
  from Cons.IH[OF this, of "s32 (n + 1)"] show ?case by (subst npf_string_len.simps) auto
qed

lemma utoa_total: "0 \<le> v \<Longrightarrow> 2 \<le> base \<Longrightarrow> \<exists>ds. npf_utoa_rev v base adj = Some ds"
  using utoa_digits[of "nat base" "nat v" adj] by auto

lemma extract_total:
  assumes "(case m of LEN_MOD_NONE \<Rightarrow> skip is_word_arg args | LEN_MOD_LONG_DOUBLE \<Rightarrow> Some args | _ \<Rightarrow> skip is_long_arg args) = Some args'"
  shows "\<exists>v. extract_signed m args = Some (v, args')" "\<exists>v\<ge>0. extract_unsigned m args = Some (v, args')"
  using assms by (auto simp: extract_signed_def extract_unsigned_def u32_def u64_def split: npf_len_mod.splits dest!: skip_word skip_long)

lemma convert_total:
  assumes "skip_value fs args = Some args'"
  shows "\<exists>t. npf_convert fs args = Some (t, args')"
proof -
  have base: "\<exists>ds. npf_utoa_rev v (if conv_spec fs = CONV_OCTAL then 8 else if conv_spec fs = CONV_UNSIGNED_INT then 10 else 16) (case_adjust fs) = Some ds"
    if "0 \<le> v" for v using that by (intro utoa_total) auto
  have u: "\<exists>t. convert_unsigned fs args = Some (t, args')"
    if "0 \<le> v" "(if conv_spec fs = CONV_POINTER then do { (v, args) \<leftarrow> va_long args; Some (u64 v, args) }
                    else extract_unsigned (length_modifier fs) args) = Some (v, args')" for v
    using base[OF that(1)] that(2) by (auto simp: convert_unsigned_def split: if_splits)
  have s: "\<exists>t. convert_signed fs args = Some (t, args')" if e: "extract_signed (length_modifier fs) args = Some (v, args')" for v
  proof -
    have "\<exists>ds. npf_utoa_rev (if v < 0 then u64 (0 - u64 v) else u64 v) 10 (case_adjust fs) = Some ds"
      by (intro utoa_total) (auto simp: u64_def)
    with e show ?thesis by (auto simp: convert_signed_def)
  qed
  show ?thesis
  proof (cases "conv_spec fs")
    case CONV_CHAR
    with assms show ?thesis by (auto simp: npf_convert_def skip_value_def Let_def dest!: skip_word)
  next
    case CONV_STRING
    with assms show ?thesis
      by (auto simp: npf_convert_def skip_value_def skip_def is_string_arg_def va_str_def
            dest!: string_len_terminates[of _ _ fs 0] split: list.splits va_arg.splits option.splits if_splits)
  next
    case CONV_POINTER
    with assms u show ?thesis by (force simp: npf_convert_def skip_value_def u64_def dest!: skip_long)
  next
    case CONV_SIGNED_INT
    with assms s extract_total(1)[where m = "length_modifier fs" and args = args and args' = args'] show ?thesis
      by (auto simp: npf_convert_def skip_value_def)
  qed (use assms u extract_total(2)[where m = "length_modifier fs" and args = args and args' = args'] in \<open>auto simp: npf_convert_def skip_value_def\<close>)
qed

lemma star_total:
  assumes "(if field_width_opt fs = OPT_STAR then skip is_word_arg args else Some args) = Some args'"
  shows "\<exists>fs'. star_width fs args = Some (fs', args') \<and> prec_opt fs' = prec_opt fs \<and> conv_spec fs' = conv_spec fs \<and>
    length_modifier fs' = length_modifier fs"
  using assms by (auto simp: star_width_def split: if_splits dest!: skip_word)

lemma star_prec_total:
  assumes "(if prec_opt fs = OPT_STAR then skip is_word_arg args else Some args) = Some args'"
  shows "\<exists>fs'. star_prec fs args = Some (fs', args') \<and> conv_spec fs' = conv_spec fs \<and> length_modifier fs' = length_modifier fs"
  using assms by (auto simp: star_prec_def split: if_splits dest!: skip_word)

lemma one_total:
  assumes "skip_args fs args = Some args'"
  shows "\<exists>bs. one_bytes fs args = Some (bs, args')"
proof -
  obtain a1 a2 where a: "(if field_width_opt fs = OPT_STAR then skip is_word_arg args else Some args) = Some a1"
    "(if prec_opt fs = OPT_STAR then skip is_word_arg a1 else Some a1) = Some a2" "skip_value fs a2 = Some args'"
    using assms by (auto simp: skip_args_def split: bind_splits)
  obtain f1 where f1: "star_width fs args = Some (f1, a1)" "prec_opt f1 = prec_opt fs" "conv_spec f1 = conv_spec fs"
    "length_modifier f1 = length_modifier fs" using star_total[OF a(1)] by blast
  obtain f2 where f2: "star_prec f1 a1 = Some (f2, a2)" "conv_spec f2 = conv_spec fs" "length_modifier f2 = length_modifier fs"
    using star_prec_total[of f1 a1 a2] a(2) f1 by auto
  have "skip_value (adjust_spec f2) a2 = Some args'" using a(3) unfolding skip_value_def adjust_spec_fields f2 .
  from convert_total[OF this] show ?thesis using f1(1) f2(1) by (auto simp: one_bytes_def)
qed

lemma format_total: "args_fit cur args \<Longrightarrow> \<exists>bs. format_bytes cur args = Some bs"
proof (induction cur args rule: args_fit.induct)
  case (1 cur args)
  show ?case
  proof (cases cur)
    case (Cons c rest)
    obtain k fs where k: "(if c \<noteq> 37 then (0, npf_fresh) else npf_parse_format_spec cur) = (k, fs)" by fastforce
    show ?thesis
    proof (cases "k = 0")
      case True
      with "1.prems" k Cons have "args_fit rest args" by (subst (asm) args_fit.simps) simp
      from "1.IH"(1)[OF Cons k[symmetric] True this] k True Cons show ?thesis by (subst format_bytes.simps) auto
    next
      case False
      with "1.prems" k Cons obtain args' where a: "skip_args fs args = Some args'" "args_fit (drop (nat k) cur) args'"
        by (subst (asm) args_fit.simps) (auto split: option.splits)
      obtain bs where "one_bytes fs args = Some (bs, args')" using one_total[OF a(1)] by blast
      with "1.IH"(2)[OF Cons k[symmetric] False a] k False Cons show ?thesis by (subst format_bytes.simps) auto
    qed
  qed simp
qed

section \<open>Into a buffer\<close>

lemma fold_bufputc:
  fixes b :: npf_bufputc_ctx and bs :: "byte list"
  assumes "bc_cur b \<le> bc_len b"
  defines "r \<equiv> fold npf_bufputc bs b" and "k \<equiv> min (nat (bc_len b - bc_cur b)) (length bs)"
  shows "bc_cur r = bc_cur b + int k \<and> bc_len r = bc_len b \<and> bc_dst r = bc_dst b \<and>
    (\<forall>a. bc_mem r a = (if bc_dst b + bc_cur b \<le> a \<and> a < bc_dst b + bc_cur b + int k
                     then bs ! nat (a - (bc_dst b + bc_cur b)) else bc_mem b a))"
  using assms(1) unfolding r_def k_def
proof (induction bs arbitrary: b)
  case Nil
  then show ?case by auto
next
  case (Cons c bs)
  show ?case
  proof (cases "bc_cur b < bc_len b")
    case False
    then have "npf_bufputc c b = b" by (simp add: npf_bufputc_def)
    with False Cons show ?thesis by auto
  next
    case True
    let ?b = "npf_bufputc c b"
    have b: "bc_cur ?b = bc_cur b + 1" "bc_len ?b = bc_len b" "bc_dst ?b = bc_dst b"
      "bc_mem ?b = (bc_mem b)(bc_dst b + bc_cur b := c)"
      using True by (simp_all add: npf_bufputc_def)
    have le: "bc_cur ?b \<le> bc_len ?b" using True b by simp
    have k: "min (nat (bc_len b - bc_cur b)) (Suc (length bs)) = Suc (min (nat (bc_len b - (bc_cur b + 1))) (length bs))"
      using True by (simp add: min_def nat_diff_distrib' nat_less_iff) linarith
    have i: "nat (a - (bc_dst b + bc_cur b)) = Suc (nat (a - (bc_dst b + (bc_cur b + 1))))" if "bc_dst b + bc_cur b < a" for a
      using that by simp
    show ?thesis
      unfolding fold_simps comp_apply length_Cons k using Cons.IH[OF le] unfolding b
      by (auto simp: nth_Cons' i)
  qed
qed

section \<open>Properties\<close>

text \<open>A number written by \<open>npf_utoa_rev\<close> is read back by \<open>strtoull_\<close>: in a base from 2 to 16 and in either
  case, the digits in order give the value and use up the string; from base 8 on they fit the
  conversion buffer of 23 bytes.\<close>

theorem utoa_round_trip:
  assumes "0 \<le> v" "v < 18446744073709551616" "2 \<le> base" "base \<le> 16" "adj \<in> {0, 32}"
  shows "\<exists>ds. npf_utoa_rev v base adj = Some ds \<and> strtoull (lit (rev ds)) base = Some (v, int (length ds)) \<and>
    (8 \<le> base \<longrightarrow> length ds \<le> 22)"
proof -
  let ?ds = "digits_of (nat base) adj (nat v)"
  have u: "npf_utoa_rev v base adj = Some (rev ?ds)" using utoa_digits[of "nat base" "nat v" adj] assms by simp
  have d: "is_digit_of base c" if "c \<in> set ?ds" for c
    using digits_of_are_digits[of "nat base" adj c "nat v"] that assms by simp
  have nodigit: "\<not> is_digit_of base 0" "\<not> is_digit_of base 32" by (simp_all add: is_digit_of_def char_to_digit_def)
  have "lit ?ds 0 \<in> set ?ds" by (simp add: lit_def)
  then have "lit ?ds 0 \<noteq> 32" using d nodigit by metis
  then have "strtoull (lit ?ds) base = Some (u64 (digits_value base 0 ?ds), int (0 + length ?ds))"
    using d nodigit assms(3) by (intro strtoull_digits_after_spaces) auto
  moreover have "digits_value base 0 ?ds = v" using digits_of_value[of "nat base" adj "nat v"] assms by simp
  moreover have "length ?ds \<le> 22" if "8 \<le> base"
  proof -
    have "(8::nat) ^ Suc 21 \<le> nat base ^ Suc 21" using that by (intro power_mono) simp_all
    moreover have "nat v < 8 ^ Suc 21" using assms(2) by (simp add: nat_less_iff)
    ultimately show ?thesis using digits_of_length[of "nat base" "nat v" 21 adj] that by simp
  qed
  ultimately show ?thesis using assms(1,2) u by (simp add: u64_id)
qed

theorem utoa_round_trip_witness:
  "\<exists>ds. npf_utoa_rev 18446744073709551615 8 32 = Some ds \<and> strtoull (lit (rev ds)) 8 = Some (18446744073709551615, int (length ds)) \<and>
    length ds \<le> 22"
  using utoa_round_trip[of 18446744073709551615 8 32] by simp

text \<open>C31: A conversion written with its flags, width, precision and length modifier is parsed to just those
  fields, whatever follows it, and the length returned is that of its text.\<close>

theorem directive_parsed:
  assumes "directive_ok d"
  shows "npf_parse_format_spec (directive_text d @ rest) = (int (length (directive_text d)), spec_of d)"
  by (rule parse_directive[OF assms])

definition ex_hex :: directive where
  "ex_hex = \<lparr>d_minus = False, d_zero = True, d_plus = False, d_space = False, d_width = Some 8, d_prec = None,
             d_mod = LEN_MOD_NONE, d_conv = 120\<rparr>"

lemma ex_hex_text: "directive_text ex_hex = str ''%08x''"
  by (simp add: directive_text_def ex_hex_def flag_text_def width_text_def prec_text_def mod_text_def decimal.simps str_def of_char_of)

lemma ex_hex_ok: "directive_ok ex_hex" "is_number ex_hex"
  by (simp_all add: is_number_def directive_ok_def ex_hex_def conv_of_def conv_chars_def)

theorem directive_parsed_witness:
  "npf_parse_format_spec (str ''%08x'' @ str ''h'') = (4, spec_of ex_hex)"
  using directive_parsed[OF ex_hex_ok(1), of "str ''h''"] by (simp add: ex_hex_text) (simp add: str_def)

text \<open>C29: A format prints what C defines for it.  For a format made of plain text, numeric conversions
  (\<open>d i u o x X b B\<close>, with any flags, width, precision and length modifier) and string
  conversions, with arguments in the range of their types, \<open>npf_vpprintf\<close> hands the texts to
  the caller's function byte by byte and in order, and returns their length: a number as its digits in
  the base, with sign, precision and padding; a string up to the precision, padded to the width.  For \<open>%b\<close> with the
  flag \<open>0\<close> and a precision it is the text of the code (\<open>zero_padded\<close>): zeros in front, where C23 asks for spaces.\<close>

theorem printf_formats:
  assumes "\<forall>x\<in>set xs. piece_ok x"
  shows "npf_vpprintf pc ctx (concat (map piece_format xs)) (concat (map piece_args xs)) =
    Some (s32 (int (length (concat (map piece_text xs)))), fold pc (concat (map piece_text xs)) ctx)"
  by (simp add: npf_vpprintf_bytes format_pieces[OF assms])

lemma fold_append: "fold (\<lambda>c s. s @ [c]) bs s = s @ bs"
  by (induction bs arbitrary: s) simp_all

lemma ex_hex_field: "number_field ex_hex 48879 = str ''0000beef''"
proof -
  have "digits_of 16 32 48879 = str ''beef''"
    by (simp add: digits_of.simps digit_char_def str_def of_char_of)
  then have "number_digits ex_hex 48879 = str ''beef''"
    by (simp add: number_digits_def base_of_def adjust_of_def conv_of_def conv_chars_def ex_hex_def)
  then show ?thesis
    by (simp add: number_field_def layout_field_def number_sign_def zero_padded_def is_signed_def conv_of_def conv_chars_def str_def of_char_of ex_hex_def)
      (simp add: numeral_eq_Suc)
qed

theorem printf_formats_witness:
  "npf_vpprintf (\<lambda>c s. s @ [c]) [] (str ''magic 0x%08x!'') [Va_w 48879] = Some (17, str ''magic 0x0000beef!'')"
proof -
  have "\<forall>x\<in>set [Literal (str ''magic 0x''), Number ex_hex 48879, Literal (str ''!'')]. piece_ok x"
    by (simp add: piece_ok_def ex_hex_ok str_def of_char_of) (simp add: in_range_def is_signed_def conv_of_def conv_chars_def ex_hex_def)
  from printf_formats[OF this, of "\<lambda>c s. s @ [c]" "[]"] show ?thesis
    by (simp add: piece_format_def piece_args_def piece_text_def ex_hex_text ex_hex_field fold_append arg_of_def)
      (simp add: str_def ex_hex_def s32_def)
qed

text \<open>\<open>%08.3b\<close> of 5: C23 has five spaces and \<open>101\<close>.\<close>

lemma binary_zeros_kept:
  "npf_vpprintf (\<lambda>c s. s @ [c]) [] (str ''%08.3b'') [Va_w 5] = Some (8, str ''00000101'')"
proof -
  let ?d = "\<lparr>d_minus = False, d_zero = True, d_plus = False, d_space = False, d_width = Some 8, d_prec = Some 3,
             d_mod = LEN_MOD_NONE, d_conv = 98\<rparr>"
  have t: "directive_text ?d = str ''%08.3b''"
    by (simp add: directive_text_def flag_text_def width_text_def prec_text_def mod_text_def decimal.simps str_def of_char_of)
  have d: "is_number ?d" "in_range ?d 5" "arg_of ?d 5 = Va_w 5"
    by (simp_all add: is_number_def directive_ok_def conv_of_def conv_chars_def in_range_def is_signed_def arg_of_def)
  have ds: "digits_of 2 32 5 = str ''101''" by (simp add: digits_of.simps digit_char_def str_def of_char_of)
  have "number_field ?d 5 = str ''00000101''"
    by (simp add: number_field_def layout_field_def number_sign_def number_digits_def base_of_def adjust_of_def zero_padded_def is_signed_def
        conv_of_def conv_chars_def ds) (simp add: str_def of_char_of numeral_eq_Suc)
  then have "format_bytes (str ''%08.3b'') [Va_w 5] = Some (str ''00000101'')"
    using format_number[OF d(1,2), of "[]" "[]"] unfolding t d(3) by simp
  then show ?thesis by (simp add: npf_vpprintf_bytes fold_append str_def s32_id)
qed

text \<open>C30: Formatting always ends when the arguments fit the format (\<open>args_fit\<close>: each conversion and each \<open>*\<close> finds
  an argument of its kind, a string is terminated): the same text reaches every caller's function,
  and its length, as an \<open>int\<close>, is returned.\<close>

theorem printf_returns:
  assumes "args_fit format args"
  shows "\<exists>text. npf_vpprintf (\<lambda>c s. s @ [c]) [] format args = Some (s32 (int (length text)), text) \<and>
    npf_vpprintf pc ctx format args = Some (s32 (int (length text)), fold pc text ctx)"
  using format_total[OF assms] by (auto simp: npf_vpprintf_bytes fold_append)

theorem printf_returns_witness:
  "\<exists>text :: byte list. npf_vpprintf (\<lambda>c n. n + 1) (0::nat) (str ''%*d'') [Va_w 5, Va_w 7] = Some (s32 (int (length text)), fold (\<lambda>c n. n + 1) text (0::nat))"
proof -
  have "npf_parse_format_spec (str ''%*d'') = (3, npf_fresh\<lparr>field_width_opt := OPT_STAR, conv_spec := CONV_SIGNED_INT\<rparr>)"
    by (simp add: str_def of_char_of npf_parse_format_spec_def npf_fresh_def npf_width_def npf_precision_def npf_length_modifier_def npf_conversion_def)
  then have "args_fit (str ''%*d'') [Va_w 5, Va_w 7]"
    by (subst args_fit.simps)
      (simp add: str_def of_char_of skip_args_def skip_value_def skip_def is_word_arg_def npf_fresh_def args_fit.simps)
  from printf_returns[OF this, of "\<lambda>c n. n + 1" "0::nat"] show ?thesis by (elim exE conjE) (rule exI)
qed

text \<open>C32: \<open>npf_vsnprintf\<close> stays within the buffer and terminates what it leaves there: it changes nothing outside
  the \<open>bufsz\<close> bytes, stores the text cut to \<open>bufsz - 1\<close> bytes with a NUL after it, and returns the length
  of the whole text.\<close>

theorem vsnprintf_bounds:
  assumes "npf_vpprintf (\<lambda>c s. s @ [c]) [] format args = Some (n, text)" "length text < 2147483648" "buffer \<noteq> 0" "0 < bufsz"
  shows "\<exists>m'. npf_vsnprintf m buffer bufsz format args = Some (int (length text), m') \<and>
    (\<forall>a. \<not> inside buffer bufsz a \<longrightarrow> m' a = m a) \<and>
    bytes_at (rd m' buffer) (length (take (nat (bufsz - 1)) text)) = take (nat (bufsz - 1)) text \<and>
    m' (buffer + int (length (take (nat (bufsz - 1)) text))) = 0"
proof -
  let ?b = "\<lparr>bc_dst = buffer, bc_len = bufsz, bc_cur = 0, bc_mem = m\<rparr>"
  let ?r = "fold npf_bufputc text ?b" and ?k = "length (take (nat (bufsz - 1)) text)"
  obtain bs where "format_bytes format args = Some bs" "bs = text"
    using assms(1) by (auto simp: npf_vpprintf_bytes fold_append)
  then have p: "npf_vpprintf npf_bufputc ?b format args = Some (int (length text), ?r)"
    using assms(2) by (simp add: npf_vpprintf_bytes s32_id)
  have r: "bc_mem ?r a = (if buffer \<le> a \<and> a < buffer + int (min (nat bufsz) (length text)) then text ! nat (a - buffer) else m a)" for a
    using fold_bufputc[of ?b "text"] assms(4) by simp
  have idx: "min (u32 (int (length text))) (bufsz - 1) = int ?k"
    using assms(2,4) by (simp add: u32_id of_nat_min min.commute)
  have "npf_vsnprintf m buffer bufsz format args = Some (int (length text), (bc_mem ?r)(buffer + int ?k := 0))"
    using assms(3,4) idx by (simp add: npf_vsnprintf_def p)
  moreover have "bytes_at (rd ((bc_mem ?r)(buffer + int ?k := 0)) buffer) ?k = take (nat (bufsz - 1)) text"
    by (rule nth_equalityI) (use assms(4) in \<open>auto simp: r rd_def nat_less_iff min_def split: if_splits\<close>)
  ultimately show ?thesis
    using assms(4) by (auto simp: r inside_def min_def split: if_splits)
qed

theorem vsnprintf_bounds_witness:
  "\<exists>m'. npf_vsnprintf (\<lambda>_. 7) 100 4 (str ''U-Boot'') [] = Some (6, m') \<and> bytes_at (rd m' 100) 3 = str ''U-B'' \<and> m' 103 = 0 \<and> m' 104 = 7"
proof -
  have "npf_vpprintf (\<lambda>c s. s @ [c]) [] (str ''U-Boot'') [] = Some (6, str ''U-Boot'')"
    by (simp add: npf_vpprintf_bytes fold_append str_def of_char_of format_char s32_def)
  from vsnprintf_bounds[OF this, of 100 4 "\<lambda>_. 7"] show ?thesis by (auto simp: str_def inside_def numeral_3_eq_3)
qed

end
