(* ===== verification/Console.thy ===== *)
theory Console
  imports Uart Nanoprintf_Props
begin

text \<open>
  Messages and the end of a failed run (the rest of \<open>src/src/util.c\<close>).

  \<open>info\<close> and \<open>fatal\<close> run the formatter with \<open>nano_putc\<close>, so every byte it makes goes to the serial
  port.  The firmware is a parameter: it answers a power-off call by ending the run or by returning
  (\<open>stops\<close>).  The loop at the end of \<open>poweroff\<close> is the outcome \<open>waits\<close>.
\<close>

definition crlf :: "byte list" where
  "crlf = [13, 10]"

definition putchar :: "'d device \<Rightarrow> byte \<Rightarrow> 'd io \<Rightarrow> 'd io" where
  "putchar D c s = uart_putc D c s"

definition nano_putc :: "'d device \<Rightarrow> byte \<Rightarrow> 'd io \<Rightarrow> 'd io" where
  "nano_putc D c s = uart_putc D c s"

definition info :: "'d device \<Rightarrow> byte list \<Rightarrow> va_arg list \<Rightarrow> 'd io \<Rightarrow> 'd io option" where
  "info D fmt ap s = do {
     (_, s) \<leftarrow> npf_vpprintf (nano_putc D) s fmt ap;
     uart_puts D (lit crlf) s
   }"

text \<open>What \<open>fatal\<close> is called with: a format and its arguments.\<close>

type_synonym message = "byte list \<times> va_arg list"

section \<open>Power-off\<close>

datatype firmware_call = Hvc int | Smc int

text \<open>The calls that were made, and whether the last of them ended the run.\<close>

record outcome =
  calls :: "firmware_call list"
  waits :: bool

definition get_el :: "64 word \<Rightarrow> int" where
  "get_el CurrentEL = s32 (uint (drop_bit 2 CurrentEL))"

text \<open>A call, and what happens when it returns.\<close>

definition call_firmware ::
  "(firmware_call \<Rightarrow> bool) \<Rightarrow> firmware_call \<Rightarrow> firmware_call list \<Rightarrow> (firmware_call list \<Rightarrow> outcome) \<Rightarrow> outcome" where
  "call_firmware stops c cs k = (if stops c then \<lparr>calls = cs @ [c], waits = False\<rparr> else k (cs @ [c]))"

definition poweroff ::
  "'d device \<Rightarrow> (firmware_call \<Rightarrow> bool) \<Rightarrow> 64 word \<Rightarrow> 'd io \<Rightarrow> (outcome \<times> 'd io) option" where
  "poweroff D stops CurrentEL s =
     (let wfi = (\<lambda>cs. \<lparr>calls = cs, waits = True\<rparr>);
          smc = (\<lambda>cs. call_firmware stops (Smc 0x84000008) cs wfi)
      in if get_el CurrentEL = 0 then do {
           s \<leftarrow> uart_puts D (lit (str ''Power off unimplemented for EL0.'' @ crlf)) s;
           Some (wfi [], s)
         }
         else if get_el CurrentEL = 1 then Some (call_firmware stops (Hvc 0x84000008) [] smc, s)
         else if get_el CurrentEL = 2 then Some (smc [], s)
         else if get_el CurrentEL = 3 then do {
           s \<leftarrow> uart_puts D (lit (str ''Power off unimplemented for EL3.'' @ crlf)) s;
           Some (wfi [], s)
         }
         else Some (wfi [], s))"

definition fatal ::
  "'d device \<Rightarrow> (firmware_call \<Rightarrow> bool) \<Rightarrow> 64 word \<Rightarrow> byte list \<Rightarrow> va_arg list \<Rightarrow> 'd io \<Rightarrow> (outcome \<times> 'd io) option" where
  "fatal D stops CurrentEL fmt ap s = do {
     s \<leftarrow> uart_puts D (lit (crlf @ crlf @ str ''FATAL ERROR:'' @ crlf)) s;
     (_, s) \<leftarrow> npf_vpprintf (nano_putc D) s fmt ap;
     s \<leftarrow> uart_puts D (lit (crlf @ crlf @ str ''POWERING OFF QEMU.'' @ crlf)) s;
     poweroff D stops CurrentEL s
   }"

section \<open>What is sent\<close>

lemma fold_putc_sends:
  "writes_to UART_DR (accesses (fold (nano_putc D) bs s)) = writes_to UART_DR (accesses s) @ map ucast bs \<and>
   ram (fold (nano_putc D) bs s) = ram s"
  by (induction bs arbitrary: s) (simp_all add: nano_putc_def uart_putc_writes)

lemma uart_puts_lit:
  "cstring cs \<Longrightarrow> \<exists>s'. uart_puts D (lit cs) s = Some s' \<and> ram s' = ram s \<and>
     writes_to UART_DR (accesses s') = writes_to UART_DR (accesses s) @ map ucast cs"
  by (rule uart_puts_sends) simp

lemma message_texts:
  "cstring crlf" "cstring (crlf @ crlf @ str ''FATAL ERROR:'' @ crlf)" "cstring (crlf @ crlf @ str ''POWERING OFF QEMU.'' @ crlf)"
  "cstring (str ''Power off unimplemented for EL0.'' @ crlf)" "cstring (str ''Power off unimplemented for EL3.'' @ crlf)"
  by (simp_all add: crlf_def str_def of_char_of cstring_def)

lemma info_sends:
  assumes "format_bytes fmt ap = Some bs"
  shows "\<exists>s'. info D fmt ap s = Some s' \<and> ram s' = ram s \<and>
     writes_to UART_DR (accesses s') = writes_to UART_DR (accesses s) @ map ucast (bs @ crlf)"
  using uart_puts_lit[OF message_texts(1), of D "fold (nano_putc D) bs s"] fold_putc_sends[of D bs s]
  by (auto simp: info_def npf_vpprintf_bytes assms)

text \<open>The notice of \<open>poweroff\<close>, and its outcome, by exception level.\<close>

definition el_notice :: "int \<Rightarrow> byte list" where
  "el_notice el =
     (if el = 0 then str ''Power off unimplemented for EL0.'' @ crlf
      else if el = 3 then str ''Power off unimplemented for EL3.'' @ crlf else [])"

lemma poweroff_sends:
  "\<exists>h s'. poweroff D stops el s = Some (h, s') \<and> ram s' = ram s \<and>
     writes_to UART_DR (accesses s') = writes_to UART_DR (accesses s) @ map ucast (el_notice (get_el el))"
  using uart_puts_lit[OF message_texts(4), of D s] uart_puts_lit[OF message_texts(5), of D s]
  by (auto simp: poweroff_def Let_def el_notice_def)

lemma poweroff_outcome:
  assumes "poweroff D stops el s = Some (h, s')"
  shows "(waits h \<longleftrightarrow> (\<forall>c\<in>set (calls h). \<not> stops c)) \<and>
    (calls h = (if get_el el = 1 then (if stops (Hvc 0x84000008) then [Hvc 0x84000008] else [Hvc 0x84000008, Smc 0x84000008])
                else if get_el el = 2 then [Smc 0x84000008] else []))"
  using assms by (auto simp: poweroff_def call_firmware_def Let_def split: if_splits bind_splits)

lemma fatal_runs:
  assumes f: "format_bytes fmt ap = Some formatted"
  shows "\<exists>h s'. fatal D stops el fmt ap s = Some (h, s') \<and> ram s' = ram s \<and>
     writes_to UART_DR (accesses s') = writes_to UART_DR (accesses s) @
       map ucast (crlf @ crlf @ str ''FATAL ERROR:'' @ crlf @ formatted @ crlf @ crlf @ str ''POWERING OFF QEMU.'' @ crlf @
         el_notice (get_el el)) \<and>
     (waits h \<longleftrightarrow> (\<forall>c\<in>set (calls h). \<not> stops c)) \<and>
     calls h = (if get_el el = 1 then (if stops (Hvc 0x84000008) then [Hvc 0x84000008] else [Hvc 0x84000008, Smc 0x84000008])
                else if get_el el = 2 then [Smc 0x84000008] else [])"
proof -
  obtain s1 where s1: "uart_puts D (lit (crlf @ crlf @ str ''FATAL ERROR:'' @ crlf)) s = Some s1" "ram s1 = ram s"
    "writes_to UART_DR (accesses s1) = writes_to UART_DR (accesses s) @ map ucast (crlf @ crlf @ str ''FATAL ERROR:'' @ crlf)"
    using uart_puts_lit[OF message_texts(2)] by blast
  let ?s2 = "fold (nano_putc D) formatted s1"
  obtain s3 where s3: "uart_puts D (lit (crlf @ crlf @ str ''POWERING OFF QEMU.'' @ crlf)) ?s2 = Some s3" "ram s3 = ram ?s2"
    "writes_to UART_DR (accesses s3) = writes_to UART_DR (accesses ?s2) @ map ucast (crlf @ crlf @ str ''POWERING OFF QEMU.'' @ crlf)"
    using uart_puts_lit[OF message_texts(3)] by blast
  obtain h s4 where s4: "poweroff D stops el s3 = Some (h, s4)" "ram s4 = ram s3"
    "writes_to UART_DR (accesses s4) = writes_to UART_DR (accesses s3) @ map ucast (el_notice (get_el el))"
    using poweroff_sends by blast
  show ?thesis
    using s1 s3 s4 fold_putc_sends[of D formatted s1] poweroff_outcome[OF s4(1)]
    by (intro exI[of _ h] exI[of _ s4]) (simp add: fatal_def npf_vpprintf_bytes f)
qed

section \<open>Properties\<close>

text \<open>C39: \<open>fatal\<close> never goes on: whatever the device and the firmware answer, it sends the frame with the
  message and, at the levels without a power-off, a notice; it makes the \<open>SYSTEM_OFF\<close> call by \<open>hvc\<close> and
  then \<open>smc\<close> in EL1, by \<open>smc\<close> in EL2 and not at all elsewhere, and waits forever exactly when no call it made
  ended the run.\<close>

theorem fatal_ends_run:
  assumes "npf_vpprintf (\<lambda>c s. s @ [c]) [] fmt ap = Some (n, formatted)"
  shows "\<exists>h s'. fatal D stops el fmt ap s = Some (h, s') \<and> ram s' = ram s \<and>
     writes_to UART_DR (accesses s') = writes_to UART_DR (accesses s) @
       map ucast (crlf @ crlf @ str ''FATAL ERROR:'' @ crlf @ formatted @ crlf @ crlf @ str ''POWERING OFF QEMU.'' @ crlf @
         el_notice (get_el el)) \<and>
     (waits h \<longleftrightarrow> (\<forall>c\<in>set (calls h). \<not> stops c)) \<and>
     calls h = (if get_el el = 1 then (if stops (Hvc 0x84000008) then [Hvc 0x84000008] else [Hvc 0x84000008, Smc 0x84000008])
                else if get_el el = 2 then [Smc 0x84000008] else [])"
  using assms by (intro fatal_runs) (auto simp: npf_vpprintf_bytes fold_append)

text \<open>At an example: EL1, and a firmware that only answers \<open>smc\<close>.\<close>

theorem fatal_ends_run_witness:
  "\<exists>h s'. fatal idle_port (\<lambda>c. c = Smc 0x84000008) 4 (str ''Failed to read kernel'') [] \<lparr>dev = (), ram = (\<lambda>_. 0), accesses = []\<rparr> = Some (h, s') \<and>
     calls h = [Hvc 0x84000008, Smc 0x84000008] \<and> \<not> waits h"
proof -
  have "npf_vpprintf (\<lambda>c s. s @ [c]) [] (str ''Failed to read kernel'') [] = Some (21, str ''Failed to read kernel'')"
    by (simp add: npf_vpprintf_bytes fold_append str_def of_char_of format_char s32_def)
  from fatal_ends_run[OF this, of idle_port "\<lambda>c. c = Smc 0x84000008" 4 "\<lparr>dev = (), ram = (\<lambda>_. 0), accesses = []\<rparr>"] show ?thesis
    by (auto simp: get_el_def s32_def)
qed

end
