(* ===== verification/Boot.thy ===== *)
theory Boot
  imports Env_Format Fdt_Rw Virtio Console
begin

text \<open>
  The loader (\<open>src/src/main.c\<close>): choosing the slot and the kernel from the U-Boot environment,
  loading the kernel, passing on the device tree.

  \<open>fatal\<close> does not return: a step that calls it gives \<open>Inl\<close> with the format and the arguments of the call and the
  state then, nothing of the loader runs after it, and \<open>rom_main\<close> makes the call.  Strings the code owns (\<open>active_slot\<close>, \<open>kernel_args\<close>, ...) are kept by their contents.
  \<open>kernel_lba_p\<close> is the address of the variable \<open>kernel_lba\<close> of \<open>rom_main\<close>, which one message prints.
  \<open>None\<close> is not returning, or a message whose arguments do not fit its format.
\<close>

abbreviation (input) UBOOT_ENV_LBA :: int where "UBOOT_ENV_LBA \<equiv> 16"
abbreviation (input) UBOOT_ENV_SIZE :: int where "UBOOT_ENV_SIZE \<equiv> 256 * 512"
abbreviation (input) DEFAULT_KERNEL_LBA :: int where "DEFAULT_KERNEL_LBA \<equiv> 512"
abbreviation (input) KERNEL_MAX_LENGTH :: int where "KERNEL_MAX_LENGTH \<equiv> 64 * 1024 * 1024"
abbreviation (input) KERNEL_LOAD_ADDR :: addr where "KERNEL_LOAD_ADDR \<equiv> 0x40200000"

definition be32_to_le32 :: "32 word \<Rightarrow> 32 word" where
  "be32_to_le32 x =
     (drop_bit 24 x AND 0x000000FF) OR (drop_bit 8 x AND 0x0000FF00) OR
     (push_bit 8 x AND 0x00FF0000) OR (push_bit 24 x AND 0xFF000000)"

record 'd boot =
  io :: "'d io"
  heap :: eheap

definition say :: "'d device \<Rightarrow> byte list \<Rightarrow> va_arg list \<Rightarrow> 'd boot \<Rightarrow> 'd boot option" where
  "say D fmt ap s = do { io' \<leftarrow> info D fmt ap (io s); Some (s\<lparr>io := io'\<rparr>) }"

text \<open>A string argument.\<close>

abbreviation s_arg :: "byte list \<Rightarrow> va_arg" where
  "s_arg cs \<equiv> Va_s (Some (lit cs))"

section \<open>The U-Boot environment\<close>

text \<open>\<open>ERR_RETURN\<close> of \<open>util.h\<close>: where \<open>uboot_env.c\<close> returns -1 it first calls \<open>info\<close> with the format and the arguments
  that belong to the error.  Nothing else happens between the two, so the call is made here when the function
  returns.\<close>

definition env_message :: "env_error \<Rightarrow> message" where
  "env_message e =
     (case e of
        Crc_mismatch expected actual \<Rightarrow>
          (str ''U-boot environment CRC32 mismatch (expected 0x%08x; got 0x%08x)'', [Va_w (uint expected), Va_w (uint actual)])
      | Invalid_env \<Rightarrow> (str ''Invalid U-boot environment'', [])
      | Not_found name \<Rightarrow> (str (''variable '' @ CHR 0x27 # ''%s'' @ CHR 0x27 # '' not found''), [s_arg name])
      | Too_small \<Rightarrow> (str ''u-boot environment block size too small'', [])
      | No_room \<Rightarrow> (str ''Not enough room in U-boot environment'', []))"

definition err_return :: "'d device \<Rightarrow> env_error + 'a \<Rightarrow> 'd boot \<Rightarrow> 'd boot option" where
  "err_return D r s = (case r of Inl e \<Rightarrow> say D (fst (env_message e)) (snd (env_message e)) s | Inr _ \<Rightarrow> Some s)"

text \<open>The two calls with their messages.\<close>

definition env_read ::
  "'d device \<Rightarrow> uboot_env \<Rightarrow> addr \<Rightarrow> 'd boot \<Rightarrow> ((env_error + unit) \<times> uboot_env \<times> 'd boot) option" where
  "env_read D env buffer s = do {
     (r, env, h) \<leftarrow> uboot_env_read env (heap s) (rd (ram (io s)) buffer);
     s \<leftarrow> err_return D r (s\<lparr>heap := h\<rparr>);
     Some (r, env, s)
   }"

definition env_getenv ::
  "'d device \<Rightarrow> uboot_env \<Rightarrow> byte list \<Rightarrow> 'd boot \<Rightarrow> ((env_error + byte list) \<times> uboot_env \<times> 'd boot) option" where
  "env_getenv D env name s = do {
     (r, env, h) \<leftarrow> uboot_env_getenv env (heap s) name;
     s \<leftarrow> err_return D r (s\<lparr>heap := h\<rparr>);
     Some (r, env, s)
   }"

text \<open>\<open>active_slot[0]\<close>: the NUL for an empty string.\<close>

definition first_char :: "byte list \<Rightarrow> byte" where
  "first_char s = (case s of [] \<Rightarrow> 0 | c # _ \<Rightarrow> c)"

text \<open>The other slot, written over the first character.  An empty name has no character to
  overwrite: the code replaces its NUL, and what follows is not determined.\<close>

definition other_slot :: "byte list \<Rightarrow> byte list option" where
  "other_slot s =
     (case s of
        [] \<Rightarrow> None
      | c # cs \<Rightarrow> Some ((if c = 97 then 98 else 97) # cs))"

text \<open>The key \<open>x.kernel_lba\<close> with its first character replaced.\<close>

definition slot_key :: "byte list \<Rightarrow> string \<Rightarrow> byte list" where
  "slot_key active suffix = (if first_char active = 0 then [] else first_char active # str suffix)"

text \<open>The failback decision, taken when an upgrade is on trial: the slot to boot and the environment
  to be saved.\<close>

definition failback ::
  "'d device \<Rightarrow> byte list \<Rightarrow> byte list \<Rightarrow> uboot_env \<Rightarrow> 'd boot \<Rightarrow> (byte list \<times> uboot_env \<times> 'd boot) option" where
  "failback D active bootcount env s = do {
     c \<leftarrow> strcmp (lit bootcount) (chars ''1'');
     if c = 0 then do {
       s \<leftarrow> say D (str (''Slot %s didn'' @ CHR 0x27 # ''t validate, so reverting back...'')) [s_arg active] s;
       active \<leftarrow> other_slot active;
       (env, h) \<leftarrow> uboot_env_setenv env (heap s) (str ''nerves_fw_active'') active;
       (env, h) \<leftarrow> uboot_env_setenv env h (str ''upgrade_available'') (str ''0'');
       (env, h) \<leftarrow> uboot_env_setenv env h (str ''bootcount'') (str ''0'');
       Some (active, env, s\<lparr>heap := h\<rparr>)
     } else do {
       s \<leftarrow> say D (str ''Trying slot %s for the first time...'') [s_arg active] s;
       (env, h) \<leftarrow> uboot_env_setenv env (heap s) (str ''bootcount'') (str ''1'');
       Some (active, env, s\<lparr>heap := h\<rparr>)
     }
   }"

text \<open>Saving: the block is written to the buffer and, if that worked, to the disk.\<close>

definition save_env ::
  "'d device \<Rightarrow> layout \<Rightarrow> addr \<Rightarrow> uboot_env \<Rightarrow> 'd boot \<Rightarrow> (uboot_env \<times> 'd boot) option" where
  "save_env D L buffer env s = do {
     ((r, env, h), m) \<leftarrow> uboot_env_write env (heap s) (ram (io s)) buffer;
     s \<leftarrow> err_return D r (s\<lparr>io := (io s)\<lparr>ram := m\<rparr>, heap := h\<rparr>);
     (failed, s) \<leftarrow> (case r of
       Inl e \<Rightarrow> Some (True, s)
     | Inr _ \<Rightarrow> do {
         (rc, io') \<leftarrow> virtio_blk_write D L UBOOT_ENV_LBA UBOOT_ENV_SIZE buffer (io s);
         Some (rc < 0, s\<lparr>io := io'\<rparr>)
       });
     s \<leftarrow> (if failed then say D (str ''Failed to write u-boot environment after failback!!'') [] s else Some s);
     Some (env, s)
   }"

text \<open>The middle part: \<open>Inl\<close> is a \<open>goto cleanup\<close>, \<open>Inr\<close> the slot to boot.\<close>

definition check_upgrade ::
  "'d device \<Rightarrow> layout \<Rightarrow> addr \<Rightarrow> byte list \<Rightarrow> byte list \<Rightarrow> uboot_env \<Rightarrow> 'd boot \<Rightarrow>
   ((unit + byte list) \<times> uboot_env \<times> 'd boot) option" where
  "check_upgrade D L buffer active upgrade_available env s = do {
     c \<leftarrow> strcmp (lit upgrade_available) (chars ''1'');
     if c = 0 then do {
       (r, env, s) \<leftarrow> env_getenv D env (str ''bootcount'') s;
       case r of
         Inl _ \<Rightarrow> do {
           s \<leftarrow> say D (str ''Failed to get `bootcount`. Skipping automatic failback check.'') [] s;
           Some (Inl (), env, s)
         }
       | Inr bootcount \<Rightarrow> do {
           (active, env, s) \<leftarrow> failback D active bootcount env s;
           (env, s) \<leftarrow> save_env D L buffer env s;
           Some (Inr active, env, s)
         }
     } else Some (Inr active, env, s)
   }"

text \<open>The last part: the kernel's block and its arguments.\<close>

definition kernel_settings ::
  "'d device \<Rightarrow> int \<Rightarrow> byte list \<Rightarrow> uboot_env \<Rightarrow> 'd boot \<Rightarrow> (int \<times> byte list option \<times> 'd boot) option" where
  "kernel_settings D kernel_lba_p active env s = do {
     let kernel_lba_key = slot_key active ''.kernel_lba'';
     (r, env, s) \<leftarrow> env_getenv D env kernel_lba_key s;
     case r of
       Inl _ \<Rightarrow> do {
         s \<leftarrow> say D (str (''No '' @ CHR 0x27 # ''%s'' @ CHR 0x27 # '' variable found in u-boot environment, using default.''))
                [s_arg kernel_lba_key] s;
         Some (DEFAULT_KERNEL_LBA, None, s)
       }
     | Inr lba \<Rightarrow> do {
         (kernel_lba, _) \<leftarrow> strtoull (lit lba) 10;
         (r, env, s) \<leftarrow> env_getenv D env (slot_key active ''.kernel_args'') s;
         let kernel_args = (case r of Inl _ \<Rightarrow> None | Inr args \<Rightarrow> Some args);
         s \<leftarrow> say D (str ''Booting from slot %s (kernel LBA %lu, kernel_args: %s)'')
                [s_arg active, Va_x kernel_lba_p,
                 s_arg (case kernel_args of None \<Rightarrow> str ''<none>'' | Some args \<Rightarrow> args)] s;
         Some (kernel_lba, kernel_args, s)
       }
   }"

definition process_uboot_env ::
  "'d device \<Rightarrow> layout \<Rightarrow> int \<Rightarrow> 'd boot \<Rightarrow> (message \<times> 'd io + int \<times> byte list option \<times> 'd boot) option" where
  "process_uboot_env D L kernel_lba_p s = do {
     let (buffer, h) = alloc (heap s) UBOOT_ENV_SIZE;
     let env = uboot_env_init UBOOT_ENV_SIZE;
     (rc, io') \<leftarrow> virtio_blk_read D L UBOOT_ENV_LBA UBOOT_ENV_SIZE buffer (io s);
     let s = s\<lparr>io := io', heap := h\<rparr>;
     if rc < 0
     then Some (Inl ((str ''Failed to read u-boot environment from LBA %d\<newline>'', [Va_w UBOOT_ENV_LBA]), io s))
     else do {
       (r, env, s) \<leftarrow> env_read D env buffer s;
       case r of
         Inl _ \<Rightarrow> do {
           s \<leftarrow> say D (str ''Failed to read u-boot environment from buffer'') [] s;
           Some (Inr (DEFAULT_KERNEL_LBA, None, s))
         }
       | Inr _ \<Rightarrow> do {
           (r, env, s) \<leftarrow> env_getenv D env (str ''nerves_fw_active'') s;
           case r of
             Inl _ \<Rightarrow> do {
               s \<leftarrow> say D (str ''Failed to get `nerves_fw_active` from U-Boot environment'') [] s;
               Some (Inr (DEFAULT_KERNEL_LBA, None, s))
             }
           | Inr active \<Rightarrow> do {
               (r, env, s) \<leftarrow> env_getenv D env (str ''upgrade_available'') s;
               case r of
                 Inl _ \<Rightarrow> do {
                   s \<leftarrow> say D (str ''Failed to get `upgrade_available`. Skipping automatic failback check.'') [] s;
                   Some (Inr (DEFAULT_KERNEL_LBA, None, s))
                 }
               | Inr upgrade_available \<Rightarrow> do {
                   (r, env, s) \<leftarrow> check_upgrade D L buffer active upgrade_available env s;
                   case r of
                     Inl _ \<Rightarrow> Some (Inr (DEFAULT_KERNEL_LBA, None, s))
                   | Inr active \<Rightarrow> map_option Inr (kernel_settings D kernel_lba_p active env s)
                 }
             }
         }
     }
   }"

section \<open>The kernel\<close>

record kernel_header =
  code0 :: "32 word"
  code1 :: "32 word"
  text_offset :: "64 word"
  image_size :: "64 word"
  flags :: "64 word"
  res2 :: "64 word"
  res3 :: "64 word"
  res4 :: "64 word"
  magic :: "32 word"
  res5 :: "32 word"

definition kernel_header_at :: "mem \<Rightarrow> addr \<Rightarrow> kernel_header" where
  "kernel_header_at m p =
     \<lparr>code0 = load32 (rd m p), code1 = load32 (rd m (p + 4)), text_offset = load64 (rd m (p + 8)),
      image_size = load64 (rd m (p + 16)), flags = load64 (rd m (p + 24)), res2 = load64 (rd m (p + 32)),
      res3 = load64 (rd m (p + 40)), res4 = load64 (rd m (p + 48)), magic = load32 (rd m (p + 56)),
      res5 = load32 (rd m (p + 60))\<rparr>"

definition load_kernel ::
  "'d device \<Rightarrow> layout \<Rightarrow> int \<Rightarrow> addr \<Rightarrow> 'd io \<Rightarrow> (message \<times> 'd io + int \<times> 'd io) option" where
  "load_kernel D L lba kernel_base s = do {
     (rc, s) \<leftarrow> virtio_blk_read D L lba SECTOR_SIZE kernel_base s;
     let header = kernel_header_at (ram s) kernel_base;
     if rc < 0 then Some (Inl ((str ''Failed to read kernel header at LBA %lu'', [Va_x lba]), s))
     else if magic header \<noteq> 0x644d5241
       then Some (Inl ((str (''Linux kernel header magic isn'' @ CHR 0x27 # ''t ARM'' @ CHR 0x5C # ''x64''), []), s))
     else if uint (image_size header) > KERNEL_MAX_LENGTH
       then Some (Inl ((str ''Linux kernel header image size of %lu is larger than max support size of %lu'',
                        [Va_x (uint (image_size header)), Va_w KERNEL_MAX_LENGTH]), s))
     else do {
       let num_sectors = s32 (u64 (uint (image_size header) + SECTOR_SIZE - 1) div SECTOR_SIZE);
       (rc, s) \<leftarrow> virtio_blk_read D L (u64 (lba + 1)) ((num_sectors - 1) * SECTOR_SIZE)
                  (kernel_base + SECTOR_SIZE) s;
       Some (if rc < 0 then Inl ((str ''Failed to read kernel'', []), s)
             else Inr (uint (image_size (kernel_header_at (ram s) kernel_base)), s))
     }
   }"

section \<open>The device tree\<close>

text \<open>\<open>OK_OR_FATAL\<close> and the other calls of \<open>fatal\<close> give \<open>Inl\<close>.\<close>

definition fdt_add_bootargs :: "mem \<Rightarrow> addr \<Rightarrow> byte list option \<Rightarrow> (message \<times> mem + mem) option" where
  "fdt_add_bootargs m dtb bootargs =
     (case bootargs of
        None \<Rightarrow> Some (Inr m)
      | Some args \<Rightarrow>
          if fdt_check_header m dtb < 0 then Some (Inl ((str ''Invalid DTB header from QEMU?'', []), m))
          else do {
            offset \<leftarrow> fdt_path_offset m dtb (chars ''/chosen'');
            (chosen_offset, m) \<leftarrow>
              (if offset = - FDT_ERR_NOTFOUND then fdt_add_subnode m dtb 0 (chars ''chosen'')
               else Some (offset, m));
            if chosen_offset < 0
            then Some (Inl ((if offset = - FDT_ERR_NOTFOUND then str ''Failed to create /chosen node: %s''
                             else str ''Error finding /chosen node: %s'', [s_arg (str (fdt_strerror chosen_offset))]), m))
            else do {
              l \<leftarrow> strlen (lit args);
              (ret, m) \<leftarrow> fdt_setprop m dtb chosen_offset (chars ''bootargs'') (lit args) (s32 (l + 1));
              Some (if ret < 0
                    then Inl ((str ''Failed to set bootargs property: %s'', [s_arg (str (fdt_strerror ret))]), m)
                    else Inr m)
            }
          })"

definition load_dtb :: "mem \<Rightarrow> addr \<Rightarrow> addr \<Rightarrow> byte list option \<Rightarrow> (message \<times> mem + mem) option" where
  "load_dtb m dtb_source dtb_load_addr bootargs =
     (let magic = load32 (rd m dtb_source) in
      if magic \<noteq> 0xedfe0dd0
      then Some (Inl ((str ''DTB address needs to be passed in x0, but magic number is 0x%08x'', [Va_w (uint magic)]), m))
      else let len = be32_to_le32 (load32 (rd m (dtb_source + 4)));
               m = memcpy m dtb_load_addr dtb_source (unat len)
           in fdt_add_bootargs m dtb_load_addr bootargs)"

section \<open>Start\<close>

text \<open>What the processor is left with: \<open>x0\<close>, the program counter, and whether \<open>CNTKCTL_EL1\<close>
  was opened (\<open>setup_el2\<close>).\<close>

record jump =
  x0 :: addr
  pc :: addr
  el2_timer :: bool

definition el_message :: "int \<Rightarrow> string" where
  "el_message el =
     (if el = 1 then ''Running in EL1\<newline>''
      else if el = 2 then ''Running in EL2\<newline>''
      else if el = 3 then ''EL3 is not supported!\<newline>''
      else ''Unknown EL level!\<newline>'')"

text \<open>The body, up to the jump or to a call of \<open>fatal\<close>.\<close>

definition boot_steps ::
  "'d device \<Rightarrow> layout \<Rightarrow> addr \<Rightarrow> int \<Rightarrow> string \<Rightarrow> int \<Rightarrow> addr \<Rightarrow> 'd boot \<Rightarrow>
   (message \<times> 'd io + jump \<times> 'd boot) option" where
  "boot_steps D L stack_top kernel_lba_p banner el dtb_source s = do {
     let s = s\<lparr>heap := (heap s)\<lparr>brk := util_init stack_top\<rparr>, io := uart_init D (io s)\<rparr>;
     io' \<leftarrow> uart_puts D (chars banner) (io s);
     io' \<leftarrow> uart_puts D (chars (el_message el)) io';
     case virtio_blk_init D L io' of
       (Inl msg, io') \<Rightarrow> Some (Inl ((str msg, []), io'))
     | (Inr _, io') \<Rightarrow> do {
         r \<leftarrow> process_uboot_env D L kernel_lba_p (s\<lparr>io := io'\<rparr>);
         case r of
           Inl msg \<Rightarrow> Some (Inl msg)
         | Inr (kernel_lba, kernel_args, s) \<Rightarrow> do {
             r \<leftarrow> load_kernel D L kernel_lba KERNEL_LOAD_ADDR (io s);
             case r of
               Inl msg \<Rightarrow> Some (Inl msg)
             | Inr (kernel_len, io') \<Rightarrow> do {
                 let dtb_load_addr = KERNEL_LOAD_ADDR + (u64 (kernel_len + 7) AND NOT 7);
                 r \<leftarrow> load_dtb (ram io') dtb_source dtb_load_addr kernel_args;
                 case r of
                   Inl (msg, m) \<Rightarrow> Some (Inl (msg, io'\<lparr>ram := m\<rparr>))
                 | Inr m \<Rightarrow> do {
                     s \<leftarrow> say D (str ''Starting Linux...'') [] (s\<lparr>io := io'\<lparr>ram := m\<rparr>\<rparr>);
                     Some (Inr (\<lparr>x0 = dtb_load_addr, pc = KERNEL_LOAD_ADDR, el2_timer = (el = 2)\<rparr>, s))
                   }
               }
           }
       }
   }"

text \<open>The whole: the kernel is started, or \<open>fatal\<close> is called, which reports and powers off.\<close>

definition rom_main ::
  "'d device \<Rightarrow> layout \<Rightarrow> (firmware_call \<Rightarrow> bool) \<Rightarrow> 64 word \<Rightarrow> addr \<Rightarrow> int \<Rightarrow> string \<Rightarrow> addr \<Rightarrow> 'd boot \<Rightarrow>
   (outcome \<times> 'd io + jump \<times> 'd boot) option" where
  "rom_main D L stops CurrentEL stack_top kernel_lba_p banner dtb_source s = do {
     r \<leftarrow> boot_steps D L stack_top kernel_lba_p banner (get_el CurrentEL) dtb_source s;
     case r of
       Inl ((fmt, ap), io') \<Rightarrow> map_option Inl (fatal D stops CurrentEL fmt ap io')
     | Inr x \<Rightarrow> Some (Inr x)
   }"

end
