(* ===== verification/Disk.thy ===== *)
theory Disk
  imports Virtio
begin

text \<open>
  The driver with a disk behind it.

  The device is a parameter.  \<open>serves\<close> states what the virtio specification says a block device in
  working order does with a read or a write: in its own time it moves the data, if the sectors are
  within its capacity, and sets the status, \<open>IOERR\<close> otherwise; it writes the used ring when it likes and
  nothing else.  The locale \<open>block_store\<close> is what the loader relies on: sectors that are read as they were
  written.
\<close>

section \<open>What a block device does with a request\<close>

type_synonym disk = "int \<Rightarrow> byte"

text \<open>What is known of a device: when it is running with no request at work, how many entries of the available
  ring it has taken, its bytes, and its sectors.\<close>

record 'd drive =
  ready :: "'d \<Rightarrow> bool"
  seen :: "'d \<Rightarrow> 16 word"
  stored :: "'d \<Rightarrow> disk"
  capacity :: int

text \<open>The request at the newest entry of the available ring: a chain of three descriptors.\<close>

definition chain_at :: "layout \<Rightarrow> mem \<Rightarrow> virtq_desc \<times> virtq_desc \<times> virtq_desc" where
  "chain_at L m =
     (let d0 = desc_at L m (uint (avail_ring L m (uint ((avail_idx L m - 1) AND 7))));
          d1 = desc_at L m (uint (d_next d0))
      in (d0, d1, desc_at L m (uint (d_next d1))))"

record request =
  rq_type :: "32 word"
  rq_sector :: int
  rq_buffer :: addr
  rq_len :: int
  rq_status :: addr

definition request_at :: "layout \<Rightarrow> mem \<Rightarrow> request" where
  "request_at L m = (case chain_at L m of (d0, d1, d2) \<Rightarrow>
     \<lparr>rq_type = load32 (rd m (uint (d_addr d0))), rq_sector = uint (load64 (rd m (uint (d_addr d0) + 8))),
      rq_buffer = uint (d_addr d1), rq_len = uint (d_len d1), rq_status = uint (d_addr d2)\<rparr>)"

text \<open>The memory the device may write before it answers: the used ring and, for a read, the buffer.\<close>

definition device_writes :: "layout \<Rightarrow> request \<Rightarrow> addr \<Rightarrow> bool" where
  "device_writes L q a \<longleftrightarrow> inside (used_p L) 70 a \<or> rq_type q = VIRTIO_BLK_T_IN \<and> inside (rq_buffer q) (rq_len q) a"

text \<open>What a driver owes the device: lengths and flags of the chain, a read or a write, and a buffer that is
  neither the used ring nor the status.\<close>

definition well_formed :: "layout \<Rightarrow> mem \<Rightarrow> bool" where
  "well_formed L m \<longleftrightarrow> (case chain_at L m of (d0, d1, d2) \<Rightarrow> case request_at L m of q \<Rightarrow>
     d_flags d0 = VIRTQ_DESC_F_NEXT \<and> d_len d0 = 16 \<and>
     d_flags d1 = (if rq_type q = VIRTIO_BLK_T_IN then VIRTQ_DESC_F_WRITE OR VIRTQ_DESC_F_NEXT else VIRTQ_DESC_F_NEXT) \<and>
     d_flags d2 = VIRTQ_DESC_F_WRITE \<and> d_len d2 = 1 \<and>
     rq_type q \<in> {VIRTIO_BLK_T_IN, VIRTIO_BLK_T_OUT} \<and> \<not> inside (used_p L) 70 (rq_status q) \<and>
     (\<forall>a. inside (rq_buffer q) (rq_len q) a \<longrightarrow> \<not> inside (used_p L) 70 a \<and> a \<noteq> rq_status q))"

text \<open>Whole sectors within the capacity.\<close>

definition on_disk :: "int \<Rightarrow> int \<Rightarrow> int \<Rightarrow> bool" where
  "on_disk cap sector len \<longleftrightarrow> len mod 512 = 0 \<and> 512 * sector + len \<le> 512 * cap"

text \<open>Disk and memory when a request has been answered.\<close>

definition answered :: "layout \<Rightarrow> int \<Rightarrow> request \<Rightarrow> disk \<Rightarrow> mem \<Rightarrow> disk \<Rightarrow> mem \<Rightarrow> bool" where
  "answered L cap q d m d' m' \<longleftrightarrow>
     (\<forall>a. \<not> device_writes L q a \<and> a \<noteq> rq_status q \<longrightarrow> m' a = m a) \<and>
     (if \<not> on_disk cap (rq_sector q) (rq_len q) then m' (rq_status q) = 1 \<and> d' = d
      else m' (rq_status q) = VIRTIO_BLK_S_OK \<and>
        (if rq_type q = VIRTIO_BLK_T_IN
         then d' = d \<and> (\<forall>a. inside (rq_buffer q) (rq_len q) a \<longrightarrow> m' a = d (512 * rq_sector q + (a - rq_buffer q)))
         else d' = memcpy_from d (512 * rq_sector q) (rd m (rq_buffer q)) (nat (rq_len q))))"

definition turn :: "'d device \<Rightarrow> 'd \<times> mem \<Rightarrow> 'd \<times> mem" where
  "turn D dm = dma D (fst dm) (snd dm)"

text \<open>After a notification the device works for \<open>k\<close> turns and has then answered.\<close>

definition served_after :: "nat \<Rightarrow> 'd device \<Rightarrow> layout \<Rightarrow> 'd drive \<Rightarrow> 'd \<Rightarrow> mem \<Rightarrow> 'd \<Rightarrow> mem \<Rightarrow> bool" where
  "served_after k D L V d m d' m' \<longleftrightarrow>
     (let q = request_at L m; start = (reg_write D d (REG 0x050) 0, m) in
      (\<forall>j\<le>k. \<forall>a. \<not> device_writes L q a \<longrightarrow> snd ((turn D ^^ j) start) a = m a) \<and>
      (turn D ^^ Suc k) start = (d', m') \<and> answered L (capacity V) q (stored V d) m (stored V d') m' \<and>
      ready V d' \<and> seen V d' = avail_idx L m)"

text \<open>A device in working order, for one new entry at a time.\<close>

definition serves :: "'d device \<Rightarrow> layout \<Rightarrow> 'd drive \<Rightarrow> bool" where
  "serves D L V \<longleftrightarrow> capacity V < 36028797018963968 \<and>
     (\<forall>d m. ready V d \<and> avail_idx L m = seen V d + 1 \<and> well_formed L m \<longrightarrow> (\<exists>k d' m'. served_after k D L V d m d' m'))"

text \<open>Driver and device are in step.\<close>

definition attached :: "layout \<Rightarrow> 'd drive \<Rightarrow> 'd io \<Rightarrow> bool" where
  "attached L V s \<longleftrightarrow> ready V (dev s) \<and> avail_idx L (ram s) = seen V (dev s)"

section \<open>The request the driver builds, served\<close>

definition layout_addresses :: "layout \<Rightarrow> bool" where
  "layout_addresses L \<longleftrightarrow> layout_ok L \<and> 0 \<le> req_p L \<and> req_p L < 18446744073709551616 \<and>
     0 \<le> status_p L \<and> status_p L < 18446744073709551616"

definition driver_memory :: "layout \<Rightarrow> addr \<Rightarrow> bool" where
  "driver_memory L a \<longleftrightarrow> inside (desc_p L) 128 a \<or> inside (avail_p L) 22 a \<or> inside (used_p L) 70 a \<or>
     inside (req_p L) 16 a \<or> a = status_p L"

lemma uint_word_id:
  "0 \<le> x \<Longrightarrow> x < 18446744073709551616 \<Longrightarrow> uint (word_of_int x :: 64 word) = x"
  "0 \<le> x \<Longrightarrow> x < 4294967296 \<Longrightarrow> uint (word_of_int x :: 32 word) = x"
  by (simp_all add: uint_word_of_int)

lemma build_request_outside: "layout_ok L \<Longrightarrow> \<not> driver_memory L a \<Longrightarrow> build_request L type lba len buffer m a = m a"
  using request_built(8)[of L type lba len buffer m] by (auto simp: driver_memory_def inside_def)

lemma built_request:
  fixes L m type lba len buffer
  assumes L: "layout_addresses L" and r: "0 \<le> lba" "lba < 18446744073709551616" "0 \<le> len" "len < 4294967296"
    "0 \<le> buffer" "buffer < 18446744073709551616"
  defines "m' \<equiv> build_request L type lba len buffer m"
  shows "request_at L m' = \<lparr>rq_type = type, rq_sector = lba, rq_buffer = buffer, rq_len = len, rq_status = status_p L\<rparr>"
    and "type = 0 \<or> type = 1 \<Longrightarrow> \<forall>a. inside buffer len a \<longrightarrow> \<not> driver_memory L a \<Longrightarrow> well_formed L m'"
proof -
  note b = request_built[of L type lba len buffer m, folded m'_def]
  have ok: "layout_ok L" using L by (simp add: layout_addresses_def)
  have "avail_idx L m' - 1 = avail_idx L m" by (simp add: b(7)[OF ok])
  then have a: "avail_ring L m' (uint ((avail_idx L m' - 1) AND 7)) = 0" using b(6)[OF ok] by simp
  have c: "chain_at L m' = (desc_at L m' 0, desc_at L m' 1, desc_at L m' 2)"
    unfolding chain_at_def Let_def a using b(1,2)[OF ok] by simp
  have h: "load32 (rd m' (req_p L)) = type" "load64 (rd m' (req_p L + 8)) = word_of_int lba"
    using b(4)[OF ok] by (simp_all add: req_at_def)
  have "uint (word_of_int (req_p L) :: 64 word) = req_p L" "uint (word_of_int (status_p L) :: 64 word) = status_p L"
    using L by (simp_all add: layout_addresses_def uint_word_id)
  moreover have "uint (word_of_int buffer :: 64 word) = buffer" "uint (word_of_int lba :: 64 word) = lba"
    "uint (word_of_int len :: 32 word) = len"
    using r by (simp_all add: uint_word_id)
  ultimately show q: "request_at L m' = \<lparr>rq_type = type, rq_sector = lba, rq_buffer = buffer, rq_len = len, rq_status = status_p L\<rparr>"
    unfolding request_at_def c using b(1-3)[OF ok] h by simp
  show "well_formed L m'" if "type = 0 \<or> type = 1" "\<forall>a. inside buffer len a \<longrightarrow> \<not> driver_memory L a"
    using that b(1-3)[OF ok] layout_inside(4)[OF ok] unfolding well_formed_def q c
    by (auto simp: driver_memory_def)
qed

section \<open>The driver's loop against a device that serves\<close>

lemma after_dma_turn:
  "after_dma D k s = s\<lparr>dev := fst ((turn D ^^ k) (dev s, ram s)), ram := snd ((turn D ^^ k) (dev s, ram s))\<rparr>"
  by (induction k) (simp_all add: run_dma_def turn_def split: prod.splits)

text \<open>Where a buffer may be: in the address space, and apart from the driver's variables.\<close>

definition usable :: "layout \<Rightarrow> addr \<Rightarrow> int \<Rightarrow> bool" where
  "usable L p n \<longleftrightarrow> 0 \<le> n \<and> n < 2147483648 \<and> 0 \<le> p \<and> p < 18446744073709551616 \<and>
     (\<forall>a. inside p n a \<longrightarrow> \<not> driver_memory L a)"

lemma usable_ranges:
  "usable L p n \<Longrightarrow> 0 \<le> n \<and> n < 4294967296 \<and> u32 n = n \<and> s32 n = n \<and> 0 \<le> p \<and> p < 18446744073709551616"
  by (simp add: usable_def u32_id s32_id)

lemma driver_memory_status: "driver_memory L (status_p L)"
  by (simp add: driver_memory_def)

lemma avail_idx_cong: "\<forall>a. inside (avail_p L) 22 a \<longrightarrow> m a = m' a \<Longrightarrow> avail_idx L m = avail_idx L m'"
  unfolding avail_idx_def by (intro load_cong) (simp add: inside_def)

lemma attached_cong:
  assumes "attached L V s" "ready V (dev s')" "seen V (dev s') = seen V (dev s)" "\<forall>a. driver_memory L a \<longrightarrow> ram s' a = ram s a"
  shows "attached L V s'"
  using assms avail_idx_cong[of L "ram s'" "ram s"] by (simp add: attached_def driver_memory_def)

lemma io_served:
  fixes D :: "'d device" and L type lba n p and s :: "'d io"
  assumes "serves D L V" "attached L V s" and L: "layout_addresses L" and type: "type = 0 \<or> type = 1"
    and r: "0 \<le> lba" "lba < 18446744073709551616" and u: "usable L p n"
  defines "m \<equiv> build_request L type lba n p (ram s)"
  shows "\<exists>s'. do_virtio_blk_io D L type lba n p s = Some (if on_disk (capacity V) lba n then n else - 1, s') \<and>
     attached L V s' \<and> accesses s' = accesses s @ [Write (REG 0x050) 0] \<and>
     answered L (capacity V) \<lparr>rq_type = type, rq_sector = lba, rq_buffer = p, rq_len = n, rq_status = status_p L\<rparr>
       (stored V (dev s)) m (stored V (dev s')) (ram s')"
proof -
  have ok: "layout_ok L" using L by (simp add: layout_addresses_def)
  note n = usable_ranges[OF u]
  let ?q = "request_sent D L type lba n p s"
  let ?rq = "\<lparr>rq_type = type, rq_sector = lba, rq_buffer = p, rq_len = n, rq_status = status_p L\<rparr>"
  have rq: "request_at L m = ?rq" and wf: "well_formed L m"
    using built_request[OF L r, of n p type "ram s"] n type u by (simp_all add: m_def usable_def)
  have idx: "avail_idx L m = seen V (dev s) + 1"
    using request_built(7)[OF ok] assms(2) by (simp add: m_def attached_def)
  then obtain k d' m' where k: "served_after k D L V (dev s) m d' m'"
    using assms(1,2) wf unfolding serves_def attached_def by blast
  have q: "dev ?q = reg_write D (dev s) (REG 0x050) 0" "ram ?q = m" "accesses ?q = accesses s @ [Write (REG 0x050) 0]"
    using n by (simp_all add: request_sent_def wreg_def m_def)
  have st: "\<not> device_writes L ?rq (status_p L)"
    using layout_inside(4)[OF ok] u driver_memory_status by (auto simp: device_writes_def usable_def)
  have idle: "ram (after_dma D j ?q) (status_p L) = 0xff" if "j \<le> k" for j
    using k that st request_built(5)[OF ok] by (simp add: after_dma_turn q served_after_def Let_def rq) (simp add: m_def)
  have fin: "dev (after_dma D (Suc k) ?q) = d'" "ram (after_dma D (Suc k) ?q) = m'"
    and ans: "answered L (capacity V) ?rq (stored V (dev s)) m (stored V d') m'" and rdy: "ready V d'" "seen V d' = avail_idx L m"
    using k unfolding after_dma_turn q served_after_def Let_def rq by simp_all
  have res: "m' (status_p L) = (if on_disk (capacity V) lba n then 0 else 1)"
    using ans by (simp add: answered_def split: if_splits)
  have "poll_status D L (run_dma D ?q) = Some (after_dma D k (run_dma D ?q))"
  proof (rule poll_answered)
    show "ram (after_dma D k (run_dma D ?q)) (status_p L) \<noteq> 0xff"
      using fin(2) res by (simp add: funpow_swap1)
    show "\<forall>j<k. ram (after_dma D j (run_dma D ?q)) (status_p L) = 0xff"
      using idle[of "Suc _"] by (simp add: funpow_swap1)
  qed
  moreover have "after_dma D k (run_dma D ?q) = after_dma D (Suc k) ?q" by (simp add: funpow_swap1)
  moreover have "wreg D (REG 0x050) 0 (s\<lparr>ram := m\<rparr>) = ?q" using n by (simp add: request_sent_def m_def)
  ultimately have io: "do_virtio_blk_io D L type lba n p s =
      Some (if on_disk (capacity V) lba n then n else - 1, after_dma D (Suc k) ?q)"
    using fin(2) res n by (simp add: do_virtio_blk_io_def m_def[symmetric] del: funpow.simps)
  have "avail_idx L m' = avail_idx L m"
    using ans layout_inside(2)[OF ok] u
    by (intro avail_idx_cong) (auto simp: answered_def device_writes_def usable_def driver_memory_def)
  then have "attached L V (after_dma D (Suc k) ?q)" using fin rdy by (simp add: attached_def del: funpow.simps)
  moreover have "accesses (after_dma D (Suc k) ?q) = accesses s @ [Write (REG 0x050) 0]"
    unfolding after_dma_turn using q(3) by simp
  ultimately show ?thesis using io fin ans by (intro exI[of _ "after_dma D (Suc k) ?q"]) (simp del: funpow.simps)
qed

lemma virtio_blk_read_served:
  assumes "serves D L V" "layout_addresses L" "attached L V s" "usable L p n" "0 \<le> lba" "lba < 18446744073709551616"
  shows "\<exists>s'. virtio_blk_read D L lba n p s = Some (if on_disk (capacity V) lba n then n else - 1, s') \<and>
    attached L V s' \<and> stored V (dev s') = stored V (dev s) \<and>
    (\<forall>a. \<not> driver_memory L a \<and> \<not> inside p n a \<longrightarrow> ram s' a = ram s a) \<and>
    (on_disk (capacity V) lba n \<longrightarrow> (\<forall>a. inside p n a \<longrightarrow> ram s' a = stored V (dev s) (512 * lba + (a - p))))"
proof -
  have L: "layout_ok L" using assms(2) by (simp add: layout_addresses_def)
  obtain s' where s': "do_virtio_blk_io D L 0 lba n p s = Some (if on_disk (capacity V) lba n then n else - 1, s')"
    "attached L V s'" and a: "answered L (capacity V) \<lparr>rq_type = 0, rq_sector = lba, rq_buffer = p, rq_len = n, rq_status = status_p L\<rparr>
       (stored V (dev s)) (build_request L 0 lba n p (ram s)) (stored V (dev s')) (ram s')"
    using io_served[OF assms(1,3,2) _ assms(5,6,4), of 0] by blast
  have "ram s' a = ram s a" if "\<not> driver_memory L a" "\<not> inside p n a" for a
    using that a build_request_outside[OF L that(1)] driver_memory_status[of L]
    by (auto simp: answered_def device_writes_def driver_memory_def)
  with s' a show ?thesis by (auto simp: virtio_blk_read_def answered_def split: if_splits)
qed

lemma virtio_blk_write_served:
  assumes "serves D L V" "layout_addresses L" "attached L V s" "usable L p n" "0 \<le> lba" "lba < 18446744073709551616"
  shows "\<exists>s'. virtio_blk_write D L lba n p s = Some (if on_disk (capacity V) lba n then n else - 1, s') \<and> attached L V s' \<and>
    (\<forall>a. stored V (dev s') a =
       (if on_disk (capacity V) lba n \<and> inside (512 * lba) n a then ram s (p + (a - 512 * lba)) else stored V (dev s) a)) \<and>
    (\<forall>a. \<not> driver_memory L a \<longrightarrow> ram s' a = ram s a)"
proof -
  have L: "layout_ok L" using assms(2) by (simp add: layout_addresses_def)
  note u = usable_ranges[OF assms(4)]
  let ?m = "build_request L 1 lba n p (ram s)"
  obtain s' where s': "do_virtio_blk_io D L 1 lba n p s = Some (if on_disk (capacity V) lba n then n else - 1, s')"
    "attached L V s'" and a: "answered L (capacity V) \<lparr>rq_type = 1, rq_sector = lba, rq_buffer = p, rq_len = n, rq_status = status_p L\<rparr>
       (stored V (dev s)) ?m (stored V (dev s')) (ram s')"
    using io_served[OF assms(1,3,2) _ assms(5,6,4), of 1] by blast
  have "\<not> driver_memory L (p + (a - 512 * lba))" if "inside (512 * lba) n a" for a
    using that assms(4) by (auto simp: usable_def inside_def)
  then have "stored V (dev s') a =
      (if on_disk (capacity V) lba n \<and> inside (512 * lba) n a then ram s (p + (a - 512 * lba)) else stored V (dev s) a)" for a
    using a u build_request_outside[OF L] by (auto simp: answered_def memcpy_from_spec inside_def split: if_splits)
  moreover have "ram s' a = ram s a" if "\<not> driver_memory L a" for a
    using that a build_request_outside[OF L that] driver_memory_status[of L]
    by (auto simp: answered_def device_writes_def driver_memory_def)
  ultimately show ?thesis using s' by (auto simp: virtio_blk_write_def)
qed

section \<open>A store of blocks\<close>

text \<open>Calls that return the length when the sectors exist and -1 otherwise.\<close>

locale block_store =
  fixes get_blk put_blk :: "int \<Rightarrow> int \<Rightarrow> addr \<Rightarrow> 's \<Rightarrow> (int \<times> 's) option"
    and ok :: "'s \<Rightarrow> bool" and contents :: "'s \<Rightarrow> disk" and memory :: "'s \<Rightarrow> mem"
    and exists :: "int \<Rightarrow> int \<Rightarrow> bool" and buffer_ok :: "addr \<Rightarrow> int \<Rightarrow> bool" and reserved :: "addr \<Rightarrow> bool"
  assumes get_blk: "ok s \<Longrightarrow> buffer_ok p n \<Longrightarrow> 0 \<le> lba \<Longrightarrow> lba < 18446744073709551616 \<Longrightarrow>
      \<exists>s'. get_blk lba n p s = Some (if exists lba n then n else - 1, s') \<and> ok s' \<and> contents s' = contents s \<and>
        (\<forall>a. \<not> reserved a \<and> \<not> inside p n a \<longrightarrow> memory s' a = memory s a) \<and>
        (exists lba n \<longrightarrow> (\<forall>a. inside p n a \<longrightarrow> memory s' a = contents s (512 * lba + (a - p))))"
    and put_blk: "ok s \<Longrightarrow> buffer_ok p n \<Longrightarrow> 0 \<le> lba \<Longrightarrow> lba < 18446744073709551616 \<Longrightarrow>
      \<exists>s'. put_blk lba n p s = Some (if exists lba n then n else - 1, s') \<and> ok s' \<and>
        (\<forall>a. contents s' a =
           (if exists lba n \<and> inside (512 * lba) n a then memory s (p + (a - 512 * lba)) else contents s a)) \<and>
        (\<forall>a. \<not> reserved a \<longrightarrow> memory s' a = memory s a)"
begin

lemma get_after_put:
  assumes "ok s" "buffer_ok p n" "buffer_ok q n" "0 \<le> lba" "lba < 18446744073709551616" "exists lba n"
  shows "\<exists>s1 s2. put_blk lba n p s = Some (n, s1) \<and> get_blk lba n q s1 = Some (n, s2) \<and> ok s2 \<and>
    contents s2 = contents s1 \<and> bytes_at (rd (memory s2) q) (nat n) = bytes_at (rd (memory s) p) (nat n)"
proof -
  obtain s1 where s1: "put_blk lba n p s = Some (n, s1)" "ok s1"
    "\<forall>a. contents s1 a = (if inside (512 * lba) n a then memory s (p + (a - 512 * lba)) else contents s a)"
    using put_blk[OF assms(1,2,4,5)] assms(6) by auto
  obtain s2 where s2: "get_blk lba n q s1 = Some (n, s2)" "ok s2" "contents s2 = contents s1"
    "\<forall>a. inside q n a \<longrightarrow> memory s2 a = contents s1 (512 * lba + (a - q))"
    using get_blk[OF s1(2) assms(3,4,5)] assms(6) by auto
  have "memory s2 (q + int i) = memory s (p + int i)" if "i < nat n" for i
  proof -
    have "inside q n (q + int i)" "inside (512 * lba) n (512 * lba + int i)" using that by (auto simp: inside_def)
    with s2(4) s1(3) show ?thesis by simp
  qed
  with s1 s2 show ?thesis by (auto simp: bytes_at_eq_iff)
qed

lemma put_keeps_other:
  assumes "ok s" "buffer_ok p n" "0 \<le> lba" "lba < 18446744073709551616"
    "put_blk lba n p s = Some (r, s1)" "\<not> exists lba n \<or> \<not> inside (512 * lba) n a"
  shows "contents s1 a = contents s a"
  using put_blk[OF assms(1-4)] assms(5,6) by auto

end

locale virtio_disk =
  fixes D :: "'d device" and L :: layout and V :: "'d drive"
  assumes serves: "serves D L V" and layout: "layout_addresses L"

sublocale virtio_disk \<subseteq> store: block_store "virtio_blk_read D L" "virtio_blk_write D L"
  "attached L V" "\<lambda>s. stored V (dev s)" ram "on_disk (capacity V)" "usable L" "driver_memory L"
proof unfold_locales
qed (rule virtio_blk_read_served[OF serves layout]; assumption
   | rule virtio_blk_write_served[OF serves layout]; assumption)+

context virtio_disk
begin

lemmas write_then_read = store.get_after_put

end

section \<open>A reference device\<close>

text \<open>A disk image of \<open>sim_sectors\<close> sectors.  A request is served in the third turn after the notification: data, status,
  an element of the used ring and its index.  Writing 0 to the status register resets the device.\<close>

record sim =
  image :: disk
  pending :: "nat option"
  taken :: "16 word"
  finished :: "16 word"

definition sim_sectors :: int where
  "sim_sectors = 1048576"

definition sim_serve :: "layout \<Rightarrow> sim \<Rightarrow> mem \<Rightarrow> sim \<times> mem" where
  "sim_serve L d m =
     (let q = request_at L m;
          found = on_disk sim_sectors (rq_sector q) (rq_len q);
          start = 512 * rq_sector q;
          n = nat (rq_len q);
          head = avail_ring L m (uint ((avail_idx L m - 1) AND 7));
          u = used_p L + 4 + 8 * uint (finished d AND 7);
          written = (if found \<and> rq_type q = VIRTIO_BLK_T_IN then rq_len q else 0);
          m1 = memcpy_from m (rq_buffer q) (\<lambda>i. image d (start + i)) (nat written);
          m2 = m1(rq_status q := if found then 0 else 1);
          m3 = store32 (store32 m2 u (ucast head)) (u + 4) (word_of_int (written + 1));
          m4 = store16 m3 (used_p L + 2) (finished d + 1)
      in (d\<lparr>image := (if found \<and> rq_type q = VIRTIO_BLK_T_OUT then memcpy_from (image d) start (rd m (rq_buffer q)) n else image d),
            pending := None, taken := taken d + 1, finished := finished d + 1\<rparr>, m4))"

definition sim_device :: "layout \<Rightarrow> sim device" where
  "sim_device L = \<lparr>
     reg_read = (\<lambda>d a. (if a = REG 0x000 then 0x74726976 else if a = REG 0x004 then 2
       else if a = REG 0x008 then 2 else if a = REG 0x00C then 0x554d4551
       else if a = REG 0x034 then 1024 else 0, d)),
     reg_write = (\<lambda>d a v. if a = REG 0x050 then d\<lparr>pending := Some 2\<rparr>
       else if a = REG 0x070 \<and> v = 0 then d\<lparr>pending := None, taken := 0, finished := 0\<rparr> else d),
     dma = (\<lambda>d m. case pending d of
         None \<Rightarrow> (d, m)
       | Some (Suc k) \<Rightarrow> (d\<lparr>pending := Some k\<rparr>, m)
       | Some 0 \<Rightarrow> sim_serve L d m)\<rparr>"

definition sim_drive :: "sim drive" where
  "sim_drive = \<lparr>ready = (\<lambda>d. pending d = None), seen = taken, stored = image, capacity = sim_sectors\<rparr>"

text \<open>What is written to the used ring stays in it.\<close>

lemma sim_used:
  fixes f :: "16 word"
  assumes "\<not> inside (used_p L) 70 a"
  shows "store16 (store32 (store32 m (used_p L + 4 + 8 * uint (f AND 7)) x) (used_p L + 4 + 8 * uint (f AND 7) + 4) y) (used_p L + 2) z a = m a"
proof -
  have "f AND 7 \<le> 7" by (rule word_and_le1)
  then have "0 \<le> uint (f AND 7)" "uint (f AND 7) < 8" by (simp_all add: word_le_def)
  with assms show ?thesis by (simp add: outside_region[of "used_p L" 70])
qed

lemma sim_answers:
  assumes wf: "well_formed L m" and e: "sim_serve L d m = (d', m')"
  shows "answered L sim_sectors (request_at L m) (image d) m (image d') m' \<and> pending d' = None \<and> taken d' = taken d + 1"
proof -
  let ?q = "request_at L m"
  have used: "\<not> inside (used_p L) 70 (rq_status ?q)" "\<forall>a. inside (rq_buffer ?q) (rq_len ?q) a \<longrightarrow> \<not> inside (used_p L) 70 a \<and> a \<noteq> rq_status ?q"
    and type: "rq_type ?q \<in> {0, 1}"
    using wf by (auto simp: well_formed_def split: prod.splits)
  have len: "0 \<le> rq_len ?q" by (simp add: request_at_def split: prod.splits)
  let ?found = "on_disk sim_sectors (rq_sector ?q) (rq_len ?q)" and ?start = "512 * rq_sector ?q"
  let ?w = "if ?found \<and> rq_type ?q = 0 then rq_len ?q else 0"
  let ?m1 = "memcpy_from m (rq_buffer ?q) (\<lambda>i. image d (?start + i)) (nat ?w)"
  have d': "pending d' = None" "taken d' = taken d + 1"
    "image d' = (if ?found \<and> rq_type ?q = 1 then memcpy_from (image d) ?start (rd m (rq_buffer ?q)) (nat (rq_len ?q)) else image d)"
    using e by (auto simp: sim_serve_def Let_def)
  have m': "m' a = (?m1(rq_status ?q := if ?found then 0 else 1)) a" if "\<not> inside (used_p L) 70 a" for a
    using e sim_used[OF that] by (auto simp: sim_serve_def Let_def)
  have m1: "?m1 a = (if inside (rq_buffer ?q) ?w a then image d (?start + (a - rq_buffer ?q)) else m a)" for a
    using len by (simp add: memcpy_from_spec inside_def)
  have st: "m' (rq_status ?q) = (if ?found then 0 else 1)" using m'[OF used(1)] by simp
  have "m' a = m a" if "\<not> device_writes L ?q a" "a \<noteq> rq_status ?q" for a
  proof -
    have "\<not> inside (used_p L) 70 a" using that(1) by (simp add: device_writes_def)
    then have "m' a = ?m1 a" using m' that(2) by simp
    moreover have "\<not> inside (rq_buffer ?q) ?w a" using that(1) by (auto simp: device_writes_def inside_def)
    ultimately show ?thesis unfolding m1 by simp
  qed
  moreover have "m' a = image d (?start + (a - rq_buffer ?q))" if "?found" "rq_type ?q = 0" "inside (rq_buffer ?q) (rq_len ?q) a" for a
  proof -
    have "\<not> inside (used_p L) 70 a" "a \<noteq> rq_status ?q" using used(2) that(3) by blast+
    then have "m' a = ?m1 a" using m' by simp
    with that show ?thesis unfolding m1 by simp
  qed
  ultimately show ?thesis using st d' type unfolding answered_def by auto
qed

lemma sim_serves: "serves (sim_device L) L sim_drive"
proof -
  have "\<exists>d' m'. served_after 2 (sim_device L) L sim_drive d m d' m'"
    if r: "pending d = None" "avail_idx L m = taken d + 1" "well_formed L m" for d m
  proof -
    obtain d' m' where e: "sim_serve L (d\<lparr>pending := Some 0\<rparr>) m = (d', m')" by fastforce
    show ?thesis
      using sim_answers[OF r(3) e] e r(2)
      by (intro exI[of _ d'] exI[of _ m'])
         (simp add: served_after_def sim_device_def sim_drive_def turn_def Let_def numeral_2_eq_2 le_Suc_eq conj_disj_distribR all_conj_distrib)
  qed
  then have "\<exists>k d' m'. served_after k (sim_device L) L sim_drive d m d' m'"
    if "ready sim_drive d \<and> avail_idx L m = seen sim_drive d + 1 \<and> well_formed L m" for d m
    using that unfolding sim_drive_def drive.simps by blast
  moreover have "capacity sim_drive < 36028797018963968" by (simp add: sim_drive_def sim_sectors_def)
  ultimately show ?thesis unfolding serves_def by blast
qed

lemma ex_layout_addresses: "layout_addresses ex_layout"
  using ex_layout_ok by (simp add: layout_addresses_def) (simp add: ex_layout_def)

interpretation sim: virtio_disk "sim_device ex_layout" ex_layout sim_drive
  by unfold_locales (rule sim_serves ex_layout_addresses)+

text \<open>After the driver has initialised it, the device is in step.\<close>

lemma clear_queue_idx:
  assumes "layout_ok L"
  shows "avail_idx L (clear_queue L m) = 0"
proof -
  have "clear_queue L m a = 0" if "inside (avail_p L) 22 a" for a
    using that layout_inside(2)[OF assms that] by (auto simp: clear_queue_def Let_def memset_def memset_loop_spec inside_def)
  then have "avail_idx L (clear_queue L m) = avail_idx L (\<lambda>_. 0)" by (intro avail_idx_cong) simp
  also have "\<dots> = 0" by (simp add: avail_idx_def load16_def)
  finally show ?thesis .
qed

lemma sim_init:
  assumes "layout_ok L"
  shows "\<exists>s'. virtio_blk_init (sim_device L) L s = (Inr (), s') \<and> attached L sim_drive s'"
proof -
  have r: "rreg (sim_device L) a s = (if a = REG 0x000 then 0x74726976 else if a = REG 0x004 then 2
       else if a = REG 0x008 then 2 else if a = REG 0x00C then 0x554d4551 else if a = REG 0x034 then 1024 else 0,
       s\<lparr>accesses := accesses s @ [Read a (if a = REG 0x000 then 0x74726976 else if a = REG 0x004 then 2
       else if a = REG 0x008 then 2 else if a = REG 0x00C then 0x554d4551 else if a = REG 0x034 then 1024 else 0)]\<rparr>)" for a s
    by (simp add: rreg_def sim_device_def)
  have w: "dev (wreg (sim_device L) a v s) = (if a = REG 0x050 then (dev s)\<lparr>pending := Some 2\<rparr>
       else if a = REG 0x070 \<and> v = 0 then (dev s)\<lparr>pending := None, taken := 0, finished := 0\<rparr> else dev s)"
    "ram (wreg (sim_device L) a v s) = ram s" for a v s
    by (simp_all add: wreg_def sim_device_def)
  show ?thesis
    by (simp add: virtio_blk_init_def probe_ids_def negotiate_def publish_queue_def r Let_def attached_def sim_drive_def
        clear_queue_idx[OF assms] w)
qed

section \<open>Properties\<close>

text \<open>Two halves of a disk, 5 before sector 16 and 6 from there on.\<close>

definition ex_sim :: "sim io" where
  "ex_sim = \<lparr>dev = \<lparr>image = (\<lambda>a. if a < 8192 then 5 else 6), pending = None, taken = 0x707, finished = 0\<rparr>, ram = (\<lambda>_. 7), accesses = []\<rparr>"

lemma ex_usable: "usable ex_layout 0x8000 512" "usable ex_layout 0x9000 512"
  by (auto simp: usable_def driver_memory_def inside_def ex_layout_def)

lemma ex_attached: "attached ex_layout sim_drive ex_sim"
  by (simp add: attached_def sim_drive_def ex_sim_def avail_idx_def load16_def)

lemma ex_on_disk: "on_disk (capacity sim_drive) 16 512"
  by (simp add: on_disk_def sim_drive_def sim_sectors_def)

text \<open>C18: With a device in working order, \<open>virtio_blk_read\<close> returns the length asked for and the
  sectors are in the buffer when they are whole and within the capacity, and -1 otherwise; the disk and, apart
  from the buffer and the driver's own variables, memory are as before.\<close>

theorem blk_read_gets_sectors:
  assumes "serves D L V" "layout_addresses L" "attached L V s" "usable L p n" "0 \<le> lba" "lba < 18446744073709551616"
  shows "\<exists>s'. virtio_blk_read D L lba n p s = Some (if on_disk (capacity V) lba n then n else - 1, s') \<and>
    attached L V s' \<and> stored V (dev s') = stored V (dev s) \<and>
    (\<forall>a. \<not> driver_memory L a \<and> \<not> inside p n a \<longrightarrow> ram s' a = ram s a) \<and>
    (on_disk (capacity V) lba n \<longrightarrow> (\<forall>a. inside p n a \<longrightarrow> ram s' a = stored V (dev s) (512 * lba + (a - p))))"
  by (rule virtio_blk_read_served[OF assms])

theorem blk_read_gets_sectors_witness:
  "\<exists>s'. virtio_blk_read (sim_device ex_layout) ex_layout 16 512 0x8000 ex_sim = Some (512, s') \<and>
     ram s' 0x8001 = 6 \<and> ram s' 0x8200 = 7"
proof -
  have "\<not> driver_memory ex_layout 0x8200" by (simp add: driver_memory_def inside_def ex_layout_def)
  then show ?thesis
    using blk_read_gets_sectors[OF sim_serves ex_layout_addresses ex_attached ex_usable(1), of 16] ex_on_disk
    by (fastforce simp: inside_def ex_sim_def sim_drive_def)
qed

text \<open>With such a device, \<open>virtio_blk_write\<close> puts the buffer on the disk at the sectors named, and
  changes no other byte of the disk and, apart from the driver's own variables, none of memory; it returns -1 and
  writes nothing when the sectors are not within the capacity.\<close>

theorem blk_write_puts_sectors:
  assumes "serves D L V" "layout_addresses L" "attached L V s" "usable L p n" "0 \<le> lba" "lba < 18446744073709551616"
  shows "\<exists>s'. virtio_blk_write D L lba n p s = Some (if on_disk (capacity V) lba n then n else - 1, s') \<and> attached L V s' \<and>
    (\<forall>a. stored V (dev s') a =
       (if on_disk (capacity V) lba n \<and> inside (512 * lba) n a then ram s (p + (a - 512 * lba)) else stored V (dev s) a)) \<and>
    (\<forall>a. \<not> driver_memory L a \<longrightarrow> ram s' a = ram s a)"
  by (rule virtio_blk_write_served[OF assms])

theorem blk_write_puts_sectors_witness:
  "\<exists>s'. virtio_blk_write (sim_device ex_layout) ex_layout 16 512 0x8000 ex_sim = Some (512, s') \<and>
     image (dev s') 8192 = 7 \<and> image (dev s') 8191 = 5"
  using blk_write_puts_sectors[OF sim_serves ex_layout_addresses ex_attached ex_usable(1), of 16] ex_on_disk
  by (fastforce simp: inside_def ex_sim_def sim_drive_def)

text \<open>C17: What has been written to the disk, at sectors it has, is read back, into any buffer.\<close>

theorem blk_write_then_read:
  assumes "serves D L V" "layout_addresses L" "attached L V s" "usable L p n" "usable L q n"
    "0 \<le> lba" "lba < 18446744073709551616" "on_disk (capacity V) lba n"
  shows "\<exists>s1 s2. virtio_blk_write D L lba n p s = Some (n, s1) \<and> virtio_blk_read D L lba n q s1 = Some (n, s2) \<and>
    bytes_at (rd (ram s2) q) (nat n) = bytes_at (rd (ram s) p) (nat n)"
proof -
  have "virtio_disk D L V" by (rule virtio_disk.intro[OF assms(1,2)])
  from virtio_disk.write_then_read[OF this assms(3-8)] show ?thesis by blast
qed

theorem blk_write_then_read_witness:
  "\<exists>s1 s2. virtio_blk_write (sim_device ex_layout) ex_layout 16 512 0x8000 ex_sim = Some (512, s1) \<and>
     virtio_blk_read (sim_device ex_layout) ex_layout 16 512 0x9000 s1 = Some (512, s2) \<and> ram s2 0x9000 = 7"
proof -
  have "bytes_at p 512 ! 0 = p 0" for p :: cptr by (simp add: bytes_at_def)
  then show ?thesis
    using blk_write_then_read[OF sim_serves ex_layout_addresses ex_attached ex_usable, of 16] ex_on_disk
    by (fastforce simp: ex_sim_def dest: arg_cong[of "bytes_at _ 512" _ "\<lambda>xs. xs ! 0"])
qed

end
