(* ===== verification/Boot_Log.thy ===== *)
theory Boot_Log
  imports Boot Disk
begin

text \<open>
  The loader's messages: what a call of \<open>info\<close> leaves as it was, the texts, and that arguments fit their formats.
\<close>

section \<open>The serial port and the disk\<close>

text \<open>A device whose disk only changes by serving requests, and that stays as it is while the serial port is
  used.\<close>

definition quiet :: "'d device \<Rightarrow> 'd drive \<Rightarrow> bool" where
  "quiet D V \<longleftrightarrow> (\<forall>d a. stored V (snd (reg_read D d a)) = stored V d) \<and> (\<forall>d a v. stored V (reg_write D d a v) = stored V d) \<and>
     (\<forall>d. ready V d \<longrightarrow> ready V (snd (reg_read D d UART_FR)) \<and> seen V (snd (reg_read D d UART_FR)) = seen V d \<and>
        (\<forall>v. ready V (reg_write D d UART_DR v) \<and> seen V (reg_write D d UART_DR v) = seen V d))"

text \<open>The bytes sent so far.\<close>

definition sent :: "'d io \<Rightarrow> byte list" where
  "sent s = map ucast (writes_to UART_DR (accesses s))"

text \<open>The device has not moved on.\<close>

definition at_rest :: "'d drive \<Rightarrow> 'd \<Rightarrow> 'd \<Rightarrow> bool" where
  "at_rest V d d' \<longleftrightarrow> (ready V d \<longrightarrow> ready V d' \<and> seen V d' = seen V d)"

text \<open>Only the serial port has been used, for this text.\<close>

definition told :: "'d drive \<Rightarrow> 'd io \<Rightarrow> byte list \<Rightarrow> 'd io \<Rightarrow> bool" where
  "told V s txt s' \<longleftrightarrow> ram s' = ram s \<and> stored V (dev s') = stored V (dev s) \<and> at_rest V (dev s) (dev s') \<and> sent s' = sent s @ txt"

lemma told_attached: "told V s txt s' \<Longrightarrow> attached L V s \<Longrightarrow> attached L V s'"
  by (simp add: told_def at_rest_def attached_def)

lemma ucast_byte: "(ucast (ucast (c :: byte) :: 32 word) :: byte) = c"
  by (simp add: unsigned_ucast_eq take_bit_word_eq_self)

lemma told_refl: "told V s [] s"
  by (simp add: told_def at_rest_def)

lemma told_trans: "told V s xs t \<Longrightarrow> told V t ys u \<Longrightarrow> told V s (xs @ ys) u"
  by (simp add: told_def at_rest_def)

lemma quiet_rreg: "quiet D V \<Longrightarrow> rreg D a s = (v, s') \<Longrightarrow> stored V (dev s') = stored V (dev s) \<and> ram s' = ram s"
  by (auto simp: quiet_def rreg_def split: prod.splits) (metis snd_conv)

lemma quiet_wreg: "quiet D V \<Longrightarrow> stored V (dev (wreg D a v s)) = stored V (dev s)"
  by (simp add: quiet_def wreg_def)

lemma quiet_uart_wait:
  "quiet D V \<Longrightarrow> stored V (dev (uart_wait D n s)) = stored V (dev s) \<and> at_rest V (dev s) (dev (uart_wait D n s))"
proof (induction n arbitrary: s)
  case (Suc n)
  obtain v s1 where r: "rreg D UART_FR s = (v, s1)" by fastforce
  then have "at_rest V (dev s) (dev s1)" using Suc.prems by (auto simp: quiet_def rreg_def at_rest_def split: prod.splits)
  with r Suc.IH[OF Suc.prems, of s1] quiet_rreg[OF Suc.prems r] show ?case by (auto simp: at_rest_def)
qed (simp add: at_rest_def)

lemma uart_putc_told: "quiet D V \<Longrightarrow> told V s [c] (uart_putc D c s)"
  using quiet_uart_wait[of D V 100000 s] uart_putc_writes[of D c s]
  by (auto simp: told_def sent_def ucast_byte uart_putc_def quiet_wreg quiet_def wreg_def at_rest_def simp del: uart_wait.simps)

lemma uart_puts_told: "points_to_str p cs \<Longrightarrow> quiet D V \<Longrightarrow> \<exists>s'. uart_puts D p s = Some s' \<and> told V s cs s'"
proof (induction cs arbitrary: p s)
  case Nil
  then show ?case by (subst uart_puts.simps) (simp add: points_to_str_Nil told_refl)
next
  case (Cons c cs)
  then obtain s' where "uart_puts D (shift p 1) (uart_putc D c s) = Some s'" "told V (uart_putc D c s) cs s'"
    by (force simp: points_to_str_Cons)
  with Cons.prems told_trans[OF uart_putc_told[OF Cons.prems(2), of s c] this(2)] show ?case
    by (subst uart_puts.simps) (auto simp: points_to_str_Cons)
qed

lemma fold_putc_told: "quiet D V \<Longrightarrow> told V s bs (fold (nano_putc D) bs s)"
proof (induction bs arbitrary: s)
  case (Cons b bs)
  from told_trans[OF uart_putc_told[OF Cons.prems, of s b] Cons.IH[OF Cons.prems]] show ?case
    by (simp add: nano_putc_def)
qed (simp add: told_refl)

definition msg_line :: "byte list \<Rightarrow> byte list" where
  "msg_line txt = txt @ crlf"

lemma say_told:
  assumes "quiet D V" "format_bytes fmt ap = Some txt"
  shows "\<exists>s'. say D fmt ap s = Some s' \<and> heap s' = heap s \<and> told V (io s) (msg_line txt) (io s')"
proof -
  let ?t = "fold (nano_putc D) txt (io s)"
  obtain t where t: "uart_puts D (lit crlf) ?t = Some t" "told V ?t crlf t"
    using uart_puts_told[OF _ assms(1), of "lit crlf" crlf] message_texts(1) by auto
  from told_trans[OF fold_putc_told[OF assms(1)] t(2)] t(1) show ?thesis
    by (auto simp: say_def info_def npf_vpprintf_bytes assms(2) msg_line_def)
qed

text \<open>Requests to the disk send nothing.\<close>

lemma after_dma_accesses: "accesses (after_dma D k s) = accesses s"
  by (induction k arbitrary: s) (simp_all add: run_dma_def split: prod.splits)

lemma blk_io_sent: "do_virtio_blk_io D L type lba n p s = Some (rc, s') \<Longrightarrow> sent s' = sent s"
proof -
  assume a: "do_virtio_blk_io D L type lba n p s = Some (rc, s')"
  let ?q = "wreg D VIRT_MMIO_QUEUE_NOTIFY 0 (s\<lparr>ram := build_request L type lba (u32 n) p (ram s)\<rparr>)"
  obtain k where "s' = after_dma D k (run_dma D ?q)"
    using a by (auto simp: do_virtio_blk_io_def Let_def split: bind_splits dest!: poll_returns)
  then have "accesses s' = accesses s @ [Write VIRT_MMIO_QUEUE_NOTIFY 0]"
    by (simp add: after_dma_accesses run_dma_def split: prod.splits)
  then show ?thesis by (simp add: sent_def UART_DR_def UART0_BASE_def REG_def VIRTIO_BLK_MMIO_BASE_def)
qed

lemma blk_sent: "virtio_blk_read D L lba n p s = Some (rc, s') \<Longrightarrow> sent s' = sent s"
  "virtio_blk_write D L lba n p s = Some (rc, s') \<Longrightarrow> sent s' = sent s"
  by (simp_all add: virtio_blk_read_def virtio_blk_write_def blk_io_sent)

section \<open>Texts\<close>

text \<open>\<open>%s\<close> and \<open>%lu\<close>.\<close>

definition percent :: "npf_len_mod \<Rightarrow> byte \<Rightarrow> directive" where
  "percent m c = \<lparr>d_minus = False, d_zero = False, d_plus = False, d_space = False, d_width = None, d_prec = None, d_mod = m, d_conv = c\<rparr>"

lemma percent_s:
  "cstring cs \<Longrightarrow> length cs < 2147483648 \<Longrightarrow>
   format_bytes (37 # 115 # rest) (s_arg cs # args) = map_option (append cs) (format_bytes rest args)"
  using format_string_lit[of "percent LEN_MOD_NONE 115" cs rest args]
  by (simp add: percent_def is_string_def directive_ok_def conv_chars_def directive_text_def flag_text_def width_text_def prec_text_def
      mod_text_def string_field_def string_shown_def)

lemma percent_lu:
  "0 \<le> v \<Longrightarrow> v < 18446744073709551616 \<Longrightarrow>
   format_bytes (37 # 108 # 117 # rest) (Va_x v # args) = map_option (append (decimal (nat v))) (format_bytes rest args)"
  using format_number[of "percent LEN_MOD_LONG 117" v rest args]
  by (simp add: percent_def is_number_def directive_ok_def conv_of_def conv_chars_def in_range_def is_signed_def arg_of_def
      directive_text_def flag_text_def width_text_def prec_text_def mod_text_def number_field_def layout_field_def zero_padded_def
      number_digits_def number_sign_def base_of_def digits_of_decimal)

text \<open>\<open>%08x\<close>: eight hexadecimal digits.\<close>

definition hex8 :: "32 word \<Rightarrow> byte list" where
  "hex8 w = number_field \<lparr>d_minus = False, d_zero = True, d_plus = False, d_space = False, d_width = Some 8, d_prec = None,
     d_mod = LEN_MOD_NONE, d_conv = 120\<rparr> (uint w)"

lemma percent_08x:
  "format_bytes (37 # 48 # 56 # 120 # rest) (Va_w (uint w) # args) = map_option (append (hex8 w)) (format_bytes rest args)"
proof -
  let ?d = "\<lparr>d_minus = False, d_zero = True, d_plus = False, d_space = False, d_width = Some 8, d_prec = None,
     d_mod = LEN_MOD_NONE, d_conv = 120\<rparr>"
  have "decimal 8 = [56]" by (simp add: decimal.simps)
  moreover have "is_number ?d" "in_range ?d (uint w)" "arg_of ?d (uint w) = Va_w (uint w)"
    using unsigned_less[of w] by (simp_all add: is_number_def directive_ok_def conv_of_def conv_chars_def in_range_def is_signed_def arg_of_def)
  ultimately show ?thesis
    using format_number[of ?d "uint w" rest args]
    by (simp add: hex8_def directive_text_def flag_text_def width_text_def prec_text_def mod_text_def)
qed

lemma replicate_four: "replicate 4 x = [x, x, x, x]"
  by (simp add: numeral_eq_Suc)

lemma hex8_example: "hex8 0x1b2c = str ''00001b2c''"
  by (simp add: hex8_def str_def of_char_of number_field_def layout_field_def zero_padded_def number_digits_def number_sign_def
      is_signed_def conv_of_def conv_chars_def base_of_def adjust_of_def digits_of.simps digit_char_def replicate_four)

text \<open>The messages of \<open>uboot_env.c\<close>.\<close>

definition error_text :: "env_error \<Rightarrow> byte list" where
  "error_text e =
     (case e of
        Crc_mismatch expected actual \<Rightarrow>
          str ''U-boot environment CRC32 mismatch (expected 0x'' @ hex8 expected @ str ''; got 0x'' @ hex8 actual @ str '')''
      | Invalid_env \<Rightarrow> str ''Invalid U-boot environment''
      | Not_found name \<Rightarrow> str (''variable '' @ [CHR 0x27]) @ name @ str (CHR 0x27 # '' not found'')
      | Too_small \<Rightarrow> str ''u-boot environment block size too small''
      | No_room \<Rightarrow> str ''Not enough room in U-boot environment'')"

lemma error_bytes:
  assumes "\<And>name. e = Not_found name \<Longrightarrow> cstring name \<and> length name < 2147483648"
  shows "format_bytes (fst (env_message e)) (snd (env_message e)) = Some (error_text e)"
proof (cases e)
  case (Crc_mismatch x y)
  then show ?thesis by (simp add: env_message_def error_text_def str_def of_char_of format_char percent_08x)
next
  case (Not_found name)
  with assms show ?thesis by (simp add: env_message_def error_text_def str_def of_char_of format_char percent_s)
qed (simp_all add: env_message_def error_text_def str_def of_char_of format_char)

text \<open>What \<open>err_return\<close> sends.\<close>

definition error_line :: "env_error + 'a \<Rightarrow> byte list" where
  "error_line r = (case r of Inl e \<Rightarrow> msg_line (error_text e) | Inr _ \<Rightarrow> [])"

lemma err_return_told:
  assumes "quiet D V" "\<And>name. r = Inl (Not_found name) \<Longrightarrow> cstring name \<and> length name < 2147483648"
  shows "\<exists>s'. err_return D r s = Some s' \<and> heap s' = heap s \<and> told V (io s) (error_line r) (io s')"
proof (cases r)
  case (Inl e)
  with say_told[OF assms(1) error_bytes, of e s] assms(2) show ?thesis by (auto simp: err_return_def error_line_def)
qed (simp add: err_return_def error_line_def told_refl)

text \<open>The loader's messages.\<close>

definition slot_failed_text :: "byte list \<Rightarrow> byte list" where
  "slot_failed_text slot = str ''Slot '' @ slot @ str ('' didn'' @ CHR 0x27 # ''t validate, so reverting back...'')"

definition slot_tried_text :: "byte list \<Rightarrow> byte list" where
  "slot_tried_text slot = str ''Trying slot '' @ slot @ str '' for the first time...''"

definition no_kernel_text :: "byte list \<Rightarrow> byte list" where
  "no_kernel_text key = str (''No '' @ [CHR 0x27]) @ key @ str (CHR 0x27 # '' variable found in u-boot environment, using default.'')"

definition booting_text :: "byte list \<Rightarrow> int \<Rightarrow> byte list \<Rightarrow> byte list" where
  "booting_text slot lba args =
     str ''Booting from slot '' @ slot @ str '' (kernel LBA '' @ decimal (nat lba) @ str '', kernel_args: '' @ args @ str '')''"

lemma message_bytes:
  assumes "cstring cs" "length cs < 2147483648"
  shows "format_bytes (str (''Slot %s didn'' @ CHR 0x27 # ''t validate, so reverting back...'')) [s_arg cs] = Some (slot_failed_text cs)"
    "format_bytes (str ''Trying slot %s for the first time...'') [s_arg cs] = Some (slot_tried_text cs)"
    "format_bytes (str (''No '' @ CHR 0x27 # ''%s'' @ CHR 0x27 # '' variable found in u-boot environment, using default.'')) [s_arg cs] =
       Some (no_kernel_text cs)"
    "0 \<le> lba \<Longrightarrow> lba < 18446744073709551616 \<Longrightarrow> cstring args \<Longrightarrow> length args < 2147483648 \<Longrightarrow>
     format_bytes (str ''Booting from slot %s (kernel LBA %lu, kernel_args: %s)'') [s_arg cs, Va_x lba, s_arg args] =
       Some (booting_text cs lba args)"
  using assms
  by (simp_all add: str_def of_char_of format_char percent_s percent_lu slot_failed_text_def slot_tried_text_def no_kernel_text_def booting_text_def)

lemma plain_text: "37 \<notin> set txt \<Longrightarrow> format_bytes txt [] = Some txt"
  using format_literal[of "txt" "[]" "[]"] by simp

lemma plain_texts:
  "37 \<notin> set (str ''Failed to write u-boot environment after failback!!'')"
  "37 \<notin> set (str ''Failed to get `bootcount`. Skipping automatic failback check.'')"
  "37 \<notin> set (str ''Failed to read u-boot environment from buffer'')"
  "37 \<notin> set (str ''Failed to get `nerves_fw_active` from U-Boot environment'')"
  "37 \<notin> set (str ''Failed to get `upgrade_available`. Skipping automatic failback check.'')"
  "37 \<notin> set (str ''Starting Linux...'')"
  by (simp_all add: str_def of_char_of)

lemmas say_plain = say_told[OF _ plain_text[OF plain_texts(1)]] say_told[OF _ plain_text[OF plain_texts(2)]]
  say_told[OF _ plain_text[OF plain_texts(3)]] say_told[OF _ plain_text[OF plain_texts(4)]]
  say_told[OF _ plain_text[OF plain_texts(5)]] say_told[OF _ plain_text[OF plain_texts(6)]]

section \<open>The messages fit their formats\<close>

lemma args_fit_char: "args_fit [] args" "c \<noteq> 37 \<Longrightarrow> args_fit (c # rest) args = args_fit rest args"
  by (subst args_fit.simps, simp)+

lemma args_fit_spec:
  "npf_parse_format_spec (37 # rest) = (k, fs) \<Longrightarrow> k \<noteq> 0 \<Longrightarrow>
   args_fit (37 # rest) args = (case skip_args fs args of None \<Rightarrow> False | Some args \<Rightarrow> args_fit (drop (nat k) (37 # rest)) args)"
  by (subst args_fit.simps) simp

lemma args_fit_directive:
  assumes "directive_ok d"
  shows "args_fit (directive_text d @ rest) args = (case skip_value (spec_of d) args of None \<Rightarrow> False | Some args \<Rightarrow> args_fit rest args)"
proof -
  have t: "37 # tl (directive_text d) @ rest = directive_text d @ rest" "length (directive_text d) \<noteq> 0"
    by (simp_all add: directive_text_def)
  have "skip_args (spec_of d) args = skip_value (spec_of d) args" by (simp add: skip_args_def)
  moreover have drop: "drop (nat (int (length (directive_text d)))) (directive_text d @ rest) = rest" by simp
  ultimately show ?thesis
    using args_fit_spec[of "tl (directive_text d) @ rest", unfolded t(1), OF parse_directive[OF assms], unfolded drop] t(2) by simp
qed

lemma args_fit_percent:
  "args_fit (37 # 115 # rest) (Va_s p # args) \<longleftrightarrow> is_string_arg (Va_s p) \<and> args_fit rest args"
  "args_fit (37 # 100 # rest) (Va_w v # args) \<longleftrightarrow> args_fit rest args"
  "args_fit (37 # 108 # 117 # rest) (Va_x v # args) \<longleftrightarrow> args_fit rest args"
  "args_fit (37 # 48 # 56 # 120 # rest) (Va_w v # args) \<longleftrightarrow> args_fit rest args"
  using args_fit_directive[of "percent LEN_MOD_NONE 115" rest "Va_s p # args"]
    args_fit_directive[of "percent LEN_MOD_NONE 100" rest "Va_w v # args"]
    args_fit_directive[of "percent LEN_MOD_LONG 117" rest "Va_x v # args"]
    args_fit_directive[of ex_hex rest "Va_w v # args"] ex_hex_text
  by (simp_all add: percent_def ex_hex_def directive_ok_def conv_chars_def directive_text_def flag_text_def width_text_def prec_text_def
      mod_text_def skip_value_def conv_of_def skip_def is_word_arg_def is_long_arg_def str_def of_char_of)

lemma is_string_arg_lit [simp]: "is_string_arg (s_arg cs)"
proof -
  let ?ds = "takeWhile (\<lambda>c. c \<noteq> 0) cs"
  have "lit cs (int i) = ?ds ! i" if "i < length ?ds" for i
    using that by (simp add: lit_nth takeWhile_nth order.strict_trans2[OF _ length_takeWhile_le])
  then have "bytes_at (lit cs) (length ?ds) = ?ds" by (intro nth_equalityI) simp_all
  moreover have "lit cs (int (length ?ds)) = 0"
    using nth_length_takeWhile[of "\<lambda>c. c \<noteq> 0" cs] by (auto simp: lit_def)
  moreover have "cstring ?ds" by (auto simp: cstring_def dest: set_takeWhileD)
  ultimately show ?thesis unfolding is_string_arg_def points_to_str_def by auto
qed

lemma init_message_fits: "virtio_blk_init D L s = (Inl msg, s') \<Longrightarrow> args_fit (str msg) []"
  by (auto simp: virtio_blk_init_def Let_def no_device_text_def str_def of_char_of args_fit_char split: prod.splits if_splits)

lemma add_bootargs_message_fits: "fdt_add_bootargs m f args = Some (Inl (msg, m')) \<Longrightarrow> args_fit (fst msg) (snd msg)"
  by (auto simp: fdt_add_bootargs_def str_def of_char_of args_fit_char args_fit_percent
      split: bind_splits if_splits option.splits)

lemma load_dtb_message_fits: "load_dtb m f g args = Some (Inl (msg, m')) \<Longrightarrow> args_fit (fst msg) (snd msg)"
  using add_bootargs_message_fits
  by (auto simp: load_dtb_def Let_def split: if_splits)
    (auto simp: str_def of_char_of args_fit_char args_fit_percent)

end
