(* ===== verification/Env_Props.thy ===== *)
theory Env_Props
  imports Env_Format
begin

text \<open>
  The properties of the environment component (\<open>uboot_env.c\<close>), each with the concrete environment
  at which it is applied.
\<close>

section \<open>Examples\<close>

text \<open>A small environment for examples: \<open>b=2\<close> before \<open>a=1\<close>.\<close>

definition ex_heap :: eheap where
  "ex_heap = \<lparr>pairs = (\<lambda>_. \<lparr>nv_name = [], nv_value = [], nv_next = 0\<rparr>)
     (8 := \<lparr>nv_name = [98], nv_value = [50], nv_next = 32\<rparr>,
      32 := \<lparr>nv_name = [97], nv_value = [49], nv_next = 0\<rparr>), brk = 64\<rparr>"

definition ex_env :: uboot_env where
  "ex_env = \<lparr>env_size = 32, vars = 8\<rparr>"

lemma ex_env_rep: "env_rep ex_env ex_heap [([98], [50]), ([97], [49])]"
  unfolding env_rep_def
  by (rule exI[of _ "[8, 32]"])
     (simp add: env_wf_def ex_env_def ex_heap_def good_node_def nv_pair_def NULL_def)

lemma env_size_ex_env [simp]: "env_size ex_env = 32"
  by (simp add: ex_env_def)

text \<open>The calls \<open>uboot_env_setenv(env, k, v)\<close> for the pairs of a list, in order.\<close>

definition set_all :: "uboot_env \<times> eheap \<Rightarrow> (byte list \<times> byte list) list \<Rightarrow> (uboot_env \<times> eheap) option" where
  "set_all = env_settings.put_all"

section \<open>Properties\<close>



text \<open>C20: \<open>uboot_env_read\<close> always returns, for any bytes in the buffer, and its result is that of the
  reference parser: \<open>Inl\<close> for a wrong checksum, with no pairs left, and otherwise the
  parser's verdict on the bytes from the checksum to \<open>env_size\<close>, with the parser's pairs in
  the list, also those found before an error.\<close>

theorem env_read_is_parser:
  assumes "env_rep env h ps" "4 \<le> env_size env" "env_size env < 9223372036854775808"
  shows "\<exists>rc env' h'. uboot_env_read env h buffer = Some (rc, env', h') \<and> env_size env' = env_size env \<and>
           (let actual = crc32buf (shift buffer 4) (nat (env_size env - 4));
                (rc', ps') = (if le32 buffer \<noteq> actual then (Inl (Crc_mismatch (le32 buffer) actual), [])
                              else parse_env (window buffer 4 (env_size env)) [])
            in rc = rc' \<and> env_rep env' h' ps')"
  by (rule read_rep[OF assms])

theorem env_read_is_parser_witness:
  "\<exists>rc env' h'. uboot_env_read ex_env ex_heap (\<lambda>_. 0) = Some (rc, env', h')"
  using env_read_is_parser[OF ex_env_rep, of "\<lambda>_. 0"] by auto

text \<open>C21: \<open>uboot_env_write\<close> always returns; it succeeds exactly when the pairs and six bytes fit in
  \<open>env_size\<close>, then leaves the printed block (checksum, sorted pairs, terminator, \<open>0xff\<close> to the
  end) in the buffer; and it changes no byte outside of the buffer, on failure too.\<close>

theorem env_write_block:
  assumes "env_rep env h ps" "8 \<le> env_size env" "env_size env < 18446744073709551616"
  shows "\<exists>r env' h' m'. uboot_env_write env h m buffer = Some ((r, env', h'), m') \<and>
           env_rep env' h' (sort_key fst ps) \<and>
           (\<forall>a. a < buffer \<or> buffer + env_size env \<le> a \<longrightarrow> m' a = m a) \<and>
           (if 6 + int (length (serialize ps)) \<le> env_size env
            then r = Inr () \<and> m' = store m buffer (env_block (nat (env_size env)) (sort_key fst ps))
            else r = Inl No_room)"
  using write_rep[OF assms] by blast

theorem env_write_block_witness:
  "\<exists>env' h' m'. uboot_env_write ex_env ex_heap (\<lambda>_. 7) 100 = Some ((Inr (), env', h'), m') \<and>
     m' 99 = 7 \<and> m' 132 = 7 \<and> env_rep env' h' [([97], [49]), ([98], [50])]"
  using env_write_block[OF ex_env_rep, of "\<lambda>_. 7" 100]
  by (fastforce simp: serialize_def entry_def less_list_code)

text \<open>C22: A block whose checksum was right and that is then damaged in up to four consecutive bytes, all of them
  behind the checksum or all of them in it, is always refused, and nothing of it is kept.  Damage on both sides of the
  border, where the checksum stands in front of what it covers, is not always seen.\<close>

theorem env_read_rejects_burst:
  assumes "env_rep env h ps" "8 \<le> env_size env" "env_size env < 9223372036854775808"
    and "le32 good = crc32buf (shift good 4) (nat (env_size env - 4))"
    and "\<And>j. 0 \<le> j \<Longrightarrow> j < env_size env \<Longrightarrow> j < i \<or> i + 4 \<le> j \<Longrightarrow> bad j = good j"
    and "bytes_at bad (nat (env_size env)) \<noteq> bytes_at good (nat (env_size env))"
    and "4 \<le> i \<or> i \<le> 0"
  shows "\<exists>e env' h'. uboot_env_read env h bad = Some (Inl e, env', h') \<and> env_rep env' h' []"
  by (rule read_corrupted[OF assms])

definition ex_block :: cptr where
  "ex_block = lit (crc_bytes (crc32buf (\<lambda>_. 0) 4) @ [0, 0, 0, 0])"

lemma ex_block_crc: "le32 ex_block = crc32buf (shift ex_block 4) 4"
proof -
  have "bytes_at ex_block 4 = crc_bytes (crc32buf (\<lambda>_. 0) 4)"
    by (simp add: ex_block_def bytes_at_def numeral_eq_Suc lit_def crc_bytes_def)
  moreover have "crc32buf (shift ex_block 4) 4 = crc32buf (\<lambda>_. 0) 4"
    by (rule crc32buf_cong) (simp add: ex_block_def bytes_at_def numeral_eq_Suc lit_def crc_bytes_def shift_apply)
  ultimately show ?thesis by (simp add: le32_crc_bytes)
qed

theorem env_read_rejects_burst_witness:
  "\<exists>e env' h'. uboot_env_read (ex_env\<lparr>env_size := 8\<rparr>) ex_heap (ex_block(5 := 1)) = Some (Inl e, env', h')"
proof -
  have rep: "env_rep (ex_env\<lparr>env_size := 8\<rparr>) ex_heap [([98], [50]), ([97], [49])]"
    using ex_env_rep by (simp add: env_rep_def env_wf_def)
  have "bytes_at (ex_block(5 := 1)) 8 \<noteq> bytes_at ex_block 8"
    by (auto simp: bytes_at_def numeral_eq_Suc ex_block_def lit_def crc_bytes_def)
  with env_read_rejects_burst[OF rep, where good = ex_block and bad = "ex_block(5 := 1)" and i = 5] ex_block_crc show ?thesis
    by fastforce
qed

text \<open>C23: Any sequence of \<open>uboot_env_setenv\<close> calls on a well-formed environment returns, and
  \<open>uboot_env_getenv\<close> then finds for every name the last value set, or the value from before.\<close>

theorem env_get_after_sets:
  assumes "env_map s M" "\<forall>(k, v)\<in>set kvs. cstring k \<and> cstring v" "cstring k"
  shows "\<exists>s' s''. set_all s kvs = Some s' \<and> env_get s' k = Some ((M ++ map_of (rev kvs)) k, s'')"
  using env_settings.get_after_puts[OF assms] by (simp add: set_all_def)

theorem env_get_after_sets_witness:
  "\<exists>s' s''. set_all (ex_env, ex_heap) [([97], [51]), ([99], [])] = Some s' \<and> env_get s' [97] = Some (Some [51], s'')"
proof -
  have "env_map (ex_env, ex_heap) (map_of [([98], [50]), ([97], [49])])"
    unfolding env_map_def using ex_env_rep by (intro exI[of _ "[([98], [50]), ([97], [49])]"]) simp
  from env_get_after_sets[OF this, of "[([97], [51]), ([99], [])]" "[97]"] show ?thesis
    by (auto simp: cstring_def)
qed

text \<open>C33: \<open>uboot_env_unsetenv\<close> removes the first pair of the name and keeps the others in order.\<close>

theorem env_unset:
  assumes "env_rep env h ps" "cstring name"
  shows "\<exists>env' h'. uboot_env_unsetenv env h name = Some (env', h') \<and>
           env_rep env' h' (al_unset name ps) \<and>
           (distinct (map fst ps) \<longrightarrow> map_of (al_unset name ps) = (map_of ps)(name := None))"
  using unsetenv_rep[OF assms] map_of_al_unset[of ps name] by auto

theorem env_unset_witness:
  "\<exists>env' h'. uboot_env_unsetenv ex_env ex_heap [98] = Some (env', h') \<and> env_rep env' h' [([97], [49])]"
  using env_unset[OF ex_env_rep, of "[98]"] by auto

text \<open>\<open>uboot_env_sort\<close> is the stable sort of the pairs by name, byte by byte: the \<open>qsort_\<close> it
  calls terminates, permutes the nodes and keeps equal names in order, and the relinked list
  holds the same values.\<close>

theorem env_sort_stable:
  assumes "env_rep env h ps"
  shows "\<exists>env' h'. uboot_env_sort env h = Some (env', h') \<and> env_rep env' h' (sort_key fst ps)"
  using sort_rep[OF assms] by blast

theorem env_sort_stable_witness:
  "\<exists>env' h'. uboot_env_sort ex_env ex_heap = Some (env', h') \<and> env_rep env' h' [([97], [49]), ([98], [50])]"
  using env_sort_stable[OF ex_env_rep] by simp

end
