(* ===== verification/Boot_Spec.thy ===== *)
theory Boot_Spec
  imports Boot_Log Env_Props
begin

text \<open>
  What the loader decides, against a specification on settings.

  \<open>boot_choice\<close> is the specification: from the pairs of the environment, in list order, the
  block and the arguments of the kernel and, when an upgrade is on trial, the settings to be
  saved.  \<open>process_uboot_env\<close>, with the driver, the parser, the list and the printer below it,
  implements it on any disk with the sectors of a block, and sends the log the specification says
  (\<open>block_log\<close>).  When the block is damaged the defaults are taken.
\<close>

section \<open>The specification\<close>

type_synonym settings_list = "(byte list \<times> byte list) list"

definition swap_slot :: "byte list \<Rightarrow> byte list" where
  "swap_slot s = (case s of [] \<Rightarrow> [] | c # cs \<Rightarrow> (if c = 97 then 98 else 97) # cs)"

text \<open>The number a string starts with, after spaces.\<close>

definition decimal_value :: "byte list \<Rightarrow> int" where
  "decimal_value s = u64 (digits_value 10 0 (takeWhile (is_digit_of 10) (dropWhile (\<lambda>c. c = 32) s)))"

definition kernel_of :: "(byte list \<rightharpoonup> byte list) \<Rightarrow> byte list \<Rightarrow> int \<times> byte list option" where
  "kernel_of M slot =
     (case M (slot_key slot ''.kernel_lba'') of
        None \<Rightarrow> (512, None)
      | Some lba \<Rightarrow> (decimal_value lba, M (slot_key slot ''.kernel_args'')))"

definition revert_slot :: "byte list \<Rightarrow> settings_list \<Rightarrow> settings_list" where
  "revert_slot slot ps =
     al_set (str ''bootcount'') (str ''0'')
       (al_set (str ''upgrade_available'') (str ''0'') (al_set (str ''nerves_fw_active'') (swap_slot slot) ps))"

text \<open>The slot to boot and the settings to save, when an upgrade is on trial.\<close>

definition trial :: "byte list \<Rightarrow> byte list \<Rightarrow> settings_list \<Rightarrow> byte list \<times> settings_list" where
  "trial slot bootcount ps =
     (if bootcount = str ''1'' then (swap_slot slot, revert_slot slot ps)
      else (slot, al_set (str ''bootcount'') (str ''1'') ps))"

definition upgrade_choice :: "byte list \<Rightarrow> byte list \<Rightarrow> settings_list \<Rightarrow> (int \<times> byte list option) \<times> settings_list option" where
  "upgrade_choice slot upgrade ps =
     (if upgrade \<noteq> str ''1'' then (kernel_of (map_of ps) slot, None)
      else case map_of ps (str ''bootcount'') of
        None \<Rightarrow> ((512, None), None)
      | Some bootcount \<Rightarrow> (case trial slot bootcount ps of (slot', ps') \<Rightarrow> (kernel_of (map_of ps') slot', Some ps')))"

definition boot_choice :: "settings_list \<Rightarrow> (int \<times> byte list option) \<times> settings_list option" where
  "boot_choice ps =
     (case map_of ps (str ''nerves_fw_active'') of
        None \<Rightarrow> ((512, None), None)
      | Some slot \<Rightarrow>
          (case map_of ps (str ''upgrade_available'') of
             None \<Rightarrow> ((512, None), None)
           | Some upgrade \<Rightarrow> upgrade_choice slot upgrade ps))"

text \<open>What is sent to the serial port on the way; \<open>kernel_lba_p\<close> is printed in place of the block.\<close>

definition missing_line :: "byte list \<Rightarrow> byte list" where
  "missing_line name = msg_line (error_text (Not_found name))"

definition lookup_line :: "(byte list \<rightharpoonup> byte list) \<Rightarrow> byte list \<Rightarrow> byte list" where
  "lookup_line M name = (case M name of None \<Rightarrow> missing_line name | Some _ \<Rightarrow> [])"

definition kernel_log :: "int \<Rightarrow> (byte list \<rightharpoonup> byte list) \<Rightarrow> byte list \<Rightarrow> byte list" where
  "kernel_log kernel_lba_p M slot =
     (case M (slot_key slot ''.kernel_lba'') of
        None \<Rightarrow> missing_line (slot_key slot ''.kernel_lba'') @ msg_line (no_kernel_text (slot_key slot ''.kernel_lba''))
      | Some _ \<Rightarrow> lookup_line M (slot_key slot ''.kernel_args'') @ msg_line (booting_text slot kernel_lba_p
          (case M (slot_key slot ''.kernel_args'') of None \<Rightarrow> str ''<none>'' | Some args \<Rightarrow> args)))"

definition trial_log :: "byte list \<Rightarrow> byte list \<Rightarrow> byte list" where
  "trial_log slot bootcount = msg_line (if bootcount = str ''1'' then slot_failed_text slot else slot_tried_text slot)"

definition fits :: "settings_list \<Rightarrow> bool" where
  "fits ps \<longleftrightarrow> 6 + length (serialize ps) \<le> 131072"

definition save_log :: "settings_list \<Rightarrow> byte list" where
  "save_log ps =
     (if fits ps then [] else msg_line (error_text No_room) @ msg_line (str ''Failed to write u-boot environment after failback!!''))"

definition upgrade_log :: "int \<Rightarrow> byte list \<Rightarrow> byte list \<Rightarrow> settings_list \<Rightarrow> byte list" where
  "upgrade_log kernel_lba_p slot upgrade ps =
     (if upgrade \<noteq> str ''1'' then kernel_log kernel_lba_p (map_of ps) slot
      else case map_of ps (str ''bootcount'') of
        None \<Rightarrow> missing_line (str ''bootcount'') @
          msg_line (str ''Failed to get `bootcount`. Skipping automatic failback check.'')
      | Some bootcount \<Rightarrow>
          (case trial slot bootcount ps of (slot', ps') \<Rightarrow>
             trial_log slot bootcount @ save_log ps' @ kernel_log kernel_lba_p (map_of ps') slot'))"

definition boot_log :: "int \<Rightarrow> settings_list \<Rightarrow> byte list" where
  "boot_log kernel_lba_p ps =
     (case map_of ps (str ''nerves_fw_active'') of
        None \<Rightarrow> missing_line (str ''nerves_fw_active'') @
          msg_line (str ''Failed to get `nerves_fw_active` from U-Boot environment'')
      | Some slot \<Rightarrow>
          (case map_of ps (str ''upgrade_available'') of
             None \<Rightarrow> missing_line (str ''upgrade_available'') @
               msg_line (str ''Failed to get `upgrade_available`. Skipping automatic failback check.'')
           | Some upgrade \<Rightarrow> upgrade_log kernel_lba_p slot upgrade ps))"

section \<open>The pieces\<close>

lemma strtoull_cstring:
  assumes "cstring s"
  shows "\<exists>i. strtoull (lit s) 10 = Some (decimal_value s, i)"
proof -
  define k where "k = length (takeWhile (\<lambda>c. c = 32) s)"
  define ds where "ds = takeWhile (is_digit_of 10) (dropWhile (\<lambda>c. c = 32) s)"
  define rest where "rest = dropWhile (is_digit_of 10) (dropWhile (\<lambda>c. c = 32) s)"
  have s: "s = replicate k 32 @ ds @ rest"
  proof -
    have "takeWhile (\<lambda>c. c = 32) s = replicate k 32"
      unfolding k_def by (rule replicate_eqI) (auto dest: set_takeWhileD)
    moreover have "dropWhile (\<lambda>c. c = 32) s = ds @ rest" by (simp add: ds_def rest_def)
    ultimately show ?thesis by (metis takeWhile_dropWhile_id)
  qed
  have nodigit: "\<not> is_digit_of 10 0" "\<not> is_digit_of 10 32" by (simp_all add: is_digit_of_def char_to_digit_def)
  have at: "lit s (int (k + length ds)) = (case rest of [] \<Rightarrow> 0 | c # _ \<Rightarrow> c)"
    unfolding lit_def by (subst (1 2) s) (auto simp: nth_append nat_add_distrib split: list.splits)
  have stop: "\<not> is_digit_of 10 (lit s (int (k + length ds)))"
    unfolding at rest_def using nodigit dropWhile_hd_not[of "is_digit_of 10"] by (fastforce split: list.splits)
  have "lit s (int k) \<noteq> 32"
  proof (cases "ds = []")
    case True
    have "dropWhile (\<lambda>c. c = 32) s = ds @ rest" by (simp add: ds_def rest_def)
    with True hd_dropWhile[of "\<lambda>c. c = 32" s] at show ?thesis by (auto split: list.splits)
  next
    case False
    then have "lit s (int k) = hd ds" unfolding lit_def by (subst (1 2) s, cases ds) (auto simp: nth_append)
    moreover have "is_digit_of 10 (hd ds)" using False by (auto simp: ds_def dest: hd_in_set set_takeWhileD)
    ultimately show ?thesis using nodigit(2) by auto
  qed
  moreover have "bytes_at (lit s) (k + length ds) = replicate k 32 @ ds"
  proof (rule nth_equalityI)
    fix i assume i: "i < length (bytes_at (lit s) (k + length ds))"
    then have "lit s (int i) = s ! i" by (subst lit_nth) (subst s, auto)
    also have "\<dots> = (replicate k 32 @ ds) ! i" using i by (subst s) (auto simp: nth_append)
    finally show "bytes_at (lit s) (k + length ds) ! i = (replicate k 32 @ ds) ! i" using i by simp
  qed simp
  moreover have "\<forall>c\<in>set ds. is_digit_of 10 c" by (auto simp: ds_def dest: set_takeWhileD)
  ultimately have "strtoull (lit s) 10 = Some (u64 (digits_value 10 0 ds), int (k + length ds))"
    using stop by (intro strtoull_digits_after_spaces) auto
  then show ?thesis by (simp add: decimal_value_def ds_def)
qed

lemma strcmp_one: "cstring s \<Longrightarrow> \<exists>c. strcmp (lit s) (chars ''1'') = Some c \<and> (c = 0 \<longleftrightarrow> s = str ''1'')"
  using strcmp_points_to[of "lit s" s "chars ''1''" "str ''1''"] by (auto simp: chars_def str_def of_char_of)

lemma other_slot_swap: "s \<noteq> [] \<Longrightarrow> other_slot s = Some (swap_slot s)"
  by (cases s) (simp_all add: other_slot_def swap_slot_def)

lemma cstring_swap_slot: "cstring s \<Longrightarrow> cstring (swap_slot s)"
  by (cases s) (simp_all add: swap_slot_def)

lemma setting_names [simp]:
  "cstring (str ''nerves_fw_active'')" "cstring (str ''upgrade_available'')" "cstring (str ''bootcount'')"
  "cstring (str ''0'')" "cstring (str ''1'')"
  by (simp_all add: str_def of_char_of)

lemma cstring_slot_key: "cstring s \<Longrightarrow> cstring (slot_key s ''.kernel_lba'') \<and> cstring (slot_key s ''.kernel_args'')"
  by (cases s) (simp_all add: slot_key_def first_char_def str_def of_char_of)

text \<open>A lookup, in the form the loader uses it.\<close>

lemma getenv_spec:
  assumes "env_rep env (heap s) ps" "cstring name" "quiet D V" "length name < 2147483648"
  shows "\<exists>s'. env_getenv D env name s = Some (case map_of ps name of None \<Rightarrow> Inl (Not_found name) | Some v \<Rightarrow> Inr v, env, s') \<and>
    env_rep env (heap s') ps \<and> told V (io s) (lookup_line (map_of ps) name) (io s') \<and> (\<forall>v. map_of ps name = Some v \<longrightarrow> cstring v)"
proof (cases "map_of ps name")
  case None
  obtain s' where "err_return D (Inl (Not_found name) :: env_error + byte list) s = Some s'" "heap s' = heap s"
    "told V (io s) (lookup_line (map_of ps) name) (io s')"
    using err_return_told[OF assms(3), of "Inl (Not_found name)" s] assms(2,4) None
    by (auto simp: error_line_def lookup_line_def missing_line_def)
  with None getenv_rep[OF assms(1,2)] assms(1) show ?thesis by (simp add: env_getenv_def)
next
  case (Some v)
  then obtain h' where "uboot_env_getenv env (heap s) name = Some (Inr v, env, h')" "env_rep env h' ps" "cstring v"
    using getenv_rep[OF assms(1,2)] by auto
  with Some show ?thesis by (auto simp: env_getenv_def err_return_def lookup_line_def told_refl)
qed

lemma failback_spec:
  assumes rep: "env_rep env (heap s) ps" and c: "cstring slot" "cstring bootcount" "slot \<noteq> []"
    and say: "quiet D V" "length slot < 2147483648"
  shows "\<exists>env' s'. failback D slot bootcount env s = Some (fst (trial slot bootcount ps), env', s') \<and>
    env_rep env' (heap s') (snd (trial slot bootcount ps)) \<and> env_size env' = env_size env \<and>
    told V (io s) (trial_log slot bootcount) (io s')"
proof -
  obtain c where c1: "strcmp (lit bootcount) (chars ''1'') = Some c" "c = 0 \<longleftrightarrow> bootcount = str ''1''"
    using strcmp_one[OF c(2)] by blast
  show ?thesis
  proof (cases "c = 0")
    case True
    obtain s1 where s1: "say D (str (''Slot %s didn'' @ CHR 0x27 # ''t validate, so reverting back...'')) [s_arg slot] s = Some s1"
      "heap s1 = heap s" "told V (io s) (trial_log slot bootcount) (io s1)"
      using say_told[OF say(1) message_bytes(1)[OF c(1) say(2)], of s] True c1 by (auto simp: trial_log_def)
    obtain e1 h1 where 1: "uboot_env_setenv env (heap s) (str ''nerves_fw_active'') (swap_slot slot) = Some (e1, h1)"
      "env_rep e1 h1 (al_set (str ''nerves_fw_active'') (swap_slot slot) ps)" "env_size e1 = env_size env"
      using setenv_rep[OF rep, of "str ''nerves_fw_active''" "swap_slot slot"] cstring_swap_slot[OF c(1)] by auto
    obtain e2 h2 where 2: "uboot_env_setenv e1 h1 (str ''upgrade_available'') (str ''0'') = Some (e2, h2)"
      "env_rep e2 h2 (al_set (str ''upgrade_available'') (str ''0'') (al_set (str ''nerves_fw_active'') (swap_slot slot) ps))"
      "env_size e2 = env_size env"
      using setenv_rep[OF 1(2), of "str ''upgrade_available''" "str ''0''"] 1(3) by auto
    obtain e3 h3 where 3: "uboot_env_setenv e2 h2 (str ''bootcount'') (str ''0'') = Some (e3, h3)"
      "env_rep e3 h3 (revert_slot slot ps)" "env_size e3 = env_size env"
      using setenv_rep[OF 2(2), of "str ''bootcount''" "str ''0''"] 2(3) by (auto simp: revert_slot_def)
    show ?thesis
      using c1 True s1 1 2 3 other_slot_swap[OF c(3)] by (simp add: failback_def trial_def)
  next
    case False
    obtain s1 where s1: "say D (str ''Trying slot %s for the first time...'') [s_arg slot] s = Some s1"
      "heap s1 = heap s" "told V (io s) (trial_log slot bootcount) (io s1)"
      using say_told[OF say(1) message_bytes(2)[OF c(1) say(2)], of s] False c1 by (auto simp: trial_log_def)
    obtain e1 h1 where "uboot_env_setenv env (heap s) (str ''bootcount'') (str ''1'') = Some (e1, h1)"
      "env_rep e1 h1 (al_set (str ''bootcount'') (str ''1'') ps)" "env_size e1 = env_size env"
      using setenv_rep[OF rep, of "str ''bootcount''" "str ''1''"] by auto
    with c1 s1 False show ?thesis by (simp add: failback_def trial_def)
  qed
qed

text \<open>Values that fit the block.\<close>

definition short_values :: "(byte list \<rightharpoonup> byte list) \<Rightarrow> bool" where
  "short_values M \<longleftrightarrow> (\<forall>k v. M k = Some v \<longrightarrow> length v \<le> 131072)"

lemma length_slot_key: "length (slot_key slot ''.kernel_lba'') < 2147483648" "length (slot_key slot ''.kernel_args'') < 2147483648"
  by (simp_all add: slot_key_def str_def)

lemma kernel_settings_spec:
  assumes rep: "env_rep env (heap s) ps" "cstring slot" "short_values (map_of ps)"
    and say: "quiet D V" "length slot < 2147483648" "0 \<le> p" "p < 18446744073709551616"
  shows "\<exists>lba args s'. kernel_settings D p slot env s = Some (lba, args, s') \<and> (lba, args) = kernel_of (map_of ps) slot \<and>
    told V (io s) (kernel_log p (map_of ps) slot) (io s')"
proof -
  let ?key = "slot_key slot ''.kernel_lba''" and ?arg = "slot_key slot ''.kernel_args''"
  note key = cstring_slot_key[OF rep(2)]
  obtain s1 where g: "env_getenv D env ?key s = Some (case map_of ps ?key of None \<Rightarrow> Inl (Not_found ?key) | Some v \<Rightarrow> Inr v, env, s1)"
    "env_rep env (heap s1) ps" "told V (io s) (lookup_line (map_of ps) ?key) (io s1)" "\<forall>v. map_of ps ?key = Some v \<longrightarrow> cstring v"
    using getenv_spec[OF rep(1) key[THEN conjunct1] say(1) length_slot_key(1)] by blast
  show ?thesis
  proof (cases "map_of ps ?key")
    case None
    obtain s2 where "say D (str (''No '' @ CHR 0x27 # ''%s'' @ CHR 0x27 # '' variable found in u-boot environment, using default.''))
        [s_arg ?key] s1 = Some s2" "told V (io s1) (msg_line (no_kernel_text ?key)) (io s2)"
      using say_told[OF say(1) message_bytes(3)[OF key[THEN conjunct1] length_slot_key(1)], of s1] by auto
    with None g told_trans[OF g(3)] show ?thesis
      by (simp add: kernel_settings_def kernel_of_def kernel_log_def lookup_line_def)
  next
    case (Some l)
    obtain i where i: "strtoull (lit l) 10 = Some (decimal_value l, i)" using strtoull_cstring g(4) Some by blast
    obtain s2 where g2: "env_getenv D env ?arg s1 = Some (case map_of ps ?arg of None \<Rightarrow> Inl (Not_found ?arg) | Some v \<Rightarrow> Inr v, env, s2)"
      "told V (io s1) (lookup_line (map_of ps) ?arg) (io s2)" "\<forall>v. map_of ps ?arg = Some v \<longrightarrow> cstring v"
      using getenv_spec[OF g(2) key[THEN conjunct2] say(1) length_slot_key(2)] by blast
    let ?args = "case map_of ps ?arg of None \<Rightarrow> str ''<none>'' | Some a \<Rightarrow> a"
    have args: "cstring ?args" "length ?args < 2147483648"
    proof -
      have "length a < 2147483648" if "map_of ps ?arg = Some a" for a using rep(3) that unfolding short_values_def by fastforce
      then show "cstring ?args" "length ?args < 2147483648"
        using g2(3) by (auto simp: str_def of_char_of split: option.split)
    qed
    obtain s3 where s3:
      "say D (str ''Booting from slot %s (kernel LBA %lu, kernel_args: %s)'') [s_arg slot, Va_x p, s_arg ?args] s2 = Some s3"
      "told V (io s2) (msg_line (booting_text slot p ?args)) (io s3)"
      using say_told[OF say(1) message_bytes(4)[OF rep(2) say(2,3,4) args], of s2] by auto
    have "told V (io s) (kernel_log p (map_of ps) slot) (io s3)"
      using told_trans[OF told_trans[OF g(3) g2(2)] s3(2)] Some by (simp add: kernel_log_def lookup_line_def)
    with Some g(1) g2(1) i s3(1) show ?thesis
      by (cases "map_of ps ?arg") (simp_all add: kernel_settings_def kernel_of_def)
  qed
qed

section \<open>The environment on the disk\<close>

text \<open>The block at sector 16, what it holds, and the disk after a save.\<close>

definition env_area :: "disk \<Rightarrow> cptr" where
  "env_area d = (\<lambda>i. d (512 * 16 + i))"

definition read_block :: "cptr \<Rightarrow> settings_list option" where
  "read_block b =
     (if le32 b = crc32buf (shift b 4) 131068 then
        (case parse_env (window b 4 131072) [] of (Inr _, ps) \<Rightarrow> Some ps | (Inl _, _) \<Rightarrow> None)
      else None)"

definition block_error :: "cptr \<Rightarrow> env_error" where
  "block_error b =
     (let actual = crc32buf (shift b 4) 131068 in if le32 b \<noteq> actual then Crc_mismatch (le32 b) actual else Invalid_env)"

lemma parse_env_error: "parse_env bs acc = (Inl e, ps) \<Longrightarrow> e = Invalid_env"
proof (induction bs acc rule: parse_env.induct)
  case (1 bs acc)
  then show ?case by (subst (asm) (2) parse_env.simps) (auto split: list.splits if_splits)
qed

definition save_block :: "disk \<Rightarrow> settings_list \<Rightarrow> disk" where
  "save_block d ps =
     (if fits ps
      then (\<lambda>a. if inside (512 * 16) 131072 a then env_block 131072 (sort_key fst ps) ! nat (a - 512 * 16) else d a)
      else d)"

lemma length_serialize_sort: "length (serialize (sort_key fst ps)) = length (serialize ps)"
  by (simp add: serialize_def length_concat comp_def flip: sum_mset_sum_list)

lemma length_env_block: "fits ps \<Longrightarrow> length (env_block 131072 (sort_key fst ps)) = 131072"
  using length_serialize_sort[of ps]
  by (simp add: fits_def env_block_def Let_def crc_bytes_def env_body_def)

lemma map_of_sort: "map_of (sort_key fst ps) = map_of ps"
  by (rule ext) (simp add: map_of_filter sort_key_stable)

lemma read_block_cong:
  assumes "\<forall>i. 0 \<le> i \<and> i < 131072 \<longrightarrow> b i = b' i"
  shows "read_block b = read_block b'" "block_error b = block_error b'"
proof -
  have "le32 b = le32 b'" using assms by (simp add: le32_def)
  moreover have "bytes_at (shift b 4) 131068 = bytes_at (shift b' 4) 131068"
    using assms by (simp add: bytes_at_eq_iff shift_apply)
  moreover have "crc32buf (shift b 4) 131068 = crc32buf (shift b' 4) 131068" by (rule crc32buf_cong) fact
  ultimately show "read_block b = read_block b'" "block_error b = block_error b'"
    by (simp_all add: read_block_def block_error_def Let_def window_def)
qed

lemma uboot_env_read_block:
  assumes "env_rep env h []" "env_size env = 131072"
  shows "\<exists>rc env' h'. uboot_env_read env h b = Some (rc, env', h') \<and> env_size env' = 131072 \<and>
    (case read_block b of None \<Rightarrow> rc = Inl (block_error b) | Some ps \<Rightarrow> rc = Inr () \<and> env_rep env' h' ps)"
  using read_rep[OF assms(1), of b] assms(2) parse_env_error
  by (auto simp: read_block_def block_error_def Let_def split: if_splits prod.splits sum.splits)

text \<open>A disk with the sectors of the environment.\<close>

lemma env_sectors: "272 \<le> capacity V \<longleftrightarrow> on_disk (capacity V) 16 131072"
  by (auto simp: on_disk_def)

lemma save_env_spec:
  assumes dev: "serves D L V" "layout_addresses L" "quiet D V" "attached L V (io s)" "usable L buffer 131072" "272 \<le> capacity V"
    and rep: "env_rep env (heap s) ps" "env_size env = 131072"
  shows "\<exists>env' s'. save_env D L buffer env s = Some (env', s') \<and> env_rep env' (heap s') (sort_key fst ps) \<and>
    attached L V (io s') \<and> stored V (dev (io s')) = save_block (stored V (dev (io s))) ps \<and> sent (io s') = sent (io s) @ save_log ps \<and>
    (\<forall>a. \<not> driver_memory L a \<and> \<not> inside buffer 131072 a \<longrightarrow> ram (io s') a = ram (io s) a)"
proof -
  obtain r env' h' m' where w: "uboot_env_write env (heap s) (ram (io s)) buffer = Some ((r, env', h'), m')"
    "env_rep env' h' (sort_key fst ps)" "\<forall>a. a < buffer \<or> buffer + 131072 \<le> a \<longrightarrow> m' a = ram (io s) a"
    "if fits ps then r = Inr () \<and> m' = store (ram (io s)) buffer (env_block 131072 (sort_key fst ps)) else r = Inl No_room"
    using write_rep[OF rep(1), of "ram (io s)" buffer] rep(2) unfolding fits_def by (auto split: if_splits)
  let ?s = "s\<lparr>io := (io s)\<lparr>ram := m'\<rparr>, heap := h'\<rparr>"
  have out: "\<not> inside buffer 131072 a \<Longrightarrow> m' a = ram (io s) a" for a using w(3) by (auto simp: inside_def)
  have sent: "sent (io ?s) = sent (io s)" by (simp add: sent_def)
  have att: "attached L V (io ?s)"
    using out dev(5) by (intro attached_cong[OF dev(4)]) (auto simp: usable_def dev(4)[unfolded attached_def])
  show ?thesis
  proof (cases "fits ps")
    case False
    with w(4) have r: "r = Inl No_room" by simp
    obtain s0 where s0: "err_return D r ?s = Some s0" "heap s0 = h'" "told V (io ?s) (msg_line (error_text No_room)) (io s0)"
      using err_return_told[OF dev(3), of r ?s] r by (auto simp: error_line_def)
    obtain s1 where s1: "say D (str ''Failed to write u-boot environment after failback!!'') [] s0 = Some s1" "heap s1 = h'"
      "told V (io s0) (msg_line (str ''Failed to write u-boot environment after failback!!'')) (io s1)"
      using say_plain(1)[OF dev(3), of s0] s0(2) by auto
    have t: "told V (io ?s) (save_log ps) (io s1)" using told_trans[OF s0(3) s1(3)] False by (simp add: save_log_def)
    have "save_env D L buffer env s = Some (env', s1)" using w(1) r s0(1) s1(1) by (simp add: save_env_def Let_def)
    moreover have "attached L V (io s1)" by (rule told_attached[OF t att])
    moreover have "stored V (dev (io s1)) = save_block (stored V (dev (io s))) ps" "ram (io s1) = m'"
      "sent (io s1) = sent (io s) @ save_log ps"
      using t False sent by (simp_all add: told_def save_block_def)
    ultimately show ?thesis using w(2) s1(2) out by auto
  next
    case True
    from virtio_blk_write_served[OF dev(1,2) att dev(5), of 16] dev(6)[unfolded env_sectors] obtain io' where
      v: "virtio_blk_write D L 16 131072 buffer (io ?s) = Some (131072, io')" "attached L V io'"
      "\<forall>a. stored V (dev io') a = (if inside (512 * 16) 131072 a then m' (buffer + (a - 512 * 16)) else stored V (dev (io s)) a)"
      "\<forall>a. \<not> driver_memory L a \<longrightarrow> ram io' a = m' a"
      by auto
    have "m' (buffer + (a - 512 * 16)) = env_block 131072 (sort_key fst ps) ! nat (a - 512 * 16)"
      if "inside (512 * 16) 131072 a" for a
      using that w(4) True length_env_block[OF True] by (auto simp: store_def inside_def)
    with v(3) True have "stored V (dev io') = save_block (stored V (dev (io s))) ps"
      by (auto simp: save_block_def fun_eq_iff)
    moreover have "sent io' = sent (io s) @ save_log ps" using blk_sent(2)[OF v(1)] sent True by (simp add: save_log_def)
    moreover have "save_env D L buffer env s = Some (env', ?s\<lparr>io := io'\<rparr>)"
      using w(1,4) True v(1) by (simp add: save_env_def err_return_def Let_def)
    ultimately show ?thesis using w(2) v(2,4) out by auto
  qed
qed

text \<open>The log of the middle part.\<close>

definition check_log :: "byte list \<Rightarrow> byte list \<Rightarrow> settings_list \<Rightarrow> byte list" where
  "check_log slot upgrade ps =
     (if upgrade \<noteq> str ''1'' then []
      else case map_of ps (str ''bootcount'') of
        None \<Rightarrow> missing_line (str ''bootcount'') @
          msg_line (str ''Failed to get `bootcount`. Skipping automatic failback check.'')
      | Some b \<Rightarrow> trial_log slot b @ save_log (snd (trial slot b ps)))"

lemma check_upgrade_spec:
  assumes dev: "serves D L V" "layout_addresses L" "quiet D V" "attached L V (io s)" "usable L buffer 131072" "272 \<le> capacity V"
    and rep: "env_rep env (heap s) ps" "env_size env = 131072"
    and str: "cstring slot" "slot \<noteq> []" "cstring upgrade" "length slot < 2147483648"
  shows "\<exists>r env' s'. check_upgrade D L buffer slot upgrade env s = Some (r, env', s') \<and> attached L V (io s') \<and>
    (\<forall>a. \<not> driver_memory L a \<and> \<not> inside buffer 131072 a \<longrightarrow> ram (io s') a = ram (io s) a) \<and>
    sent (io s') = sent (io s) @ check_log slot upgrade ps \<and>
    (if upgrade \<noteq> str ''1'' then r = Inr slot \<and> env_rep env' (heap s') ps \<and> stored V (dev (io s')) = stored V (dev (io s))
     else case map_of ps (str ''bootcount'') of
       None \<Rightarrow> r = Inl () \<and> stored V (dev (io s')) = stored V (dev (io s))
     | Some b \<Rightarrow> r = Inr (fst (trial slot b ps)) \<and> env_rep env' (heap s') (sort_key fst (snd (trial slot b ps))) \<and>
         stored V (dev (io s')) = save_block (stored V (dev (io s))) (snd (trial slot b ps)))"
proof -
  obtain c where c: "strcmp (lit upgrade) (chars ''1'') = Some c" "c = 0 \<longleftrightarrow> upgrade = str ''1''"
    using strcmp_one[OF str(3)] by blast
  show ?thesis
  proof (cases "c = 0")
    case False
    with c rep dev show ?thesis by (simp add: check_upgrade_def check_log_def)
  next
    case True
    let ?name = "str ''bootcount''"
    have "length ?name < 2147483648" by (simp add: str_def)
    then obtain s1 where g: "env_getenv D env ?name s = Some (case map_of ps ?name of None \<Rightarrow> Inl (Not_found ?name) | Some v \<Rightarrow> Inr v, env, s1)"
      "env_rep env (heap s1) ps" "told V (io s) (lookup_line (map_of ps) ?name) (io s1)" "\<forall>v. map_of ps ?name = Some v \<longrightarrow> cstring v"
      using getenv_spec[OF rep(1) setting_names(3) dev(3)] by blast
    show ?thesis
    proof (cases "map_of ps ?name")
      case None
      obtain s2 where s2: "say D (str ''Failed to get `bootcount`. Skipping automatic failback check.'') [] s1 = Some s2"
        "told V (io s1) (msg_line (str ''Failed to get `bootcount`. Skipping automatic failback check.'')) (io s2)"
        using say_plain(2)[OF dev(3), of s1] by auto
      have t: "told V (io s) (check_log slot upgrade ps) (io s2)"
        using told_trans[OF g(3) s2(2)] None True c(2) by (simp add: check_log_def lookup_line_def)
      have "check_upgrade D L buffer slot upgrade env s = Some (Inl (), env, s2)"
        using c True g(1) None s2(1) by (simp add: check_upgrade_def)
      with t told_attached[OF t dev(4)] None True c(2) show ?thesis by (simp add: told_def)
    next
      case (Some b)
      with g have b: "cstring b" "told V (io s) [] (io s1)" by (simp_all add: lookup_line_def)
      from failback_spec[OF g(2) str(1) b(1) str(2) dev(3) str(4)] obtain env2 s2 where
        f: "failback D slot b env s1 = Some (fst (trial slot b ps), env2, s2)"
        "env_rep env2 (heap s2) (snd (trial slot b ps))" "env_size env2 = 131072" "told V (io s1) (trial_log slot b) (io s2)"
        using rep(2) by auto
      have t: "told V (io s) (trial_log slot b) (io s2)" using told_trans[OF b(2) f(4)] by simp
      from save_env_spec[OF dev(1-3) told_attached[OF t dev(4)] dev(5,6) f(2,3)] obtain env3 s3 where
        v: "save_env D L buffer env2 s2 = Some (env3, s3)" "env_rep env3 (heap s3) (sort_key fst (snd (trial slot b ps)))"
        "attached L V (io s3)" "stored V (dev (io s3)) = save_block (stored V (dev (io s2))) (snd (trial slot b ps))"
        "sent (io s3) = sent (io s2) @ save_log (snd (trial slot b ps))"
        "\<forall>a. \<not> driver_memory L a \<and> \<not> inside buffer 131072 a \<longrightarrow> ram (io s3) a = ram (io s2) a"
        by blast
      have "check_upgrade D L buffer slot upgrade env s = Some (Inr (fst (trial slot b ps)), env3, s3)"
        using c True g(1) Some f(1) v(1) by (simp add: check_upgrade_def)
      with v t Some True c(2) show ?thesis by (simp add: told_def check_log_def)
    qed
  qed
qed

section \<open>The implementation\<close>

text \<open>The decision from the block as it is on the disk, valid or not, and the log.\<close>

definition block_choice :: "cptr \<Rightarrow> (int \<times> byte list option) \<times> settings_list option" where
  "block_choice b = (case read_block b of None \<Rightarrow> ((512, None), None) | Some ps \<Rightarrow> boot_choice ps)"

definition block_log :: "int \<Rightarrow> cptr \<Rightarrow> byte list" where
  "block_log kernel_lba_p b =
     (case read_block b of
        None \<Rightarrow> msg_line (error_text (block_error b)) @ msg_line (str ''Failed to read u-boot environment from buffer'')
      | Some ps \<Rightarrow> boot_log kernel_lba_p ps)"

definition slot_named :: "cptr \<Rightarrow> bool" where
  "slot_named b \<longleftrightarrow> (case read_block b of None \<Rightarrow> True | Some ps \<Rightarrow> map_of ps (str ''nerves_fw_active'') \<noteq> Some [])"

lemma parse_env_lengths:
  "parse_env bs acc = (r, ps) \<Longrightarrow> length bs \<le> n \<Longrightarrow> \<forall>p\<in>set acc. length (snd p) \<le> n \<Longrightarrow> \<forall>p\<in>set ps. length (snd p) \<le> n"
proof (induction bs acc rule: parse_env.induct)
  case (1 bs acc)
  note eq = "1.prems"(1)[unfolded parse_env.simps[of bs acc]]
  show ?case
  proof (cases "\<exists>c cs d rest z rest'. bs = c # cs \<and> c \<noteq> 0 \<and> dropWhile name_char cs = d # rest \<and> d \<noteq> 0 \<and>
        dropWhile (\<lambda>c. c \<noteq> 0) rest = z # rest'")
    case False
    then have "ps = acc" using eq by (auto split: list.splits if_splits)
    with "1.prems"(3) show ?thesis by simp
  next
    case True
    then obtain c cs d rest z rest' where bs: "bs = c # cs" and c: "c \<noteq> 0" and d: "dropWhile name_char cs = d # rest" "d \<noteq> 0"
      "dropWhile (\<lambda>c. c \<noteq> 0) rest = z # rest'" by blast
    let ?p = "(c # takeWhile name_char cs, takeWhile (\<lambda>c. c \<noteq> 0) rest)"
    have "parse_env rest' (?p # acc) = (r, ps)" using eq bs c d by simp
    moreover have "length (d # rest) \<le> length cs" "length (z # rest') \<le> length rest"
      using length_dropWhile_le[of name_char cs] length_dropWhile_le[of "\<lambda>c. c \<noteq> 0" rest] unfolding d(1,3) by simp_all
    moreover have "length (takeWhile (\<lambda>c. c \<noteq> 0) rest) \<le> length rest" by (rule length_takeWhile_le)
    ultimately show ?thesis using "1.IH"[OF bs c d] "1.prems"(2,3) bs by simp
  qed
qed

lemma read_block_short:
  assumes "read_block b = Some ps"
  shows "short_values (map_of ps)"
proof -
  have "length (window b 4 131072) \<le> 131072" by (simp add: window_def)
  then have "\<forall>p\<in>set ps. length (snd p) \<le> 131072"
    using assms parse_env_lengths[of "window b 4 131072" "[]" _ ps 131072]
    by (auto simp: read_block_def split: if_splits prod.splits sum.splits)
  then show ?thesis unfolding short_values_def by (auto dest!: map_of_SomeD)
qed

lemma length_swap_slot [simp]: "length (swap_slot s) = length s"
  by (cases s) (simp_all add: swap_slot_def)

lemma short_trial:
  assumes "short_values (map_of ps)" "length slot \<le> 131072"
  shows "short_values (map_of (sort_key fst (snd (trial slot b ps))))"
  using assms by (simp add: short_values_def map_of_sort trial_def revert_slot_def map_of_al_set str_def)

text \<open>From the check for an upgrade to the end.\<close>

lemma upgrade_spec:
  fixes D :: "'d device" and s :: "'d boot"
  assumes dev: "serves D L V" "layout_addresses L" "quiet D V" "attached L V (io s)" "usable L buffer 131072" "272 \<le> capacity V"
    and rep: "env_rep env (heap s) ps" "env_size env = 131072" "short_values (map_of ps)"
    and str: "cstring slot" "slot \<noteq> []" "cstring upgrade" "length slot \<le> 131072"
    and p: "0 \<le> p" "p < 18446744073709551616"
  shows "\<exists>q env' s1 lba args s'. check_upgrade D L buffer slot upgrade env s = Some (q, env', s1) \<and>
    (case q of Inl _ \<Rightarrow> Some (Inr (512, None, s1)) | Inr active \<Rightarrow> map_option Inr (kernel_settings D p active env' s1)) =
      Some (Inr (lba, args, s') :: message \<times> 'd io + int \<times> byte list option \<times> 'd boot) \<and>
    (lba, args) = fst (upgrade_choice slot upgrade ps) \<and> attached L V (io s') \<and>
    stored V (dev (io s')) = (case snd (upgrade_choice slot upgrade ps) of None \<Rightarrow> stored V (dev (io s)) | Some ps \<Rightarrow> save_block (stored V (dev (io s))) ps) \<and>
    sent (io s') = sent (io s) @ upgrade_log p slot upgrade ps \<and>
    (\<forall>a. \<not> driver_memory L a \<and> \<not> inside buffer 131072 a \<longrightarrow> ram (io s') a = ram (io s) a)"
proof -
  have len: "length slot < 2147483648" using str(4) by simp
  from check_upgrade_spec[OF dev rep(1,2) str(1-3) len] obtain q env4 s4 where
    c: "check_upgrade D L buffer slot upgrade env s = Some (q, env4, s4)" "attached L V (io s4)"
    "\<forall>a. \<not> driver_memory L a \<and> \<not> inside buffer 131072 a \<longrightarrow> ram (io s4) a = ram (io s) a"
    "sent (io s4) = sent (io s) @ check_log slot upgrade ps"
    "if upgrade \<noteq> str ''1'' then q = Inr slot \<and> env_rep env4 (heap s4) ps \<and> stored V (dev (io s4)) = stored V (dev (io s))
     else case map_of ps (str ''bootcount'') of
       None \<Rightarrow> q = Inl () \<and> stored V (dev (io s4)) = stored V (dev (io s))
     | Some b \<Rightarrow> q = Inr (fst (trial slot b ps)) \<and> env_rep env4 (heap s4) (sort_key fst (snd (trial slot b ps))) \<and>
         stored V (dev (io s4)) = save_block (stored V (dev (io s))) (snd (trial slot b ps))"
    by blast
  consider "upgrade \<noteq> str ''1''" | "upgrade = str ''1''" "map_of ps (str ''bootcount'') = None"
    | b where "upgrade = str ''1''" "map_of ps (str ''bootcount'') = Some b" by (cases "map_of ps (str ''bootcount'')") auto
  then show ?thesis
  proof cases
    case 1
    with c(5) have q: "q = Inr slot" "env_rep env4 (heap s4) ps" "stored V (dev (io s4)) = stored V (dev (io s))" by simp_all
    obtain lba args s5 where "kernel_settings D p slot env4 s4 = Some (lba, args, s5)" "(lba, args) = kernel_of (map_of ps) slot"
      "told V (io s4) (kernel_log p (map_of ps) slot) (io s5)"
      using kernel_settings_spec[OF q(2) str(1) rep(3) dev(3) len p] by blast
    with 1 q c(1-4) told_attached[of V "io s4" _ "io s5"] show ?thesis
      by (auto simp: upgrade_choice_def upgrade_log_def check_log_def told_def)
  next
    case 2
    with c show ?thesis by (auto simp: upgrade_choice_def upgrade_log_def check_log_def)
  next
    case 3
    let ?t = "trial slot b ps"
    from 3 c(5) have q: "q = Inr (fst ?t)" "env_rep env4 (heap s4) (sort_key fst (snd ?t))"
      "stored V (dev (io s4)) = save_block (stored V (dev (io s))) (snd ?t)" by simp_all
    have t: "cstring (fst ?t)" "length (fst ?t) < 2147483648" using str(1) cstring_swap_slot len by (simp_all add: trial_def)
    obtain lba args s5 where k: "kernel_settings D p (fst ?t) env4 s4 = Some (lba, args, s5)"
      "(lba, args) = kernel_of (map_of (snd ?t)) (fst ?t)" "told V (io s4) (kernel_log p (map_of (snd ?t)) (fst ?t)) (io s5)"
      using kernel_settings_spec[OF q(2) t(1) short_trial[OF rep(3) str(4)] dev(3) t(2) p] unfolding map_of_sort by blast
    have "upgrade_choice slot upgrade ps = ((lba, args), Some (snd ?t))"
      "upgrade_log p slot upgrade ps = check_log slot upgrade ps @ kernel_log p (map_of (snd ?t)) (fst ?t)"
      using 3 k(2) by (simp_all add: upgrade_choice_def upgrade_log_def check_log_def split: prod.splits)
    with k(1,3) q c(1-4) told_attached[OF k(3) c(2)] show ?thesis by (auto simp: told_def)
  qed
qed

lemma process_spec:
  assumes dev: "serves D L V" "layout_addresses L" "quiet D V" "attached L V (io s)"
    "usable L (brk (heap s)) 131072" "0 < brk (heap s)" "272 \<le> capacity V"
    and slot: "slot_named (env_area (stored V (dev (io s))))"
    and p: "0 \<le> p" "p < 18446744073709551616"
  defines "choice \<equiv> block_choice (env_area (stored V (dev (io s))))"
  shows "\<exists>lba args s'. process_uboot_env D L p s = Some (Inr (lba, args, s')) \<and> (lba, args) = fst choice \<and>
    attached L V (io s') \<and>
    stored V (dev (io s')) = (case snd choice of None \<Rightarrow> stored V (dev (io s)) | Some ps \<Rightarrow> save_block (stored V (dev (io s))) ps) \<and>
    sent (io s') = sent (io s) @ block_log p (env_area (stored V (dev (io s)))) \<and>
    (\<forall>a. \<not> driver_memory L a \<and> \<not> inside (brk (heap s)) 131072 a \<longrightarrow> ram (io s') a = ram (io s) a)"
proof -
  let ?b = "brk (heap s)" and ?env = "uboot_env_init 131072"
  obtain h0 where h0: "alloc (heap s) 131072 = (?b, h0)" "0 < brk h0"
    using dev(6) by (simp add: alloc_def malloc_eq malloc_ok_def)
  obtain io1 where io1: "virtio_blk_read D L 16 131072 ?b (io s) = Some (131072, io1)" "attached L V io1"
    "stored V (dev io1) = stored V (dev (io s))"
    "\<forall>a. \<not> driver_memory L a \<and> \<not> inside ?b 131072 a \<longrightarrow> ram io1 a = ram (io s) a"
    "\<forall>a. inside ?b 131072 a \<longrightarrow> ram io1 a = stored V (dev (io s)) (512 * 16 + (a - ?b))"
    using virtio_blk_read_served[OF dev(1,2,4,5), of 16] dev(7)[unfolded env_sectors] by auto
  note sent1 = blk_sent(1)[OF io1(1)]
  let ?area = "env_area (stored V (dev (io s)))"
  have frame1: "\<not> driver_memory L a \<and> \<not> inside ?b 131072 a \<Longrightarrow> ram io1 a = ram (io s) a" for a
    using io1(4) by simp
  have "rd (ram io1) ?b i = ?area i" if "0 \<le> i" "i < 131072" for i
  proof -
    have "inside ?b 131072 (?b + i)" using that by (simp add: inside_def)
    with io1(5) show ?thesis by (simp add: env_area_def)
  qed
  then have rb: "read_block (rd (ram io1) ?b) = read_block ?area" "block_error (rd (ram io1) ?b) = block_error ?area"
    by (intro read_block_cong; blast)+
  have e0: "env_rep ?env h0 []" "env_size ?env = 131072"
    using h0(2) by (simp_all add: uboot_env_init_def env_rep_def env_wf_def)
  obtain rc env1 h1 where r: "uboot_env_read ?env h0 (rd (ram io1) ?b) = Some (rc, env1, h1)" "env_size env1 = 131072"
    "case read_block ?area of None \<Rightarrow> rc = Inl (block_error ?area) | Some ps \<Rightarrow> rc = Inr () \<and> env_rep env1 h1 ps"
    using uboot_env_read_block[OF e0, of "rd (ram io1) ?b"] unfolding rb by blast
  let ?s1 = "s\<lparr>io := io1, heap := h0\<rparr>"
  obtain s2 where s2: "err_return D rc (s\<lparr>io := io1, heap := h1\<rparr>) = Some s2" "heap s2 = h1" "told V io1 (error_line rc) (io s2)"
  proof -
    have "rc \<noteq> Inl (Not_found name)" for name
      using r(3) by (auto simp: block_error_def Let_def split: option.splits if_splits)
    then show ?thesis using err_return_told[OF dev(3), of rc "s\<lparr>io := io1, heap := h1\<rparr>"] that by auto
  qed
  have read: "env_read D ?env ?b ?s1 = Some (rc, env1, s2)" using r(1) s2(1) by (simp add: env_read_def)
  note start = h0(1) io1(1) read
  have ending: ?thesis if "process_uboot_env D L p s = Some (Inr (lba, args, s3))" "(lba, args) = fst choice" "snd choice = None"
      "told V io1 (block_log p ?area) (io s3)" for lba args s3
    using that io1(3) frame1 sent1 told_attached[OF that(4) io1(2)] by (auto simp: told_def)
  show ?thesis
  proof (cases "read_block ?area")
    case None
    with r(3) have rc: "rc = Inl (block_error ?area)" by simp
    obtain s3 where s3: "say D (str ''Failed to read u-boot environment from buffer'') [] s2 = Some s3"
      "told V (io s2) (msg_line (str ''Failed to read u-boot environment from buffer'')) (io s3)"
      using say_plain(3)[OF dev(3), of s2] by auto
    show ?thesis
    proof (rule ending)
      show "process_uboot_env D L p s = Some (Inr (512, None, s3))" using start rc s3(1) by (simp add: process_uboot_env_def)
      show "(512, None) = fst choice" "snd choice = None" using None by (simp_all add: choice_def block_choice_def)
      show "told V io1 (block_log p ?area) (io s3)"
        using told_trans[OF s2(3) s3(2)] None rc by (simp add: block_log_def error_line_def)
    qed
  next
    case (Some ps)
    with r(3) have rc: "rc = Inr ()" "env_rep env1 (heap s2) ps" by (simp_all add: s2(2))
    then have t2: "told V io1 [] (io s2)" using s2(3) by (simp add: error_line_def)
    note short = read_block_short[OF Some]
    have ch: "choice = boot_choice ps" "block_log p ?area = boot_log p ps" by (simp_all add: choice_def block_choice_def block_log_def Some)
    let ?fw = "str ''nerves_fw_active''" and ?up = "str ''upgrade_available''"
    have names: "length ?fw < 2147483648" "length ?up < 2147483648" by (simp_all add: str_def)
    obtain s3 where g: "env_getenv D env1 ?fw s2 = Some (case map_of ps ?fw of None \<Rightarrow> Inl (Not_found ?fw) | Some v \<Rightarrow> Inr v, env1, s3)"
      "env_rep env1 (heap s3) ps" "told V (io s2) (lookup_line (map_of ps) ?fw) (io s3)" "\<forall>v. map_of ps ?fw = Some v \<longrightarrow> cstring v"
      using getenv_spec[OF rc(2) setting_names(1) dev(3) names(1)] by blast
    note t3 = told_trans[OF t2 g(3)]
    show ?thesis
    proof (cases "map_of ps ?fw")
      case None
      obtain s4 where s4: "say D (str ''Failed to get `nerves_fw_active` from U-Boot environment'') [] s3 = Some s4"
        "told V (io s3) (msg_line (str ''Failed to get `nerves_fw_active` from U-Boot environment'')) (io s4)"
        using say_plain(4)[OF dev(3), of s3] by auto
      show ?thesis
      proof (rule ending)
        show "process_uboot_env D L p s = Some (Inr (512, None, s4))"
          using start rc(1) g(1) None s4(1) by (simp add: process_uboot_env_def)
        show "(512, None) = fst choice" "snd choice = None" using None by (simp_all add: ch boot_choice_def)
        show "told V io1 (block_log p ?area) (io s4)"
          using told_trans[OF t3 s4(2)] None by (simp add: ch boot_log_def lookup_line_def)
      qed
    next
      case slot1: (Some slot)
      with g have slot2: "cstring slot" "slot \<noteq> []" using slot by (auto simp: slot_named_def Some)
      have t3: "told V io1 [] (io s3)" using t3 slot1 by (simp add: lookup_line_def)
      have len: "length slot \<le> 131072" using short slot1 unfolding short_values_def by blast
      obtain s4 where u: "env_getenv D env1 ?up s3 = Some (case map_of ps ?up of None \<Rightarrow> Inl (Not_found ?up) | Some v \<Rightarrow> Inr v, env1, s4)"
        "env_rep env1 (heap s4) ps" "told V (io s3) (lookup_line (map_of ps) ?up) (io s4)" "\<forall>v. map_of ps ?up = Some v \<longrightarrow> cstring v"
        using getenv_spec[OF g(2) setting_names(2) dev(3) names(2)] by blast
      note t4 = told_trans[OF t3 u(3)]
      show ?thesis
      proof (cases "map_of ps ?up")
        case None
        obtain s5 where s5: "say D (str ''Failed to get `upgrade_available`. Skipping automatic failback check.'') [] s4 = Some s5"
          "told V (io s4) (msg_line (str ''Failed to get `upgrade_available`. Skipping automatic failback check.'')) (io s5)"
          using say_plain(5)[OF dev(3), of s4] by auto
        show ?thesis
        proof (rule ending)
          show "process_uboot_env D L p s = Some (Inr (512, None, s5))"
            using start rc(1) g(1) slot1 u(1) None s5(1) by (simp add: process_uboot_env_def)
          show "(512, None) = fst choice" "snd choice = None" using None slot1 by (simp_all add: ch boot_choice_def)
          show "told V io1 (block_log p ?area) (io s5)"
            using told_trans[OF t4 s5(2)] None slot1 by (simp add: ch boot_log_def lookup_line_def)
        qed
      next
        case upg: (Some upgrade)
        with u have upg2: "cstring upgrade" "told V io1 [] (io s4)" using t4 by (simp_all add: lookup_line_def)
        from upgrade_spec[OF dev(1-3) told_attached[OF upg2(2) io1(2)] dev(5,7) u(2) r(2) short slot2 upg2(1) len p]
        obtain q env4 s5 lba args s6 where c: "check_upgrade D L ?b slot upgrade env1 s4 = Some (q, env4, s5)"
          "(case q of Inl _ \<Rightarrow> Some (Inr (512, None, s5)) | Inr active \<Rightarrow> map_option Inr (kernel_settings D p active env4 s5)) =
            Some (Inr (lba, args, s6) :: message \<times> 'a io + int \<times> byte list option \<times> 'a boot)"
          and e: "(lba, args) = fst (upgrade_choice slot upgrade ps)" "attached L V (io s6)"
          "stored V (dev (io s6)) = (case snd (upgrade_choice slot upgrade ps) of None \<Rightarrow> stored V (dev (io s4)) | Some ps \<Rightarrow> save_block (stored V (dev (io s4))) ps)"
          "sent (io s6) = sent (io s4) @ upgrade_log p slot upgrade ps"
          "\<forall>a. \<not> driver_memory L a \<and> \<not> inside ?b 131072 a \<longrightarrow> ram (io s6) a = ram (io s4) a"
          by blast
        have "process_uboot_env D L p s = Some (Inr (lba, args, s6))"
          using start rc(1) g(1) slot1 u(1) upg c by (simp add: process_uboot_env_def split: sum.splits)
        moreover have "choice = upgrade_choice slot upgrade ps" "block_log p ?area = upgrade_log p slot upgrade ps"
          using slot1 upg by (simp_all add: ch boot_choice_def boot_log_def)
        moreover have s4: "stored V (dev (io s4)) = stored V (dev (io s))" "sent (io s4) = sent (io s)" "ram (io s4) = ram io1"
          using upg2(2) io1(3) sent1 by (simp_all add: told_def)
        ultimately show ?thesis using e frame1 unfolding s4 by simp
      qed
    qed
  qed
qed

text \<open>A disk without the sectors of the environment.\<close>

lemma process_no_disk:
  assumes dev: "serves D L V" "layout_addresses L" "attached L V (io s)" "usable L (brk (heap s)) 131072" "0 < brk (heap s)"
    and cap: "capacity V < 272"
  shows "\<exists>io'. process_uboot_env D L p s = Some (Inl ((str ''Failed to read u-boot environment from LBA %d\<newline>'', [Va_w 16]), io')) \<and>
    sent io' = sent (io s)"
proof -
  obtain h0 where h0: "alloc (heap s) 131072 = (brk (heap s), h0)"
    using dev(5) by (simp add: alloc_def malloc_eq malloc_ok_def)
  obtain io1 where io1: "virtio_blk_read D L 16 131072 (brk (heap s)) (io s) = Some (- 1, io1)"
    using virtio_blk_read_served[OF dev(1-4), of 16] cap env_sectors[of V] by auto
  show ?thesis using h0 io1 blk_sent(1)[OF io1] by (simp add: process_uboot_env_def)
qed

end
