(* ===== verification/Boot_Cycle.thy ===== *)
theory Boot_Cycle
  imports Boot_Spec
begin

text \<open>
  The settings over any number of boots: an upgrade is tried once and reverted unless it is
  validated.  A boot starts from any memory; what one boot leaves to the next is the disk.
\<close>

section \<open>What a save leaves to the next boot\<close>

definition pair_ok :: "byte list \<times> byte list \<Rightarrow> bool" where
  "pair_ok p \<longleftrightarrow> name_ok (fst p) \<and> cstring (snd p)"

lemma name_ok_parsed: "c \<noteq> 0 \<Longrightarrow> name_ok (c # takeWhile name_char cs)"
proof -
  assume "c \<noteq> 0"
  moreover have "\<forall>x\<in>set (takeWhile name_char cs). name_char x" by (auto dest: set_takeWhileD)
  ultimately show ?thesis by (auto simp: name_ok_def name_char_def cstring_def)
qed

lemma cstring_takeWhile: "cstring (takeWhile (\<lambda>c. c \<noteq> 0) xs)"
  by (auto simp: cstring_def dest: set_takeWhileD)

lemma parse_env_ok: "parse_env bs acc = (r, ps) \<Longrightarrow> \<forall>p\<in>set acc. pair_ok p \<Longrightarrow> \<forall>p\<in>set ps. pair_ok p"
proof (induction bs acc rule: parse_env.induct)
  case (1 bs acc)
  note eq = "1.prems"(1)[unfolded parse_env.simps[of bs acc]]
  show ?case
  proof (cases bs)
    case Nil
    with eq 1 show ?thesis by simp
  next
    case bs: (Cons c cs)
    show ?thesis
    proof (cases "\<exists>d rest z rest'. c \<noteq> 0 \<and> dropWhile name_char cs = d # rest \<and> d \<noteq> 0 \<and>
        dropWhile (\<lambda>c. c \<noteq> 0) rest = z # rest'")
      case False
      then have "ps = acc" using eq bs by (auto split: list.splits if_splits)
      with "1.prems"(2) show ?thesis by simp
    next
      case True
      then obtain d rest z rest' where d: "dropWhile name_char cs = d # rest" "d \<noteq> 0"
        "dropWhile (\<lambda>c. c \<noteq> 0) rest = z # rest'" and c: "c \<noteq> 0" by blast
      let ?p = "(c # takeWhile name_char cs, takeWhile (\<lambda>c. c \<noteq> 0) rest)"
      have "parse_env rest' (?p # acc) = (r, ps)" using eq bs c d by simp
      moreover have "pair_ok ?p" using c name_ok_parsed cstring_takeWhile by (simp add: pair_ok_def)
      then have "\<forall>p\<in>set (?p # acc). pair_ok p" using "1.prems"(2) by simp
      ultimately show ?thesis by (rule "1.IH"[OF bs c d])
    qed
  qed
qed

lemma read_block_ok: "read_block b = Some ps \<Longrightarrow> \<forall>p\<in>set ps. pair_ok p"
  using parse_env_ok[of "window b 4 131072" "[]"]
  by (auto simp: read_block_def split: if_splits prod.splits sum.splits)

lemma read_saved:
  assumes "fits ps" "\<forall>p\<in>set ps. pair_ok p"
  shows "read_block (env_area (save_block d ps)) = Some (rev (sort_key fst ps))"
proof -
  let ?b = "env_area (save_block d ps)" and ?ps = "sort_key fst ps"
  have "bytes_at ?b 131072 = env_block 131072 ?ps"
    using length_env_block[OF assms(1)]
    by (intro nth_equalityI) (auto simp: env_area_def save_block_def assms(1) inside_def)
  moreover have "5 + length (serialize ?ps) \<le> 131072"
    using assms(1) by (simp add: fits_def length_serialize_sort)
  ultimately have "le32 ?b = crc32buf (shift ?b 4) 131068" "window ?b 4 131072 = env_body 131068 ?ps"
    using block_contents[of ?b 131072 ?ps] by simp_all
  moreover have "\<forall>(n, v)\<in>set ?ps. name_ok n \<and> cstring v" using assms(2) by (auto simp: pair_ok_def)
  ultimately show ?thesis using parse_body by (simp add: read_block_def)
qed

section \<open>Settings that are replaced\<close>

lemma al_set_replace: "map_of ps k = Some v0 \<Longrightarrow> al_set k v ps = al_replace k v ps"
  by (auto simp: al_set_def map_of_eq_None_iff[of ps k, symmetric] simp flip: not_None_eq)

lemma length_serialize_Cons: "length (serialize (p # ps)) = length (fst p) + length (snd p) + 2 + length (serialize ps)"
  by (simp add: serialize_def entry_def)

lemma al_replace_shrinks:
  "map_of ps k = Some v0 \<Longrightarrow> length v \<le> length v0 \<Longrightarrow> length (serialize (al_replace k v ps)) \<le> length (serialize ps)"
  by (induction ps) (auto simp: length_serialize_Cons)

lemma fst_al_replace: "map fst (al_replace k v ps) = map fst ps"
  by (induction ps) auto

lemma set_al_replace: "p \<in> set (al_replace k v ps) \<Longrightarrow> p \<in> set ps \<or> p = (k, v)"
  by (induction ps) (auto split: if_splits)

text \<open>What a setting that is there may be replaced by, and what stays true then.\<close>

definition sound :: "settings_list \<Rightarrow> bool" where
  "sound ps \<longleftrightarrow> distinct (map fst ps) \<and> fits ps \<and> (\<forall>p\<in>set ps. pair_ok p)"

lemma sound_al_set:
  assumes "sound ps" "map_of ps k = Some v0" "length v \<le> length v0" "cstring v"
  shows "sound (al_set k v ps)"
proof -
  have "(k, v0) \<in> set ps" by (rule map_of_SomeD[OF assms(2)])
  then have "name_ok k" using assms(1) by (auto simp: sound_def pair_ok_def)
  then show ?thesis
    using assms al_replace_shrinks[OF assms(2,3)] set_al_replace[of _ k v ps]
    unfolding sound_def fits_def al_set_replace[OF assms(2)] fst_al_replace
    by (fastforce simp: pair_ok_def)
qed

text \<open>The settings on a disk.\<close>

definition disk_settings :: "disk \<Rightarrow> (byte list \<rightharpoonup> byte list) \<Rightarrow> bool" where
  "disk_settings d M \<longleftrightarrow> (\<exists>ps. read_block (env_area d) = Some ps \<and> sound ps \<and> M = map_of ps)"

lemma saved_settings:
  assumes "sound ps"
  shows "disk_settings (save_block d ps) (map_of ps)"
proof -
  have "sound (rev (sort_key fst ps))"
    using assms sort_map_key[of fst "\<lambda>x. x" ps] length_serialize_sort[of ps]
    by (simp add: sound_def fits_def rev_map[symmetric])
       (simp add: serialize_def length_concat comp_def rev_map[symmetric] sum_list_rev)
  moreover have "map_of (rev (sort_key fst ps)) = map_of ps"
    using assms by (intro map_of_rev_sort) (simp add: sound_def)
  ultimately show ?thesis
    using read_saved[of ps d] assms unfolding disk_settings_def sound_def by metis
qed

section \<open>One boot\<close>

text \<open>Where the settings are: no upgrade on trial, an upgrade not booted yet, one booted once.\<close>

datatype phase = Stable | Fresh | Tried

definition slot_phase :: "(byte list \<rightharpoonup> byte list) \<Rightarrow> byte list \<Rightarrow> phase \<Rightarrow> bool" where
  "slot_phase M slot ph \<longleftrightarrow> M (str ''nerves_fw_active'') = Some slot \<and> slot \<noteq> [] \<and>
     (case ph of
        Stable \<Rightarrow> \<exists>u. M (str ''upgrade_available'') = Some u \<and> u \<noteq> str ''1''
      | Fresh \<Rightarrow> M (str ''upgrade_available'') = Some (str ''1'') \<and>
          (\<exists>b. M (str ''bootcount'') = Some b \<and> b \<noteq> str ''1'' \<and> b \<noteq> [])
      | Tried \<Rightarrow> M (str ''upgrade_available'') = Some (str ''1'') \<and> M (str ''bootcount'') = Some (str ''1''))"

fun run_slot :: "byte list \<Rightarrow> phase \<Rightarrow> byte list" where
  "run_slot slot Tried = swap_slot slot"
| "run_slot slot _ = slot"

fun next_phase :: "phase \<Rightarrow> phase" where
  "next_phase Fresh = Tried"
| "next_phase _ = Stable"

lemma slot_key_other:
  "slot_key s ''.kernel_lba'' \<notin> {str ''nerves_fw_active'', str ''upgrade_available'', str ''bootcount''}"
  "slot_key s ''.kernel_args'' \<notin> {str ''nerves_fw_active'', str ''upgrade_available'', str ''bootcount''}"
  by (auto simp: slot_key_def str_def of_char_of)

lemma kernel_of_upd:
  "k \<in> {str ''nerves_fw_active'', str ''upgrade_available'', str ''bootcount''} \<Longrightarrow> kernel_of (M(k \<mapsto> v)) s = kernel_of M s"
  using slot_key_other[of s] by (auto simp: kernel_of_def fun_upd_def cong: option.case_cong)

lemma setting_names_differ:
  "str ''nerves_fw_active'' \<noteq> str ''upgrade_available''" "str ''nerves_fw_active'' \<noteq> str ''bootcount''"
  "str ''upgrade_available'' \<noteq> str ''bootcount''" "str ''0'' \<noteq> str ''1''" "str ''1'' \<noteq> []" "str ''0'' \<noteq> []"
  "length (str ''0'') = 1" "length (str ''1'') = 1"
  by (simp_all add: str_def of_char_of)

lemma sound_cstring: "sound ps \<Longrightarrow> map_of ps k = Some v \<Longrightarrow> cstring v"
  by (auto simp: sound_def pair_ok_def dest!: map_of_SomeD)

lemma swap_slot_Nil: "swap_slot s = [] \<longleftrightarrow> s = []"
  by (cases s) (simp_all add: swap_slot_def)

lemma choice_step:
  assumes "disk_settings x M" "slot_phase M slot ph"
  shows "\<exists>M' saved. block_choice (env_area x) = (kernel_of M (run_slot slot ph), saved) \<and>
    slot_named (env_area x) \<and>
    disk_settings (case saved of None \<Rightarrow> x | Some ps \<Rightarrow> save_block x ps) M' \<and>
    slot_phase M' (run_slot slot ph) (next_phase ph) \<and> kernel_of M' = kernel_of M \<and> (ph = Stable \<longrightarrow> saved = None)"
proof -
  obtain ps where ps: "read_block (env_area x) = Some ps" "sound ps" "M = map_of ps"
    using assms(1) by (auto simp: disk_settings_def)
  have named: "slot_named (env_area x)" using ps assms(2) by (auto simp: slot_named_def slot_phase_def)
  note n = setting_names_differ
  show ?thesis
  proof (cases ph)
    case Stable
    with ps assms named show ?thesis
      by (auto simp: block_choice_def boot_choice_def upgrade_choice_def slot_phase_def)
  next
    case Fresh
    then obtain b where b: "M (str ''bootcount'') = Some b" "b \<noteq> str ''1''" "b \<noteq> []"
      and u: "M (str ''nerves_fw_active'') = Some slot" "M (str ''upgrade_available'') = Some (str ''1'')" "slot \<noteq> []"
      using assms(2) by (auto simp: slot_phase_def)
    let ?ps = "al_set (str ''bootcount'') (str ''1'') ps"
    have "Suc 0 \<le> length b" using b(3) by (cases b) simp_all
    then have "sound ?ps" using b(1) ps n by (intro sound_al_set[of ps _ b]) simp_all
    then have "disk_settings (save_block x ?ps) (M(str ''bootcount'' \<mapsto> str ''1''))"
      using saved_settings[of ?ps x] by (simp add: ps(3) map_of_al_set)
    moreover have "block_choice (env_area x) = (kernel_of (M(str ''bootcount'' \<mapsto> str ''1'')) slot, Some ?ps)"
      using ps b u by (simp add: block_choice_def boot_choice_def upgrade_choice_def trial_def map_of_al_set)
    moreover have "slot_phase (M(str ''bootcount'' \<mapsto> str ''1'')) slot Tried"
      using u n by (simp add: slot_phase_def)
    moreover have "kernel_of (M(str ''bootcount'' \<mapsto> str ''1'')) = kernel_of M"
      by (rule ext) (simp add: kernel_of_upd)
    ultimately show ?thesis using Fresh named by auto
  next
    case Tried
    then have u: "M (str ''nerves_fw_active'') = Some slot" "M (str ''upgrade_available'') = Some (str ''1'')" "slot \<noteq> []"
      "M (str ''bootcount'') = Some (str ''1'')"
      using assms(2) by (auto simp: slot_phase_def)
    let ?ps = "revert_slot slot ps"
    let ?M = "M(str ''nerves_fw_active'' \<mapsto> swap_slot slot, str ''upgrade_available'' \<mapsto> str ''0'', str ''bootcount'' \<mapsto> str ''0'')"
    have "cstring (swap_slot slot)" using sound_cstring[OF ps(2)] u(1) ps(3) cstring_swap_slot by blast
    then have 1: "sound (al_set (str ''nerves_fw_active'') (swap_slot slot) ps)"
      using u(1) ps by (intro sound_al_set[of ps _ slot]) simp_all
    have 2: "sound (al_set (str ''upgrade_available'') (str ''0'') (al_set (str ''nerves_fw_active'') (swap_slot slot) ps))"
      using u(2) ps(3) n by (intro sound_al_set[OF 1, of _ "str ''1''"]) (simp_all add: map_of_al_set)
    have "sound ?ps"
      unfolding revert_slot_def using u(4) ps(3) n by (intro sound_al_set[OF 2, of _ "str ''1''"]) (simp_all add: map_of_al_set)
    moreover have M: "map_of ?ps = ?M" by (simp add: revert_slot_def map_of_al_set ps(3))
    ultimately have "disk_settings (save_block x ?ps) ?M" using saved_settings[of ?ps x] by simp
    moreover have "block_choice (env_area x) = (kernel_of ?M (swap_slot slot), Some ?ps)"
      using ps(1) u unfolding M[symmetric] by (simp add: block_choice_def boot_choice_def upgrade_choice_def trial_def ps(3))
    moreover have "slot_phase ?M (swap_slot slot) Stable"
      using u n by (simp add: slot_phase_def swap_slot_Nil)
    moreover have "kernel_of ?M = kernel_of M"
      by (rule ext) (simp add: kernel_of_upd)
    ultimately show ?thesis using Tried named by auto
  qed
qed

section \<open>Any number of boots\<close>

text \<open>Each boot runs the loader from some machine state whose disk is the one the boot before
  left; the list holds what each boot chose.\<close>

inductive boot_run :: "'d device \<Rightarrow> layout \<Rightarrow> 'd drive \<Rightarrow>
    disk \<Rightarrow> (int \<times> byte list option) list \<Rightarrow> disk \<Rightarrow> bool"
  for D :: "'d device" and L :: layout and V :: "'d drive" where
  no_boot: "boot_run D L V x [] x"
| boot: "attached L V (io s) \<Longrightarrow> usable L (brk (heap s)) 131072 \<Longrightarrow> 0 < brk (heap s) \<Longrightarrow> stored V (dev (io s)) = x \<Longrightarrow>
    0 \<le> p \<Longrightarrow> p < 18446744073709551616 \<Longrightarrow>
    process_uboot_env D L p s = Some (Inr (lba, args, s')) \<Longrightarrow> boot_run D L V (stored V (dev (io s'))) ks y \<Longrightarrow>
    boot_run D L V x ((lba, args) # ks) y"

primrec slots :: "byte list \<Rightarrow> phase \<Rightarrow> nat \<Rightarrow> byte list list" where
  "slots slot ph 0 = []"
| "slots slot ph (Suc n) = run_slot slot ph # slots (run_slot slot ph) (next_phase ph) n"

lemma slots_Stable: "slots slot Stable n = replicate n slot"
  by (induction n) simp_all

lemma slots_Fresh: "slots slot Fresh (Suc n) = slot # replicate n (swap_slot slot)"
  by (cases n) (simp_all add: slots_Stable)

lemma boot_run_slots:
  assumes "boot_run D L V x ks y" "serves D L V" "layout_addresses L" "quiet D V" "272 \<le> capacity V"
    "disk_settings x M" "slot_phase M slot ph"
  shows "ks = map (kernel_of M) (slots slot ph (length ks)) \<and> (ph = Stable \<longrightarrow> y = x) \<and>
    (\<exists>M'. disk_settings y M' \<and> kernel_of M' = kernel_of M \<and>
      slot_phase M' (last (slot # slots slot ph (length ks))) ((next_phase ^^ length ks) ph))"
  using assms(1,6,7)
proof (induction arbitrary: M slot ph rule: boot_run.induct)
  case (no_boot x)
  then show ?case by auto
next
  case (boot s x p lba args s' ks y)
  from choice_step[OF boot.prems] obtain M' saved where c:
    "block_choice (env_area x) = (kernel_of M (run_slot slot ph), saved)" "slot_named (env_area x)"
    "disk_settings (case saved of None \<Rightarrow> x | Some ps \<Rightarrow> save_block x ps) M'"
    "slot_phase M' (run_slot slot ph) (next_phase ph)" "kernel_of M' = kernel_of M" "ph = Stable \<longrightarrow> saved = None"
    by blast
  have p: "(lba, args) = kernel_of M (run_slot slot ph)"
    "stored V (dev (io s')) = (case saved of None \<Rightarrow> x | Some ps \<Rightarrow> save_block x ps)"
    using process_spec[OF assms(2,3,4) boot.hyps(1,2,3) assms(5) _ boot.hyps(5,6)] boot.hyps(4,7) c(1,2) by auto
  from boot.IH[OF c(3)[folded p(2)] c(4)] c(5,6) p show ?case
    by (auto simp: funpow_swap1)
qed

text \<open>If every disk can be put behind the device, there are runs of any length.\<close>

lemma boot_run_exists:
  fixes D :: "'d device"
  assumes dev: "serves D L V" "layout_addresses L" "quiet D V" "usable L b 131072" "0 < b" "272 \<le> capacity V"
    and every: "\<forall>x. \<exists>t. attached L V t \<and> stored V (dev t) = x"
    and x: "disk_settings x M" "slot_phase M slot ph"
  shows "\<exists>ks y. length ks = n \<and> boot_run D L V x ks y"
  using x
proof (induction n arbitrary: x M slot ph)
  case 0
  then show ?case using boot_run.no_boot by fastforce
next
  case (Suc n)
  from choice_step[OF Suc.prems] obtain M' saved where c:
    "block_choice (env_area x) = (kernel_of M (run_slot slot ph), saved)" "slot_named (env_area x)"
    "disk_settings (case saved of None \<Rightarrow> x | Some ps \<Rightarrow> save_block x ps) M'"
    "slot_phase M' (run_slot slot ph) (next_phase ph)" by blast
  obtain t where t: "attached L V t" "stored V (dev t) = x" using every by blast
  have "\<exists>s :: 'd boot. attached L V (io s) \<and> usable L (brk (heap s)) 131072 \<and> 0 < brk (heap s) \<and> stored V (dev (io s)) = x"
    by (rule exI[of _ "\<lparr>io = t,
          heap = \<lparr>pairs = (\<lambda>_. \<lparr>nv_name = [], nv_value = [], nv_next = 0\<rparr>), brk = b\<rparr>\<rparr>"])
       (use t dev in simp)
  then obtain s :: "'d boot" where s: "attached L V (io s)" "usable L (brk (heap s)) 131072" "0 < brk (heap s)" "stored V (dev (io s)) = x"
    by blast
  obtain lba args s' where p: "process_uboot_env D L 0 s = Some (Inr (lba, args, s'))"
    "stored V (dev (io s')) = (case saved of None \<Rightarrow> x | Some ps \<Rightarrow> save_block x ps)"
    using process_spec[OF dev(1-3) s(1-3) dev(6), of 0] c(1,2) s(4) by auto
  from Suc.IH[OF c(3)[folded p(2)] c(4)] obtain ks y where
    "length ks = n" "boot_run D L V (stored V (dev (io s'))) ks y" by blast
  with boot_run.boot[OF s _ _ p(1) this(2)] show ?case by (intro exI[of _ "(lba, args) # ks"]) auto
qed

section \<open>Properties\<close>

text \<open>A disk for examples: slot \<open>b\<close> has been written and not been booted yet.\<close>

definition ex_settings :: settings_list where
  "ex_settings =
     [(str ''nerves_fw_active'', str ''b''), (str ''upgrade_available'', str ''1''), (str ''bootcount'', str ''0''),
      (str ''a.kernel_lba'', str ''1024''), (str ''b.kernel_lba'', str ''2048''), (str ''b.kernel_args'', str ''quiet'')]"

definition ex_disk :: disk where
  "ex_disk = save_block (\<lambda>_. 0) ex_settings"

definition ex_machine :: "disk \<Rightarrow> sim boot" where
  "ex_machine x =
     \<lparr>io = \<lparr>dev = \<lparr>image = x, pending = None, taken = 0, finished = 0\<rparr>, ram = (\<lambda>_. 0), accesses = []\<rparr>,
      heap = \<lparr>pairs = (\<lambda>_. \<lparr>nv_name = [], nv_value = [], nv_next = 0\<rparr>), brk = 0x40000\<rparr>\<rparr>"

lemma ex_settings_sound: "sound ex_settings"
  by (simp add: sound_def ex_settings_def fits_def serialize_def entry_def pair_ok_def name_ok_def str_def of_char_of)

lemma ex_disk_settings: "disk_settings ex_disk (map_of ex_settings)"
  unfolding ex_disk_def by (rule saved_settings[OF ex_settings_sound])

lemma ex_fresh: "slot_phase (map_of ex_settings) (str ''b'') Fresh"
  by (simp add: slot_phase_def ex_settings_def str_def of_char_of)

lemma ex_kernels:
  "kernel_of (map_of ex_settings) (str ''b'') = (2048, Some (str ''quiet''))"
  "kernel_of (map_of ex_settings) (swap_slot (str ''b'')) = (1024, None)"
  by (simp_all add: kernel_of_def ex_settings_def slot_key_def first_char_def swap_slot_def str_def of_char_of
      decimal_value_def is_digit_of_def char_to_digit_def u64_def)

lemma ex_buffer: "usable ex_layout 0x40000 131072"
  by (auto simp: usable_def driver_memory_def inside_def ex_layout_def)

lemma sim_quiet: "quiet (sim_device L) sim_drive"
  by (simp add: quiet_def sim_device_def sim_drive_def UART_DR_def UART_FR_def UART0_BASE_def REG_def VIRTIO_BLK_MMIO_BASE_def)

lemma ex_attached_machine: "attached L sim_drive (io (ex_machine x))"
  by (simp add: attached_def sim_drive_def ex_machine_def avail_idx_def load16_def)

lemma ex_every_disk: "\<forall>x. \<exists>t. attached L sim_drive t \<and> stored sim_drive (dev t) = x"
  using ex_attached_machine by (metis (no_types) ex_machine_def boot.select_convs(1) io.select_convs(1) sim.select_convs(1) sim_drive_def drive.select_convs(3))

lemma ex_capacity: "272 \<le> capacity sim_drive"
  by (simp add: sim_drive_def sim_sectors_def)

text \<open>C2: The loader's choice of kernel implements the specification: with a device in working order whose disk has
  the sectors of the environment, and whatever is in memory, \<open>process_uboot_env\<close> returns the block and the arguments that
  \<open>boot_choice\<close> takes from the pairs of the environment block on the disk, or the defaults when the
  block is damaged; the disk is written exactly when an upgrade is on trial, and then holds
  the settings the specification says; what is sent to the serial port is the log of the specification, the
  messages of \<open>uboot_env.c\<close> included;
  memory outside of the buffer and the driver's variables is left alone.\<close>

theorem boot_implements_choice:
  assumes "serves D L V" "layout_addresses L" "quiet D V" "attached L V (io s)" "usable L (brk (heap s)) 131072"
    "0 < brk (heap s)" "272 \<le> capacity V" "slot_named (env_area (stored V (dev (io s))))" "0 \<le> p" "p < 18446744073709551616"
  shows "\<exists>lba args s'. process_uboot_env D L p s = Some (Inr (lba, args, s')) \<and>
    (lba, args) = fst (block_choice (env_area (stored V (dev (io s))))) \<and> attached L V (io s') \<and>
    stored V (dev (io s')) = (case snd (block_choice (env_area (stored V (dev (io s))))) of
      None \<Rightarrow> stored V (dev (io s)) | Some ps \<Rightarrow> save_block (stored V (dev (io s))) ps) \<and>
    sent (io s') = sent (io s) @ block_log p (env_area (stored V (dev (io s)))) \<and>
    (\<forall>a. \<not> driver_memory L a \<and> \<not> inside (brk (heap s)) 131072 a \<longrightarrow> ram (io s') a = ram (io s) a)"
  by (rule process_spec[OF assms])

theorem boot_implements_choice_witness:
  "\<exists>s'. process_uboot_env (sim_device ex_layout) ex_layout 0x50000 (ex_machine ex_disk) = Some (Inr (2048, Some (str ''quiet''), s'))"
proof -
  obtain saved where c: "block_choice (env_area ex_disk) = (kernel_of (map_of ex_settings) (str ''b''), saved)"
    "slot_named (env_area ex_disk)"
    using choice_step[OF ex_disk_settings ex_fresh] by auto
  then show ?thesis
    using boot_implements_choice[where s = "ex_machine ex_disk" and p = "0x50000", OF sim_serves ex_layout_addresses sim_quiet ex_attached_machine _ _ ex_capacity] ex_buffer
    by (auto simp: ex_machine_def ex_kernels sim_drive_def)
qed

text \<open>C3: An upgrade that is not validated is tried once: over any number of boots from a disk whose upgrade
  has not been booted (\<open>upgrade_available\<close> is \<open>1\<close>, and \<open>bootcount\<close> is there, not empty and not \<open>1\<close>; any other number,
  \<open>2\<close> too, counts as not booted), the first boot runs the active slot and every later one the other.  The settings
  are names without repetition that fit the block.\<close>

theorem upgrade_tried_once:
  assumes "boot_run D L V x ks y" "serves D L V" "layout_addresses L" "quiet D V" "272 \<le> capacity V"
    "disk_settings x M" "slot_phase M slot Fresh" "ks \<noteq> []"
  shows "ks = kernel_of M slot # replicate (length ks - 1) (kernel_of M (swap_slot slot))"
proof -
  obtain n where n: "length ks = Suc n" using assms(8) by (cases ks) auto
  then show ?thesis
    using boot_run_slots[OF assms(1-7)] by (simp only: n slots_Fresh) (simp add: map_replicate_const)
qed

theorem upgrade_tried_once_witness:
  "\<exists>y. boot_run (sim_device ex_layout) ex_layout sim_drive ex_disk
     [(2048, Some (str ''quiet'')), (1024, None), (1024, None)] y"
proof -
  obtain ks y where r: "length ks = 3" "boot_run (sim_device ex_layout) ex_layout sim_drive ex_disk ks y"
    using boot_run_exists[OF sim_serves ex_layout_addresses sim_quiet ex_buffer _ ex_capacity ex_every_disk ex_disk_settings ex_fresh, of 3] by auto
  then have "ks \<noteq> []" by auto
  with r have "ks = [(2048, Some (str ''quiet'')), (1024, None), (1024, None)]"
    using upgrade_tried_once[OF r(2) sim_serves ex_layout_addresses sim_quiet ex_capacity ex_disk_settings ex_fresh] ex_kernels
    by (auto simp: numeral_eq_Suc)
  with r(2) show ?thesis by blast
qed

text \<open>C4: When \<open>upgrade_available\<close> is there and not \<open>1\<close>, every boot runs the active slot, and no boot writes the
  disk.\<close>

theorem stable_slot_kept:
  assumes "boot_run D L V x ks y" "serves D L V" "layout_addresses L" "quiet D V" "272 \<le> capacity V"
    "disk_settings x M" "slot_phase M slot Stable"
  shows "ks = replicate (length ks) (kernel_of M slot) \<and> y = x"
  using boot_run_slots[OF assms] by (simp add: slots_Stable map_replicate_const)

definition ex_stable :: settings_list where
  "ex_stable = [(str ''nerves_fw_active'', str ''a''), (str ''upgrade_available'', str ''0''), (str ''a.kernel_lba'', str ''1024'')]"

lemma ex_stable_sound: "sound ex_stable"
  by (simp add: sound_def ex_stable_def fits_def serialize_def entry_def pair_ok_def name_ok_def str_def of_char_of)

lemma ex_stable_disk: "disk_settings (save_block d ex_stable) (map_of ex_stable)"
  by (rule saved_settings[OF ex_stable_sound])

lemma ex_stable_phase: "slot_phase (map_of ex_stable) (str ''a'') Stable"
  by (simp add: slot_phase_def ex_stable_def str_def of_char_of)

lemma ex_stable_kernel: "kernel_of (map_of ex_stable) (str ''a'') = (1024, None)"
  by (simp add: kernel_of_def ex_stable_def slot_key_def first_char_def str_def of_char_of
      decimal_value_def is_digit_of_def char_to_digit_def u64_def)

lemma ex_stable_choice:
  "fst (block_choice (env_area (save_block d ex_stable))) = (1024, None)"
  "snd (block_choice (env_area (save_block d ex_stable))) = None"
  "slot_named (env_area (save_block d ex_stable))"
  using choice_step[OF ex_stable_disk ex_stable_phase, of d] ex_stable_kernel by auto

theorem stable_slot_kept_witness:
  "boot_run (sim_device ex_layout) ex_layout sim_drive (save_block ex_disk ex_stable)
     [(1024, None), (1024, None)] (save_block ex_disk ex_stable)"
proof -
  obtain ks y where r: "length ks = 2"
    "boot_run (sim_device ex_layout) ex_layout sim_drive (save_block ex_disk ex_stable) ks y"
    using boot_run_exists[OF sim_serves ex_layout_addresses sim_quiet ex_buffer _ ex_capacity ex_every_disk ex_stable_disk[of ex_disk] ex_stable_phase, of 2] by auto
  then have "ks = [(1024, None), (1024, None)] \<and> y = save_block ex_disk ex_stable"
    using stable_slot_kept[OF r(2) sim_serves ex_layout_addresses sim_quiet ex_capacity ex_stable_disk[of ex_disk] ex_stable_phase] ex_stable_kernel by (simp add: numeral_eq_Suc)
  with r(2) show ?thesis by blast
qed

end
