(* ===== verification/Boot_Kernel.thy ===== *)
theory Boot_Kernel
  imports Boot_Spec
begin

text \<open>Loading the kernel (\<open>load_kernel\<close>) from a disk behind a device that serves its requests.\<close>

lemma kernel_header_at_cong:
  assumes "\<forall>i. 0 \<le> i \<and> i < 64 \<longrightarrow> m (p + i) = m' (q + i)"
  shows "kernel_header_at m p = kernel_header_at m' q"
proof -
  have e: "rd m (p + k) i = rd m' (q + k) i" if "0 \<le> k" "0 \<le> i" "k + i < 64" for k i
    using assms that by (simp add: add.assoc)
  have "load32 (rd m (p + k)) = load32 (rd m' (q + k))" if "0 \<le> k" "k \<le> 60" for k
    using that by (intro load_cong(2) e) auto
  moreover have "load64 (rd m (p + k)) = load64 (rd m' (q + k))" if "0 \<le> k" "k \<le> 56" for k
    using that by (intro load_cong(3) e) auto
  moreover have "load32 (rd m p) = load32 (rd m' q)" using e[of 0] by (intro load_cong(2)) simp
  ultimately show ?thesis by (simp add: kernel_header_at_def)
qed

text \<open>The sectors of an image.\<close>

definition image_sectors :: "int \<Rightarrow> int" where
  "image_sectors n = (n + 511) div 512"

lemma image_sectors_bounds:
  assumes "0 < n" "n \<le> 67108864"
  shows "1 \<le> image_sectors n \<and> image_sectors n \<le> 131072 \<and> n \<le> 512 * image_sectors n \<and> 512 * image_sectors n < n + 512"
  using assms mult_div_mod_eq[of 512 "n + 511"] pos_mod_bound[of 512 "n + 511"] pos_mod_sign[of 512 "n + 511"]
  unfolding image_sectors_def by linarith

lemma usable_sub: "usable L p n \<Longrightarrow> p \<le> q \<Longrightarrow> q + k \<le> p + n \<Longrightarrow> 0 \<le> k \<Longrightarrow> q < 18446744073709551616 \<Longrightarrow> usable L q k"
  by (auto simp: usable_def inside_def)

lemma uint_positive: "(w :: 'a :: len word) \<noteq> 0 \<Longrightarrow> 0 < uint w"
  using uint_0_iff[of w] uint_ge_0[of w] by linarith

text \<open>Why an image is not loaded, for a disk of \<open>cap\<close> sectors, and what \<open>load_kernel\<close> then passes to \<open>fatal\<close>.\<close>

datatype refusal = No_header | No_magic | Too_big | No_image

definition load_refusal :: "int \<Rightarrow> disk \<Rightarrow> int \<Rightarrow> refusal option" where
  "load_refusal cap d lba =
     (let h = kernel_header_at d (512 * lba); n = uint (image_size h) in
      if cap \<le> lba then Some No_header
      else if magic h \<noteq> 0x644d5241 then Some No_magic
      else if 67108864 < n then Some Too_big
      else if cap < lba + image_sectors n then Some No_image
      else None)"

definition refusal_message :: "int \<Rightarrow> int \<Rightarrow> refusal \<Rightarrow> message" where
  "refusal_message lba n r =
     (case r of
        No_header \<Rightarrow> (str ''Failed to read kernel header at LBA %lu'', [Va_x lba])
      | No_magic \<Rightarrow> (str (''Linux kernel header magic isn'' @ CHR 0x27 # ''t ARM'' @ CHR 0x5C # ''x64''), [])
      | Too_big \<Rightarrow> (str ''Linux kernel header image size of %lu is larger than max support size of %lu'', [Va_x n, Va_w 67108864])
      | No_image \<Rightarrow> (str ''Failed to read kernel'', []))"

lemma load_kernel_spec:
  assumes dev: "serves D L V" "layout_addresses L" "attached L V s"
    and base: "usable L base (512 + 67108864)" "base + 512 < 18446744073709551616"
    and lba: "0 \<le> lba" "lba < 18446744073709551616"
  defines "hdr \<equiv> kernel_header_at (stored V (dev s)) (512 * lba)" and "refused \<equiv> load_refusal (capacity V) (stored V (dev s)) lba"
  assumes size: "refused = None \<longrightarrow> image_size hdr \<noteq> 0"
  shows "\<exists>s'. load_kernel D L lba base s =
        Some (case refused of
            Some r \<Rightarrow> Inl (refusal_message lba (uint (image_size hdr)) r, s')
          | None \<Rightarrow> Inr (uint (image_size hdr), s')) \<and>
      attached L V s' \<and> stored V (dev s') = stored V (dev s) \<and> sent s' = sent s \<and>
      (refused = None \<longrightarrow> (\<forall>a. \<not> driver_memory L a \<longrightarrow>
         ram s' a = (if inside base (512 * image_sectors (uint (image_size hdr))) a
                     then stored V (dev s) (512 * lba + (a - base)) else ram s a)))"
proof -
  have u: "usable L base 512" using base by (intro usable_sub[OF base(1)]) (auto simp: usable_def)
  have there: "on_disk (capacity V) lba 512 \<longleftrightarrow> lba < capacity V" by (auto simp: on_disk_def)
  obtain s1 where s1: "virtio_blk_read D L lba 512 base s = Some (if lba < capacity V then 512 else - 1, s1)" "attached L V s1"
    "stored V (dev s1) = stored V (dev s)" "\<forall>a. \<not> driver_memory L a \<and> \<not> inside base 512 a \<longrightarrow> ram s1 a = ram s a"
    "lba < capacity V \<longrightarrow> (\<forall>a. inside base 512 a \<longrightarrow> ram s1 a = stored V (dev s) (512 * lba + (a - base)))"
    using virtio_blk_read_served[OF dev u lba] unfolding there by blast
  note sent1 = blk_sent(1)[OF s1(1)]
  have free: "\<not> driver_memory L a" if "inside base (512 + 67108864) a" for a
    using that base(1) by (auto simp: usable_def)
  let ?n = "uint (image_size hdr)" and ?k = "image_sectors (uint (image_size hdr))"
  show ?thesis
  proof (cases "lba < capacity V")
    case False
    then have "refused = Some No_header" by (simp add: refused_def load_refusal_def)
    with False s1(1-3) sent1 show ?thesis by (simp add: load_kernel_def refusal_message_def Let_def)
  next
    case True
    have h1: "kernel_header_at (ram s1) base = hdr"
      unfolding hdr_def using s1(5) True by (intro kernel_header_at_cong) (auto simp: inside_def)
    have ref: "refused = (if magic hdr \<noteq> 0x644d5241 then Some No_magic else if 67108864 < ?n then Some Too_big
        else if capacity V < lba + ?k then Some No_image else None)"
      using True by (simp add: refused_def load_refusal_def hdr_def Let_def)
    show ?thesis
    proof (cases "magic hdr \<noteq> 0x644d5241 \<or> 67108864 < ?n")
      case bad: True
      with s1(1-3) sent1 h1 ref True show ?thesis by (auto simp: load_kernel_def refusal_message_def Let_def)
    next
      case ok: False
      have pos: "image_size hdr \<noteq> 0"
      proof
        assume "image_size hdr = 0"
        with ok ref True have "refused = None" by (simp add: image_sectors_def)
        with size \<open>image_size hdr = 0\<close> show False by simp
      qed
      have n: "0 < ?n" "?n \<le> 67108864" using uint_positive[OF pos] ok by simp_all
      note k = image_sectors_bounds[OF n]
      have ns: "s32 (u64 (?n + 512 - 1) div 512) = ?k"
        using n k by (simp add: u64_id s32_id image_sectors_def add.commute)
      have "lba + 1 < 18446744073709551616" using True dev(1) by (simp add: serves_def)
      then have lba1: "u64 (lba + 1) = lba + 1" "0 \<le> lba + 1" "lba + 1 < 18446744073709551616" using lba by (simp_all add: u64_id)
      have u2: "usable L (base + 512) ((?k - 1) * 512)"
        using base k by (intro usable_sub[OF base(1)]) (auto simp: usable_def)
      have all: "on_disk (capacity V) (lba + 1) ((?k - 1) * 512) \<longleftrightarrow> \<not> capacity V < lba + ?k"
        by (auto simp: on_disk_def)
      obtain s2 where s2: "virtio_blk_read D L (lba + 1) ((?k - 1) * 512) (base + 512) s1 =
          Some (if \<not> capacity V < lba + ?k then (?k - 1) * 512 else - 1, s2)"
        "attached L V s2" "stored V (dev s2) = stored V (dev s)"
        "\<forall>a. \<not> driver_memory L a \<and> \<not> inside (base + 512) ((?k - 1) * 512) a \<longrightarrow> ram s2 a = ram s1 a"
        "\<not> capacity V < lba + ?k \<longrightarrow>
           (\<forall>a. inside (base + 512) ((?k - 1) * 512) a \<longrightarrow> ram s2 a = stored V (dev s) (512 * (lba + 1) + (a - (base + 512))))"
        using virtio_blk_read_served[OF dev(1,2) s1(2) u2 lba1(2,3)] unfolding s1(3) all by blast
      have sent2: "sent s2 = sent s" using blk_sent(1)[OF s2(1)] sent1 by simp
      show ?thesis
      proof (cases "capacity V < lba + ?k")
        case short: True
        with ok ref have "refused = Some No_image" by simp
        with s1(1) h1 ok ns s2(1-3) sent2 lba1(1) True short show ?thesis
          by (simp add: load_kernel_def refusal_message_def Let_def)
      next
        case enough: False
        with ok ref have none: "refused = None" by simp
        have r2: "ram s2 a = (if inside base (512 * ?k) a then stored V (dev s) (512 * lba + (a - base)) else ram s a)"
          if "\<not> driver_memory L a" for a
        proof -
          consider "inside (base + 512) ((?k - 1) * 512) a" | "inside base 512 a" "\<not> inside (base + 512) ((?k - 1) * 512) a"
            | "\<not> inside base 512 a" "\<not> inside (base + 512) ((?k - 1) * 512) a" by blast
          then show ?thesis
          proof cases
            case 1
            moreover have "inside base (512 * ?k) a" using 1 by (auto simp: inside_def algebra_simps)
            ultimately show ?thesis using s2(5) enough by (simp add: algebra_simps)
          next
            case 2
            moreover have "inside base (512 * ?k) a" using 2(1) k by (auto simp: inside_def)
            ultimately show ?thesis using s2(4) s1(5) True that by simp
          next
            case 3
            moreover have "\<not> inside base (512 * ?k) a" using 3 by (auto simp: inside_def algebra_simps)
            ultimately show ?thesis using s2(4) s1(4) that by simp
          qed
        qed
        have "kernel_header_at (ram s2) base = hdr"
          unfolding hdr_def using r2 free k by (intro kernel_header_at_cong) (auto simp: inside_def)
        then have "load_kernel D L lba base s = Some (Inr (?n, s2))"
          using s1(1) h1 ok ns s2(1) lba1(1) k True enough by (simp add: load_kernel_def Let_def)
        with s2(2,3) sent2 r2 none show ?thesis by auto
      qed
    qed
  qed
qed

lemma byte_masks:
  "(0xFF :: 32 word) = push_bit 0 (mask 8)" "(0xFF00 :: 32 word) = push_bit 8 (mask 8)"
  "(0xFF0000 :: 32 word) = push_bit 16 (mask 8)" "(0xFF000000 :: 32 word) = push_bit 24 (mask 8)"
  by (simp_all add: mask_eq_exp_minus_1)

lemma bit_byte_masks: "bit (0xFF :: 32 word) n \<longleftrightarrow> n < 8" "bit (0xFF00 :: 32 word) n \<longleftrightarrow> 8 \<le> n \<and> n < 16"
    "bit (0xFF0000 :: 32 word) n \<longleftrightarrow> 16 \<le> n \<and> n < 24" "bit (0xFF000000 :: 32 word) n \<longleftrightarrow> 24 \<le> n \<and> n < 32"
  by (simp_all only: byte_masks bit_push_bit_iff bit_mask_iff possible_bit_word) auto

lemma be32_to_le32_swaps: "be32_to_le32 x = fdt32_to_cpu x"
  by (rule word32_eqI) (simp_all add: be32_to_le32_def fdt32_to_cpu_bits bit_and_iff bit_or_iff bit_drop_bit_eq bit_push_bit_iff possible_bit_word bit_byte_masks del: bit_numeral_iff bit_numeral_word_iff)

section \<open>Properties\<close>

text \<open>A disk with the image of a kernel of 1000 bytes at sector 1024.\<close>

definition ex_image :: disk where
  "ex_image a =
     (if a = 524289 then 0x14 else if a = 524304 then 0xe8 else if a = 524305 then 3
      else if a = 524344 then 0x41 else if a = 524345 then 0x52 else if a = 524346 then 0x4d
      else if a = 524347 then 0x64 else 0)"

lemma ex_image_header:
  "magic (kernel_header_at ex_image 524288) = 0x644d5241" "image_size (kernel_header_at ex_image 524288) = 1000"
  by (simp_all add: kernel_header_at_def load32_def load64_def shift_apply ex_image_def)

text \<open>C8: With a device in working order, \<open>load_kernel\<close> loads exactly the images that have the magic number, are of at
  most 64 MiB and are on the disk to their last sector; it copies all bytes of such an image to the load address and
  returns its size, memory behind the image's last sector keeps its contents, and the disk
  too.  Otherwise the message says what is wrong.  An image of size 0 is the exception: of an image that is not
  refused the size is taken to be positive.\<close>

theorem load_kernel_image:
  assumes "serves D L V" "layout_addresses L" "attached L V s"
    "usable L base (512 + 67108864)" "base + 512 < 18446744073709551616" "0 \<le> lba" "lba < 18446744073709551616"
    "hdr = kernel_header_at (stored V (dev s)) (512 * lba)"
    "load_refusal (capacity V) (stored V (dev s)) lba = None \<longrightarrow> image_size hdr \<noteq> 0"
  shows "\<exists>s'. stored V (dev s') = stored V (dev s) \<and>
    (case load_refusal (capacity V) (stored V (dev s)) lba of
       Some r \<Rightarrow> load_kernel D L lba base s = Some (Inl (refusal_message lba (uint (image_size hdr)) r, s'))
     | None \<Rightarrow> load_kernel D L lba base s = Some (Inr (uint (image_size hdr), s')) \<and>
         (\<forall>i. 0 \<le> i \<and> i < uint (image_size hdr) \<longrightarrow> ram s' (base + i) = stored V (dev s) (512 * lba + i)) \<and>
         (\<forall>a. \<not> driver_memory L a \<and> \<not> inside base (uint (image_size hdr) + 511) a \<longrightarrow> ram s' a = ram s a))"
proof -
  let ?n = "uint (image_size hdr)" and ?ref = "load_refusal (capacity V) (stored V (dev s)) lba"
  note loaded = load_kernel_spec[OF assms(1-7) assms(9)[unfolded assms(8)], folded assms(8)]
  obtain s' where s': "load_kernel D L lba base s =
        Some (case ?ref of Some r \<Rightarrow> Inl (refusal_message lba ?n r, s') | None \<Rightarrow> Inr (?n, s'))" "stored V (dev s') = stored V (dev s)"
    and at: "?ref = None \<longrightarrow> (\<forall>a. \<not> driver_memory L a \<longrightarrow>
        ram s' a = (if inside base (512 * image_sectors ?n) a then stored V (dev s) (512 * lba + (a - base)) else ram s a))"
    using loaded by (elim exE conjE) (rule that)
  show ?thesis
  proof (cases ?ref)
    case (Some r)
    with s' show ?thesis by auto
  next
    case None
    then have n: "0 < ?n" "?n \<le> 67108864"
      using uint_positive assms(9) by (auto simp: load_refusal_def assms(8) Let_def split: if_splits)
    note k = image_sectors_bounds[OF n] and at = at[rule_format, OF None]
    have "ram s' (base + i) = stored V (dev s) (512 * lba + i)" if "0 \<le> i" "i < ?n" for i
    proof -
      have "inside base (512 + 67108864) (base + i)" "inside base (512 * image_sectors ?n) (base + i)"
        using that n k by (simp_all add: inside_def)
      then show ?thesis using at assms(4) by (simp add: usable_def)
    qed
    moreover have "ram s' a = ram s a" if "\<not> driver_memory L a" "\<not> inside base (?n + 511) a" for a
      using at[OF that(1)] that(2) k by (auto simp: inside_def)
    ultimately show ?thesis using None s' by auto
  qed
qed

theorem load_kernel_image_witness:
  "\<exists>s'. load_kernel (sim_device ex_layout) ex_layout 1024 0x40200000
     \<lparr>dev = \<lparr>image = ex_image, pending = None, taken = 0, finished = 0\<rparr>, ram = (\<lambda>_. 0), accesses = []\<rparr> = Some (Inr (1000, s')) \<and>
     ram s' 0x40200001 = 0x14 \<and> ram s' 0x40300000 = 0"
proof -
  let ?s = "\<lparr>dev = \<lparr>image = ex_image, pending = None, taken = 0, finished = 0\<rparr>, ram = (\<lambda>_. 0), accesses = []\<rparr> :: sim io"
  have u: "usable ex_layout 0x40200000 (512 + 67108864)"
    by (auto simp: usable_def driver_memory_def inside_def ex_layout_def)
  have att: "attached ex_layout sim_drive ?s"
    by (simp add: attached_def sim_drive_def avail_idx_def load16_def)
  have "load_refusal (capacity sim_drive) (stored sim_drive (dev ?s)) 1024 = None"
    by (simp add: load_refusal_def sim_drive_def sim_sectors_def ex_image_header image_sectors_def)
  with load_kernel_image[OF sim_serves ex_layout_addresses att u _ _ _ refl, where lba = 1024] ex_image_header
  obtain s' where s': "load_kernel (sim_device ex_layout) ex_layout 1024 0x40200000 ?s = Some (Inr (1000, s'))"
    and at: "\<forall>i. 0 \<le> i \<and> i < 1000 \<longrightarrow> ram s' (0x40200000 + i) = ex_image (524288 + i)"
    and out: "\<forall>a. \<not> driver_memory ex_layout a \<and> \<not> inside 0x40200000 1511 a \<longrightarrow> ram s' a = 0"
    by (auto simp: sim_drive_def)
  have "ram s' (0x40200000 + 1) = ex_image (524288 + 1)" using at[rule_format, of 1] by simp
  moreover have "ram s' 0x40300000 = 0" using out by (auto simp: driver_memory_def inside_def ex_layout_def)
  ultimately show ?thesis using s' by (auto simp: ex_image_def)
qed

end
