(* ===== verification/Fdt_Local.thy ===== *)
theory Fdt_Local
  imports Fdt_Rw
begin

text \<open>
  What of memory the tree functions read, and what they write.

  The walk over the structure block reads, of each item, the item itself, and of a property
  only its first eight bytes; the searches built on it never look at the value of a property
  they skip.  From this follow the round trip of \<open>fdt_setprop_inplace\<close> and \<open>fdt_getprop\<close> and
  the bounds of what a splice writes.
\<close>

section \<open>Headers and pointers\<close>

lemma fdt_get_header_cong: "same_on f 40 m m' \<Longrightarrow> 0 \<le> k \<Longrightarrow> k \<le> 36 \<Longrightarrow> fdt_get_header m f k = fdt_get_header m' f k"
  unfolding fdt_get_header_def by (intro arg_cong[of _ _ uint] fdt32_ld_cong) (simp add: same_on_def)

lemma same_header:
  assumes "same_on f 40 m m'"
  shows "fdt_magic m f = fdt_magic m' f \<and> fdt_totalsize m f = fdt_totalsize m' f \<and>
    fdt_off_dt_struct m f = fdt_off_dt_struct m' f \<and> fdt_off_dt_strings m f = fdt_off_dt_strings m' f \<and>
    fdt_off_mem_rsvmap m f = fdt_off_mem_rsvmap m' f \<and> fdt_version m f = fdt_version m' f \<and>
    fdt_last_comp_version m f = fdt_last_comp_version m' f \<and>
    fdt_size_dt_strings m f = fdt_size_dt_strings m' f \<and> fdt_size_dt_struct m f = fdt_size_dt_struct m' f"
  by (intro conjI fdt_get_header_cong[OF assms]) simp_all

lemma fdt_offset_ptr_cong: "same_on f 40 m m' \<Longrightarrow> fdt_offset_ptr m f o1 n = fdt_offset_ptr m' f o1 n"
  by (drule same_header) (auto simp: fdt_offset_ptr_def fdt_offset_ptr'_def Let_def)

lemma fdt_ro_probe'_cong: "same_on f 40 m m' \<Longrightarrow> fdt_ro_probe' m f = fdt_ro_probe' m' f"
  by (drule same_header) (simp add: fdt_ro_probe'_def Let_def)

lemma fdt_offset_ptr_Some:
  assumes "fdt_offset_ptr m f o1 n = Some p" "is_int o1"
  shows "p = fdt_offset_ptr' m f o1 \<and> 0 \<le> o1 \<and> fdt_off_dt_struct m f + o1 + u32 n \<le> fdt_totalsize m f \<and>
         (fdt_version m f \<ge> 17 \<longrightarrow> o1 + u32 n \<le> fdt_size_dt_struct m f)"
proof -
  let ?s = "fdt_off_dt_struct m f"
  have o: "s32 o1 = o1" "o1 \<le> 2147483647" using assms(2) by (simp_all add: s32_is_int is_int_def)
  from assms(1) have n: "0 \<le> o1" by (auto simp: fdt_offset_ptr_def Let_def o split: if_splits)
  have c: "\<not> u32 (o1 + ?s) < o1" "\<not> u32 (u32 (o1 + ?s) + u32 n) < u32 (o1 + ?s)"
    "u32 (u32 (o1 + ?s) + u32 n) \<le> fdt_totalsize m f" "p = fdt_offset_ptr' m f o1"
    "fdt_version m f \<ge> 17 \<longrightarrow> \<not> u32 (o1 + u32 n) < o1 \<and> u32 (o1 + u32 n) \<le> fdt_size_dt_struct m f"
    using assms(1) n o by (auto simp: fdt_offset_ptr_def Let_def u32_id split: if_splits)
  have a: "u32 (o1 + ?s) = o1 + ?s" using c(1) n o by (intro u32_add_exact) simp_all
  have r: "0 \<le> o1 + ?s" "o1 + ?s < 4294967296" using a u32_range[of "o1 + ?s"] n by linarith+
  have "u32 (o1 + ?s + u32 n) = o1 + ?s + u32 n"
    using c(2) r unfolding a by (intro u32_add_exact) simp_all
  moreover have "u32 (o1 + u32 n) = o1 + u32 n" if "fdt_version m f \<ge> 17"
    using c(5) that n o by (intro u32_add_exact) simp_all
  ultimately show ?thesis using c n unfolding a by auto
qed

lemma fdt32_ld'_cong: "same_on p n m m' \<Longrightarrow> p \<le> q \<Longrightarrow> q + 4 \<le> p + n \<Longrightarrow> fdt32_ld' m q = fdt32_ld' m' q"
  unfolding fdt32_ld'_def using load_same_on(2) by metis

section \<open>One item\<close>

text \<open>Two memories with the same place of the structure block, where a pointer into the first \<open>B\<close>
  bytes of the block that is good in the one is good in the other; and that agree on the bytes from
  \<open>a\<close> to \<open>b\<close> of the block.\<close>

definition same_head :: "mem \<Rightarrow> addr \<Rightarrow> int \<Rightarrow> mem \<Rightarrow> bool" where
  "same_head m f B m' \<longleftrightarrow> fdt_off_dt_struct m' f = fdt_off_dt_struct m f \<and> fdt_version m' f = fdt_version m f \<and>
     (\<forall>i n p. fdt_offset_ptr m f i n = Some p \<longrightarrow> s32 i + u32 n \<le> B \<longrightarrow> fdt_offset_ptr m' f i n = Some p)"

definition same_item :: "mem \<Rightarrow> addr \<Rightarrow> int \<Rightarrow> int \<Rightarrow> int \<Rightarrow> mem \<Rightarrow> bool" where
  "same_item m f B a b m' \<longleftrightarrow> same_head m f B m' \<and> same_on (f + fdt_off_dt_struct m f + a) (b - a) m m'"

lemma same_head_same_on: "same_on f 40 m m' \<Longrightarrow> same_head m f B m'"
  using fdt_offset_ptr_cong[of f m m'] same_header[of f m m'] by (simp add: same_head_def)

lemma same_headD:
  assumes "same_head m f B m'"
  shows "fdt_offset_ptr' m' f = fdt_offset_ptr' m f" "fdt_version m' f = fdt_version m f"
    "fdt_offset_ptr m f i n = Some p \<Longrightarrow> is_int i \<Longrightarrow> i + u32 n \<le> B \<Longrightarrow> fdt_offset_ptr m' f i n = Some p"
  using assms by (auto simp: same_head_def fdt_offset_ptr'_def fun_eq_iff s32_is_int)

lemma same_item_sub: "same_item m f B a b m' \<Longrightarrow> a \<le> a' \<Longrightarrow> b' \<le> b \<Longrightarrow> same_item m f B a' b' m'"
  by (auto simp: same_item_def same_on_def)

lemma same_item_head: "same_item m f B a b m' \<Longrightarrow> same_head m f B m'"
  by (simp add: same_item_def)

lemma same_item_byte:
  "same_item m f B a b m' \<Longrightarrow> a \<le> i \<Longrightarrow> i < b \<Longrightarrow> m (fdt_offset_ptr' m f i) = m' (fdt_offset_ptr' m f i)"
  by (auto simp: same_item_def same_on_def fdt_offset_ptr'_def)

lemma same_item_ld:
  assumes "same_item m f B a b m'" "a \<le> i" "i + 4 \<le> b"
  shows "fdt32_ld' m (fdt_offset_ptr' m f i) = fdt32_ld' m' (fdt_offset_ptr' m f i)"
  using assms by (intro fdt32_ld'_cong[of "f + fdt_off_dt_struct m f + a" "b - a"])
    (auto simp: same_item_def fdt_offset_ptr'_def)

lemma next_tag_name_local:
  "next_tag_name m f o1 = Some r \<Longrightarrow> is_int o1 \<Longrightarrow> 0 \<le> r \<Longrightarrow> same_item m f B o1 r m' \<Longrightarrow>
   r \<le> B \<Longrightarrow> next_tag_name m' f o1 = Some r"
proof (induction m f o1 arbitrary: r rule: next_tag_name.induct)
  case (1 m f o1)
  note r = "1.prems"(1)[unfolded next_tag_name.simps[of m f o1]]
  note same = "1.prems"(4)
  obtain p where p: "fdt_offset_ptr m f o1 1 = Some p" using r by (auto split: option.splits)
  have o: "0 \<le> o1" "o1 \<le> 2147483647" "p = fdt_offset_ptr' m f o1"
    using fdt_offset_ptr_Some[OF p "1.prems"(2)] "1.prems"(2) by (auto simp: is_int_def)
  have lt: "o1 < r"
    using next_tag_name_progress[OF "1.prems"(1)] "1.prems"(2,3) by (auto simp: s32_is_int)
  then have p': "fdt_offset_ptr m' f o1 1 = Some p"
    using same_headD(3)[OF same_item_head[OF same] p "1.prems"(2)] "1.prems"(5) by (simp add: u32_id)
  from lt have mp: "m p = m' p" using same_item_byte[OF same, of o1] o by simp
  show ?case
  proof (cases "m p = 0")
    case True
    with r p p' mp show ?thesis by (simp add: next_tag_name.simps[of m' f o1])
  next
    case False
    with r p have r': "next_tag_name m f (s32 (o1 + 1)) = Some r" by simp
    have "0 \<le> s32 (o1 + 1)" using next_tag_name_nonneg[OF r'] by simp
    then have s: "s32 (o1 + 1) = o1 + 1" using s32_cases[of "o1 + 1"] o by auto
    have "same_item m f B (s32 (o1 + 1)) r m'" using same by (rule same_item_sub) (simp_all add: s)
    then have "next_tag_name m' f (s32 (o1 + 1)) = Some r"
      using "1.IH"[OF p False r'] "1.prems"(3,5) by simp
    with p' mp False show ?thesis by (simp add: next_tag_name.simps[of m' f o1])
  qed
qed

text \<open>How much of an item decides it: the tag and length of a property, all of the others.\<close>

definition item_read :: "int \<Rightarrow> int \<Rightarrow> int \<Rightarrow> int" where
  "item_read tag o1 nx = (if tag = FDT_PROP then o1 + 8 else nx)"

lemma fdt_next_tag_cases:
  assumes "fdt_next_tag m f o1 = (tag, nx)" "tag \<noteq> FDT_END" "is_int o1"
  obtains e where "fdt_offset_ptr m f o1 4 \<noteq> None" "fdt32_ld' m (fdt_offset_ptr' m f o1) = tag"
    "next_tag_skip m f tag (s32 (o1 + 4)) = Some e" "fdt_offset_ptr m f o1 (e - o1) \<noteq> None"
    "nx = FDT_TAGALIGN e"
proof -
  from assms(1,2) obtain tagp e where t: "fdt_offset_ptr m f o1 4 = Some tagp" "fdt32_ld' m tagp = tag"
    "next_tag_skip m f tag (s32 (o1 + 4)) = Some e" "fdt_offset_ptr m f o1 (e - o1) \<noteq> None"
    "nx = FDT_TAGALIGN e"
    by (auto simp: fdt_next_tag_def Let_def split: option.splits if_splits)
  with fdt_offset_ptr_Some[OF t(1) assms(3)] show thesis using that by auto
qed

lemma fdt_next_tag_intro:
  assumes "fdt_offset_ptr m f o1 4 \<noteq> None" "fdt32_ld' m (fdt_offset_ptr' m f o1) = tag" "is_int o1"
    "next_tag_skip m f tag (s32 (o1 + 4)) = Some e" "fdt_offset_ptr m f o1 (e - o1) \<noteq> None"
  shows "fdt_next_tag m f o1 = (tag, FDT_TAGALIGN e)"
proof -
  from assms(1) obtain p where p: "fdt_offset_ptr m f o1 4 = Some p" by auto
  with fdt_offset_ptr_Some[OF p assms(3)] assms show ?thesis by (auto simp: fdt_next_tag_def Let_def)
qed

lemma next_tag_prop_local:
  assumes "next_tag_prop m f o1 = Some e" "same_item m f B o1 (o1 + 4) m'" "is_int o1" "o1 + 4 \<le> B"
  shows "next_tag_prop m' f o1 = Some e"
proof -
  obtain p where p: "fdt_offset_ptr m f o1 4 = Some p" using assms(1) by (auto simp: next_tag_prop_def split: option.splits)
  have "p = fdt_offset_ptr' m f o1" using fdt_offset_ptr_Some[OF p assms(3)] by simp
  then have "fdt32_ld' m p = fdt32_ld' m' p" using same_item_ld[OF assms(2), of o1] by simp
  moreover have "fdt_offset_ptr m' f o1 4 = Some p"
    using same_headD(3)[OF same_item_head[OF assms(2)] p assms(3)] assms(4) by (simp add: u32_id)
  ultimately have "next_tag_prop m' f o1 = next_tag_prop m f o1"
    using p same_headD(2)[OF same_item_head[OF assms(2)]] by (simp add: next_tag_prop_def Let_def)
  with assms(1) show ?thesis by simp
qed

text \<open>The end of the item, before alignment.\<close>

lemma next_tag_skip_cases:
  assumes "next_tag_skip m f tag i = Some e"
  shows "next_tag_name m f i = Some e \<or> next_tag_prop m f i = Some e \<or> e = i"
  using assms by (simp add: next_tag_skip_def split: if_splits)

lemma next_tag_skip_end:
  assumes "next_tag_skip m f tag (s32 (o1 + 4)) = Some e" "0 \<le> o1" "is_int o1"
  shows "is_int e \<and> (e \<le> - 4 \<or> s32 (o1 + 4) = o1 + 4 \<and> o1 + 4 \<le> e)"
proof -
  let ?o = "s32 (o1 + 4)"
  have o4: "?o = o1 + 4 \<or> ?o \<le> - 4" using s32_cases[of "o1 + 4"] assms(2,3) unfolding is_int_def by linarith
  consider "next_tag_name m f ?o = Some e" | "next_tag_prop m f ?o = Some e" | "e = ?o"
    using next_tag_skip_cases[OF assms(1)] by blast
  then show ?thesis
  proof cases
    case 1
    show ?thesis
      using next_tag_name_progress[OF 1, unfolded s32_idem] next_tag_name_nonneg[OF 1, unfolded s32_idem] o4 by linarith
  next
    case 2
    show ?thesis
      using next_tag_prop_progress[OF 2 is_int_s32] next_tag_prop_nonneg[OF 2, unfolded s32_idem] o4 by linarith
  next
    case 3
    show ?thesis using o4 is_int_s32[of "o1 + 4"] unfolding 3 by linarith
  qed
qed

lemma fdt_next_tag_local:
  assumes t: "fdt_next_tag m f o1 = (tag, nx)" and tag: "tag \<noteq> FDT_END" and nx: "0 \<le> nx" and o1: "is_int o1"
    and same: "same_item m f B o1 (item_read tag o1 nx) m'"
    and v: "17 \<le> fdt_version m f" and B: "min nx (fdt_size_dt_struct m f) \<le> B"
  shows "fdt_next_tag m' f o1 = (tag, nx)"
proof -
  let ?o = "s32 (o1 + 4)"
  from fdt_next_tag_cases[OF t tag o1] obtain e where e: "fdt_offset_ptr m f o1 4 \<noteq> None"
    "fdt32_ld' m (fdt_offset_ptr' m f o1) = tag" "next_tag_skip m f tag ?o = Some e"
    "fdt_offset_ptr m f o1 (e - o1) \<noteq> None" "nx = FDT_TAGALIGN e" by blast
  have n: "0 \<le> o1" using fdt_next_tag_progress[OF t tag] o1 by (auto simp: s32_is_int)
  note end_e = next_tag_skip_end[OF e(3) n o1]
  then have "FDT_TAGALIGN e < 0 \<or> e \<le> FDT_TAGALIGN e \<and> FDT_TAGALIGN e \<le> e + 3"
    using FDT_TAGALIGN_progress[of e] n by linarith
  then have en: "0 \<le> e" "e \<le> nx" and o4: "?o = o1 + 4" "o1 + 4 \<le> nx"
    using end_e nx n unfolding e(5) by linarith+
  obtain q where q: "fdt_offset_ptr m f o1 (e - o1) = Some q" using e(4) by auto
  have "u32 (e - o1) = e - o1" using o4 en end_e o1 n by (intro u32_id) (auto simp: is_int_def)
  then have eB: "e \<le> B" "o1 + u32 (e - o1) \<le> B" "o1 + 4 \<le> e"
    using fdt_offset_ptr_Some[OF q o1] v B en end_e o4 n by auto
  have hd: "same_item m f B o1 (o1 + 4) m'" using same by (rule same_item_sub) (use o4 in \<open>auto simp: item_read_def\<close>)
  have sk: "next_tag_skip m' f tag ?o = Some e"
  proof -
    consider "tag = FDT_BEGIN_NODE" | "tag = FDT_PROP" | "tag \<noteq> FDT_BEGIN_NODE \<and> tag \<noteq> FDT_PROP" by blast
    then show ?thesis
    proof cases
      case 1
      then have "same_item m f B ?o e m'"
        by (intro same_item_sub[OF same]) (simp_all add: item_read_def o4 en)
      then have "next_tag_name m' f ?o = Some e"
        using e(3) 1 en next_tag_name_local[of m f ?o e B m'] eB by (simp add: next_tag_skip_def)
      with 1 show ?thesis by (simp add: next_tag_skip_def)
    next
      case 2
      then have "same_item m f B ?o (?o + 4) m'"
        by (intro same_item_sub[OF same]) (simp_all add: item_read_def o4)
      moreover have p: "next_tag_prop m f ?o = Some e" using e(3) 2 by (simp add: next_tag_skip_def)
      moreover have "?o + 8 \<le> e" using next_tag_prop_end[OF p is_int_s32] en by auto
      ultimately show ?thesis using 2 next_tag_prop_local[of m f ?o e B m'] eB by (simp add: next_tag_skip_def)
    next
      case 3
      with e(3) show ?thesis by (simp add: next_tag_skip_def)
    qed
  qed
  note h = same_item_head[OF same]
  have "fdt_offset_ptr' m' f o1 = fdt_offset_ptr' m f o1" by (simp add: same_headD(1)[OF h])
  moreover have "fdt32_ld' m' (fdt_offset_ptr' m f o1) = tag"
    using same_item_ld[OF hd, of o1] e(2) by simp
  moreover obtain p where "fdt_offset_ptr m f o1 4 = Some p" using e(1) by auto
  then have "fdt_offset_ptr m' f o1 4 \<noteq> None" using same_headD(3)[OF h _ o1] eB by (simp add: u32_id)
  moreover have "fdt_offset_ptr m' f o1 (e - o1) \<noteq> None" using same_headD(3)[OF h q o1] eB by simp
  ultimately show ?thesis
    using fdt_next_tag_intro[of m' f o1 tag e] e(5) sk o1 by simp
qed

section \<open>Headers that check\<close>

lemma check_block'_iff:
  assumes "0 \<le> base" "base < 4294967296" "0 \<le> n" "n < 4294967296" "t < 4294967296"
  shows "check_block' h t base n \<longleftrightarrow> h \<le> base \<and> base + n \<le> t"
proof -
  have "u32 (base + n) < base \<longleftrightarrow> 4294967296 \<le> base + n" using assms by (intro u32_add_wraps) auto
  moreover have "\<not> u32 (base + n) < base \<longrightarrow> u32 (base + n) = base + n"
    using assms u32_add_exact[of base n] by auto
  ultimately show ?thesis using assms by (auto simp: check_block'_def check_off'_def)
qed

lemma fdt_check_header_iff:
  "fdt_check_header m f = 0 \<longleftrightarrow>
     f AND 7 = 0 \<and> fdt_magic m f = FDT_MAGIC \<and> 2 \<le> fdt_version m f \<and> fdt_last_comp_version m f \<le> 17 \<and>
     fdt_last_comp_version m f \<le> fdt_version m f \<and>
     fdt_header_size m f \<le> fdt_totalsize m f \<and> fdt_totalsize m f \<le> 2147483647 \<and>
     fdt_header_size m f \<le> fdt_off_mem_rsvmap m f \<and> fdt_off_mem_rsvmap m f \<le> fdt_totalsize m f \<and>
     fdt_header_size m f \<le> fdt_off_dt_struct m f \<and>
     fdt_off_dt_struct m f + (if fdt_version m f < 17 then 0 else fdt_size_dt_struct m f) \<le> fdt_totalsize m f \<and>
     fdt_header_size m f \<le> fdt_off_dt_strings m f \<and>
     fdt_off_dt_strings m f + fdt_size_dt_strings m f \<le> fdt_totalsize m f"
  by (simp add: fdt_check_header_def Let_def check_block'_iff check_off'_def INT_MAX_def) auto

section \<open>Searching for a property\<close>

text \<open>The trees whose blocks are in the usual order, with the header of version 17.\<close>

definition tree_ok :: "mem \<Rightarrow> addr \<Rightarrow> bool" where
  "tree_ok m f \<longleftrightarrow> fdt_check_header m f = 0 \<and> fdt_version m f \<ge> 17 \<and>
     fdt_off_dt_struct m f + fdt_size_dt_struct m f \<le> fdt_off_dt_strings m f"

lemma tree_okD:
  assumes "tree_ok m f"
  shows "fdt_magic m f = FDT_MAGIC" "17 \<le> fdt_version m f" "40 \<le> fdt_off_dt_struct m f"
    "fdt_off_dt_struct m f + fdt_size_dt_struct m f \<le> fdt_off_dt_strings m f"
    "fdt_off_dt_strings m f + fdt_size_dt_strings m f \<le> fdt_totalsize m f" "fdt_totalsize m f \<le> 2147483647"
  using assms by (auto simp: tree_ok_def fdt_check_header_iff fdt_header_size_def fdt_header_size'_def)

lemma memchr_loop_cong:
  "(\<forall>k<n. p (i + int k) = q (i + int k)) \<Longrightarrow> memchr_loop p i c n = memchr_loop q i c n"
proof (induction n arbitrary: i)
  case (Suc n)
  then have "p i = q i" by (force dest: spec[of _ 0])
  moreover have "memchr_loop p (i + 1) c n = memchr_loop q (i + 1) c n"
    using Suc.prems by (intro Suc.IH) (auto dest: spec[of _ "Suc _"] simp: algebra_simps)
  ultimately show ?case by simp
qed simp

text \<open>The strings a name offset may lead to.\<close>

definition same_strings :: "mem \<Rightarrow> addr \<Rightarrow> mem \<Rightarrow> bool" where
  "same_strings m f m' \<longleftrightarrow> same_on f 40 m m' \<and>
     same_on (f + fdt_off_dt_strings m f) (fdt_size_dt_strings m f) m m'"

lemma fdt_get_string_eq:
  assumes "tree_ok m f" "is_int so"
  shows "fdt_get_string m f so =
    (if fdt_ro_probe' m f < 0 then (None, fdt_ro_probe' m f)
     else if 0 \<le> so \<and> so < fdt_size_dt_strings m f then
       (case memchr (rd m (f + fdt_off_dt_strings m f + so)) 0 (nat (fdt_size_dt_strings m f - so)) of
          None \<Rightarrow> (None, - FDT_ERR_TRUNCATED)
        | Some n \<Rightarrow> (Some (f + fdt_off_dt_strings m f + so), n))
     else (None, - FDT_ERR_BADOFFSET))"
proof (cases "fdt_ro_probe' m f < 0")
  case True
  then show ?thesis by (simp add: fdt_get_string_def)
next
  case False
  note ok = tree_okD[OF assms(1)]
  let ?o = "fdt_off_dt_strings m f" and ?s = "fdt_size_dt_strings m f"
  have probe: "fdt_ro_probe' m f = fdt_totalsize m f"
    using False by (auto simp: fdt_ro_probe'_def Let_def split: if_splits)
  show ?thesis
  proof (cases "0 \<le> so \<and> so < ?s")
    case True
    have a: "u32 (so + ?o) = so + ?o" "u32 so = so" "u32 (?s - so) = ?s - so"
      "u32 (fdt_totalsize m f) = fdt_totalsize m f" "u32 (fdt_totalsize m f - (so + ?o)) = fdt_totalsize m f - (so + ?o)"
      using True ok fdt_get_header_range[of m f 12] fdt_get_header_range[of m f 32] fdt_get_header_range[of m f 8]
        fdt_get_header_range[of m f 36] by (intro u32_id; linarith)+
    have "get_string_len m f so (fdt_totalsize m f - (so + ?o)) = Inr (?s - so)"
      using True ok a by (auto simp: get_string_len_def)
    moreover have "sz (?s - so) = nat (?s - so)"
      using True ok fdt_get_header_range[of m f 32] by (intro sz_id) linarith+
    ultimately show ?thesis
      using False True probe a ok by (simp add: fdt_get_string_def Let_def) (simp add: ac_simps split: option.split)
  next
    case n: False
    have "u32 so < ?s \<Longrightarrow> 0 \<le> so \<Longrightarrow> so < ?s"
      using assms(2) by (simp add: u32_id is_int_def)
    with n have "so < 0 \<or> fdt_size_dt_strings m f \<le> u32 so" by linarith
    then have "get_string_len m f so len = Inl (- FDT_ERR_BADOFFSET)" for len
      using ok by (auto simp: get_string_len_def)
    then show ?thesis using False n by (auto simp: fdt_get_string_def Let_def)
  qed
qed

lemma fdt_get_string_bounds:
  assumes "tree_ok m f" "fdt_get_string m f so = (Some p, n)" "is_int so"
  shows "p = f + fdt_off_dt_strings m f + so \<and> 0 \<le> so \<and> 0 \<le> n \<and> so + n < fdt_size_dt_strings m f"
proof -
  let ?k = "nat (fdt_size_dt_strings m f - so)"
  have so: "0 \<le> so" "so < fdt_size_dt_strings m f" and p: "p = f + fdt_off_dt_strings m f + so"
    and n: "memchr (rd m p) 0 ?k = Some n"
    using assms(2) unfolding fdt_get_string_eq[OF assms(1,3)] by (auto split: if_splits option.splits)
  from n[unfolded memchr_Some] so p show ?thesis by auto
qed

lemma tree_ok_cong:
  assumes "same_on f 40 m m'" "tree_ok m f"
  shows "tree_ok m' f"
  using assms(2) same_header[OF assms(1)]
  by (auto simp: tree_ok_def fdt_check_header_iff fdt_header_size_def split: if_splits)

lemma fdt_get_string_cong:
  assumes "tree_ok m f" "same_strings m f m'" "is_int so"
  shows "fdt_get_string m f so = fdt_get_string m' f so"
proof -
  have h: "same_on f 40 m m'" using assms(2) by (simp add: same_strings_def)
  note hd = same_header[OF h] and ok' = tree_ok_cong[OF h assms(1)]
  have "memchr (rd m (f + fdt_off_dt_strings m f + so)) 0 (nat (fdt_size_dt_strings m f - so)) =
        memchr (rd m' (f + fdt_off_dt_strings m f + so)) 0 (nat (fdt_size_dt_strings m f - so))"
    if "0 \<le> so" "so < fdt_size_dt_strings m f"
    unfolding memchr_def
    by (rule memchr_loop_cong) (use assms(2) that in \<open>auto simp: same_strings_def same_on_def\<close>)
  then show ?thesis
    unfolding fdt_get_string_eq[OF assms(1,3)] fdt_get_string_eq[OF ok' assms(3)] fdt_ro_probe'_cong[OF h]
    using hd by (auto split: option.splits)
qed

lemma memcmp_cong: "(\<forall>k<n. p (int k) = p' (int k)) \<Longrightarrow> memcmp p q n = memcmp p' q n"
proof (induction n arbitrary: p p' q)
  case (Suc n)
  then have "p 0 = p' 0" by (force dest: spec[of _ 0])
  moreover have "memcmp (shift p 1) q' n = memcmp (shift p' 1) q' n" for q'
    using Suc.prems by (intro Suc.IH) (auto simp: shift_apply dest: spec[of _ "Suc _"])
  ultimately show ?case by simp
qed simp

lemma fdt_string_eq'_cong:
  assumes "tree_ok m f" "same_strings m f m'" "is_int so"
  shows "fdt_string_eq' m f so name len = fdt_string_eq' m' f so name len"
proof (cases "fdt_get_string m f so")
  case (Pair r n)
  note eq = fdt_get_string_cong[OF assms]
  show ?thesis
  proof (cases r)
    case None
    with Pair eq show ?thesis by (simp add: fdt_string_eq'_def)
  next
    case (Some p)
    with Pair fdt_get_string_bounds[OF assms(1) _ assms(3), of p n] have b:
      "p = f + fdt_off_dt_strings m f + so" "0 \<le> so" "0 \<le> n" "so + n < fdt_size_dt_strings m f" by auto
    have "n = len \<Longrightarrow> memcmp (rd m p) name (sz len) = memcmp (rd m' p) name (sz len)"
    proof (rule memcmp_cong, intro allI impI)
      fix k assume "n = len" "k < sz len"
      moreover have "sz n = nat n" using b fdt_get_header_range[of m f 32] by (intro sz_id) linarith+
      ultimately show "rd m p (int k) = rd m' p (int k)"
        using assms(2) b by (auto simp: same_strings_def same_on_def)
    qed
    with Pair Some eq show ?thesis by (auto simp: fdt_string_eq'_def)
  qed
qed

section \<open>The search reads no values\<close>

lemma fdt_check_node_offset'_local:
  assumes "fdt_check_node_offset' m f o1 = nx" "0 \<le> nx" "is_int o1" "same_item m f B o1 nx m'"
    "17 \<le> fdt_version m f" "min nx (fdt_size_dt_struct m f) \<le> B"
  shows "fdt_check_node_offset' m' f o1 = nx"
proof -
  obtain tag where t: "fdt_next_tag m f o1 = (tag, nx)" "tag = FDT_BEGIN_NODE"
    using assms(1,2) by (auto simp: fdt_check_node_offset'_def split: if_splits prod.splits)
  have "fdt_next_tag m' f o1 = (tag, nx)"
    using t assms fdt_next_tag_local[of m f o1 tag nx B m'] by (simp add: item_read_def)
  with t assms(1,2) show ?thesis by (auto simp: fdt_check_node_offset'_def split: if_splits)
qed

lemma fdt_check_prop_offset'_local:
  assumes "fdt_check_prop_offset' m f o1 = nx" "0 \<le> nx" "is_int o1" "same_item m f B o1 (o1 + 8) m'"
    "17 \<le> fdt_version m f" "min nx (fdt_size_dt_struct m f) \<le> B"
  shows "fdt_check_prop_offset' m' f o1 = nx"
proof -
  obtain tag where t: "fdt_next_tag m f o1 = (tag, nx)" "tag = FDT_PROP"
    using assms(1,2) by (auto simp: fdt_check_prop_offset'_def split: if_splits prod.splits)
  have "fdt_next_tag m' f o1 = (tag, nx)"
    using t assms fdt_next_tag_local[of m f o1 tag nx B m'] by (simp add: item_read_def)
  with t assms(1,2) show ?thesis by (auto simp: fdt_check_prop_offset'_def split: if_splits)
qed

text \<open>The property itself may be another one in the other memory, as long as it is one.\<close>

lemma nextprop'_at: "0 \<le> fdt_check_prop_offset' m f r \<Longrightarrow> nextprop' m f r = r"
  by (subst nextprop'.simps) (auto simp: fdt_check_prop_offset'_def split: if_splits prod.splits)

lemma nextprop'_local:
  "nextprop' m f o1 = r \<Longrightarrow> is_int o1 \<Longrightarrow> 0 \<le> r \<Longrightarrow> same_item m f B o1 r m' \<Longrightarrow> r \<le> B \<Longrightarrow>
   17 \<le> fdt_version m f \<Longrightarrow> 0 \<le> fdt_check_prop_offset' m' f r \<Longrightarrow> nextprop' m' f o1 = r"
proof (induction m f o1 rule: nextprop'.induct)
  case (1 m f o1)
  note same = "1.prems"(4)
  obtain tag nx where t: "fdt_next_tag m f o1 = (tag, nx)" by fastforce
  note r = "1.prems"(3)
  note eq = "1.prems"(1)[unfolded nextprop'.simps[of m f o1] t Let_def prod.case]
  consider "tag = FDT_PROP" "r = o1" | "tag = FDT_NOP" "nextprop' m f nx = r"
    using eq r by (auto split: if_splits)
  then show ?case
  proof cases
    case 1
    with nextprop'_at[OF "1.prems"(7)] show ?thesis by simp
  next
    case 2
    have nx: "is_int nx" by (rule fdt_next_tag_is_int[OF t])
    have "0 \<le> nx"
    proof (rule ccontr)
      assume "\<not> 0 \<le> nx"
      with nx fdt_next_tag_neg[of nx m f] have "nextprop' m f nx < 0"
        by (simp add: nextprop'.simps[of m f nx] s32_is_int)
      with 2 r show False by simp
    qed
    have "nx \<le> r" using nextprop'_progress[OF nx, of m f] 2 r by simp
    have "o1 \<le> nx" using fdt_next_tag_progress[OF t] 2 \<open>0 \<le> nx\<close> "1.prems"(2) by (auto simp: s32_is_int)
    have "fdt_next_tag m' f o1 = (tag, nx)"
      using t 2 "1.prems"(2,5,6) \<open>0 \<le> nx\<close> same_item_sub[OF same, of o1 nx] \<open>nx \<le> r\<close>
        fdt_next_tag_local[of m f o1 tag nx B m'] by (simp add: item_read_def)
    moreover have "nextprop' m' f nx = r"
      using "1.IH"[of "(tag, nx)" tag nx] t 2 nx "1.prems"(3,5-7) same_item_sub[OF same \<open>o1 \<le> nx\<close>] by simp
    ultimately show ?thesis using 2 by (simp add: nextprop'.simps[of m' f o1])
  qed
qed

text \<open>The property the search returns, and the item it is.\<close>

lemma get_property_loop_found:
  "get_property_loop m f o1 name n = (Some prop, len, po) \<Longrightarrow> is_int o1 \<Longrightarrow>
   0 \<le> o1 \<and> o1 \<le> po \<and> is_int po \<and> 0 \<le> fdt_check_prop_offset' m f po \<and> prop = fdt_offset_ptr' m f po \<and>
   len = s32 (fdt32_ld' m (prop + 4))"
proof (induction m f o1 name n rule: get_property_loop.induct)
  case (1 m f o1 name n)
  note eq = "1.prems"(1)[unfolded get_property_loop.simps[of m f o1]]
  have o: "0 \<le> o1" using eq by (auto split: if_splits)
  obtain p l where p: "fdt_get_property_by_offset' m f o1 = (Some p, l)"
    using eq o by (auto split: prod.splits option.splits)
  then have c: "0 \<le> fdt_check_prop_offset' m f o1" "p = fdt_offset_ptr' m f o1" "l = s32 (fdt32_ld' m (p + 4))"
    by (auto simp: fdt_get_property_by_offset'_def Let_def split: if_splits)
  show ?case
  proof (cases "fdt_string_eq' m f (s32 (fdt32_ld' m (p + 8))) name n")
    case True
    with eq o p c "1.prems"(2) show ?thesis by auto
  next
    case False
    let ?nx = "fdt_next_property_offset m f o1"
    have rec: "get_property_loop m f ?nx name n = (Some prop, len, po)" using eq o p False by simp
    then have "0 \<le> ?nx" by (subst (asm) get_property_loop.simps) (auto split: if_splits)
    then have "o1 < ?nx \<and> is_int ?nx"
      using fdt_check_prop_offset'_less[of m f o1] c(1) "1.prems"(2)
        nextprop'_progress[OF check_offset_is_int(2)[of m f o1], of m f]
      by (auto simp: fdt_next_property_offset_def Let_def s32_is_int split: if_splits)
    with "1.IH"[OF _ p[symmetric] refl False rec] o show ?thesis by auto
  qed
qed

lemma get_property_loop_name:
  "get_property_loop m f o1 name n = (Some prop, len, po) \<Longrightarrow> is_int o1 \<Longrightarrow>
   fdt_string_eq' m f (s32 (fdt32_ld' m (prop + 8))) name n"
proof (induction m f o1 name n rule: get_property_loop.induct)
  case (1 m f o1 name n)
  note eq = "1.prems"(1)[unfolded get_property_loop.simps[of m f o1]]
  have o: "0 \<le> o1" using eq by (auto split: if_splits)
  obtain p l where p: "fdt_get_property_by_offset' m f o1 = (Some p, l)"
    using eq o by (auto split: prod.splits option.splits)
  show ?case
  proof (cases "fdt_string_eq' m f (s32 (fdt32_ld' m (p + 8))) name n")
    case True
    with eq o p show ?thesis by auto
  next
    case False
    with eq o p have rec: "get_property_loop m f (fdt_next_property_offset m f o1) name n = (Some prop, len, po)" by simp
    moreover have "is_int (fdt_next_property_offset m f o1)"
      using nextprop'_progress[OF check_offset_is_int(2)[of m f o1], of m f] check_offset_is_int(2)[of m f o1]
      by (auto simp: fdt_next_property_offset_def Let_def)
    ultimately show ?thesis using "1.IH"[OF o p[symmetric] refl False] by simp
  qed
qed

lemma get_property_loop_None:
  "get_property_loop m f o1 name n = (None, len, po) \<Longrightarrow> len < 0"
proof (induction m f o1 name n rule: get_property_loop.induct)
  case (1 m f o1 name n)
  note eq = "1.prems"(1)[unfolded get_property_loop.simps[of m f o1]]
  show ?case
  proof (cases "0 \<le> o1")
    case True
    obtain r l where r: "fdt_get_property_by_offset' m f o1 = (r, l)" by fastforce
    show ?thesis
    proof (cases r)
      case None
      with eq r True show ?thesis by auto
    next
      case (Some p)
      with eq r True have n: "\<not> fdt_string_eq' m f (s32 (fdt32_ld' m (p + 8))) name n" by auto
      with eq r True Some have "get_property_loop m f (fdt_next_property_offset m f o1) name n = (None, len, po)" by simp
      then show ?thesis using "1.IH"[OF True r[symmetric] Some n] by simp
    qed
  qed (use eq in auto)
qed

lemma check_prop_end:
  assumes "0 \<le> fdt_check_prop_offset' m f o1" "is_int o1"
  shows "o1 + 12 \<le> fdt_check_prop_offset' m f o1"
proof -
  obtain nx where t: "fdt_next_tag m f o1 = (FDT_PROP, nx)" "0 \<le> o1" "fdt_check_prop_offset' m f o1 = nx" "0 \<le> nx"
    using assms(1) by (auto simp: fdt_check_prop_offset'_def split: if_splits prod.splits)
  obtain e where e: "next_tag_skip m f FDT_PROP (s32 (o1 + 4)) = Some e" "nx = FDT_TAGALIGN e"
    by (rule fdt_next_tag_cases[OF t(1) _ assms(2)]) simp_all
  note end_e = next_tag_skip_end[OF e(1) t(2) assms(2)]
  then have a: "FDT_TAGALIGN e < 0 \<or> e \<le> FDT_TAGALIGN e" using FDT_TAGALIGN_progress[of e] t(2) by linarith
  then have "\<not> e \<le> - 4" using FDT_TAGALIGN_progress[of e] end_e t(4) unfolding e(2) by linarith
  moreover have "next_tag_prop m f (s32 (o1 + 4)) = Some e" using e(1) by (simp add: next_tag_skip_def)
  ultimately show ?thesis using next_tag_prop_end[OF _ is_int_s32] end_e a t(3,4) e(2) by fastforce
qed

lemma get_property_loop_step:
  assumes "get_property_loop m f o1 name n = (Some prop, len, po)" "is_int o1" "o1 \<noteq> po"
  shows "fdt_check_prop_offset' m f o1 \<le> po"
proof -
  note found = get_property_loop_found[OF assms(1,2)]
  obtain p l where p: "fdt_get_property_by_offset' m f o1 = (Some p, l)"
    using assms(1) found by (subst (asm) get_property_loop.simps) (auto split: prod.splits option.splits)
  let ?c = "fdt_check_prop_offset' m f o1"
  let ?nx = "fdt_next_property_offset m f o1"
  have c: "0 \<le> ?c" using p by (auto simp: fdt_get_property_by_offset'_def Let_def split: if_splits)
  have rec: "get_property_loop m f ?nx name n = (Some prop, len, po)"
    using assms(1,3) found p by (subst (asm) get_property_loop.simps) (auto split: if_splits)
  have nx: "?nx = nextprop' m f ?c" using c by (simp add: fdt_next_property_offset_def)
  have isnx: "is_int ?nx" unfolding nx using nextprop'_progress[OF check_offset_is_int(2)] by blast
  have "0 \<le> ?nx" "?nx \<le> po" using get_property_loop_found[OF rec isnx] by auto
  then show ?thesis using nextprop'_progress[OF check_offset_is_int(2)[of m f o1], of m f] nx by linarith
qed

text \<open>A property that was found stays found, when nothing before it changes and what is there now
  is a property of the same name, of whatever length.\<close>

lemma get_property_loop_local:
  "get_property_loop m f o1 name n = (Some prop, len, po) \<Longrightarrow> is_int o1 \<Longrightarrow> 17 \<le> fdt_version m f \<Longrightarrow>
   same_item m f B o1 po m' \<Longrightarrow> po \<le> B \<Longrightarrow>
   (\<And>so. is_int so \<Longrightarrow> fdt_string_eq' m' f so name n = fdt_string_eq' m f so name n) \<Longrightarrow>
   fdt_get_property_by_offset' m' f po = (Some prop, len') \<Longrightarrow> 0 \<le> fdt_check_prop_offset' m' f po \<Longrightarrow>
   fdt_string_eq' m' f (s32 (fdt32_ld' m' (prop + 8))) name n \<Longrightarrow>
   get_property_loop m' f o1 name n = (Some prop, len', po)"
proof (induction m f o1 name n rule: get_property_loop.induct)
  case (1 m f o1 name n)
  note eq = "1.prems"(1)[unfolded get_property_loop.simps[of m f o1]]
  note same = "1.prems"(4) and there = "1.prems"(7-9)
  note found = get_property_loop_found[OF "1.prems"(1,2)]
  then have o: "0 \<le> o1" "o1 \<le> po" by auto
  obtain p l where p: "fdt_get_property_by_offset' m f o1 = (Some p, l)"
    using eq o by (auto split: prod.splits option.splits)
  then have c: "0 \<le> fdt_check_prop_offset' m f o1" "p = fdt_offset_ptr' m f o1" "l = s32 (fdt32_ld' m (p + 4))"
    by (auto simp: fdt_get_property_by_offset'_def Let_def split: if_splits)
  show ?case
  proof (cases "fdt_string_eq' m f (s32 (fdt32_ld' m (p + 8))) name n")
    case True
    then have "o1 = po" "p = prop" using eq o p by simp_all
    with there o show ?thesis by (subst get_property_loop.simps) simp
  next
    case False
    let ?nx = "fdt_next_property_offset m f o1" and ?c = "fdt_check_prop_offset' m f o1"
    have rec: "get_property_loop m f ?nx name n = (Some prop, len, po)" using eq o p False by simp
    have nx: "?nx = nextprop' m f ?c" using c(1) by (simp add: fdt_next_property_offset_def)
    have isnx: "is_int ?nx" unfolding nx using nextprop'_progress[OF check_offset_is_int(2)] by blast
    have "0 \<le> ?nx" "?nx \<le> po" using get_property_loop_found[OF rec isnx] by auto
    have lt: "o1 < ?c" "?c \<le> ?nx"
      using fdt_check_prop_offset'_less[OF c(1)] "1.prems"(2) \<open>0 \<le> ?nx\<close>
        nextprop'_progress[OF check_offset_is_int(2)[of m f o1], of m f] by (auto simp: s32_is_int nx)
    have "o1 + 12 \<le> ?c" by (rule check_prop_end[OF c(1) "1.prems"(2)])
    then have s12: "same_item m f B o1 (o1 + 12) m'" using same_item_sub[OF same, of o1 "o1 + 12"] lt \<open>?nx \<le> po\<close> by simp
    have c': "fdt_check_prop_offset' m' f o1 = ?c"
      using fdt_check_prop_offset'_local[of m f o1 _ B m'] c(1) "1.prems"(2,3,5) same_item_sub[OF s12, of o1 "o1 + 8"]
        lt \<open>?nx \<le> po\<close> by simp
    have ptr: "fdt_offset_ptr' m f k + j = fdt_offset_ptr' m f (k + j)" for k j by (simp add: fdt_offset_ptr'_def)
    note ptr' = same_headD(1)[OF same_item_head[OF same]]
    have ld: "fdt32_ld' m (p + 4) = fdt32_ld' m' (p + 4)" "fdt32_ld' m (p + 8) = fdt32_ld' m' (p + 8)"
      unfolding c(2) ptr by (intro same_item_ld[OF s12]; simp)+
    have p': "fdt_get_property_by_offset' m' f o1 = (Some p, l)"
      using c c' ptr' ld by (simp add: fdt_get_property_by_offset'_def Let_def)
    have se: "\<not> fdt_string_eq' m' f (s32 (fdt32_ld' m' (p + 8))) name n"
      using False "1.prems"(6)[OF is_int_s32] ld by simp
    have valid: "0 \<le> fdt_check_prop_offset' m' f ?nx"
    proof (cases "?nx = po")
      case True
      with there show ?thesis by simp
    next
      case False
      from rec obtain p2 l2 where "fdt_get_property_by_offset' m f ?nx = (Some p2, l2)"
        using \<open>0 \<le> ?nx\<close> by (subst (asm) get_property_loop.simps) (auto split: prod.splits option.splits)
      then have v: "0 \<le> fdt_check_prop_offset' m f ?nx"
        by (auto simp: fdt_get_property_by_offset'_def Let_def split: if_splits)
      have "fdt_check_prop_offset' m f ?nx \<le> po"
        by (rule get_property_loop_step[OF rec isnx]) (use False in simp)
      moreover have "?nx + 12 \<le> fdt_check_prop_offset' m f ?nx" by (rule check_prop_end[OF v isnx])
      ultimately show ?thesis
        using fdt_check_prop_offset'_local[of m f ?nx _ B m'] v isnx "1.prems"(3,5) same_item_sub[OF same, of ?nx "?nx + 8"] lt
        by simp
    qed
    have "nextprop' m' f ?c = ?nx"
      using nextprop'_local[of m f ?c ?nx B m'] nx valid check_offset_is_int(2) "1.prems"(3,5) \<open>0 \<le> ?nx\<close>
        same_item_sub[OF same, of ?c ?nx] lt \<open>?nx \<le> po\<close> by simp
    then have nx': "fdt_next_property_offset m' f o1 = ?nx"
      using c(1) c' by (simp add: fdt_next_property_offset_def)
    have "get_property_loop m' f ?nx name n = (Some prop, len', po)"
      using "1.IH"[OF _ p[symmetric] refl False rec isnx "1.prems"(3)] o "1.prems"(5,6) there
        same_item_sub[OF same, of ?nx po] lt by auto
    with o p' se nx' show ?thesis by (simp add: get_property_loop.simps[of m' f o1])
  qed
qed

lemma first_property_is_int: "is_int (fdt_first_property_offset m f node)"
  using nextprop'_progress[OF check_offset_is_int(1), of m f m f node] check_offset_is_int(1)[of m f node]
  by (auto simp: fdt_first_property_offset_def Let_def)

text \<open>Where the search of a node starts, when it finds something.\<close>

lemma get_property_first:
  assumes "get_property_loop m f (fdt_first_property_offset m f node) name l = (Some p, len, po)" "is_int node"
  shows "0 \<le> node \<and> node + 4 \<le> fdt_check_node_offset' m f node \<and>
    fdt_first_property_offset m f node = nextprop' m f (fdt_check_node_offset' m f node) \<and>
    fdt_check_node_offset' m f node \<le> fdt_first_property_offset m f node \<and> fdt_first_property_offset m f node \<le> po"
proof -
  let ?o1 = "fdt_first_property_offset m f node" and ?c = "fdt_check_node_offset' m f node"
  have o1: "0 \<le> ?o1" "?o1 \<le> po" using get_property_loop_found[OF assms(1) first_property_is_int] by simp_all
  then have c: "0 \<le> ?c" "?o1 = nextprop' m f ?c"
    by (auto simp: fdt_first_property_offset_def Let_def split: if_splits)
  obtain nx where t: "fdt_next_tag m f node = (FDT_BEGIN_NODE, nx)" "0 \<le> node" "?c = nx"
    using c(1) by (auto simp: fdt_check_node_offset'_def split: if_splits prod.splits)
  obtain e where e: "next_tag_skip m f FDT_BEGIN_NODE (s32 (node + 4)) = Some e" "nx = FDT_TAGALIGN e"
    by (rule fdt_next_tag_cases[OF t(1) _ assms(2)]) simp_all
  note end_e = next_tag_skip_end[OF e(1) t(2) assms(2)]
  have "node + 4 \<le> ?c" using FDT_TAGALIGN_progress[of e] end_e c(1) t(2,3) unfolding e(2) by linarith
  moreover have "?c \<le> ?o1"
    using nextprop'_progress[OF check_offset_is_int(1)[of m f node], of m f] o1 c by linarith
  ultimately show ?thesis using t(2) c(2) o1 by blast
qed

text \<open>The search of a node in a memory that agrees up to the property found.\<close>

lemma get_property_local:
  assumes loop: "get_property_loop m f (fdt_first_property_offset m f node) name l = (Some p, len, po)"
    and node: "is_int node" and v: "17 \<le> fdt_version m f"
    and item: "same_item m f B node po m'" and B: "po \<le> B"
    and seq: "\<And>so. is_int so \<Longrightarrow> fdt_string_eq' m' f so name l = fdt_string_eq' m f so name l"
    and there: "fdt_get_property_by_offset' m' f po = (Some p, len')" "0 \<le> fdt_check_prop_offset' m' f po"
      "fdt_string_eq' m' f (s32 (fdt32_ld' m' (p + 8))) name l"
  shows "fdt_get_property_namelen' m' f node name l = (Some p, len', po)"
proof -
  let ?o1 = "fdt_first_property_offset m f node" and ?c = "fdt_check_node_offset' m f node"
  note io = first_property_is_int[of m f node]
  have c: "node + 4 \<le> ?c" "?c \<le> ?o1" "?o1 \<le> po" "0 \<le> node" "?o1 = nextprop' m f ?c"
    using get_property_first[OF loop node] by blast+
  have c': "fdt_check_node_offset' m' f node = ?c"
    using fdt_check_node_offset'_local[of m f node ?c B m'] c node same_item_sub[OF item, of node ?c] v B by simp
  have loop': "get_property_loop m' f ?o1 name l = (Some p, len', po)"
    by (rule get_property_loop_local[OF loop io v same_item_sub[OF item, of ?o1 po] B seq there]) (use c in simp_all)
  have first: "0 \<le> fdt_check_prop_offset' m' f ?o1"
  proof -
    from loop' obtain p2 l2 where "fdt_get_property_by_offset' m' f ?o1 = (Some p2, l2)"
      using c by (subst (asm) get_property_loop.simps) (auto split: prod.splits option.splits)
    then show ?thesis by (auto simp: fdt_get_property_by_offset'_def Let_def split: if_splits)
  qed
  have "nextprop' m' f ?c = ?o1"
    by (rule nextprop'_local[OF c(5)[symmetric] check_offset_is_int(1) _ same_item_sub[OF item, of ?c ?o1] _ v first])
      (use c B in simp_all)
  then have "fdt_first_property_offset m' f node = ?o1" using c c' by (simp add: fdt_first_property_offset_def)
  with loop' show ?thesis by (simp add: fdt_get_property_namelen'_def)
qed

section \<open>In place\<close>

text \<open>Where the value of a property is, and that it ends inside of the structure block.\<close>

lemma prop_value_bounds:
  assumes c: "0 \<le> fdt_check_prop_offset' m f po" and po: "is_int po" and v: "17 \<le> fdt_version m f"
  defines "L \<equiv> fdt32_ld' m (fdt_offset_ptr' m f po + 4)"
  shows "0 \<le> po \<and> 0 \<le> L \<and> L \<le> 2147483647 \<and> po + 12 + L \<le> fdt_size_dt_struct m f"
proof -
  obtain nx where t: "fdt_next_tag m f po = (FDT_PROP, nx)" "0 \<le> nx" "0 \<le> po"
    using c by (auto simp: fdt_check_prop_offset'_def split: if_splits prod.splits)
  obtain e where e: "next_tag_skip m f FDT_PROP (s32 (po + 4)) = Some e"
    "fdt_offset_ptr m f po (e - po) \<noteq> None" "nx = FDT_TAGALIGN e"
    by (rule fdt_next_tag_cases[OF t(1) _ po]) simp_all
  note end_e = next_tag_skip_end[OF e(1) t(3) po]
  then have "FDT_TAGALIGN e < 0 \<or> e \<le> FDT_TAGALIGN e \<and> FDT_TAGALIGN e \<le> e + 3"
    using FDT_TAGALIGN_progress[of e] t(3) by linarith
  then have en: "0 \<le> e" "s32 (po + 4) = po + 4" "po + 4 \<le> e" using end_e t(2,3) unfolding e(3) by linarith+
  have i4: "is_int (po + 4)" using en(2) is_int_s32[of "po + 4"] by argo
  from e(1) have pr: "next_tag_prop m f (po + 4) = Some e" by (simp add: next_tag_skip_def en(2))
  then obtain lp where lp: "fdt_offset_ptr m f (po + 4) 4 = Some lp"
    by (auto simp: next_tag_prop_def split: option.splits)
  have lp': "lp = fdt_offset_ptr' m f po + 4"
    using fdt_offset_ptr_Some[OF lp i4] by (simp add: fdt_offset_ptr'_def)
  have L: "0 \<le> L" "L < 4294967296"
    using uint_lt2p[of "fdt32_ld (rd m (fdt_offset_ptr' m f po + 4))"] by (simp_all add: L_def fdt32_ld'_eq)
  from pr lp have s: "u32 (L + (po + 4)) < 2147483647" "\<not> u32 (L + (po + 4)) < u32 (po + 4)" "e = s32 (po + 4 + 8 + L)"
    using v by (auto simp: next_tag_prop_def Let_def INT_MAX_def L_def lp' split: if_splits)
  have u4: "u32 (po + 4) = po + 4" using i4 t(3) by (simp add: u32_id is_int_def)
  have "u32 (po + 4 + L) = po + 4 + L"
    using s(2) i4 L t(3) u4 by (intro u32_add_exact) (auto simp: is_int_def add.commute)
  then have b: "po + 4 + L < 2147483647" using s(1) by (simp add: add.commute)
  then have "po + 4 + 8 + L = po + 12 + L" by simp
  then have e': "e = po + 12 + L"
    using s(3) en(1) L t(3) b s32_cases[of "po + 12 + L"] by (simp only:) linarith
  obtain q where q: "fdt_offset_ptr m f po (e - po) = Some q" using e(2) by auto
  have "u32 (e - po) = 12 + L" using e' L b t(3) by (simp add: u32_id)
  then have "po + (12 + L) \<le> fdt_size_dt_struct m f"
    using fdt_offset_ptr_Some[OF q po] v by simp
  with t(3) L b show ?thesis by auto
qed

lemma memcpy_from_outside: "a < p \<or> p + int n \<le> a \<Longrightarrow> memcpy_from m p v n a = m a"
  by (auto simp: memcpy_from_spec)

text \<open>A change of the value of a property keeps what the search returns.\<close>

lemma get_property_value_only:
  assumes ok: "tree_ok m f" and node: "is_int node"
    and g: "fdt_get_property_namelen' m f node name l = (Some pp, len, po)"
    and out: "\<And>a. a < pp + 12 \<or> pp + 12 + len \<le> a \<Longrightarrow> m' a = m a"
  shows "fdt_get_property_namelen' m' f node name l = (Some pp, len, po) \<and> same_on f 40 m m' \<and>
    0 \<le> len \<and> len \<le> 2147483647 \<and> po + 12 + len \<le> fdt_size_dt_struct m f \<and> pp = f + fdt_off_dt_struct m f + po \<and> 0 \<le> po"
proof -
  note v = tree_okD[OF ok]
  have loop: "get_property_loop m f (fdt_first_property_offset m f node) name l = (Some pp, len, po)"
    using g by (simp add: fdt_get_property_namelen'_def)
  note found = get_property_loop_found[OF loop first_property_is_int]
  then have op: "is_int po" "0 \<le> fdt_check_prop_offset' m f po" "pp = fdt_offset_ptr' m f po"
    "len = s32 (fdt32_ld' m (pp + 4))" by auto
  have po: "0 \<le> node" "node \<le> po" using get_property_first[OF loop node] by linarith+
  note b = prop_value_bounds[OF op(2,1) v(2), folded op(3)]
  then have len: "len = fdt32_ld' m (pp + 4)" using op(4) by (simp add: s32_id)
  let ?B = "max (fdt_size_dt_struct m f) po"
  have p: "pp = f + fdt_off_dt_struct m f + po" using op(3) by (simp add: fdt_offset_ptr'_def)
  have h: "same_on f 40 m m'" using v(3) p b out by (auto simp: same_on_def)
  have str: "same_strings m f m'" using h v(4) p b len out by (auto simp: same_strings_def same_on_def)
  have item: "same_item m f ?B node (po + 12) m'"
    using same_head_same_on[OF h] p out by (auto simp: same_item_def same_on_def)
  have at: "fdt_check_prop_offset' m' f po = fdt_check_prop_offset' m f po"
    using fdt_check_prop_offset'_local[of m f po _ ?B m'] op v(2) same_item_sub[OF item, of po "po + 8"] po by simp
  have ld: "fdt32_ld' m' (pp + 4) = fdt32_ld' m (pp + 4)" "fdt32_ld' m' (pp + 8) = fdt32_ld' m (pp + 8)"
    using same_item_ld[OF item, of "po + 4"] same_item_ld[OF item, of "po + 8"] po
    by (simp_all add: op(3) fdt_offset_ptr'_def add.assoc)
  have seq: "fdt_string_eq' m' f so name l = fdt_string_eq' m f so name l" if "is_int so" for so
    using fdt_string_eq'_cong[OF ok str that] by simp
  have there: "fdt_get_property_by_offset' m' f po = (Some pp, len)" "fdt_string_eq' m' f (s32 (fdt32_ld' m' (pp + 8))) name l"
    using at op ld get_property_loop_name[OF loop first_property_is_int] seq[OF is_int_s32] same_headD(1)[OF same_item_head[OF item]]
    by (simp_all add: fdt_get_property_by_offset'_def Let_def)
  have "fdt_get_property_namelen' m' f node name l = (Some pp, len, po)"
    by (rule get_property_local[OF loop node v(2) same_item_sub[OF item] _ seq there(1) _ there(2)]) (use at op in simp_all)
  with h b len p show ?thesis by simp
qed

lemma setprop_inplace_getprop:
  assumes ok: "tree_ok m f" and name: "points_to_str name s" and node: "is_int node"
    and wr: "fdt_setprop_inplace m f node name val len = Some (0, m')"
  shows "\<exists>p. fdt_getprop m f node name = Some (Some p, len) \<and>
           fdt_getprop m' f node name = Some (Some p, len) \<and> 0 \<le> len \<and>
           bytes_at (rd m' p) (nat len) = bytes_at val (nat len) \<and>
           (\<forall>a. a < p \<or> p + len \<le> a \<longrightarrow> m' a = m a) \<and>
           f + fdt_off_dt_struct m f \<le> p \<and> p + len \<le> f + fdt_off_dt_strings m f"
proof -
  note v = tree_okD[OF ok]
  let ?l = "s32 (int (length s))"
  have l: "strlen name = Some (int (length s))" by (rule strlen_points_to[OF name])
  obtain r n po where r: "fdt_get_property_namelen' m f node name ?l = (r, n, po)" by (metis prod_cases3)
  have "r = None \<Longrightarrow> n < 0" using r get_property_loop_None by (simp add: fdt_get_property_namelen'_def)
  with wr l r obtain pp where pp: "r = Some pp" "n = len" "m' = memcpy_from m (pp + 12) val (sz len)"
    using v(2) by (auto simp: fdt_setprop_inplace_def fdt_getprop_def fdt_getprop_namelen_def
        fdt_setprop_inplace_namelen_partial_def prop_data_def split: option.splits if_splits)
  have len0: "0 \<le> len \<and> len \<le> 2147483647"
    using get_property_value_only[OF ok node r[unfolded pp(1,2)], of m] by simp
  then have z: "sz len = nat len" by (simp add: sz_id)
  let ?v = "pp + 12"
  have out: "m' a = m a" if "a < ?v \<or> ?v + len \<le> a" for a
    using that len0 z by (simp add: pp(3) memcpy_from_outside)
  have k: "fdt_get_property_namelen' m' f node name ?l = (Some pp, len, po) \<and> same_on f 40 m m' \<and>
    0 \<le> len \<and> len \<le> 2147483647 \<and> po + 12 + len \<le> fdt_size_dt_struct m f \<and> pp = f + fdt_off_dt_struct m f + po \<and> 0 \<le> po"
    by (rule get_property_value_only[OF ok node r[unfolded pp(1,2)] out])
  then have "fdt_version m' f = fdt_version m f" using same_header[of f m m'] by simp
  then have "fdt_getprop m' f node name = Some (Some ?v, len)" "fdt_getprop m f node name = Some (Some ?v, len)"
    using conjunct1[OF k] l v(2) r pp(1,2) by (simp_all add: fdt_getprop_def fdt_getprop_namelen_def prop_data_def)
  moreover have "bytes_at (rd m' ?v) (nat len) = bytes_at val (nat len)"
    by (auto simp: bytes_at_eq_iff pp(3) memcpy_from_spec z)
  ultimately show ?thesis using out k v(4) by (intro exI[of _ ?v]) auto
qed

end
