(* ===== verification/Fdt_Edit.thy ===== *)
theory Fdt_Edit
  imports Fdt_Local
begin

text \<open>
  What the edits of a tree keep (\<open>src/src/libfdt/fdt_rw.c\<close>).

  An edit that starts from a header \<open>fdt_check_header\<close> accepts, whatever the rest of the blob
  holds and whether the edit succeeds or not, writes no byte outside of the \<open>totalsize\<close> bytes of
  the tree, keeps \<open>totalsize\<close>, and leaves a header that is accepted again.  The edits that
  follow each other are clients of this contract, the locale \<open>tree_edit\<close>.
\<close>

section \<open>Where memory changes\<close>

definition writes_in :: "addr \<Rightarrow> int \<Rightarrow> mem \<Rightarrow> mem \<Rightarrow> bool" where
  "writes_in p n m m' \<longleftrightarrow> (\<forall>a. a < p \<or> p + n \<le> a \<longrightarrow> m' a = m a)"

lemma writes_in_refl [simp]: "writes_in p n m m"
  by (simp add: writes_in_def)

lemma writes_in_trans [trans]: "writes_in p n m m1 \<Longrightarrow> writes_in p n m1 m2 \<Longrightarrow> writes_in p n m m2"
  by (simp add: writes_in_def)

lemma writes_in_mono: "writes_in q k m m' \<Longrightarrow> p \<le> q \<Longrightarrow> q + k \<le> p + n \<Longrightarrow> writes_in p n m m'"
  by (simp add: writes_in_def)

lemma writes_in_store: "writes_in p (int (length xs)) m (store m p xs)"
  by (simp add: writes_in_def store_outside)

lemma writes_in_store32: "p \<le> q \<Longrightarrow> q + 4 \<le> p + n \<Longrightarrow> writes_in p n m (store32 m q x)"
  by (auto simp: writes_in_def store_word_outside)

lemma writes_in_store64: "p \<le> q \<Longrightarrow> q + 8 \<le> p + n \<Longrightarrow> writes_in p n m (store64 m q x)"
  by (auto simp: writes_in_def store_word_outside)

lemma writes_in_memcpy_from: "p \<le> q \<Longrightarrow> q + int k \<le> p + n \<Longrightarrow> writes_in p n m (memcpy_from m q s k)"
  by (auto simp: writes_in_def memcpy_from_spec)

lemma writes_in_memset: "p \<le> q \<Longrightarrow> q + int k \<le> p + n \<Longrightarrow> writes_in p n m (memset m q c k)"
  by (auto simp: writes_in_def memset_def memset_loop_spec)

lemma writes_in_memmove: "p \<le> q \<Longrightarrow> q + int k \<le> p + n \<Longrightarrow> writes_in p n m (memmove m q s k)"
  by (auto simp: writes_in_def memmove_spec)

lemma writes_in_same_on: "writes_in q k m m' \<Longrightarrow> p + n \<le> q \<or> q + k \<le> p \<Longrightarrow> same_on p n m m'"
  by (auto simp: writes_in_def same_on_def)

section \<open>Header fields written back\<close>

lemma be32_bytes_ld: "be32_bytes (fdt32_ld p) = bytes_at p 4"
proof -
  have "extract_byte (fdt32_ld p) 3 = p 0" "extract_byte (fdt32_ld p) 2 = p 1"
    "extract_byte (fdt32_ld p) 1 = p 2" "extract_byte (fdt32_ld p) 0 = p 3"
    by (rule bit_word_eqI, simp add: bit_extract_byte fdt32_ld_bits fdt32_ld_bits(1)[unfolded add_0])+
  then show ?thesis by (simp add: be32_bytes_def bytes_at_def numeral_eq_Suc)
qed

lemma set_hdr_back:
  assumes "u32 v = fdt_get_header m f k" "f + k \<le> a" "a < f + k + 4"
  shows "fdt_set_hdr m1 f k v a = m a"
proof -
  have "word_of_int v = fdt32_ld (rd m (f + k))"
    using assms(1) by (simp add: fdt_get_header_def word_uint_eq_iff uint_word_of_int u32_def)
  then have "fdt_set_hdr m1 f k v a = store m1 (f + k) (bytes_at (rd m (f + k)) 4) a"
    by (simp add: fdt_set_hdr_def store32_cpu_to_fdt32 be32_bytes_ld)
  also have "\<dots> = m a" using assms(2,3) by (simp add: store_def nth_bytes_at nat_less_iff)
  finally show ?thesis .
qed

lemma set_hdr_same: "u32 v = fdt_get_header m f k \<Longrightarrow> fdt_set_hdr m f k v = m"
  using set_hdr_back[of v m f k _ m] fdt_set_hdr_outside[of _ f k m v] by (metis ext not_le)

section \<open>The header of a tree that can be edited\<close>

definition rw_tree :: "mem \<Rightarrow> addr \<Rightarrow> bool" where
  "rw_tree m f \<longleftrightarrow> f AND 7 = 0 \<and> fdt_magic m f = FDT_MAGIC \<and> fdt_version m f = 17 \<and>
     fdt_last_comp_version m f \<le> 17 \<and> 40 \<le> fdt_off_mem_rsvmap m f \<and>
     fdt_off_mem_rsvmap m f + 16 \<le> fdt_off_dt_struct m f \<and>
     fdt_off_dt_struct m f + fdt_size_dt_struct m f \<le> fdt_off_dt_strings m f \<and>
     fdt_off_dt_strings m f + fdt_size_dt_strings m f \<le> fdt_totalsize m f \<and> fdt_totalsize m f < 2147483647"

lemma rw_treeD:
  assumes "rw_tree m f"
  shows "40 \<le> fdt_off_mem_rsvmap m f" "fdt_off_mem_rsvmap m f + 16 \<le> fdt_off_dt_struct m f"
    "fdt_off_dt_struct m f + fdt_size_dt_struct m f \<le> fdt_off_dt_strings m f"
    "fdt_off_dt_strings m f + fdt_size_dt_strings m f \<le> fdt_totalsize m f" "fdt_totalsize m f < 2147483647"
    "fdt_version m f = 17" "0 \<le> fdt_size_dt_struct m f" "0 \<le> fdt_size_dt_strings m f"
  using assms by (simp_all add: rw_tree_def)

lemma rw_tree_bounds:
  assumes "rw_tree m f"
  shows "56 \<le> fdt_off_dt_struct m f" "fdt_off_dt_struct m f \<le> 2147483646" "fdt_off_mem_rsvmap m f \<le> 2147483630"
    "fdt_size_dt_struct m f \<le> 2147483590" "56 \<le> fdt_off_dt_strings m f" "fdt_off_dt_strings m f \<le> 2147483646"
    "fdt_size_dt_strings m f \<le> 2147483590" "56 \<le> fdt_totalsize m f"
    "fdt_off_dt_struct m f + fdt_size_dt_struct m f \<le> 2147483646"
    "fdt_off_dt_strings m f + fdt_size_dt_strings m f \<le> 2147483646"
  using rw_treeD[OF assms] by linarith+

lemma rw_tree_checks: "rw_tree m f \<Longrightarrow> fdt_check_header m f = 0"
proof -
  assume a: "rw_tree m f"
  note b = rw_treeD[OF a] rw_tree_bounds[OF a]
  have "fdt_header_size m f = 40" using b by (simp add: fdt_header_size_def fdt_header_size'_def)
  moreover have "f AND 7 = 0 \<and> fdt_magic m f = FDT_MAGIC \<and> fdt_last_comp_version m f \<le> 17" using a by (simp add: rw_tree_def)
  ultimately show ?thesis unfolding fdt_check_header_iff using b by (simp, intro conjI; linarith)
qed

lemma rw_tree_ok: "rw_tree m f \<Longrightarrow> tree_ok m f"
  using rw_tree_checks rw_treeD[of m f] by (simp add: tree_ok_def)

lemma rw_tree_cong: "same_on f 40 m m' \<Longrightarrow> rw_tree m f \<Longrightarrow> rw_tree m' f"
  using same_header[of f m m'] by (simp add: rw_tree_def)

lemma fdt_data_size_eq: "rw_tree m f \<Longrightarrow> fdt_data_size' m f = fdt_off_dt_strings m f + fdt_size_dt_strings m f"
  using rw_treeD[of m f] fdt_get_header_range(1)[of m f 12] by (simp add: fdt_data_size'_def u32_id)

text \<open>A tree that is copied to an aligned address.\<close>

definition same_bytes :: "mem \<Rightarrow> addr \<Rightarrow> mem \<Rightarrow> addr \<Rightarrow> int \<Rightarrow> bool" where
  "same_bytes m f m' g n \<longleftrightarrow> (\<forall>i. 0 \<le> i \<and> i < n \<longrightarrow> m' (g + i) = m (f + i))"

lemma same_bytes_field:
  assumes "same_bytes m f m' g n" "40 \<le> n" "0 \<le> k" "k \<le> 36"
  shows "fdt_get_header m' g k = fdt_get_header m f k"
  unfolding fdt_get_header_def
  by (intro arg_cong[of _ _ uint] fdt32_ld_cong) (use assms in \<open>simp add: same_bytes_def add.assoc\<close>)

lemma same_bytes_rw_tree:
  assumes "rw_tree m f" "same_bytes m f m' g n" "40 \<le> n" "g AND 7 = 0"
  shows "rw_tree m' g"
  using assms(1,4) unfolding rw_tree_def by (simp add: same_bytes_field[OF assms(2,3)])

lemma header_align: "FDT_ALIGN 40 8 = 40"
  by (simp add: FDT_ALIGN_def u64_id)

lemma rw_probe_ok:
  assumes "rw_tree m f"
  shows "fdt_rw_probe' m f = (0, m)"
proof -
  note b = rw_treeD[OF assms] rw_tree_bounds[OF assms]
  have "s32 (fdt_size_dt_struct m f) = fdt_size_dt_struct m f" by (rule s32_id) (use b in linarith)+
  moreover have "u32 (fdt_off_mem_rsvmap m f + 16) = fdt_off_mem_rsvmap m f + 16"
    "u32 (fdt_off_dt_struct m f + fdt_size_dt_struct m f) = fdt_off_dt_struct m f + fdt_size_dt_struct m f"
    "u32 (fdt_off_dt_strings m f + fdt_size_dt_strings m f) = fdt_off_dt_strings m f + fdt_size_dt_strings m f"
    using b by (simp_all add: u32_id)
  ultimately show ?thesis
    using assms b by (simp add: rw_tree_def fdt_rw_probe'_def fdt_ro_probe'_def fdt_blocks_misordered'_def header_align INT_MAX_def Let_def)
qed

lemma writes_in_header: "0 \<le> k \<Longrightarrow> k \<le> 36 \<Longrightarrow> 40 \<le> n \<Longrightarrow> writes_in f n m (fdt_set_hdr m f k v)"
  by (auto simp: writes_in_def fdt_set_hdr_outside)

text \<open>The probe turns a header that checks into one that can be edited, or reports an error.\<close>

lemma fdt_rw_probe_spec:
  assumes c: "fdt_check_header m f = 0" and r: "fdt_rw_probe' m f = (err, m')"
  shows "writes_in f (fdt_totalsize m f) m m' \<and> fdt_totalsize m' f = fdt_totalsize m f \<and>
    (if err = 0 then rw_tree m' f else m' = m)"
proof (cases "err = 0")
  case False
  with r show ?thesis by (auto simp: fdt_rw_probe'_def split: if_splits)
next
  case True
  note h = c[unfolded fdt_check_header_iff fdt_header_size_def fdt_header_size'_def]
  from r True have p: "\<not> fdt_ro_probe' m f < 0" "17 \<le> fdt_version m f"
    "\<not> fdt_blocks_misordered' m f 16 (s32 (fdt_size_dt_struct m f))"
    "m' = (if fdt_version m f > 17 then fdt_set_version m f 17 else m)"
    by (auto simp: fdt_rw_probe'_def split: if_splits)
  have t: "fdt_totalsize m f < 2147483647" using p(1) by (auto simp: fdt_ro_probe'_def INT_MAX_def Let_def split: if_splits)
  have b: "40 \<le> fdt_off_mem_rsvmap m f" "fdt_off_mem_rsvmap m f \<le> fdt_totalsize m f" "40 \<le> fdt_totalsize m f"
    "40 \<le> fdt_off_dt_struct m f" "fdt_off_dt_struct m f + fdt_size_dt_struct m f \<le> fdt_totalsize m f"
    "40 \<le> fdt_off_dt_strings m f" "fdt_off_dt_strings m f + fdt_size_dt_strings m f \<le> fdt_totalsize m f"
    using h p(2) by simp_all
  note z = fdt_get_header_range(1)[of m f 36] fdt_get_header_range(1)[of m f 32]
  have "u32 (fdt_off_mem_rsvmap m f + 16) = fdt_off_mem_rsvmap m f + 16"
    "u32 (fdt_off_dt_struct m f + s32 (fdt_size_dt_struct m f)) = fdt_off_dt_struct m f + fdt_size_dt_struct m f"
    using b t z by (simp_all add: u32_id s32_id del: fdt_get_header_range)
  with p(3) have o: "fdt_off_mem_rsvmap m f + 16 \<le> fdt_off_dt_struct m f"
    "fdt_off_dt_struct m f + fdt_size_dt_struct m f \<le> fdt_off_dt_strings m f"
    by (auto simp: fdt_blocks_misordered'_def)
  have "rw_tree m' f"
    using h b o t p(2) by (auto simp: rw_tree_def p(4) fdt_get_set_hdr u32_id)
  moreover have "fdt_totalsize m' f = fdt_totalsize m f" by (simp add: p(4) fdt_get_set_hdr)
  moreover have "writes_in f (fdt_totalsize m f) m m'" using b by (simp add: p(4) writes_in_header)
  ultimately show ?thesis using True by simp
qed


section \<open>Splices\<close>

text \<open>The blocks behind the header of a tree, moved by a splice: what was at \<open>p + oldlen\<close> is at
  \<open>p + newlen\<close>.\<close>

lemma fdt_splice_spec:
  assumes rw: "rw_tree m f" and r: "fdt_splice' m f p oldlen newlen = (err, m')"
    and p: "f \<le> p" "p - f < 18446744073709551616" and old: "is_int oldlen" and new: "0 \<le> newlen" "newlen \<le> 2147483647"
  defines "dsize \<equiv> fdt_off_dt_strings m f + fdt_size_dt_strings m f"
  shows "if err \<noteq> 0 then m' = m else
    0 \<le> oldlen \<and> p + oldlen \<le> f + dsize \<and> dsize - oldlen + newlen \<le> fdt_totalsize m f \<and>
    m' = (\<lambda>a. if p + newlen \<le> a \<and> a < f + dsize - oldlen + newlen then m (a - newlen + oldlen) else m a)"
proof (cases "err = 0")
  case False
  with r show ?thesis by (auto simp: fdt_splice'_def Let_def split: if_splits)
next
  case True
  note b = rw_treeD[OF rw] rw_tree_bounds[OF rw]
  let ?s = "p - f"
  have soff: "u64 ?s = ?s" using p by (intro u64_id) linarith+
  note r' = r[unfolded fdt_splice'_def fdt_data_size_eq[OF rw] dsize_def[symmetric] Let_def soff]
  have c: "0 \<le> oldlen" "\<not> u64 (?s + oldlen) < ?s" "u64 (?s + oldlen) \<le> dsize" "u32 (dsize - oldlen + newlen) \<le> fdt_totalsize m f"
    "m' = memmove m (p + newlen) (p + oldlen) (sz ((f + dsize) - (p + oldlen)))"
    using r' True by (auto split: if_splits)
  have o: "oldlen \<le> 2147483647" using old by (simp add: is_int_def)
  have "u64 (?s + oldlen) = ?s + oldlen"
  proof (cases "?s + oldlen < 18446744073709551616")
    case True
    with p c(1) show ?thesis by (intro u64_id) linarith+
  next
    case False
    have "u64 (?s + oldlen) = (?s + oldlen - 18446744073709551616) mod 18446744073709551616"
      by (simp only: u64_def minus_mod_self2)
    also have "\<dots> = ?s + oldlen - 18446744073709551616"
      by (rule mod_pos_pos_trivial) (use p o False in linarith)+
    finally show ?thesis using c(2) o by linarith
  qed
  then have e: "?s + oldlen \<le> dsize" using c(3) by simp
  have d: "0 \<le> dsize" "dsize \<le> 2147483646" using b unfolding dsize_def by linarith+
  then have "u32 (dsize - oldlen + newlen) = dsize - oldlen + newlen" using c(1) e p new by (intro u32_id) linarith+
  moreover have "int (sz ((f + dsize) - (p + oldlen))) = f + dsize - (p + oldlen)"
    using e d c(1) p by (subst sz_id) linarith+
  ultimately show ?thesis
    using True c e unfolding c(5) memmove_spec by (simp add: fun_eq_iff algebra_simps)
qed

text \<open>After a splice in the structure block, and after one at the end of the strings.\<close>

definition moved :: "mem \<Rightarrow> addr \<Rightarrow> addr \<Rightarrow> int \<Rightarrow> int \<Rightarrow> mem \<Rightarrow> bool" where
  "moved m f p oldlen newlen m' \<longleftrightarrow>
     (\<forall>a. f + 40 \<le> a \<and> a < p + newlen \<longrightarrow> m' a = m a) \<and>
     (\<forall>a. p + oldlen \<le> a \<and> a < f + fdt_off_dt_strings m f + fdt_size_dt_strings m f \<longrightarrow> m' (a - oldlen + newlen) = m a)"

lemma fdt_splice_struct_spec:
  assumes rw: "rw_tree m f" and r: "fdt_splice_struct' m f p oldlen newlen = (err, m')"
    and p: "f + fdt_off_dt_struct m f \<le> p" "p - f < 18446744073709551616" and old: "is_int oldlen"
    and new: "0 \<le> newlen" "newlen \<le> 2147483647" "oldlen \<le> fdt_size_dt_struct m f + newlen"
  shows "if err \<noteq> 0 then m' = m else
    0 \<le> oldlen \<and> rw_tree m' f \<and> writes_in f (fdt_totalsize m f) m m' \<and> moved m f p oldlen newlen m' \<and>
    fdt_totalsize m' f = fdt_totalsize m f \<and> fdt_off_dt_struct m' f = fdt_off_dt_struct m f \<and>
    fdt_off_mem_rsvmap m' f = fdt_off_mem_rsvmap m f \<and> fdt_size_dt_strings m' f = fdt_size_dt_strings m f \<and>
    fdt_size_dt_struct m' f = fdt_size_dt_struct m f + newlen - oldlen \<and>
    fdt_off_dt_strings m' f = fdt_off_dt_strings m f + newlen - oldlen \<and>
    p + newlen \<le> f + fdt_totalsize m f"
proof (cases "err = 0")
  case False
  with r show ?thesis by (auto simp: fdt_splice_struct'_def fdt_splice'_def Let_def split: if_splits prod.splits)
next
  case True
  note b = rw_treeD[OF rw] rw_tree_bounds[OF rw]
  obtain m1 where m1: "fdt_splice' m f p oldlen newlen = (0, m1)"
    and m': "m' = fdt_set_off_dt_strings (fdt_set_size_dt_struct m1 f (fdt_size_dt_struct m1 f + (newlen - oldlen))) f
       (fdt_off_dt_strings (fdt_set_size_dt_struct m1 f (fdt_size_dt_struct m1 f + (newlen - oldlen))) f + (newlen - oldlen))"
    using r True by (auto simp: fdt_splice_struct'_def Let_def split: prod.splits if_splits)
  let ?d = "fdt_off_dt_strings m f + fdt_size_dt_strings m f"
  have fp: "f \<le> p" using p(1) b by linarith
  note s = fdt_splice_spec[OF rw m1 fp p(2) old new(1,2), simplified]
  have head: "same_on f 40 m m1" using s p(1) new(1) b by (auto simp: same_on_def)
  note hd = same_header[OF head]
  have e: "fdt_size_dt_struct m f + newlen - oldlen \<le> fdt_off_dt_strings m f + newlen - oldlen"
    "fdt_off_dt_strings m f + newlen - oldlen + fdt_size_dt_strings m f \<le> fdt_totalsize m f"
    using s b by linarith+
  then have u: "u32 (fdt_size_dt_struct m f + (newlen - oldlen)) = fdt_size_dt_struct m f + newlen - oldlen"
    "u32 (fdt_off_dt_strings m f + (newlen - oldlen)) = fdt_off_dt_strings m f + newlen - oldlen"
    using new b by (subst u32_id; linarith)+
  have h': "fdt_size_dt_struct m' f = fdt_size_dt_struct m f + newlen - oldlen"
    "fdt_off_dt_strings m' f = fdt_off_dt_strings m f + newlen - oldlen"
    "fdt_totalsize m' f = fdt_totalsize m f" "fdt_off_dt_struct m' f = fdt_off_dt_struct m f"
    "fdt_off_mem_rsvmap m' f = fdt_off_mem_rsvmap m f" "fdt_size_dt_strings m' f = fdt_size_dt_strings m f"
    "fdt_magic m' f = fdt_magic m f" "fdt_version m' f = fdt_version m f" "fdt_last_comp_version m' f = fdt_last_comp_version m f"
    using hd u by (simp_all add: m' fdt_get_set_hdr)
  have rw': "rw_tree m' f" using rw e new b unfolding rw_tree_def h' by linarith
  have body: "m' a = m1 a" if "a < f \<or> f + 40 \<le> a" for a using that by (auto simp: m' fdt_set_hdr_outside)
  have "writes_in f (fdt_totalsize m f) m m'"
    using s fp new b by (auto simp: writes_in_def body)
  moreover have "moved m f p oldlen newlen m'"
    using s p(1) new(1) b by (auto simp: moved_def body)
  ultimately show ?thesis using True rw' h' s b by auto
qed


section \<open>What an edit keeps\<close>

definition edited :: "addr \<Rightarrow> mem \<Rightarrow> mem \<Rightarrow> bool" where
  "edited f m m' \<longleftrightarrow> writes_in f (fdt_totalsize m f) m m' \<and> fdt_totalsize m' f = fdt_totalsize m f \<and> rw_tree m' f"

lemma edited_refl: "rw_tree m f \<Longrightarrow> edited f m m"
  by (simp add: edited_def)

lemma edited_trans [trans]: "edited f m m1 \<Longrightarrow> edited f m1 m2 \<Longrightarrow> edited f m m2"
  unfolding edited_def using writes_in_trans by metis

lemma edited_rw: "edited f m m' \<Longrightarrow> rw_tree m' f"
  by (simp add: edited_def)

text \<open>Writes behind the header and before the end.\<close>

lemma edited_body:
  assumes "rw_tree m f" "writes_in p n m m'" "f + 40 \<le> p" "p + n \<le> f + fdt_totalsize m f"
  shows "edited f m m'"
proof -
  have h: "same_on f 40 m m'" by (rule writes_in_same_on[OF assms(2)]) (use assms(3) in simp)
  have "rw_tree m' f" by (rule rw_tree_cong[OF h assms(1)])
  moreover have "writes_in f (fdt_totalsize m f) m m'" using assms(2) by (rule writes_in_mono) (use assms in linarith)+
  ultimately show ?thesis using same_header[OF h] by (simp add: edited_def)
qed

lemma edited_splice_struct:
  assumes "rw_tree m f" "fdt_splice_struct' m f p oldlen newlen = (err, m')"
    "f + fdt_off_dt_struct m f \<le> p" "p - f < 18446744073709551616" "is_int oldlen"
    "0 \<le> newlen" "newlen \<le> 2147483647" "oldlen \<le> fdt_size_dt_struct m f + newlen"
  shows "edited f m m'"
  using fdt_splice_struct_spec[OF assms] edited_refl[OF assms(1)] by (auto simp: edited_def split: if_splits)

text \<open>Alignment, and the end of an item.\<close>

lemma FDT_ALIGN_4:
  assumes "0 \<le> n" "n < 2147483648"
  shows "n \<le> FDT_ALIGN n 4 \<and> FDT_ALIGN n 4 \<le> n + 3 \<and> FDT_ALIGN n 4 mod 4 = 0"
proof -
  have "FDT_ALIGN n 4 = n + 3 - (n + 3) mod 4"
    using assms int_and_not_mask[of "n + 3" 2] by (simp add: FDT_ALIGN_def u64_id add.commute)
  moreover have "(n + 3 - (n + 3) mod 4) mod 4 = 0" by (simp add: mod_diff_right_eq)
  ultimately show ?thesis using pos_mod_bound[of 4 "n + 3"] pos_mod_sign[of 4 "n + 3"] by (simp only:) linarith
qed

lemma FDT_TAGALIGN_4:
  assumes "0 \<le> n" "n < 2147483645"
  shows "n \<le> FDT_TAGALIGN n \<and> FDT_TAGALIGN n \<le> n + 3 \<and> FDT_TAGALIGN n mod 4 = 0"
  using FDT_ALIGN_4[of n] assms by (simp add: FDT_TAGALIGN_def s32_id)

lemma fdt_next_tag_bounds:
  assumes rw: "rw_tree m f" and t: "fdt_next_tag m f o1 = (tag, nx)" "tag \<noteq> FDT_END" and o: "is_int o1"
  shows "0 \<le> o1 \<and> o1 + 4 \<le> nx \<and> nx \<le> fdt_size_dt_struct m f + 3 \<and> nx mod 4 = 0"
proof -
  note b = rw_treeD[OF rw] rw_tree_bounds[OF rw]
  from fdt_next_tag_cases[OF t o] obtain e q where e: "next_tag_skip m f tag (s32 (o1 + 4)) = Some e"
    "fdt_offset_ptr m f o1 (e - o1) = Some q" "nx = FDT_TAGALIGN e" by blast
  have n: "0 \<le> o1" using fdt_next_tag_progress[OF t] o by (simp add: s32_is_int)
  have i: "o1 \<le> 2147483647" using o by (simp add: is_int_def)
  note end_e = next_tag_skip_end[OF e(1) n o]
  have u: "o1 + u32 (e - o1) \<le> fdt_size_dt_struct m f" using fdt_offset_ptr_Some[OF e(2) o] b by simp
  have "\<not> e \<le> - 4"
  proof
    assume "e \<le> - 4"
    moreover have "- 2147483648 \<le> e" using end_e by (simp add: is_int_def)
    ultimately have "u32 (e - o1) = e - o1 + 4294967296"
      using n i mod_pos_pos_trivial[of "e - o1 + 4294967296" 4294967296] by (simp add: u32_def)
    with u b \<open>- 2147483648 \<le> e\<close> show False by linarith
  qed
  with end_e have e4: "o1 + 4 \<le> e" "e \<le> 2147483647" by (auto simp: is_int_def)
  then have "u32 (e - o1) = e - o1" using n by (simp add: u32_id)
  then have "e \<le> fdt_size_dt_struct m f" using u by simp
  then show ?thesis using FDT_TAGALIGN_4[of e] e4 n b unfolding e(3) by linarith
qed

lemma check_node_bounds:
  assumes "rw_tree m f" "0 \<le> fdt_check_node_offset' m f o1" "is_int o1"
  shows "0 \<le> o1 \<and> o1 + 4 \<le> fdt_check_node_offset' m f o1 \<and>
    fdt_check_node_offset' m f o1 \<le> fdt_size_dt_struct m f + 3 \<and> fdt_check_node_offset' m f o1 mod 4 = 0"
  using assms fdt_next_tag_bounds[of m f o1] by (fastforce simp: fdt_check_node_offset'_def split: if_splits prod.splits)

section \<open>Strings\<close>

lemma fdt_splice_string_spec:
  assumes rw: "rw_tree m f" and r: "fdt_splice_string' m f newlen = (err, m')" and n: "0 \<le> newlen" "newlen \<le> 2147483647"
  shows "if err \<noteq> 0 then m' = m else
    m' = fdt_set_size_dt_strings m f (fdt_size_dt_strings m f + newlen) \<and> rw_tree m' f \<and>
    fdt_off_dt_strings m f + fdt_size_dt_strings m f + newlen \<le> fdt_totalsize m f"
proof (cases "err = 0")
  case False
  with r show ?thesis by (auto simp: fdt_splice_string'_def fdt_splice'_def Let_def split: if_splits prod.splits)
next
  case True
  note b = rw_treeD[OF rw] rw_tree_bounds[OF rw]
  let ?p = "f + fdt_off_dt_strings m f + fdt_size_dt_strings m f"
  obtain m1 where m1: "fdt_splice' m f ?p 0 newlen = (0, m1)"
    and m': "m' = fdt_set_size_dt_strings m1 f (fdt_size_dt_strings m1 f + newlen)"
    using r True by (auto simp: fdt_splice_string'_def Let_def split: prod.splits if_splits)
  have "f \<le> ?p" "?p - f < 18446744073709551616" using b by linarith+
  note s = fdt_splice_spec[OF rw m1 this _ n, simplified]
  have "m1 = m" using s by (auto simp: is_int_def fun_eq_iff)
  moreover have le: "fdt_off_dt_strings m f + fdt_size_dt_strings m f + newlen \<le> fdt_totalsize m f"
    using s by (simp add: is_int_def)
  moreover have "u32 (fdt_size_dt_strings m f + newlen) = fdt_size_dt_strings m f + newlen"
    using le n b by (intro u32_id) linarith+
  ultimately show ?thesis using rw True by (simp add: m' rw_tree_def fdt_get_set_hdr add.assoc)
qed

lemma find_string_loop_Some:
  "find_string_loop m p lastp s n = Some q \<Longrightarrow> p \<le> q \<and> q \<le> lastp \<and> memcmp (rd m q) s n = 0"
proof (induction m p lastp s n rule: find_string_loop.induct)
  case (1 m p lastp s n)
  note eq = "1.prems"[unfolded find_string_loop.simps[of m p lastp s n]]
  show ?case
  proof (cases "memcmp (rd m p) s n = 0")
    case True
    with eq have "p \<le> lastp" "q = p" by (simp_all split: if_splits)
    with True show ?thesis by blast
  next
    case False
    with eq "1.IH" show ?thesis by (fastforce split: if_splits)
  qed
qed


text \<open>A string of the table, or added to it: where it is, and that it ends inside of the block.\<close>

lemma fdt_find_add_string_spec:
  assumes rw: "rw_tree m f" and l: "strlen name = Some l" "l < 2147483647"
    and r: "fdt_find_add_string' m f name = Some (off, allocated, m')"
  shows "if off < 0 then m' = m \<and> \<not> allocated else
    edited f m m' \<and> off + l + 1 \<le> fdt_size_dt_strings m' f \<and>
    fdt_off_dt_struct m' f = fdt_off_dt_struct m f \<and> fdt_size_dt_struct m' f = fdt_size_dt_struct m f \<and>
    fdt_off_dt_strings m' f = fdt_off_dt_strings m f \<and>
    fdt_size_dt_strings m' f = fdt_size_dt_strings m f + (if allocated then l + 1 else 0) \<and>
    (\<forall>a. f + 40 \<le> a \<and> a < f + fdt_off_dt_strings m f + fdt_size_dt_strings m f \<longrightarrow> m' a = m a) \<and>
    bytes_at (rd m' (f + fdt_off_dt_strings m f + off)) (nat (l + 1)) = bytes_at name (nat (l + 1))"
proof -
  note b = rw_treeD[OF rw] rw_tree_bounds[OF rw]
  have l0: "0 \<le> l" using l(1) strlen_Some_iff by simp
  let ?t = "f + fdt_off_dt_strings m f" and ?s = "fdt_size_dt_strings m f"
  have len: "s32 (l + 1) = l + 1" "sz (l + 1) = nat (l + 1)" using l(2) l0 by (simp_all add: s32_id sz_id)
  have ss: "s32 ?s = ?s" by (rule s32_id) (use b in linarith)+
  obtain q where q: "fdt_find_string' m ?t ?s name = Some q"
    using l(1) by (simp add: fdt_find_string'_def Let_def)
  show ?thesis
  proof (cases q)
    case (Some p)
    with q l(1) len have "find_string_loop m ?t (?t + ?s - (l + 1)) name (nat (l + 1)) = Some p"
      by (simp add: fdt_find_string'_def Let_def)
    note fs = find_string_loop_Some[OF this]
    have "s32 (p - ?t) = p - ?t" by (rule s32_id) (use fs b l0 in linarith)+
    then have "off = p - ?t" "m' = m" "\<not> allocated" using r l(1) q Some ss by (auto simp: fdt_find_add_string'_def Let_def)
    with fs edited_refl[OF rw] show ?thesis by (auto simp: memcmp_eq_0)
  next
    case None
    obtain err m1 where sp: "fdt_splice_string' m f (l + 1) = (err, m1)" by fastforce
    have "0 \<le> l + 1" "l + 1 \<le> 2147483647" using l0 l(2) by linarith+
    note s = fdt_splice_string_spec[OF rw sp this]
    show ?thesis
    proof (cases "err = 0")
      case False
      then have "err < 0" using sp by (auto simp: fdt_splice_string'_def fdt_splice'_def Let_def split: if_splits prod.splits)
      with False s r l(1) q None ss len sp show ?thesis by (simp add: fdt_find_add_string'_def Let_def)
    next
      case True
      let ?m' = "memcpy_from m1 (?t + ?s) name (nat (l + 1))"
      have m1: "m1 = fdt_set_size_dt_strings m f (?s + (l + 1))" "rw_tree m1 f" "fdt_off_dt_strings m f + ?s + (l + 1) \<le> fdt_totalsize m f"
        using s[unfolded if_not_P[of "err \<noteq> 0", unfolded not_not, OF True]] by blast+
      have "s32 ?s = ?s" by (rule ss)
      then have off: "off = ?s" "m' = ?m'" "allocated"
        using r l(1) q None ss len sp True by (auto simp: fdt_find_add_string'_def Let_def)
      have "u32 (?s + (l + 1)) = ?s + (l + 1)" by (rule u32_id) (use m1(3) b l0 in linarith)+
      then have h1: "fdt_size_dt_strings m1 f = ?s + (l + 1)" "fdt_totalsize m1 f = fdt_totalsize m f"
        "fdt_off_dt_struct m1 f = fdt_off_dt_struct m f" "fdt_size_dt_struct m1 f = fdt_size_dt_struct m f"
        "fdt_off_dt_strings m1 f = fdt_off_dt_strings m f"
        by (simp_all add: m1(1) fdt_get_set_hdr)
      have "edited f m m1"
        using writes_in_header[of 32 "fdt_totalsize m f" f m] b m1(2) h1 by (simp add: edited_def m1(1))
      moreover have w: "writes_in (?t + ?s) (l + 1) m1 ?m'"
        using l0 by (intro writes_in_memcpy_from) simp_all
      have "edited f m1 ?m'" by (rule edited_body[OF m1(2) w]) (use b(8,13) m1(3) h1(2) in linarith)+
      ultimately have "edited f m m'" unfolding off(2) using edited_trans by blast
      moreover have "same_on f 40 m1 m'" unfolding off(2) by (rule writes_in_same_on[OF w]) (use b in linarith)
      note h' = same_header[OF this]
      moreover have "m' a = m a" if "f + 40 \<le> a" "a < ?t + ?s" for a
        using w that off(2) by (auto simp: writes_in_def m1(1) fdt_set_hdr_outside)
      moreover have "bytes_at (rd m' (?t + off)) (nat (l + 1)) = bytes_at name (nat (l + 1))"
        by (auto simp: bytes_at_eq_iff off memcpy_from_spec)
      ultimately show ?thesis using off(1,3) h1 b by (simp add: not_less)
    qed
  qed
qed

lemma fdt_del_last_string_edited:
  assumes rw: "rw_tree m f" and l: "strlen name = Some l" "l + 1 \<le> fdt_size_dt_strings m f"
  shows "\<exists>m'. fdt_del_last_string' m f name = Some m' \<and> edited f m m'"
proof -
  note b = rw_treeD[OF rw] rw_tree_bounds[OF rw]
  have l0: "0 \<le> l" using l(1) strlen_Some_iff by simp
  then have "s32 (l + 1) = l + 1" using l(2) b by (intro s32_id) linarith+
  moreover have "u32 (fdt_size_dt_strings m f - (l + 1)) = fdt_size_dt_strings m f - (l + 1)"
    by (rule u32_id) (use l(2) l0 b in linarith)+
  ultimately show ?thesis
    using l l0 b rw writes_in_header[of 32 "fdt_totalsize m f" f m]
    by (simp add: fdt_del_last_string'_def edited_def rw_tree_def fdt_get_set_hdr)
qed


section \<open>Properties\<close>

lemma ld_store32_same: "fdt32_ld' (store32 m p (cpu_to_fdt32 x)) p = uint x"
  by (simp add: fdt32_ld'_eq store32_cpu_to_fdt32 fdt32_ld_be32[of _ x] bytes_at_store_len)

lemma ld_outside: "writes_in q k m m' \<Longrightarrow> p + 4 \<le> q \<or> q + k \<le> p \<Longrightarrow> fdt32_ld' m' p = fdt32_ld' m p"
  by (rule fdt32_ld'_cong[of p 4]) (auto simp: writes_in_def same_on_def)

text \<open>The property a search finds.\<close>

lemma get_property_found:
  assumes rw: "rw_tree m f" and g: "fdt_get_property_namelen m f node name l = (Some p, n)"
  obtains po where "get_property_loop m f (fdt_first_property_offset m f node) name l = (Some p, n, po)"
    "p = fdt_offset_ptr' m f po" "is_int po" "0 \<le> po" "0 \<le> fdt_check_prop_offset' m f po"
    "n = fdt32_ld' m (p + 4)" "0 \<le> n" "po + 12 + n \<le> fdt_size_dt_struct m f"
proof -
  have v: "17 \<le> fdt_version m f" using rw_treeD[OF rw] by simp
  obtain po where lp: "get_property_loop m f (fdt_first_property_offset m f node) name l = (Some p, n, po)"
    using g v by (auto simp: fdt_get_property_namelen_def fdt_get_property_namelen'_def split: prod.splits)
  note fd = get_property_loop_found[OF lp first_property_is_int]
  have b: "0 \<le> po \<and> 0 \<le> fdt32_ld' m (p + 4) \<and> fdt32_ld' m (p + 4) \<le> 2147483647 \<and>
    po + 12 + fdt32_ld' m (p + 4) \<le> fdt_size_dt_struct m f"
    using prop_value_bounds[of m f po] fd v by simp
  then have "n = fdt32_ld' m (p + 4)" using fd by (simp add: s32_id)
  then show thesis using fd b by (intro that[OF lp]) blast+
qed

lemma get_property_missing:
  assumes "fdt_version m f = 17" "fdt_get_property_namelen m f node name l = (None, n)"
  shows "n < 0"
  using assms get_property_loop_None[of m f "fdt_first_property_offset m f node" name l]
  by (auto simp: fdt_get_property_namelen_def fdt_get_property_namelen'_def split: prod.splits)

text \<open>Resizing: the property keeps its place, its name and what is before its value.\<close>

lemma fdt_resize_property_spec:
  assumes rw: "rw_tree m f" and l: "strlen name = Some l" and len: "0 \<le> len" "len \<le> 2147483632"
    and r: "fdt_resize_property' m f node name len = Some (err, p, m')"
  shows "if err \<noteq> 0 then m' = m else
    edited f m m' \<and> (\<exists>po old m1. fdt_get_property_namelen m f node name (s32 l) = (Some p, old) \<and>
      p = fdt_offset_ptr' m f po \<and> 0 \<le> po \<and> 0 \<le> old \<and> po + 12 + old \<le> fdt_size_dt_struct m f \<and>
      fdt_splice_struct' m f (p + 12) (FDT_TAGALIGN old) (FDT_TAGALIGN len) = (0, m1) \<and>
      m' = store32 m1 (p + 4) (cpu_to_fdt32 (word_of_int len)) \<and> p + 12 + FDT_TAGALIGN len \<le> f + fdt_totalsize m f)"
proof -
  note b = rw_treeD[OF rw] rw_tree_bounds[OF rw]
  obtain pr old where g: "fdt_get_property_namelen m f node name (s32 l) = (pr, old)" by fastforce
  show ?thesis
  proof (cases pr)
    case None
    then have "old < 0" using get_property_missing b g by blast
    with r l g None show ?thesis by (auto simp: fdt_resize_property'_def fdt_get_property_def)
  next
    case (Some q)
    obtain po where po: "q = fdt_offset_ptr' m f po" "0 \<le> po" "0 \<le> old" "po + 12 + old \<le> fdt_size_dt_struct m f"
      using get_property_found[OF rw g[unfolded Some]] by metis
    obtain e m1 where sp: "fdt_splice_struct' m f (q + 12) (FDT_TAGALIGN old) (FDT_TAGALIGN len) = (e, m1)" by fastforce
    note al = FDT_TAGALIGN_4[OF len(1)] FDT_TAGALIGN_4[OF po(3)]
    have q: "f + fdt_off_dt_struct m f \<le> q + 12" "q + 12 - f < 18446744073709551616" "q = f + fdt_off_dt_struct m f + po"
      using po b by (simp_all add: fdt_offset_ptr'_def)
    have d: "0 \<le> FDT_TAGALIGN len" "FDT_TAGALIGN len \<le> 2147483647" "FDT_TAGALIGN old \<le> fdt_size_dt_struct m f + FDT_TAGALIGN len"
      using al len po b by linarith+
    note s = fdt_splice_struct_spec[OF rw sp q(1,2) FDT_TAGALIGN_is_int d]
    show ?thesis
    proof (cases "e = 0")
      case False
      with s r l g Some sp show ?thesis by (auto simp: fdt_resize_property'_def fdt_get_property_def)
    next
      case True
      have m': "m' = store32 m1 (q + 4) (cpu_to_fdt32 (word_of_int len))" "err = 0" "p = q"
        using r l g Some sp True by (auto simp: fdt_resize_property'_def fdt_get_property_def)
      note s = s[unfolded if_not_P[of "e \<noteq> 0", unfolded not_not, OF True]]
      have e1: "edited f m m1" using s by (simp add: edited_def)
      moreover have "edited f m1 m'"
        unfolding m' by (rule edited_body[OF edited_rw[OF e1] writes_in_store32[of "q + 4" "q + 4" 4]])
          (use s q b d po in linarith)+
      ultimately have "edited f m m'" by (rule edited_trans)
      with m' g Some po sp s True q show ?thesis by auto
    qed
  qed
qed


text \<open>Adding: the property is the first one of the node, and names a string of the table.\<close>

lemma fdt_add_property_spec:
  assumes rw: "rw_tree m f" and l: "strlen name = Some l" "l < 2147483647" and node: "is_int node"
    and len: "0 \<le> len" "len \<le> 2147483632"
    and r: "fdt_add_property' m f node name len = Some (err, p, m')"
  shows "edited f m m' \<and> (err = 0 \<longrightarrow>
    (\<exists>off allocated m1 m2. fdt_find_add_string' m f name = Some (off, allocated, m1) \<and> 0 \<le> off \<and>
      0 \<le> fdt_check_node_offset' m f node \<and> p = fdt_offset_ptr' m f (fdt_check_node_offset' m f node) \<and>
      fdt_splice_struct' m1 f p 0 (12 + FDT_ALIGN len 4) = (0, m2) \<and>
      m' = store32 (store32 (store32 m2 p (cpu_to_fdt32 3)) (p + 8) (cpu_to_fdt32 (word_of_int off)))
             (p + 4) (cpu_to_fdt32 (word_of_int len)) \<and>
      p + 12 + FDT_ALIGN len 4 \<le> f + fdt_totalsize m f))"
proof (cases "fdt_check_node_offset' m f node < 0")
  case True
  with r edited_refl[OF rw] show ?thesis by (auto simp: fdt_add_property'_def)
next
  case False
  let ?nx = "fdt_check_node_offset' m f node"
  have nx: "0 \<le> ?nx" "?nx \<le> fdt_size_dt_struct m f + 3" using check_node_bounds[OF rw _ node] False by auto
  have l0: "0 \<le> l" using l(1) strlen_Some_iff by simp
  obtain off al m1 where fa: "fdt_find_add_string' m f name = Some (off, al, m1)"
    using r False by (auto simp: fdt_add_property'_def split: bind_splits)
  note s1 = fdt_find_add_string_spec[OF rw l fa]
  show ?thesis
  proof (cases "off < 0")
    case True
    with r False fa s1 edited_refl[OF rw] show ?thesis by (auto simp: fdt_add_property'_def)
  next
    case o: False
    note s1 = s1[unfolded if_not_P[OF o]]
    then have e1: "edited f m m1" by simp
    note rw1 = edited_rw[OF e1]
    note b = rw_treeD[OF rw1] rw_tree_bounds[OF rw1]
    let ?p = "fdt_offset_ptr' m1 f ?nx" and ?n = "12 + FDT_ALIGN len 4"
    have A: "len \<le> FDT_ALIGN len 4" "FDT_ALIGN len 4 \<le> len + 3" using FDT_ALIGN_4[of len] len by simp_all
    have n: "s32 ?n = ?n" by (rule s32_id) (use A len in linarith)+
    have pp: "?p = f + fdt_off_dt_struct m f + ?nx" "?p = fdt_offset_ptr' m f ?nx" using s1 by (simp_all add: fdt_offset_ptr'_def)
    obtain e m2 where sp: "fdt_splice_struct' m1 f ?p 0 ?n = (e, m2)" by fastforce
    have P: "f + fdt_off_dt_struct m1 f \<le> ?p" "?p - f < 18446744073709551616" using nx s1 b by (simp_all add: fdt_offset_ptr'_def)
    have N: "is_int 0" "0 \<le> ?n" "?n \<le> 2147483647" "0 \<le> fdt_size_dt_struct m1 f + ?n"
      using A len b by (simp add: is_int_def, linarith+)
    note s2 = fdt_splice_struct_spec[OF rw1 sp P N]
    have e2: "edited f m1 m2" by (rule edited_splice_struct[OF rw1 sp P N])
    show ?thesis
    proof (cases "e = 0")
      case False
      then have same: "m2 = m1" using s2 by simp
      have "e < 0" using sp False
        by (auto simp: fdt_splice_struct'_def fdt_splice'_def Let_def split: if_splits prod.splits)
      have "al \<Longrightarrow> l + 1 \<le> fdt_size_dt_strings m1 f"
        using s1 o by simp
      then have "edited f m1 m' \<and> err \<noteq> 0"
        using r \<open>\<not> ?nx < 0\<close> fa o sp n False same edited_refl[OF rw1] fdt_del_last_string_edited[OF rw1 l(1)]
        by (auto simp: fdt_add_property'_def Let_def split: if_splits bind_splits)
      with e1 edited_trans show ?thesis by blast
    next
      case True
      note s2 = s2[unfolded if_not_P[of "e \<noteq> 0", unfolded not_not, OF True]]
      let ?m3 = "store32 m2 ?p (cpu_to_fdt32 3)"
      let ?m4 = "store32 ?m3 (?p + 8) (cpu_to_fdt32 (word_of_int off))"
      have m': "m' = store32 ?m4 (?p + 4) (cpu_to_fdt32 (word_of_int len))" "p = ?p" "err = 0"
        using r \<open>\<not> ?nx < 0\<close> fa o sp n True by (auto simp: fdt_add_property'_def Let_def)
      have w: "writes_in ?p 12 m2 ?m3" "writes_in ?p 12 ?m3 ?m4" "writes_in ?p 12 ?m4 m'"
        unfolding m' by (intro writes_in_store32; simp)+
      then have "writes_in ?p 12 m2 m'" using writes_in_trans by blast
      then have "edited f m2 m'"
        by (rule edited_body[OF edited_rw[OF e2]]) (use s2 P A len b in linarith)+
      then have "edited f m m'" using e1 e2 edited_trans by blast
      moreover have "?p + ?n \<le> f + fdt_totalsize m f" using s2 e1 by (simp add: edited_def)
      ultimately show ?thesis using m' fa o nx pp(2) sp True by auto
    qed
  qed
qed


section \<open>The edits\<close>

lemma fdt_setprop_placeholder_edited:
  assumes rw: "rw_tree m f" and l: "strlen name = Some l" "l < 2147483647" and node: "is_int node"
    and len: "0 \<le> len" "len \<le> 2147483632"
    and r: "fdt_setprop_placeholder m f node name len = Some (err, v, m')"
  shows "edited f m m' \<and> (err = 0 \<longrightarrow> f + 40 \<le> v \<and> v + len \<le> f + fdt_totalsize m f)"
proof -
  note b = rw_treeD[OF rw] rw_tree_bounds[OF rw]
  obtain e p m1 where rs: "fdt_resize_property' m f node name len = Some (e, p, m1)"
    using r rw_probe_ok[OF rw] by (auto simp: fdt_setprop_placeholder_def split: bind_splits)
  note s1 = fdt_resize_property_spec[OF rw l(1) len rs]
  show ?thesis
  proof (cases "e = - FDT_ERR_NOTFOUND")
    case True
    with s1 have "m1 = m" by simp
    with r rs True rw_probe_ok[OF rw] obtain e2 p2 where ad: "fdt_add_property' m f node name len = Some (e2, p2, m')"
      and v: "err = e2" "err = 0 \<longrightarrow> v = p2 + 12"
      by (auto simp: fdt_setprop_placeholder_def split: bind_splits if_splits)
    note s2 = fdt_add_property_spec[OF rw l node len ad]
    have "len \<le> FDT_ALIGN len 4" using FDT_ALIGN_4[of len] len by simp
    moreover have "f + 40 \<le> p2" if "err = 0"
      using s2 v that b by (auto simp: fdt_offset_ptr'_def)
    ultimately show ?thesis using s2 v by auto
  next
    case False
    with r rs rw_probe_ok[OF rw] have v: "err = e" "m' = m1" "err = 0 \<longrightarrow> v = p + 12"
      by (auto simp: fdt_setprop_placeholder_def split: if_splits)
    show ?thesis
    proof (cases "e = 0")
      case True
      note s1 = s1[unfolded if_not_P[of "e \<noteq> 0", unfolded not_not, OF True]]
      have "len \<le> FDT_TAGALIGN len" using FDT_TAGALIGN_4[of len] len by simp
      with s1 v b show ?thesis by (auto simp: fdt_offset_ptr'_def)
    next
      case False
      with s1 v edited_refl[OF rw] show ?thesis by simp
    qed
  qed
qed

lemma fdt_setprop_edited:
  assumes rw: "rw_tree m f" and l: "strlen name = Some l" "l < 2147483647" and node: "is_int node"
    and len: "0 \<le> len" "len \<le> 2147483632" and r: "fdt_setprop m f node name val len = Some (err, m')"
  shows "edited f m m'"
proof -
  obtain e v m1 where p: "fdt_setprop_placeholder m f node name len = Some (e, v, m1)"
    using r by (auto simp: fdt_setprop_def split: bind_splits)
  note s = fdt_setprop_placeholder_edited[OF rw l node len p]
  have n: "int (sz len) = len" using len by (simp add: sz_id)
  show ?thesis
  proof (cases "e = 0 \<and> len \<noteq> 0")
    case True
    then have m': "m' = memcpy_from m1 v val (sz len)" using r p by (simp add: fdt_setprop_def)
    have "edited f m1 m'"
      unfolding m' by (rule edited_body[OF _ writes_in_memcpy_from[of v v _ len]])
        (use s True n in \<open>auto simp: edited_def\<close>)
    with s edited_trans show ?thesis by blast
  next
    case False
    with r p s show ?thesis by (auto simp: fdt_setprop_def split: if_splits)
  qed
qed

lemma add_subnode_skip_bounds:
  "rw_tree m f \<Longrightarrow> 0 \<le> o1 \<Longrightarrow> o1 \<le> fdt_size_dt_struct m f + 3 \<Longrightarrow>
   0 \<le> add_subnode_skip m f o1 \<and> add_subnode_skip m f o1 \<le> fdt_size_dt_struct m f + 3"
proof (induction m f o1 rule: add_subnode_skip.induct)
  case (1 m f o1)
  obtain tag nx where t: "fdt_next_tag m f o1 = (tag, nx)" by fastforce
  show ?case
  proof (cases "tag = FDT_PROP \<or> tag = FDT_NOP")
    case True
    then have "tag \<noteq> FDT_END" by auto
    moreover have "is_int o1" using "1.prems" rw_tree_bounds[OF "1.prems"(1)] by (simp add: is_int_def)
    ultimately have "0 \<le> nx \<and> nx \<le> fdt_size_dt_struct m f + 3"
      using fdt_next_tag_bounds[OF "1.prems"(1) t] "1.prems"(2) by auto
    then show ?thesis using "1.IH"[of "(tag, nx)" tag nx] t True "1.prems"(1)
      by (simp add: add_subnode_skip.simps[of m f o1])
  next
    case False
    with t "1.prems" show ?thesis by (simp add: add_subnode_skip.simps[of m f o1])
  qed
qed

lemma put_subnode_writes:
  assumes n: "0 \<le> n" "n \<le> 2147483632"
  shows "writes_in p (4 + FDT_ALIGN (n + 1) 4 + 4) m (put_subnode m p name n (4 + FDT_ALIGN (n + 1) 4 + 4))"
proof -
  let ?a = "FDT_ALIGN (n + 1) 4"
  have A: "n + 1 \<le> ?a" "?a \<le> n + 4" using FDT_ALIGN_4[of "n + 1"] n by simp_all
  then have z: "int (sz n) = n" "int (sz ?a) = ?a" using n by (simp_all add: sz_id)
  have "writes_in p (4 + ?a + 4) m1 (store32 m1 p x)" for m1 x
    by (rule writes_in_store32) (use A n in linarith)+
  moreover have "writes_in p (4 + ?a + 4) m2 (memset m2 (p + 4) 0 (sz ?a))" for m2
    by (rule writes_in_memset) (use A n z in linarith)+
  moreover have "writes_in p (4 + ?a + 4) m3 (memcpy_from m3 (p + 4) name (sz n))" for m3
    by (rule writes_in_memcpy_from) (use A n z in linarith)+
  moreover have "writes_in p (4 + ?a + 4) m4 (store32 m4 (p + (4 + ?a + 4) - 4) x)" for m4 x
    by (rule writes_in_store32) (use A n in linarith)+
  ultimately show ?thesis unfolding put_subnode_def Let_def by (meson writes_in_trans)
qed

lemma fdt_add_subnode_namelen_edited:
  assumes rw: "rw_tree m f" and parent: "is_int parent" and n: "0 \<le> n" "n \<le> 2147483632"
    and r: "fdt_add_subnode_namelen m f parent name n = Some (off, m')"
  shows "edited f m m'"
proof -
  note b = rw_treeD[OF rw] rw_tree_bounds[OF rw]
  obtain tag nx where t: "fdt_next_tag m f parent = (tag, nx)" by fastforce
  let ?o = "add_subnode_skip m f nx" and ?k = "4 + FDT_ALIGN (n + 1) 4 + 4"
  have A: "n + 1 \<le> FDT_ALIGN (n + 1) 4" "FDT_ALIGN (n + 1) 4 \<le> n + 4" using FDT_ALIGN_4[of "n + 1"] n by simp_all
  have k: "s32 ?k = ?k" by (rule s32_id) (use A n in linarith)+
  consider "m' = m" | e m1 where "tag = FDT_BEGIN_NODE"
    "fdt_splice_struct' m f (fdt_offset_ptr' m f ?o) 0 ?k = (e, m1)"
    "m' = (if e \<noteq> 0 then m1 else put_subnode m1 (fdt_offset_ptr' m f ?o) name n ?k)"
  proof -
    assume a: "m' = m \<Longrightarrow> thesis" and c: "\<And>e m1. tag = FDT_BEGIN_NODE \<Longrightarrow>
      fdt_splice_struct' m f (fdt_offset_ptr' m f ?o) 0 ?k = (e, m1) \<Longrightarrow>
      m' = (if e \<noteq> 0 then m1 else put_subnode m1 (fdt_offset_ptr' m f ?o) name n ?k) \<Longrightarrow> thesis"
    obtain e m1 where sp: "fdt_splice_struct' m f (fdt_offset_ptr' m f ?o) 0 ?k = (e, m1)" by fastforce
    show thesis
      using r rw_probe_ok[OF rw] t sp k a c[OF _ sp]
      by (auto simp: fdt_add_subnode_namelen_def Let_def split: bind_splits if_splits)
  qed
  then show ?thesis
  proof cases
    case 1
    with edited_refl[OF rw] show ?thesis by simp
  next
    case (2 e m1)
    let ?p = "fdt_offset_ptr' m f ?o"
    have o: "0 \<le> ?o" "?o \<le> fdt_size_dt_struct m f + 3"
      using add_subnode_skip_bounds[OF rw, of nx] fdt_next_tag_bounds[OF rw t _ parent] 2(1) by auto
    have P: "f + fdt_off_dt_struct m f \<le> ?p" "?p - f < 18446744073709551616" using o b by (simp_all add: fdt_offset_ptr'_def)
    have N: "is_int 0" "0 \<le> ?k" "?k \<le> 2147483647" "0 \<le> fdt_size_dt_struct m f + ?k"
      using A n b by (simp add: is_int_def, linarith+)
    have e1: "edited f m m1" by (rule edited_splice_struct[OF rw 2(2) P N])
    show ?thesis
    proof (cases "e = 0")
      case False
      with 2 e1 show ?thesis by simp
    next
      case True
      note s = fdt_splice_struct_spec[OF rw 2(2) P N, unfolded if_not_P[of "e \<noteq> 0", unfolded not_not, OF True]]
      have w: "writes_in ?p ?k m1 m'" using put_subnode_writes[OF n] True unfolding 2(3) by simp
      have "edited f m1 m'" by (rule edited_body[OF edited_rw[OF e1] w]) (use s P b in linarith)+
      with e1 show ?thesis by (rule edited_trans)
    qed
  qed
qed


text \<open>The other edits of properties and names.\<close>

lemma get_property_place:
  assumes rw: "rw_tree m f" and g: "fdt_get_property_namelen m f node name l = (Some p, n)" and node: "is_int node"
  obtains po where "p = fdt_offset_ptr' m f po" "4 \<le> po" "0 \<le> n" "po + 12 + n \<le> fdt_size_dt_struct m f"
proof -
  obtain po where po: "get_property_loop m f (fdt_first_property_offset m f node) name l = (Some p, n, po)"
    "p = fdt_offset_ptr' m f po" "0 \<le> n" "po + 12 + n \<le> fdt_size_dt_struct m f"
    using get_property_found[OF rw g] by metis
  have "4 \<le> po" using get_property_first[OF po(1) node] by linarith
  with that po show thesis by blast
qed

lemma fdt_delprop_edited:
  assumes rw: "rw_tree m f" and node: "is_int node" and r: "fdt_delprop m f node name = Some (err, m')"
  shows "edited f m m'"
proof -
  note b = rw_treeD[OF rw] rw_tree_bounds[OF rw]
  obtain l where l: "strlen name = Some l"
    using r rw_probe_ok[OF rw] by (auto simp: fdt_delprop_def fdt_get_property_def split: bind_splits)
  obtain pr n where g: "fdt_get_property_namelen m f node name (s32 l) = (pr, n)" by fastforce
  show ?thesis
  proof (cases pr)
    case None
    with r rw_probe_ok[OF rw] l g edited_refl[OF rw] show ?thesis by (simp add: fdt_delprop_def fdt_get_property_def)
  next
    case (Some p)
    obtain po where po: "p = fdt_offset_ptr' m f po" "4 \<le> po" "0 \<le> n" "po + 12 + n \<le> fdt_size_dt_struct m f"
      using get_property_place[OF rw g[unfolded Some] node] by blast
    have A: "n \<le> FDT_ALIGN n 4" "FDT_ALIGN n 4 \<le> n + 3" using FDT_ALIGN_4[of n] po b by simp_all
    have sp: "fdt_splice_struct' m f p (s32 (12 + FDT_ALIGN n 4)) 0 = (err, m')"
      using r rw_probe_ok[OF rw] l g Some by (simp add: fdt_delprop_def fdt_get_property_def)
    have "s32 (12 + FDT_ALIGN n 4) = 12 + FDT_ALIGN n 4" by (rule s32_id) (use A po b in linarith)+
    moreover from this have "is_int (12 + FDT_ALIGN n 4)" using is_int_s32 by metis
    ultimately show ?thesis
      by (intro edited_splice_struct[OF rw sp]) (use A po b in \<open>simp_all add: fdt_offset_ptr'_def\<close>)
  qed
qed

lemma fdt_appendprop_edited:
  assumes rw: "rw_tree m f" and l: "strlen name = Some l" "l < 2147483647" and node: "is_int node"
    and len: "0 \<le> len" "len \<le> 2147483632" and room: "len + fdt_totalsize m f \<le> 2147483632"
    and r: "fdt_appendprop m f node name val len = Some (err, m')"
  shows "edited f m m'"
proof -
  note b = rw_treeD[OF rw] rw_tree_bounds[OF rw]
  have nl: "int (sz len) = len" using len by (simp add: sz_id)
  obtain pr n where g: "fdt_get_property_namelen m f node name (s32 l) = (pr, n)" by fastforce
  show ?thesis
  proof (cases pr)
    case None
    with r rw_probe_ok[OF rw] l g obtain e p m1 where ad: "fdt_add_property' m f node name len = Some (e, p, m1)"
      and m': "m' = (if e \<noteq> 0 then m1 else memcpy_from m1 (p + 12) val (sz len))"
      by (auto simp: fdt_appendprop_def fdt_get_property_def split: bind_splits if_splits)
    note s = fdt_add_property_spec[OF rw l node len ad]
    show ?thesis
    proof (cases "e = 0")
      case True
      have "p + 12 + len \<le> f + fdt_totalsize m f" "f + 40 \<le> p + 12"
        using s True FDT_ALIGN_4[of len] len b by (auto simp: fdt_offset_ptr'_def)
      then have "edited f m1 m'"
        unfolding m' by (simp only: True not_True_eq_False if_False simp_thms) (rule edited_body[OF _ writes_in_memcpy_from[of "p + 12" "p + 12" _ len]],
          use s nl in \<open>auto simp: edited_def\<close>)
      with s edited_trans show ?thesis by blast
    qed (use s m' in simp)
  next
    case (Some p)
    obtain po where po: "p = fdt_offset_ptr' m f po" "4 \<le> po" "0 \<le> n" "po + 12 + n \<le> fdt_size_dt_struct m f"
      using get_property_place[OF rw g[unfolded Some] node] by blast
    let ?n = "len + n"
    have N: "s32 ?n = ?n" by (rule s32_id) (use po b room len in linarith)+
    obtain e m1 where sp: "fdt_splice_struct' m f (p + 12) (FDT_TAGALIGN n) (FDT_TAGALIGN ?n) = (e, m1)" by fastforce
    have m': "m' = (if e \<noteq> 0 then m1 else memcpy_from (store32 m1 (p + 4) (cpu_to_fdt32 (word_of_int ?n))) (p + 12 + n) val (sz len))"
      using r rw_probe_ok[OF rw] l g Some N sp by (auto simp: fdt_appendprop_def fdt_get_property_def Let_def split: if_splits)
    have al: "?n \<le> FDT_TAGALIGN ?n" "FDT_TAGALIGN ?n \<le> ?n + 3" "n \<le> FDT_TAGALIGN n" "FDT_TAGALIGN n \<le> n + 3"
      using FDT_TAGALIGN_4[of ?n] FDT_TAGALIGN_4[of n] po b room len by simp_all
    have pp: "p = f + fdt_off_dt_struct m f + po" using po(1) by (simp add: fdt_offset_ptr'_def)
    have P: "f + fdt_off_dt_struct m f \<le> p + 12" "p + 12 - f < 18446744073709551616" "is_int (FDT_TAGALIGN n)"
      "0 \<le> FDT_TAGALIGN ?n" "FDT_TAGALIGN ?n \<le> 2147483647" "FDT_TAGALIGN n \<le> fdt_size_dt_struct m f + FDT_TAGALIGN ?n"
      using pp po al b room len by (linarith | simp)+
    have e1: "edited f m m1" by (rule edited_splice_struct[OF rw sp P])
    show ?thesis
    proof (cases "e = 0")
      case True
      note s = fdt_splice_struct_spec[OF rw sp P, unfolded if_not_P[of "e \<noteq> 0", unfolded not_not, OF True]]
      let ?k = "8 + FDT_TAGALIGN ?n"
      have "writes_in (p + 4) ?k m1 (store32 m1 (p + 4) x)" "writes_in (p + 4) ?k m2 (memcpy_from m2 (p + 12 + n) val (sz len))" for x m2
        using al po len nl by (auto intro!: writes_in_store32 writes_in_memcpy_from)
      then have "writes_in (p + 4) ?k m1 m'" using True unfolding m' by simp (blast intro: writes_in_trans)
      then have "edited f m1 m'"
        by (rule edited_body[OF edited_rw[OF e1]]) (use s P po b in \<open>simp_all add: fdt_offset_ptr'_def\<close>)
      with e1 show ?thesis by (rule edited_trans)
    qed (use e1 m' in simp)
  qed
qed


text \<open>The name of a node ends inside of the structure block.\<close>

lemma next_tag_name_end:
  "next_tag_name m f o1 = Some r \<Longrightarrow> is_int o1 \<Longrightarrow> 0 \<le> r \<Longrightarrow>
   o1 < r \<and> m (fdt_offset_ptr' m f (r - 1)) = 0 \<and> (\<forall>i. o1 \<le> i \<and> i < r - 1 \<longrightarrow> m (fdt_offset_ptr' m f i) \<noteq> 0)"
proof (induction m f o1 arbitrary: r rule: next_tag_name.induct)
  case (1 m f o1)
  note eq = "1.prems"(1)[unfolded next_tag_name.simps[of m f o1]]
  obtain p where p: "fdt_offset_ptr m f o1 1 = Some p" using eq by (auto split: option.splits)
  have o: "0 \<le> o1" "o1 \<le> 2147483647" "p = fdt_offset_ptr' m f o1"
    using fdt_offset_ptr_Some[OF p "1.prems"(2)] "1.prems"(2) by (auto simp: is_int_def)
  show ?case
  proof (cases "m p = 0")
    case True
    with eq p have "r = s32 (o1 + 1)" by simp
    with "1.prems"(3) o s32_cases[of "o1 + 1"] have "r = o1 + 1" by auto
    with True o(3) show ?thesis by auto
  next
    case False
    with eq p have r': "next_tag_name m f (s32 (o1 + 1)) = Some r" by simp
    have "0 \<le> s32 (o1 + 1)" using next_tag_name_nonneg[OF r'] by simp
    then have s: "s32 (o1 + 1) = o1 + 1" using s32_cases[of "o1 + 1"] o by auto
    note ih = "1.IH"[OF p False r' is_int_s32 "1.prems"(3), unfolded s]
    then have "m (fdt_offset_ptr' m f i) \<noteq> 0" if "o1 \<le> i" "i < r - 1" for i
      using that False o(3) by (cases "i = o1") auto
    with ih show ?thesis by auto
  qed
qed

lemma fdt_get_name_spec:
  assumes rw: "rw_tree m f" and node: "is_int node" and c: "0 \<le> fdt_check_node_offset' m f node"
  shows "\<exists>s. fdt_get_name m f node = Some (Some (fdt_offset_ptr' m f (node + 4)), int (length s)) \<and> 0 \<le> node \<and>
    points_to_str (rd m (fdt_offset_ptr' m f (node + 4))) s \<and> node + 4 + int (length s) + 1 \<le> fdt_size_dt_struct m f \<and>
    node + 4 + int (length s) + 1 \<le> fdt_check_node_offset' m f node"
proof -
  note b = rw_treeD[OF rw] rw_tree_bounds[OF rw]
  obtain nx where t: "fdt_next_tag m f node = (FDT_BEGIN_NODE, nx)" "0 \<le> node" and cnx: "fdt_check_node_offset' m f node = nx"
    using c by (auto simp: fdt_check_node_offset'_def split: if_splits prod.splits)
  obtain e q where e: "next_tag_skip m f FDT_BEGIN_NODE (s32 (node + 4)) = Some e"
    "fdt_offset_ptr m f node (e - node) = Some q" "nx = FDT_TAGALIGN e"
    by (rule fdt_next_tag_cases[OF t(1) _ node]) (simp, blast)
  have nxb: "node + 4 \<le> nx" "nx \<le> fdt_size_dt_struct m f + 3" using fdt_next_tag_bounds[OF rw t(1) _ node] by simp_all
  have s4: "s32 (node + 4) = node + 4" by (rule s32_id) (use t(2) nxb b in linarith)+
  note end_e = next_tag_skip_end[OF e(1) t(2) node]
  have "e \<le> - 4 \<Longrightarrow> nx < 0"
    using FDT_TAGALIGN_progress[of e] end_e unfolding e(3) by linarith
  then have e4: "node + 4 \<le> e" "e \<le> 2147483647" using end_e nxb t(2) by (auto simp: is_int_def)
  then have "u32 (e - node) = e - node" using t(2) by (simp add: u32_id)
  then have esz: "e \<le> fdt_size_dt_struct m f" using fdt_offset_ptr_Some[OF e(2) node] b by simp
  have nm: "next_tag_name m f (node + 4) = Some e" using e(1) by (simp add: next_tag_skip_def s4)
  have "is_int (node + 4)" using is_int_s32[of "node + 4"] unfolding s4 .
  note en = next_tag_name_end[OF nm this]
  have en: "node + 4 < e" "m (fdt_offset_ptr' m f (e - 1)) = 0"
    "\<And>i. node + 4 \<le> i \<Longrightarrow> i < e - 1 \<Longrightarrow> m (fdt_offset_ptr' m f i) \<noteq> 0" using en e4 t(2) by auto
  let ?p = "fdt_offset_ptr' m f (node + 4)" and ?k = "nat (e - 1 - (node + 4))"
  let ?s = "bytes_at (rd m ?p) ?k"
  have ptr: "?p + i = fdt_offset_ptr' m f (node + 4 + i)" for i by (simp add: fdt_offset_ptr'_def)
  have ps: "points_to_str (rd m ?p) ?s"
    using en by (auto simp: points_to_str_def cstring_def in_set_conv_nth ptr)
  have "fdt_ro_probe' m f = fdt_totalsize m f"
    using rw b unfolding rw_tree_def by (simp add: fdt_ro_probe'_def INT_MAX_def Let_def)
  moreover have "s32 (int (length ?s)) = int (length ?s)" by (rule s32_id) (use e4 t(2) in simp_all)
  moreover have "fdt_offset_ptr' m f node + 4 = ?p" by (simp add: fdt_offset_ptr'_def)
  ultimately have "fdt_get_name m f node = Some (Some ?p, int (length ?s))"
    using c b strlen_points_to[OF ps] by (simp add: fdt_get_name_def get_name_leaf_def)
  moreover have "e \<le> nx" using FDT_TAGALIGN_4[of e] e4 t(2) esz b unfolding e(3) by simp
  ultimately show ?thesis using ps t(2) en(1) esz cnx by (intro exI[of _ ?s]) simp
qed

lemma fdt_set_name_edited:
  assumes rw: "rw_tree m f" and l: "strlen name = Some l" "l \<le> 2147483632" and node: "is_int node"
    and r: "fdt_set_name m f node name = Some (err, m')"
  shows "edited f m m'"
proof (cases "fdt_check_node_offset' m f node < 0")
  case True
  then have "m' = m" using r rw_probe_ok[OF rw]
    by (auto simp: fdt_set_name_def fdt_get_name_def split: if_splits)
  with edited_refl[OF rw] show ?thesis by simp
next
  case False
  note b = rw_treeD[OF rw] rw_tree_bounds[OF rw]
  let ?p = "fdt_offset_ptr' m f (node + 4)"
  obtain s :: "byte list" where s: "fdt_get_name m f node = Some (Some ?p, int (length s))" "0 \<le> node"
    "node + 4 + int (length s) + 1 \<le> fdt_size_dt_struct m f"
    using fdt_get_name_spec[OF rw node] False unfolding not_less by blast
  have l0: "0 \<le> l" using l(1) strlen_Some_iff by simp
  then have sl: "s32 l = l" "int (sz (l + 1)) = l + 1" using l(2) by (simp_all add: s32_id sz_id)
  let ?old = "FDT_TAGALIGN (int (length s) + 1)" and ?new = "FDT_TAGALIGN (l + 1)"
  have al: "l + 1 \<le> ?new" "?new \<le> l + 4" "?old \<le> int (length s) + 4"
    using FDT_TAGALIGN_4[of "l + 1"] FDT_TAGALIGN_4[of "int (length s) + 1"] l0 l(2) s b by simp_all
  obtain e m1 where sp: "fdt_splice_struct' m f ?p ?old ?new = (e, m1)" by fastforce
  have m': "m' = (if e \<noteq> 0 then m1 else memcpy_from m1 ?p name (sz (l + 1)))"
    using r rw_probe_ok[OF rw] s(1) l sl sp by (auto simp: fdt_set_name_def Let_def split: if_splits)
  have pp: "?p = f + fdt_off_dt_struct m f + node + 4" by (simp add: fdt_offset_ptr'_def)
  have P: "f + fdt_off_dt_struct m f \<le> ?p" "?p - f < 18446744073709551616" "is_int ?old"
    "0 \<le> ?new" "?new \<le> 2147483647" "?old \<le> fdt_size_dt_struct m f + ?new"
    unfolding pp using al s b l0 l(2) by (linarith | simp)+
  have e1: "edited f m m1" by (rule edited_splice_struct[OF rw sp P])
  show ?thesis
  proof (cases "e = 0")
    case True
    note t = fdt_splice_struct_spec[OF rw sp P, unfolded if_not_P[of "e \<noteq> 0", unfolded not_not, OF True]]
    have "writes_in ?p ?new m1 m'" using al sl True unfolding m' by (auto intro: writes_in_memcpy_from)
    then have "edited f m1 m'" by (rule edited_body[OF edited_rw[OF e1]]) (use t P b in linarith)+
    with e1 show ?thesis by (rule edited_trans)
  qed (use e1 m' in simp)
qed

section \<open>Errors are negative\<close>

lemma check_header_nonpos: "fdt_check_header m f \<le> 0"
  by (simp add: fdt_check_header_def Let_def)

lemma splice_struct_nonpos: "fdt_splice_struct' m f p o1 n = (e, m') \<Longrightarrow> e \<le> 0"
  by (auto simp: fdt_splice_struct'_def fdt_splice'_def Let_def split: prod.splits if_splits)

lemma rw_probe_nonpos: "fdt_rw_probe' m f = (e, m') \<Longrightarrow> e \<le> 0"
  by (auto simp: fdt_rw_probe'_def split: if_splits)

lemma resize_property_nonpos:
  assumes rw: "rw_tree m f" and l: "strlen name = Some l" and r: "fdt_resize_property' m f node name len = Some (e, p, m')"
  shows "e \<le> 0"
proof -
  obtain pr old where g: "fdt_get_property_namelen m f node name (s32 l) = (pr, old)" by fastforce
  have "pr = None \<Longrightarrow> old < 0" using get_property_missing[OF rw_treeD(6)[OF rw]] g by blast
  with r l g splice_struct_nonpos[of m f] show ?thesis
    by (fastforce simp: fdt_resize_property'_def fdt_get_property_def split: option.splits prod.splits if_splits)
qed

lemma add_property_nonpos:
  assumes "fdt_add_property' m f node name len = Some (e, p, m')"
  shows "e \<le> 0"
  using assms splice_struct_nonpos
  by (fastforce simp: fdt_add_property'_def Let_def split: bind_splits prod.splits if_splits)

lemma setprop_nonpos:
  assumes "fdt_setprop m f node name val len = Some (e, m')" "rw_tree m f" "strlen name = Some l"
  shows "e \<le> 0"
proof -
  obtain v m1 where p: "fdt_setprop_placeholder m f node name len = Some (e, v, m1)"
    using assms(1) by (auto simp: fdt_setprop_def split: bind_splits if_splits)
  obtain e1 q m2 where r: "fdt_resize_property' m f node name len = Some (e1, q, m2)"
    using p rw_probe_ok[OF assms(2)] by (auto simp: fdt_setprop_placeholder_def split: bind_splits)
  with resize_property_nonpos[OF assms(2,3) r] p rw_probe_ok[OF assms(2)] add_property_nonpos[of m2 f node name len]
  show ?thesis by (auto simp: fdt_setprop_placeholder_def split: bind_splits if_splits)
qed

end
