(* ===== verification/Fdt_Remove.thy ===== *)
theory Fdt_Remove
  imports Fdt_Edit
begin

text \<open>
  Removing nodes and memory reservations (\<open>fdt_del_node\<close>, \<open>fdt_del_mem_rsv\<close> of \<open>src/src/libfdt/fdt_rw.c\<close>): how far a
  node reaches, that the reservations can be counted, and what the edits keep.
\<close>

section \<open>The end of a node\<close>

lemma end_node_bound:
  assumes rw: "rw_tree m f" and t: "fdt_next_tag m f o1 = (FDT_END_NODE, nx)" and o: "is_int o1" "o1 mod 4 = 0"
  shows "nx = o1 + 4 \<and> nx \<le> fdt_size_dt_struct m f"
proof -
  note b = rw_treeD[OF rw] rw_tree_bounds[OF rw]
  have "(FDT_END_NODE :: int) \<noteq> FDT_END" by simp
  from fdt_next_tag_cases[OF t this o(1)] obtain e where e: "fdt_offset_ptr m f o1 4 \<noteq> None"
    "next_tag_skip m f FDT_END_NODE (s32 (o1 + 4)) = Some e" "nx = FDT_TAGALIGN e" by metis
  then have s: "0 \<le> o1" "o1 + 4 \<le> fdt_size_dt_struct m f" using fdt_offset_ptr_Some[OF _ o(1)] b by (fastforce simp: u32_id)+
  then have "s32 (o1 + 4) = o1 + 4" using b by (intro s32_id) linarith+
  then have n: "nx = FDT_TAGALIGN (o1 + 4)" using e(2,3) by (simp add: next_tag_skip_def)
  have "o1 + 4 < 2147483645" using s b by linarith
  then have "o1 + 4 \<le> nx \<and> nx \<le> o1 + 7 \<and> nx mod 4 = 0" using FDT_TAGALIGN_4[of "o1 + 4"] s n by simp
  with o(2) have "nx = o1 + 4" by presburger
  with s show ?thesis by simp
qed

lemma next_node_loop_end:
  "next_node_loop m f o1 (Some d) = (r, Some d') \<Longrightarrow> rw_tree m f \<Longrightarrow> is_int o1 \<Longrightarrow> o1 mod 4 = 0 \<Longrightarrow> 0 \<le> d \<Longrightarrow> 0 \<le> r \<Longrightarrow>
   d' < 0 \<Longrightarrow> r \<le> fdt_size_dt_struct m f"
proof (induction m f o1 "Some d" arbitrary: d rule: next_node_loop.induct)
  case (1 m f o1)
  obtain tag nx where t: "fdt_next_tag m f o1 = (tag, nx)" by fastforce
  note eq = "1.prems"(1)[unfolded next_node_loop.simps[of m f o1] t Let_def prod.case]
  consider "tag = FDT_BEGIN_NODE" | "tag = FDT_END_NODE" | "tag = FDT_END" | "tag \<noteq> FDT_BEGIN_NODE" "tag \<noteq> FDT_END_NODE" "tag \<noteq> FDT_END"
    by blast
  then show ?case
  proof cases
    case 1
    with eq "1.prems"(5,7) show ?thesis by simp
  next
    case 2
    note e = end_node_bound[OF "1.prems"(2) t[unfolded 2] "1.prems"(3,4)]
    show ?thesis
    proof (cases "d - 1 < 0")
      case True
      with eq 2 e show ?thesis by simp
    next
      case False
      have "is_int nx" using fdt_next_tag_is_int[OF t] .
      moreover have "nx mod 4 = 0" using e "1.prems"(4) by presburger
      ultimately show ?thesis using "1.hyps"(1)[OF t[symmetric]] 2 False eq "1.prems" by simp
    qed
  next
    case 3
    with eq "1.prems"(6) show ?thesis by (auto split: if_splits)
  next
    case 4
    have "is_int nx" "nx mod 4 = 0"
      using fdt_next_tag_is_int[OF t] fdt_next_tag_bounds[OF "1.prems"(2) t 4(3) "1.prems"(3)] by simp_all
    then show ?thesis using "1.hyps"(2)[OF t[symmetric]] 4 eq "1.prems" by simp
  qed
qed

lemma next_node_depth: "next_node_loop m f o1 (Some d) = (r, d') \<Longrightarrow> \<exists>d''. d' = Some d''"
proof (induction m f o1 "Some d" arbitrary: d rule: next_node_loop.induct)
  case (1 m f o1)
  obtain tag nx where t: "fdt_next_tag m f o1 = (tag, nx)" by fastforce
  note eq = "1.prems"(1)[unfolded next_node_loop.simps[of m f o1] t Let_def prod.case]
  show ?case using eq "1.hyps"[OF t[symmetric]] by (auto split: if_splits)
qed

lemma node_end_loop_bound:
  "rw_tree m f \<Longrightarrow> is_int node \<Longrightarrow> 0 \<le> depth \<Longrightarrow> 0 \<le> node \<Longrightarrow> 0 \<le> node_end_loop m f node depth \<Longrightarrow>
   node_end_loop m f node depth \<le> fdt_size_dt_struct m f"
proof (induction m f node depth rule: node_end_loop.induct)
  case (1 m f node depth)
  obtain o2 d2 where nx: "fdt_next_node m f node (Some depth) = (o2, d2)" by fastforce
  have eq: "node_end_loop m f node depth = node_end_loop m f o2 (the d2)"
    using "1.prems"(3,4) nx by (subst node_end_loop.simps) simp
  show ?case
  proof (cases "0 \<le> o2 \<and> 0 \<le> the d2")
    case True
    with "1.IH"[OF _ nx[symmetric]] "1.prems" fdt_next_node_is_int[OF nx] show ?thesis by (simp add: eq)
  next
    case False
    then have r: "node_end_loop m f o2 (the d2) = o2" by (subst node_end_loop.simps) auto
    with False eq "1.prems"(5) have o2: "0 \<le> o2" "the d2 < 0" by auto
    let ?c = "fdt_check_node_offset' m f node"
    have c: "0 \<le> ?c" and lp: "next_node_loop m f ?c (Some depth) = (o2, d2)"
      using nx "1.prems"(4) o2(1) by (auto simp: fdt_next_node_def Let_def split: if_splits)
    obtain d3 where d3: "d2 = Some d3" using next_node_depth[OF lp] by blast
    have "o2 \<le> fdt_size_dt_struct m f"
      using next_node_loop_end[OF lp[unfolded d3] "1.prems"(1)] check_node_bounds[OF "1.prems"(1) c "1.prems"(2)]
        check_offset_is_int(1)[of m f node] "1.prems"(3) o2 d3 by simp
    then show ?thesis unfolding eq r .
  qed
qed

lemma fdt_del_node_edited:
  assumes rw: "rw_tree m f" and node: "is_int node" and r: "fdt_del_node m f node = (err, m')"
  shows "edited f m m'"
proof -
  note b = rw_treeD[OF rw] rw_tree_bounds[OF rw]
  let ?e = "fdt_node_end_offset' m f node" and ?p = "fdt_offset_ptr' m f node"
  show ?thesis
  proof (cases "?e < 0")
    case True
    with r rw_probe_ok[OF rw] edited_refl[OF rw] show ?thesis by (simp add: fdt_del_node_def Let_def)
  next
    case False
    then have sp: "fdt_splice_struct' m f ?p (?e - node) 0 = (err, m')"
      using r rw_probe_ok[OF rw] by (simp add: fdt_del_node_def Let_def)
    have n: "0 \<le> node" using False by (rule_tac ccontr) (simp add: fdt_node_end_offset'_def node_end_loop.simps[of m f node])
    have e: "?e \<le> fdt_size_dt_struct m f"
      using node_end_loop_bound[OF rw node _ n, of 0] False by (simp add: fdt_node_end_offset'_def)
    have "is_int (?e - node)" using False e n node b by (simp add: is_int_def)
    then show ?thesis
      by (intro edited_splice_struct[OF rw sp]) (use node n e b in \<open>simp_all add: fdt_offset_ptr'_def is_int_def\<close>)
  qed
qed

section \<open>Reservations\<close>

lemma num_mem_rsv_returns:
  assumes c: "fdt_check_header m f = 0" and i: "0 \<le> i" "fdt_off_mem_rsvmap m f + 16 * i \<le> fdt_totalsize m f"
  shows "\<exists>n. num_mem_rsv_loop m f i = Some n \<and> (n = - FDT_ERR_TRUNCATED \<or> i \<le> n \<and> fdt_off_mem_rsvmap m f + 16 * n + 16 \<le> fdt_totalsize m f)"
  using i
proof (induction "nat (fdt_totalsize m f - (fdt_off_mem_rsvmap m f + 16 * i))" arbitrary: i rule: less_induct)
  case less
  have b: "16 \<le> fdt_totalsize m f" "fdt_totalsize m f \<le> 2147483647" "0 \<le> fdt_off_mem_rsvmap m f"
    using c[unfolded fdt_check_header_iff fdt_header_size_def fdt_header_size'_def] by (auto split: if_splits)
  show ?case
  proof (cases "fdt_mem_rsv m f i")
    case None
    then show ?thesis by (subst num_mem_rsv_loop.simps) simp
  next
    case (Some re)
    have "u32 (i * 16) = i * 16" by (rule u32_id) (use less.prems b in linarith)+
    moreover have "u32 (fdt_off_mem_rsvmap m f + i * 16) = fdt_off_mem_rsvmap m f + i * 16"
      by (rule u32_id) (use less.prems b in linarith)+
    ultimately have o: "u32 (fdt_off_mem_rsvmap m f + u32 (i * 16)) = fdt_off_mem_rsvmap m f + 16 * i"
      "u64 (fdt_totalsize m f - 16) = fdt_totalsize m f - 16"
      using b by (simp_all add: u64_id)
    with Some have le: "fdt_off_mem_rsvmap m f + 16 * i + 16 \<le> fdt_totalsize m f"
      by (simp add: fdt_mem_rsv_def Let_def split: if_splits)
    show ?thesis
    proof (cases "fdt64_ld' m (re + 8) = 0")
      case True
      with Some le less.prems show ?thesis by (subst num_mem_rsv_loop.simps) simp
    next
      case False
      have "nat (fdt_totalsize m f - (fdt_off_mem_rsvmap m f + 16 * (i + 1))) < nat (fdt_totalsize m f - (fdt_off_mem_rsvmap m f + 16 * i))"
        using le by simp
      from less.hyps[OF this] less.prems(1) le obtain n where "num_mem_rsv_loop m f (i + 1) = Some n"
        "n = - FDT_ERR_TRUNCATED \<or> i + 1 \<le> n \<and> fdt_off_mem_rsvmap m f + 16 * n + 16 \<le> fdt_totalsize m f"
        by (auto simp: algebra_simps)
      with Some False show ?thesis by (subst num_mem_rsv_loop.simps) auto
    qed
  qed
qed

text \<open>A map without terminator is counted into what is behind it; deleting an entry there
  leaves a header that checks but blocks that may overlap.\<close>

lemma fdt_del_mem_rsv_spec:
  assumes rw: "rw_tree m f" and n: "is_int n" "0 \<le> n" and r: "fdt_del_mem_rsv m f n = Some (err, m')"
  shows "if err \<noteq> 0 then m' = m
    else writes_in f (fdt_totalsize m f) m m' \<and> fdt_totalsize m' f = fdt_totalsize m f \<and> fdt_check_header m' f = 0"
proof (cases "err = 0")
  case False
  with r rw_probe_ok[OF rw] show ?thesis
    by (auto simp: fdt_del_mem_rsv_def fdt_splice_mem_rsv'_def fdt_splice'_def Let_def split: bind_splits if_splits prod.splits)
next
  case True
  note b = rw_treeD[OF rw] rw_tree_bounds[OF rw]
  let ?p = "fdt_mem_rsv' m f n"
  have sp: "fdt_splice_mem_rsv' m f ?p 1 0 = (0, m')"
    using r rw_probe_ok[OF rw] True by (auto simp: fdt_del_mem_rsv_def Let_def split: bind_splits if_splits)
  obtain m1 where m1: "fdt_splice' m f ?p 16 0 = (0, m1)"
    and m': "m' = fdt_set_off_dt_strings (fdt_set_off_dt_struct m1 f (fdt_off_dt_struct m1 f - 16)) f
       (fdt_off_dt_strings (fdt_set_off_dt_struct m1 f (fdt_off_dt_struct m1 f - 16)) f - 16)"
    using sp by (auto simp: fdt_splice_mem_rsv'_def Let_def s32_def split: prod.splits if_splits)
  have p: "f + 40 \<le> ?p" "?p - f < 18446744073709551616"
    using n b by (simp_all add: fdt_mem_rsv'_def is_int_def)
  have "f \<le> ?p" using p by simp
  note s = fdt_splice_spec[OF rw m1 this p(2), simplified]
  have head: "same_on f 40 m m1" using s p(1) by (auto simp: same_on_def is_int_def)
  note hd = same_header[OF head]
  have h: "fdt_off_dt_struct m' f = fdt_off_dt_struct m f - 16" "fdt_off_dt_strings m' f = fdt_off_dt_strings m f - 16"
    "fdt_totalsize m' f = fdt_totalsize m f" "fdt_version m' f = 17" "fdt_magic m' f = fdt_magic m f"
    "fdt_last_comp_version m' f = fdt_last_comp_version m f" "fdt_off_mem_rsvmap m' f = fdt_off_mem_rsvmap m f"
    "fdt_size_dt_struct m' f = fdt_size_dt_struct m f" "fdt_size_dt_strings m' f = fdt_size_dt_strings m f"
    using hd b unfolding m' by (simp_all add: fdt_get_set_hdr u32_id)
  have "writes_in f (fdt_totalsize m f) m m1" using s p b by (auto simp: writes_in_def is_int_def)
  moreover have "writes_in f (fdt_totalsize m f) m1 m'"
    unfolding m' by (intro writes_in_trans[OF writes_in_header writes_in_header]) (use b in simp_all)
  ultimately have "writes_in f (fdt_totalsize m f) m m'" by (rule writes_in_trans)
  moreover have "fdt_check_header m' f = 0"
    using rw b unfolding fdt_check_header_iff fdt_header_size_def fdt_header_size'_def h rw_tree_def by (simp, linarith)
  ultimately show ?thesis using h(3) True by simp
qed

end
