(* ===== verification/Fdt_Props.thy ===== *)
theory Fdt_Props
  imports Fdt_Local
begin

text \<open>
  The properties of the device tree library (\<open>src/src/libfdt/\<close>) and the example tree at which
  they are applied.
\<close>

section \<open>An example\<close>

text \<open>The tree \<open>/ { a = <7>; c { }; };\<close>, at address 64, with 24 spare bytes.\<close>

definition words :: "int list \<Rightarrow> byte list" where
  "words ws = concat (map (\<lambda>w. be32_bytes (word_of_int w)) ws)"

definition place :: "addr \<Rightarrow> byte list \<Rightarrow> mem" where
  "place f bs = (\<lambda>a. lit bs (a - f))"

definition ex_words :: "int list" where
  "ex_words =
     [0xd00dfeed, 128, 56, 100, 40, 17, 16, 0, 4, 44,
      0, 0, 0, 0,
      1, 0, 3, 4, 0, 7, 1, 0x63000000, 2, 2, 9,
      0x61000000]"

definition ex_tree :: mem where
  "ex_tree = place 64 (words ex_words)"

lemma words_append: "words (us @ vs) = words us @ words vs"
  by (simp add: words_def)

lemma length_words [simp]: "length (words ws) = 4 * length ws"
  by (induction ws) (simp_all add: words_def)

lemma nth_words: "i < length ws \<Longrightarrow> j < 4 \<Longrightarrow> words ws ! (4 * i + j) = be32_bytes (word_of_int (ws ! i)) ! j"
proof (induction ws arbitrary: i)
  case (Cons w ws)
  then show ?case
    by (cases i) (simp_all add: words_def nth_append)
qed simp

lemma ld_word:
  assumes "k mod 4 = 0" "0 \<le> k" "k < 4 * int (length ws)" "0 \<le> ws ! nat (k div 4)" "ws ! nat (k div 4) < 4294967296"
  shows "fdt32_ld (rd (place f (words ws)) (f + k)) = word_of_int (ws ! nat (k div 4))"
    "fdt32_ld' (place f (words ws)) (f + k) = ws ! nat (k div 4)"
proof -
  let ?i = "nat (k div 4)"
  have k: "k = int (4 * ?i)" "?i < length ws" using assms(1-3) by auto
  have "place f (words ws) (f + k + int j) = be32_bytes (word_of_int (ws ! ?i)) ! j" if "j < 4" for j
  proof -
    have "lit (words ws) (int (4 * ?i + j)) = words ws ! (4 * ?i + j)"
      using that k(2) by (intro lit_nth) simp
    then show ?thesis
      using nth_words[OF k(2) that] k(1) by (simp add: place_def)
  qed
  then have "bytes_at (rd (place f (words ws)) (f + k)) 4 = be32_bytes (word_of_int (ws ! ?i))"
    by (intro nth_equalityI) (simp_all add: algebra_simps)
  then show "fdt32_ld (rd (place f (words ws)) (f + k)) = word_of_int (ws ! nat (k div 4))"
    by (rule fdt32_ld_be32)
  with assms(4,5) show "fdt32_ld' (place f (words ws)) (f + k) = ws ! nat (k div 4)"
    by (simp add: fdt32_ld'_eq uint_word_of_int)
qed

lemma placed_ld:
  assumes "list_all (\<lambda>w. 0 \<le> w \<and> w < 4294967296) ws" "(k - f) mod 4 = 0" "f \<le> k" "k < f + 4 * int (length ws)"
  shows "fdt32_ld' (place f (words ws)) k = ws ! nat ((k - f) div 4)"
    "uint (fdt32_ld (rd (place f (words ws)) k)) = ws ! nat ((k - f) div 4)"
proof -
  have "nat ((k - f) div 4) < length ws" using assms(2-4) by (simp add: nat_less_iff)
  then have w: "0 \<le> ws ! nat ((k - f) div 4)" "ws ! nat ((k - f) div 4) < 4294967296"
    using assms(1) by (simp_all add: list_all_length)
  show "fdt32_ld' (place f (words ws)) k = ws ! nat ((k - f) div 4)"
    using ld_word(2)[OF assms(2) _ _ w, of f] assms(3,4) by simp
  then show "uint (fdt32_ld (rd (place f (words ws)) k)) = ws ! nat ((k - f) div 4)"
    by (simp add: fdt32_ld'_eq)
qed

lemma ex_tree_ld:
  assumes "k mod 4 = 0" "64 \<le> k" "k < 168"
  shows "fdt32_ld' ex_tree k = ex_words ! nat ((k - 64) div 4)" "uint (fdt32_ld (rd ex_tree k)) = ex_words ! nat ((k - 64) div 4)"
proof -
  have "(k - 64) mod 4 = 0" using assms(1) by presburger
  then show "fdt32_ld' ex_tree k = ex_words ! nat ((k - 64) div 4)" "uint (fdt32_ld (rd ex_tree k)) = ex_words ! nat ((k - 64) div 4)"
    unfolding ex_tree_def using placed_ld[of ex_words k 64] assms by (simp_all add: ex_words_def)
qed

lemma ex_tree_header:
  "fdt_magic ex_tree 64 = 0xd00dfeed" "fdt_totalsize ex_tree 64 = 128" "fdt_off_dt_struct ex_tree 64 = 56"
  "fdt_off_dt_strings ex_tree 64 = 100" "fdt_off_mem_rsvmap ex_tree 64 = 40" "fdt_version ex_tree 64 = 17"
  "fdt_last_comp_version ex_tree 64 = 16" "fdt_size_dt_strings ex_tree 64 = 4" "fdt_size_dt_struct ex_tree 64 = 44"
  by (simp_all add: fdt_get_header_def ex_tree_ld(2) ex_words_def)

lemma ex_tree_ok: "tree_ok ex_tree 64"
  by (simp add: tree_ok_def fdt_check_header_iff ex_tree_header fdt_header_size_def fdt_header_size'_def)

lemma bytes_at_numeral: "bytes_at p (numeral k) = p 0 # bytes_at (shift p 1) (pred_numeral k)"
  by (simp add: numeral_eq_Suc bytes_at_Suc)

lemma ex_bytes: "ex_tree 124 = 0" "ex_tree 148 = 0x63" "ex_tree 149 = 0" "ex_tree 164 = 97" "ex_tree 165 = 0"
  by (simp_all add: ex_tree_def place_def lit_def words_def ex_words_def be32_bytes_def extract_byte_def)

lemma ex_tags:
  "fdt_next_tag ex_tree 64 0 = (1, 8)" "fdt_next_tag ex_tree 64 8 = (3, 24)" "fdt_next_tag ex_tree 64 24 = (1, 32)"
  "fdt_next_tag ex_tree 64 32 = (2, 36)" "fdt_next_tag ex_tree 64 36 = (2, 40)" "fdt_next_tag ex_tree 64 40 = (9, 44)"
  by (simp_all add: fdt_next_tag_def fdt_offset_ptr_def Let_def ex_tree_header fdt_offset_ptr'_def s32_def u32_def ex_tree_ld ex_words_def
    next_tag_skip_def next_tag_name.simps[of ex_tree 64] ex_bytes FDT_TAGALIGN_def FDT_ALIGN_def u64_def next_tag_prop_def INT_MAX_def)

lemma ex_node: "fdt_check_node_offset' ex_tree 64 0 = 8" "fdt_check_node_offset' ex_tree 64 24 = 32"
  by (simp_all add: fdt_check_node_offset'_def ex_tags u64_def)

lemma ex_prop: "fdt_check_prop_offset' ex_tree 64 8 = 24"
  by (simp add: fdt_check_prop_offset'_def ex_tags u64_def)

lemma ex_string: "fdt_get_string ex_tree 64 0 = (Some 164, 1)"
proof -
  have "memchr (rd ex_tree 164) 0 4 = Some 1"
  proof -
    have "j = 0" if "0 \<le> j" "j < 1" for j :: int using that by simp
    then show ?thesis unfolding memchr_Some using ex_bytes by fastforce
  qed
  then show ?thesis
    by (simp add: fdt_get_string_eq[OF ex_tree_ok] is_int_def ex_tree_header fdt_ro_probe'_def INT_MAX_def)
qed

lemma ex_getprop: "fdt_getprop ex_tree 64 0 (chars ''a'') = Some (Some 140, 4)"
proof -
  have "strlen (chars ''a'') = Some 1"
    using strlen_points_to[of "chars ''a''" "str ''a''"] by (simp add: chars_def str_def of_char_of)
  moreover have "fdt_string_eq' ex_tree 64 0 (chars ''a'') 1"
    by (simp add: fdt_string_eq'_def ex_string chars_def str_def of_char_of lit_def sz_def u64_def ex_bytes)
  moreover have "fdt_first_property_offset ex_tree 64 0 = 8"
    by (simp add: fdt_first_property_offset_def ex_node nextprop'.simps[of ex_tree 64 8] ex_tags)
  ultimately show ?thesis
    by (simp add: fdt_getprop_def fdt_getprop_namelen_def fdt_get_property_namelen'_def s32_def
        get_property_loop.simps[of ex_tree 64 8] fdt_get_property_by_offset'_def ex_prop fdt_offset_ptr'_def
        ex_tree_header ex_tree_ld ex_words_def prop_data_def)
qed

section \<open>Properties\<close>

text \<open>C25: \<open>fdt_check_header\<close> accepts exactly the blobs whose magic and versions are supported and
  whose blocks all lie behind the header and inside of \<open>totalsize\<close>, which fits an \<open>int\<close>; none of
  the 32-bit sums of the test wraps unnoticed.\<close>

theorem check_header_exact:
  "fdt_check_header m f = 0 \<longleftrightarrow>
     f AND 7 = 0 \<and> fdt_magic m f = FDT_MAGIC \<and> 2 \<le> fdt_version m f \<and> fdt_last_comp_version m f \<le> 17 \<and>
     fdt_last_comp_version m f \<le> fdt_version m f \<and>
     fdt_header_size m f \<le> fdt_totalsize m f \<and> fdt_totalsize m f \<le> 2147483647 \<and>
     fdt_header_size m f \<le> fdt_off_mem_rsvmap m f \<and> fdt_off_mem_rsvmap m f \<le> fdt_totalsize m f \<and>
     fdt_header_size m f \<le> fdt_off_dt_struct m f \<and>
     fdt_off_dt_struct m f + (if fdt_version m f < 17 then 0 else fdt_size_dt_struct m f) \<le> fdt_totalsize m f \<and>
     fdt_header_size m f \<le> fdt_off_dt_strings m f \<and>
     fdt_off_dt_strings m f + fdt_size_dt_strings m f \<le> fdt_totalsize m f"
  by (rule fdt_check_header_iff)

text \<open>C36: On any bytes at all, \<open>fdt_next_tag\<close> goes forward: unless it reports the end, the next
  offset is an error or lies behind the one it was given, which is why every walk over a structure
  block ends.\<close>

theorem next_tag_forward:
  assumes "fdt_next_tag m f offset = (tag, nextoffset)" "tag \<noteq> FDT_END"
  shows "0 \<le> s32 offset \<and> (nextoffset < 0 \<or> s32 offset < nextoffset) \<and> is_int nextoffset"
  by (rule fdt_next_tag_progress[OF assms])

theorem next_tag_forward_witness: "fdt_next_tag ex_tree 64 8 = (3, 24) \<and> is_int 24"
  using next_tag_forward[OF ex_tags(2)] ex_tags(2) by simp

text \<open>On any bytes, \<open>fdt_next_node\<close> returns an error or a node behind the one it was given.\<close>

theorem next_node_forward:
  assumes "fdt_next_node m f offset depth = (r, depth')" "0 \<le> offset"
  shows "(r < 0 \<or> s32 offset < r) \<and> is_int r"
  by (rule fdt_next_node_progress[OF assms])

lemma ex_next_node: "fdt_next_node ex_tree 64 0 (Some 0) = (24, Some 1)"
  by (simp add: fdt_next_node_def ex_node ex_tags next_node_loop.simps[of ex_tree 64 8]
      next_node_loop.simps[of ex_tree 64 24])

theorem next_node_forward_witness: "fdt_next_node ex_tree 64 0 (Some 0) = (24, Some 1) \<and> is_int 24"
  using next_node_forward[OF ex_next_node] ex_next_node by simp

text \<open>A field of the header that has been set is read back, modulo \<open>2 ^ 32\<close>, and the other
  fields keep their values.\<close>

theorem header_set_get:
  assumes "k = j \<or> k + 4 \<le> j \<or> j + 4 \<le> k"
  shows "fdt_get_header (fdt_set_hdr m f k v) f j = (if j = k then u32 v else fdt_get_header m f j)"
  by (rule fdt_get_set_hdr[OF assms])

theorem header_set_get_witness:
  "fdt_totalsize (fdt_set_totalsize ex_tree 64 4096) 64 = 4096 \<and> fdt_magic (fdt_set_totalsize ex_tree 64 4096) 64 = 0xd00dfeed"
  using header_set_get[of 4 4 ex_tree 64 4096] header_set_get[of 4 0 ex_tree 64 4096]
  by (simp add: u32_def ex_tree_header)

text \<open>\<open>fdt32_st\<close> and \<open>fdt32_ld\<close> are inverse and big-endian whatever the machine, \<open>fdt32_ld\<close> agrees with
  the swapped machine load, and \<open>fdt32_to_cpu\<close> undoes \<open>cpu_to_fdt32\<close>.\<close>

theorem byte_order:
  "fdt32_ld (rd (fdt32_st m p x) p) = x \<and> fdt32_st m p x = store m p (be32_bytes x) \<and>
   fdt32_to_cpu (load32 (rd m p)) = fdt32_ld (rd m p) \<and> fdt32_to_cpu (cpu_to_fdt32 x) = x"
  using fdt32_ld_st[of m p x] by (simp add: fdt32_st_store fdt32_to_cpu_load32 cpu_to_fdt32_eq)

text \<open>C24: A value written by \<open>fdt_setprop_inplace\<close> to a checked tree is read back by \<open>fdt_getprop\<close> at
  the same place and with the same length; only the bytes of the value have changed, and they lie
  in the structure block.\<close>

theorem inplace_round_trip:
  assumes "tree_ok m f" "points_to_str name s" "is_int node"
    and "fdt_setprop_inplace m f node name val len = Some (0, m')"
  shows "\<exists>p. fdt_getprop m f node name = Some (Some p, len) \<and>
           fdt_getprop m' f node name = Some (Some p, len) \<and> 0 \<le> len \<and>
           bytes_at (rd m' p) (nat len) = bytes_at val (nat len) \<and>
           (\<forall>a. a < p \<or> p + len \<le> a \<longrightarrow> m' a = m a) \<and>
           f + fdt_off_dt_struct m f \<le> p \<and> p + len \<le> f + fdt_off_dt_strings m f"
  by (rule setprop_inplace_getprop[OF assms])

lemma ex_setprop_inplace:
  "\<exists>m'. fdt_setprop_inplace ex_tree 64 0 (chars ''a'') (lit [1, 2, 3, 4]) 4 = Some (0, m')"
proof -
  have l: "strlen (chars ''a'') = Some 1"
    using strlen_points_to[of "chars ''a''" "str ''a''"] by (simp add: chars_def str_def of_char_of)
  with ex_getprop have "fdt_getprop_namelen ex_tree 64 0 (chars ''a'') 1 = (Some 140, 4)"
    by (simp add: fdt_getprop_def s32_def)
  with ex_getprop l show ?thesis
    by (simp add: fdt_setprop_inplace_def fdt_setprop_inplace_namelen_partial_def s32_def)
qed

theorem inplace_round_trip_witness:
  "\<exists>m'. fdt_setprop_inplace ex_tree 64 0 (chars ''a'') (lit [1, 2, 3, 4]) 4 = Some (0, m') \<and>
     bytes_at (rd m' 140) 4 = [1, 2, 3, 4]"
proof -
  obtain m' where m': "fdt_setprop_inplace ex_tree 64 0 (chars ''a'') (lit [1, 2, 3, 4]) 4 = Some (0, m')"
    using ex_setprop_inplace by blast
  have n: "points_to_str (chars ''a'') (str ''a'')" by (simp add: chars_def str_def of_char_of)
  have "bytes_at (rd m' 140) 4 = bytes_at (lit [1, 2, 3, 4]) 4"
    using inplace_round_trip[OF ex_tree_ok n _ m'] ex_getprop by (auto simp: is_int_def)
  moreover have "bytes_at (lit [1, 2, 3, 4]) 4 = [1, 2, 3, 4 :: byte]"
    using bytes_at_lit[of "[1, 2, 3, 4]"] by (simp add: eval_nat_numeral)
  ultimately show ?thesis using m' by auto
qed

text \<open>The two functions that call each other satisfy the equations of the code: a path whose first
  component is an alias continues from the node of the alias, looked up by \<open>fdt_path_offset\<close> itself.\<close>

theorem path_offset_equation:
  "fdt_path_offset_namelen m f path n =
     path_offset_with (alias_with (fdt_path_offset m f) m f) (fdt_path_offset m f) m f path n"
  by (rule fdt_path_offset_namelen_rec)

end
