(* ===== verification/Fdt_Safe.thy ===== *)
theory Fdt_Safe
  imports Fdt_Remove Fdt_Props
begin

text \<open>
  The contract of the edits, as an interface: \<open>tree_edit\<close> is what a sequence of edits, or the
  loader, relies on.
\<close>

section \<open>The interface\<close>

definition kept :: "addr \<Rightarrow> mem \<Rightarrow> mem \<Rightarrow> bool" where
  "kept f m m' \<longleftrightarrow> writes_in f (fdt_totalsize m f) m m' \<and> fdt_totalsize m' f = fdt_totalsize m f \<and>
     fdt_check_header m' f = 0"

lemma kept_refl: "fdt_check_header m f = 0 \<Longrightarrow> kept f m m"
  by (simp add: kept_def)

lemma kept_trans [trans]: "kept f m m1 \<Longrightarrow> kept f m1 m2 \<Longrightarrow> kept f m m2"
  unfolding kept_def using writes_in_trans by metis

lemma edited_kept: "edited f m m' \<Longrightarrow> kept f m m'"
  by (simp add: edited_def kept_def rw_tree_checks)

text \<open>The edits one after the other, whatever each of them returns.\<close>

fun run_all :: "('a \<Rightarrow> mem \<Rightarrow> addr \<Rightarrow> (int \<times> mem) option) \<Rightarrow> 'a list \<Rightarrow> mem \<Rightarrow> addr \<Rightarrow> mem option" where
  "run_all edit [] m f = Some m"
| "run_all edit (x # xs) m f = Option.bind (edit x m f) (\<lambda>(err, m). run_all edit xs m f)"

text \<open>What an edit may be called with depends on the size of the tree, which no edit changes.\<close>

locale tree_edit =
  fixes edit :: "'a \<Rightarrow> mem \<Rightarrow> addr \<Rightarrow> (int \<times> mem) option" and allowed :: "'a \<Rightarrow> int \<Rightarrow> bool"
  assumes keeps: "allowed x (fdt_totalsize m f) \<Longrightarrow> fdt_check_header m f = 0 \<Longrightarrow> edit x m f = Some (err, m') \<Longrightarrow> kept f m m'"
    and returns: "allowed x (fdt_totalsize m f) \<Longrightarrow> fdt_check_header m f = 0 \<Longrightarrow> \<exists>err m'. edit x m f = Some (err, m')"
begin

lemma run_all_keeps:
  "list_all (\<lambda>x. allowed x (fdt_totalsize m f)) xs \<Longrightarrow> fdt_check_header m f = 0 \<Longrightarrow>
   \<exists>m'. run_all edit xs m f = Some m' \<and> kept f m m'"
proof (induction xs arbitrary: m)
  case Nil
  then show ?case by (simp add: kept_refl)
next
  case (Cons x xs)
  then have a: "allowed x (fdt_totalsize m f)" by simp
  obtain err m1 where m1: "edit x m f = Some (err, m1)" using returns[OF a Cons.prems(2)] by blast
  have k: "kept f m m1" by (rule keeps[OF a Cons.prems(2) m1])
  then obtain m' where "run_all edit xs m1 f = Some m'" "kept f m1 m'"
    using Cons.IH[of m1] Cons.prems(1) by (auto simp: kept_def)
  with m1 kept_trans[OF k] show ?case by auto
qed

end

text \<open>An edit starts with the probe; what it does then is what it does on the probed tree.\<close>

definition probed :: "(mem \<Rightarrow> (int \<times> mem) option) \<Rightarrow> mem \<Rightarrow> addr \<Rightarrow> (int \<times> mem) option" where
  "probed E m f = (case fdt_rw_probe' m f of (err, m1) \<Rightarrow> if err \<noteq> 0 then Some (err, m1) else E m1)"

lemma probed_again:
  assumes "fdt_check_header m f = 0"
    "\<And>e m1. fdt_rw_probe' m f = (e, m1) \<Longrightarrow> e \<noteq> 0 \<Longrightarrow> E m = Some (e, m1)"
    "\<And>m1. fdt_rw_probe' m f = (0, m1) \<Longrightarrow> fdt_rw_probe' m1 f = (0, m1) \<Longrightarrow> E m = E m1"
  shows "E m = probed E m f"
proof (cases "fdt_rw_probe' m f")
  case (Pair e m1)
  then have "e = 0 \<Longrightarrow> fdt_rw_probe' m1 f = (0, m1)"
    using fdt_rw_probe_spec[OF assms(1) Pair] rw_probe_ok by simp
  with Pair assms(2,3) show ?thesis by (simp add: probed_def)
qed

lemma probed_checks:
  assumes "fdt_check_header m f = 0" "E m = probed E m f" "E m = Some (err, m')"
    "\<And>m1. rw_tree m1 f \<Longrightarrow> fdt_totalsize m1 f = fdt_totalsize m f \<Longrightarrow> E m1 = Some (err, m') \<Longrightarrow> kept f m1 m'"
  shows "kept f m m'"
proof -
  obtain e m1 where p: "fdt_rw_probe' m f = (e, m1)" by fastforce
  note s = fdt_rw_probe_spec[OF assms(1) p]
  show ?thesis
  proof (cases "e = 0")
    case True
    with s have rw: "rw_tree m1 f" and k: "kept f m m1" and n: "fdt_totalsize m1 f = fdt_totalsize m f"
      by (simp_all add: kept_def rw_tree_checks)
    from assms(2,3) p True have "E m1 = Some (err, m')" by (simp add: probed_def)
    with assms(4)[OF rw n] have "kept f m1 m'" by simp
    with k show ?thesis by (rule kept_trans)
  next
    case False
    with assms(2,3) p s have "m' = m" by (simp add: probed_def)
    with assms(1) show ?thesis by (simp add: kept_refl)
  qed
qed

lemma probed_kept:
  assumes "fdt_check_header m f = 0" "E m = probed E m f" "E m = Some (err, m')"
    "\<And>m1. rw_tree m1 f \<Longrightarrow> fdt_totalsize m1 f = fdt_totalsize m f \<Longrightarrow> E m1 = Some (err, m') \<Longrightarrow> edited f m1 m'"
  shows "kept f m m'"
  using probed_checks[OF assms(1-3)] assms(4) edited_kept by blast

section \<open>Every edit returns\<close>

definition name_arg :: "cptr \<Rightarrow> bool" where
  "name_arg name \<longleftrightarrow> (\<exists>s. points_to_str name s \<and> length s \<le> 2147483631)"

lemma name_argD: "name_arg name \<Longrightarrow> \<exists>l. strlen name = Some l \<and> 0 \<le> l \<and> l \<le> 2147483631"
  using strlen_points_to by (fastforce simp: name_arg_def)

lemma name_arg_lit: "cstring s \<Longrightarrow> length s \<le> 2147483631 \<Longrightarrow> name_arg (lit s)"
  unfolding name_arg_def by (rule exI[of _ s]) simp

lemma fdt_get_name_returns:
  assumes rw: "rw_tree m f" and node: "is_int node"
  shows "\<exists>r n. fdt_get_name m f node = Some (r, n)"
proof (cases "fdt_check_node_offset' m f node < 0")
  case True
  then show ?thesis by (simp add: fdt_get_name_def)
next
  case False
  then show ?thesis using fdt_get_name_spec[OF rw node] by auto
qed

lemma fdt_nodename_eq_returns: "rw_tree m f \<Longrightarrow> is_int node \<Longrightarrow> \<exists>b. fdt_nodename_eq' m f node s n = Some b"
  using fdt_get_name_returns[of m f node] by (auto simp: fdt_nodename_eq'_def)

lemma subnode_loop_returns:
  "rw_tree m f \<Longrightarrow> is_int node \<Longrightarrow> \<exists>r. subnode_loop m f node depth name n = Some r \<and> is_int r"
proof (induction m f node depth name n rule: subnode_loop.induct)
  case (1 m f node depth name n)
  obtain o2 d2 where nx: "fdt_next_node m f node (Some depth) = (o2, d2)" by fastforce
  obtain b where b: "fdt_nodename_eq' m f node name n = Some b" using fdt_nodename_eq_returns "1.prems" by blast
  have i: "is_int (- 1)" by (simp add: is_int_def)
  show ?case
  proof (cases "node \<ge> 0 \<and> depth \<ge> 0 \<and> \<not> (depth = 1 \<and> b)")
    case True
    then have "(if depth = 1 then fdt_nodename_eq' m f node name n else Some False) = Some False" using b by auto
    then have "\<exists>r. subnode_loop m f o2 (the d2) name n = Some r \<and> is_int r"
      using "1.IH"[of False o2 d2] True nx fdt_next_node_is_int[OF nx] "1.prems" by simp
    with True nx b show ?thesis by (subst subnode_loop.simps) (auto simp: b)
  next
    case False
    with b "1.prems" i show ?thesis by (subst subnode_loop.simps) auto
  qed
qed

lemma fdt_find_add_string_returns:
  "strlen name = Some l \<Longrightarrow> \<exists>off al m'. fdt_find_add_string' m f name = Some (off, al, m')"
  by (auto simp: fdt_find_add_string'_def fdt_find_string'_def Let_def split: option.split prod.split)

lemma fdt_add_property_returns:
  assumes "strlen name = Some l"
  shows "\<exists>e p m'. fdt_add_property' m f node name len = Some (e, p, m')"
proof -
  obtain off al m1 where "fdt_find_add_string' m f name = Some (off, al, m1)"
    using fdt_find_add_string_returns[OF assms] by blast
  then show ?thesis
    using assms by (auto simp: fdt_add_property'_def fdt_del_last_string'_def Let_def split: prod.split)
qed

lemma fdt_setprop_returns:
  assumes "strlen name = Some l"
  shows "\<exists>e m'. fdt_setprop m f node name val len = Some (e, m')"
proof -
  have "\<exists>e p m'. fdt_resize_property' m1 f node name len = Some (e, p, m')" for m1
    using assms by (auto simp: fdt_resize_property'_def fdt_get_property_def split: prod.split option.split)
  then obtain R where R: "\<And>m1. \<exists>e p m'. fdt_resize_property' m1 f node name len = Some (e, p, m')" by blast
  have "\<exists>e v m'. fdt_setprop_placeholder m f node name len = Some (e, v, m')"
  proof (cases "fdt_rw_probe' m f")
    case (Pair e m1)
    obtain e2 p2 m2 where 2: "fdt_resize_property' m1 f node name len = Some (e2, p2, m2)" using R by blast
    obtain e3 p3 m3 where 3: "fdt_add_property' m2 f node name len = Some (e3, p3, m3)"
      using fdt_add_property_returns[OF assms] by blast
    show ?thesis using Pair 2 3 by (auto simp: fdt_setprop_placeholder_def)
  qed
  then show ?thesis by (auto simp: fdt_setprop_def)
qed

lemma fdt_appendprop_returns:
  assumes "strlen name = Some l"
  shows "\<exists>e m'. fdt_appendprop m f node name val len = Some (e, m')"
proof (cases "fdt_rw_probe' m f")
  case (Pair e m1)
  obtain r n where g: "fdt_get_property_namelen m1 f node name (s32 l) = (r, n)" by fastforce
  obtain e3 p3 m3 where "fdt_add_property' m1 f node name len = Some (e3, p3, m3)"
    using fdt_add_property_returns[OF assms] by blast
  with Pair g assms show ?thesis
    by (auto simp: fdt_appendprop_def fdt_get_property_def Let_def split: option.split prod.split)
qed

lemma fdt_set_name_returns:
  assumes c: "fdt_check_header m f = 0" and l: "strlen name = Some l" and node: "is_int node"
  shows "\<exists>e m'. fdt_set_name m f node name = Some (e, m')"
proof (cases "fdt_rw_probe' m f")
  case (Pair e m1)
  then have "e = 0 \<Longrightarrow> \<exists>r n. fdt_get_name m1 f node = Some (r, n)"
    using fdt_rw_probe_spec[OF c Pair] fdt_get_name_returns[OF _ node, of m1 f] by simp
  with Pair l show ?thesis
    by (auto simp: fdt_set_name_def Let_def split: option.split prod.split)
qed

lemma fdt_add_subnode_namelen_returns:
  assumes c: "fdt_check_header m f = 0" and node: "is_int node"
  shows "\<exists>e m'. fdt_add_subnode_namelen m f node name n = Some (e, m')"
proof (cases "fdt_rw_probe' m f")
  case (Pair e m1)
  have "\<exists>r. fdt_subnode_offset_namelen m1 f node name n = Some r" if "e = 0"
    using fdt_rw_probe_spec[OF c Pair] subnode_loop_returns[OF _ node, of m1 f] that
    by (fastforce simp: fdt_subnode_offset_namelen_def)
  with Pair show ?thesis
    by (auto simp: fdt_add_subnode_namelen_def Let_def split: option.split prod.split)
qed

lemma fdt_add_subnode_returns:
  "fdt_check_header m f = 0 \<Longrightarrow> is_int node \<Longrightarrow> strlen name = Some l \<Longrightarrow> \<exists>e m'. fdt_add_subnode m f node name = Some (e, m')"
  using fdt_add_subnode_namelen_returns by (simp add: fdt_add_subnode_def)

lemma fdt_delprop_returns: "strlen name = Some l \<Longrightarrow> \<exists>e m'. fdt_delprop m f node name = Some (e, m')"
  by (auto simp: fdt_delprop_def fdt_get_property_def Let_def split: option.split prod.split)

lemma fdt_del_mem_rsv_returns:
  assumes c: "fdt_check_header m f = 0"
  shows "\<exists>e m'. fdt_del_mem_rsv m f n = Some (e, m')"
proof (cases "fdt_rw_probe' m f")
  case (Pair e m1)
  have "\<exists>k. fdt_num_mem_rsv m1 f = Some k" if "e = 0"
  proof -
    have rw: "rw_tree m1 f" using fdt_rw_probe_spec[OF c Pair] that by simp
    then have "fdt_off_mem_rsvmap m1 f + 16 * 0 \<le> fdt_totalsize m1 f" using rw_treeD[OF rw] rw_tree_bounds[OF rw] by linarith
    then show ?thesis using num_mem_rsv_returns[OF rw_tree_checks[OF rw] order_refl] by (auto simp: fdt_num_mem_rsv_def)
  qed
  with Pair show ?thesis by (auto simp: fdt_del_mem_rsv_def Let_def split: prod.split)
qed

section \<open>The edits of the library\<close>

lemma fdt_setprop_kept:
  assumes a: "fdt_check_header m f = 0" "fdt_setprop m f node name val len = Some (err, m')" "is_int node" "name_arg name"
    "0 \<le> len" "len \<le> 2147483632"
  shows "kept f m m'"
proof -
  obtain l where l: "strlen name = Some l" "0 \<le> l" "l \<le> 2147483631" using name_argD[OF a(4)] by blast
  let ?E = "\<lambda>m. fdt_setprop m f node name val len"
  have "?E m = probed ?E m f"
    by (rule probed_again[OF a(1)]) (simp_all add: fdt_setprop_def fdt_setprop_placeholder_def)
  then show ?thesis
    by (rule probed_kept[where E = ?E, OF a(1) _ a(2)]) (rule fdt_setprop_edited[OF _ l(1) _ a(3,5,6)], use l in simp_all)
qed

interpretation setprop: tree_edit "\<lambda>(node, name, val, len) m f. fdt_setprop m f node name val len"
  "\<lambda>(node, name, val, len) n. is_int node \<and> name_arg name \<and> 0 \<le> len \<and> len \<le> 2147483632"
  by unfold_locales (auto intro: fdt_setprop_kept dest: name_argD fdt_setprop_returns)

lemma fdt_appendprop_kept:
  assumes a: "fdt_check_header m f = 0" "fdt_appendprop m f node name val len = Some (err, m')" "is_int node" "name_arg name"
    "0 \<le> len" "len + fdt_totalsize m f \<le> 2147483632"
  shows "kept f m m'"
proof -
  obtain l where l: "strlen name = Some l" "0 \<le> l" "l \<le> 2147483631" using name_argD[OF a(4)] by blast
  have n: "len \<le> 2147483632" using a(6) fdt_get_header_range(1)[of m f 4] by linarith
  let ?E = "\<lambda>m. fdt_appendprop m f node name val len"
  have "?E m = probed ?E m f" by (rule probed_again[OF a(1)]) (simp_all add: fdt_appendprop_def)
  then show ?thesis
    by (rule probed_kept[where E = ?E, OF a(1) _ a(2)]) (rule fdt_appendprop_edited[OF _ l(1) _ a(3,5) n], use a(6) l in simp_all)
qed

interpretation appendprop: tree_edit "\<lambda>(node, name, val, len) m f. fdt_appendprop m f node name val len"
  "\<lambda>(node, name, val, len) n. is_int node \<and> name_arg name \<and> 0 \<le> len \<and> len + n \<le> 2147483632"
  by unfold_locales (auto intro: fdt_appendprop_kept dest: name_argD fdt_appendprop_returns)

lemma fdt_delprop_kept:
  assumes a: "fdt_check_header m f = 0" "fdt_delprop m f node name = Some (err, m')" "is_int node"
  shows "kept f m m'"
proof -
  let ?E = "\<lambda>m. fdt_delprop m f node name"
  have "?E m = probed ?E m f" by (rule probed_again[OF a(1)]) (simp_all add: fdt_delprop_def)
  then show ?thesis
    by (rule probed_kept[where E = ?E, OF a(1) _ a(2)]) (rule fdt_delprop_edited[OF _ a(3)])
qed

interpretation delprop: tree_edit "\<lambda>(node, name) m f. fdt_delprop m f node name" "\<lambda>(node, name) n. is_int node \<and> name_arg name"
  by unfold_locales (auto intro: fdt_delprop_kept dest: name_argD fdt_delprop_returns)

lemma fdt_set_name_kept:
  assumes a: "fdt_check_header m f = 0" "fdt_set_name m f node name = Some (err, m')" "is_int node" "name_arg name"
  shows "kept f m m'"
proof -
  obtain l where l: "strlen name = Some l" "0 \<le> l" "l \<le> 2147483631" using name_argD[OF a(4)] by blast
  let ?E = "\<lambda>m. fdt_set_name m f node name"
  have "?E m = probed ?E m f" by (rule probed_again[OF a(1)]) (simp_all add: fdt_set_name_def)
  then show ?thesis
    by (rule probed_kept[where E = ?E, OF a(1) _ a(2)]) (rule fdt_set_name_edited[OF _ l(1) _ a(3)], use l in simp_all)
qed

interpretation set_name: tree_edit "\<lambda>(node, name) m f. fdt_set_name m f node name"
  "\<lambda>(node, name) n. is_int node \<and> name_arg name"
  by unfold_locales (auto intro: fdt_set_name_kept dest: name_argD fdt_set_name_returns)

lemma fdt_add_subnode_kept:
  assumes a: "fdt_check_header m f = 0" "fdt_add_subnode m f node name = Some (err, m')" "is_int node" "name_arg name"
  shows "kept f m m'"
proof -
  obtain l where l: "strlen name = Some l" "0 \<le> l" "l \<le> 2147483631" using name_argD[OF a(4)] by blast
  let ?E = "\<lambda>m. fdt_add_subnode_namelen m f node name l"
  have "?E m = Some (err, m')" using a(2) l by (simp add: fdt_add_subnode_def s32_id)
  moreover have "?E m = probed ?E m f" by (rule probed_again[OF a(1)]) (simp_all add: fdt_add_subnode_namelen_def)
  ultimately show ?thesis
    by (intro probed_kept[OF a(1), where E = ?E]) (assumption | rule fdt_add_subnode_namelen_edited[OF _ a(3) l(2)] | use l in simp)+
qed

interpretation add_subnode: tree_edit "\<lambda>(node, name) m f. fdt_add_subnode m f node name"
  "\<lambda>(node, name) n. is_int node \<and> name_arg name"
  by unfold_locales (auto intro: fdt_add_subnode_kept dest: name_argD fdt_add_subnode_returns)

lemma fdt_del_node_kept:
  assumes a: "fdt_check_header m f = 0" "fdt_del_node m f node = (err, m')" "is_int node"
  shows "kept f m m'"
proof -
  let ?E = "\<lambda>m. Some (fdt_del_node m f node)"
  have "?E m = probed ?E m f" by (rule probed_again[OF a(1)]) (simp_all add: fdt_del_node_def)
  then show ?thesis
    by (rule probed_kept[where E = ?E, OF a(1)]) (use a(2) in simp, rule fdt_del_node_edited[OF _ a(3)], simp_all)
qed

interpretation del_node: tree_edit "\<lambda>node m f. Some (fdt_del_node m f node)" "\<lambda>node n. is_int node"
  by unfold_locales (auto intro: fdt_del_node_kept)

lemma fdt_del_mem_rsv_kept:
  assumes a: "fdt_check_header m f = 0" "fdt_del_mem_rsv m f n = Some (err, m')" "is_int n" "0 \<le> n"
  shows "kept f m m'"
proof -
  have i: "fdt_mem_rsv' m1 f n = fdt_mem_rsv' m f n" if "fdt_rw_probe' m f = (0, m1)" for m1
    using that by (auto simp: fdt_rw_probe'_def fdt_mem_rsv'_def fdt_get_set_hdr split: if_splits)
  let ?E = "\<lambda>m. fdt_del_mem_rsv m f n"
  have "?E m = probed ?E m f" by (rule probed_again[OF a(1)]) (simp_all add: fdt_del_mem_rsv_def i)
  then show ?thesis
  proof (rule probed_checks[where E = ?E, OF a(1) _ a(2)])
    fix m1
    assume 1: "rw_tree m1 f" "fdt_del_mem_rsv m1 f n = Some (err, m')"
    from fdt_del_mem_rsv_spec[OF 1(1) a(3,4) 1(2)] rw_tree_checks[OF 1(1)] show "kept f m1 m'"
      by (cases "err = 0") (simp_all add: kept_def)
  qed
qed

interpretation del_mem_rsv: tree_edit "\<lambda>n m f. fdt_del_mem_rsv m f n" "\<lambda>n t. is_int n \<and> 0 \<le> n"
  by unfold_locales (auto intro: fdt_del_mem_rsv_kept dest: fdt_del_mem_rsv_returns)

text \<open>All of them, as one kind of edit.\<close>

datatype edit =
    Setprop int cptr cptr int
  | Appendprop int cptr cptr int
  | Delprop int cptr
  | Set_name int cptr
  | Add_subnode int cptr
  | Del_node int
  | Del_mem_rsv int

fun run_edit :: "edit \<Rightarrow> mem \<Rightarrow> addr \<Rightarrow> (int \<times> mem) option" where
  "run_edit (Setprop node name val len) m f = fdt_setprop m f node name val len"
| "run_edit (Appendprop node name val len) m f = fdt_appendprop m f node name val len"
| "run_edit (Delprop node name) m f = fdt_delprop m f node name"
| "run_edit (Set_name node name) m f = fdt_set_name m f node name"
| "run_edit (Add_subnode node name) m f = fdt_add_subnode m f node name"
| "run_edit (Del_node node) m f = Some (fdt_del_node m f node)"
| "run_edit (Del_mem_rsv k) m f = fdt_del_mem_rsv m f k"

fun edit_args :: "edit \<Rightarrow> int \<Rightarrow> bool" where
  "edit_args (Setprop node name val len) n \<longleftrightarrow> is_int node \<and> name_arg name \<and> 0 \<le> len \<and> len \<le> 2147483632"
| "edit_args (Appendprop node name val len) n \<longleftrightarrow> is_int node \<and> name_arg name \<and> 0 \<le> len \<and> len + n \<le> 2147483632"
| "edit_args (Delprop node name) n \<longleftrightarrow> is_int node \<and> name_arg name"
| "edit_args (Set_name node name) n \<longleftrightarrow> is_int node \<and> name_arg name"
| "edit_args (Add_subnode node name) n \<longleftrightarrow> is_int node \<and> name_arg name"
| "edit_args (Del_node node) n \<longleftrightarrow> is_int node"
| "edit_args (Del_mem_rsv k) n \<longleftrightarrow> is_int k \<and> 0 \<le> k"

interpretation any: tree_edit run_edit edit_args
proof unfold_locales
  fix x m f err m'
  assume "edit_args x (fdt_totalsize m f)" "fdt_check_header m f = 0" "run_edit x m f = Some (err, m')"
  then show "kept f m m'"
    using setprop.keeps appendprop.keeps delprop.keeps set_name.keeps add_subnode.keeps del_node.keeps
      del_mem_rsv.keeps by (cases x) fastforce+
next
  fix x m f
  assume "edit_args x (fdt_totalsize m f)" "fdt_check_header m f = 0"
  then show "\<exists>err m'. run_edit x m f = Some (err, m')"
    using setprop.returns appendprop.returns delprop.returns set_name.returns add_subnode.returns
      del_mem_rsv.returns by (cases x) fastforce+
qed

text \<open>C12: Any sequence of edits of a tree whose header checks, on whatever bytes the tree holds,
  returns; it writes no byte outside of the \<open>totalsize\<close> bytes of the tree, keeps \<open>totalsize\<close>, and
  leaves a header that checks, also where single edits report an error.\<close>

theorem edits_stay_in_tree:
  assumes "fdt_check_header m f = 0" "list_all (\<lambda>x. edit_args x (fdt_totalsize m f)) xs"
  shows "\<exists>m'. run_all run_edit xs m f = Some m' \<and> (\<forall>a. a < f \<or> f + fdt_totalsize m f \<le> a \<longrightarrow> m' a = m a) \<and>
    fdt_totalsize m' f = fdt_totalsize m f \<and> fdt_check_header m' f = 0"
  using any.run_all_keeps[OF assms(2,1)] by (auto simp: kept_def writes_in_def)

definition ex_edits :: "edit list" where
  "ex_edits = [Add_subnode 0 (chars ''d''), Setprop 0 (chars ''b'') (chars ''long value'') 11, Delprop 24 (chars ''a''), Del_node 0, Del_mem_rsv 0]"

theorem edits_stay_in_tree_witness:
  "\<exists>m'. run_all run_edit ex_edits ex_tree 64 = Some m' \<and> m' 63 = ex_tree 63 \<and> fdt_check_header m' 64 = 0"
proof -
  have "name_arg (chars ''d'')" "name_arg (chars ''b'')" "name_arg (chars ''a'')"
    by (simp_all add: chars_def str_def of_char_of name_arg_lit)
  then have "list_all (\<lambda>x. edit_args x (fdt_totalsize ex_tree 64)) ex_edits"
    by (simp add: ex_edits_def is_int_def)
  moreover have "fdt_check_header ex_tree 64 = 0" using ex_tree_ok by (simp add: tree_ok_def)
  ultimately show ?thesis using edits_stay_in_tree[of ex_tree 64 ex_edits] by auto
qed

end
