(* ===== verification/Fdt_Setprop.thy ===== *)
theory Fdt_Setprop
  imports Fdt_Safe
begin

text \<open>
  What \<open>fdt_setprop\<close> writes, \<open>fdt_getprop\<close> finds: the value of a property that was resized, or of
  one that was added, with its name in the table of strings.
\<close>

section \<open>Pointers, items and strings of the edited tree\<close>

lemma fdt_offset_ptr_intro:
  assumes "rw_tree m f" "0 \<le> s32 i" "s32 i + u32 n \<le> fdt_size_dt_struct m f"
  shows "fdt_offset_ptr m f i n = Some (fdt_offset_ptr' m f (s32 i))"
proof -
  note b = rw_treeD[OF assms(1)] rw_tree_bounds[OF assms(1)] u32_range(1)[of n]
  have u: "u32 i = s32 i" using u32_id[of "s32 i"] assms(2) s32_range[of i] by simp
  have a: "u32 (s32 i + fdt_off_dt_struct m f) = s32 i + fdt_off_dt_struct m f"
    "u32 (s32 i + fdt_off_dt_struct m f + u32 n) = s32 i + fdt_off_dt_struct m f + u32 n"
    "u32 (s32 i + u32 n) = s32 i + u32 n"
    using assms(2,3) b by (intro u32_id; linarith)+
  have "s32 i + fdt_off_dt_struct m f + u32 n \<le> fdt_totalsize m f" using assms(2,3) b by linarith
  then show ?thesis
    using assms(2,3) b(6) u a by (simp add: fdt_offset_ptr_def Let_def not_less)
qed

lemma same_head_rw:
  assumes "rw_tree m f" "rw_tree m' f" "fdt_off_dt_struct m' f = fdt_off_dt_struct m f" "B \<le> fdt_size_dt_struct m' f"
  shows "same_head m f B m'"
proof -
  have "fdt_offset_ptr m' f i n = Some p" if "fdt_offset_ptr m f i n = Some p" "s32 i + u32 n \<le> B" for i n p
  proof -
    have "fdt_offset_ptr m f (s32 i) n = Some p" using that(1) by simp
    from fdt_offset_ptr_Some[OF this is_int_s32] have "0 \<le> s32 i" "p = fdt_offset_ptr' m f (s32 i)" by simp_all
    with that(2) assms show ?thesis
      using fdt_offset_ptr_intro[OF assms(2), of i n] by (simp add: fdt_offset_ptr'_def)
  qed
  with assms show ?thesis by (simp add: same_head_def rw_tree_def)
qed

text \<open>A property is where its tag and its length are, if its value ends inside of the block.\<close>

lemma check_prop_intro:
  assumes rw: "rw_tree m f" and po: "0 \<le> po" "po mod 4 = 0" "0 \<le> L" "po + 12 + L \<le> fdt_size_dt_struct m f"
    and tag: "fdt32_ld' m (fdt_offset_ptr' m f po) = FDT_PROP" and len: "fdt32_ld' m (fdt_offset_ptr' m f po + 4) = L"
  shows "fdt_check_prop_offset' m f po = FDT_TAGALIGN (po + 12 + L)"
proof -
  note b = rw_treeD[OF rw] rw_tree_bounds[OF rw]
  have s: "s32 po = po" "s32 (po + 4) = po + 4" "s32 (po + 4 + (12 - 4) + L) = po + 12 + L"
    "u32 (L + (po + 4)) = L + (po + 4)" "u32 (po + 4) = po + 4" "u32 (po + 12 + L - po) = 12 + L" "u64 po = po"
    using po b by (simp_all add: s32_id u32_id u64_id)
  have p4: "fdt_offset_ptr m f po 4 = Some (fdt_offset_ptr' m f po)" "fdt_offset_ptr m f (po + 4) 4 = Some (fdt_offset_ptr' m f (po + 4))"
    "fdt_offset_ptr m f po (po + 12 + L - po) = Some (fdt_offset_ptr' m f po)"
    using fdt_offset_ptr_intro[OF rw, of po 4] fdt_offset_ptr_intro[OF rw, of "po + 4" 4]
      fdt_offset_ptr_intro[OF rw, of po "po + 12 + L - po"] po s by (simp_all add: u32_id)
  have "fdt_offset_ptr' m f (po + 4) = fdt_offset_ptr' m f po + 4" by (simp add: fdt_offset_ptr'_def)
  then have "next_tag_prop m f (po + 4) = Some (po + 12 + L)"
    using p4(2) len s po b by (simp add: next_tag_prop_def Let_def INT_MAX_def)
  then have "fdt_next_tag m f po = (FDT_PROP, FDT_TAGALIGN (po + 12 + L))"
    using fdt_next_tag_intro[of m f po FDT_PROP "po + 12 + L"] p4 tag s po b by (simp add: next_tag_skip_def is_int_def)
  then show ?thesis using po s by (simp add: fdt_check_prop_offset'_def)
qed

lemma by_offset_intro:
  assumes "rw_tree m f" "0 \<le> po" "po mod 4 = 0" "0 \<le> L" "po + 12 + L \<le> fdt_size_dt_struct m f"
    "fdt32_ld' m (fdt_offset_ptr' m f po) = FDT_PROP" "fdt32_ld' m (fdt_offset_ptr' m f po + 4) = L"
  shows "0 \<le> fdt_check_prop_offset' m f po \<and> fdt_get_property_by_offset' m f po = (Some (fdt_offset_ptr' m f po), L)"
proof -
  note b = rw_treeD[OF assms(1)] rw_tree_bounds[OF assms(1)]
  have "0 \<le> FDT_TAGALIGN (po + 12 + L)" using FDT_TAGALIGN_4[of "po + 12 + L"] assms(2,4,5) b by simp
  moreover have "s32 L = L" using assms(2,4,5) b by (simp add: s32_id)
  ultimately show ?thesis
    using check_prop_intro[OF assms] assms(7) by (simp add: fdt_get_property_by_offset'_def)
qed

lemma ro_probe_rw: "rw_tree m f \<Longrightarrow> \<not> fdt_ro_probe' m f < 0"
  unfolding rw_tree_def by (simp add: fdt_ro_probe'_def INT_MAX_def Let_def not_less)

text \<open>A table of strings that has moved, and a string that is in the table.\<close>

lemma string_eq_moved:
  assumes rw: "rw_tree m f" "rw_tree m' f" and n: "fdt_size_dt_strings m' f = fdt_size_dt_strings m f"
    and same: "\<And>i. 0 \<le> i \<Longrightarrow> i < fdt_size_dt_strings m f \<Longrightarrow>
      m' (f + fdt_off_dt_strings m' f + i) = m (f + fdt_off_dt_strings m f + i)" and so: "is_int so"
  shows "fdt_string_eq' m' f so name l = fdt_string_eq' m f so name l"
proof (cases "0 \<le> so \<and> so < fdt_size_dt_strings m f")
  case True
  let ?p = "f + fdt_off_dt_strings m f + so" and ?p' = "f + fdt_off_dt_strings m' f + so"
  let ?k = "nat (fdt_size_dt_strings m f - so)"
  have at: "rd m' ?p' i = rd m ?p i" if "0 \<le> i" "so + i < fdt_size_dt_strings m f" for i
    using same[of "so + i"] that True by (simp add: add.assoc)
  have mc: "memchr (rd m' ?p') 0 ?k = memchr (rd m ?p) 0 ?k"
    unfolding memchr_def by (rule memchr_loop_cong) (use at True in auto)
  show ?thesis
  proof (cases "memchr (rd m ?p) 0 ?k")
    case None
    with mc True n show ?thesis
      unfolding fdt_string_eq'_def fdt_get_string_eq[OF rw_tree_ok[OF rw(1)] so] fdt_get_string_eq[OF rw_tree_ok[OF rw(2)] so]
      by (simp add: ro_probe_rw rw)
  next
    case (Some k)
    then have k: "0 \<le> k" "so + k < fdt_size_dt_strings m f" using True unfolding memchr_Some by linarith+
    have "memcmp (rd m' ?p') name (sz k) = memcmp (rd m ?p) name (sz k)"
    proof (rule memcmp_cong, intro allI impI)
      fix i assume "i < sz k"
      moreover have "sz k = nat k" using k rw_tree_bounds(7)[OF rw(1)] True by (intro sz_id) linarith+
      ultimately show "rd m' ?p' (int i) = rd m ?p (int i)" using k by (intro at) auto
    qed
    with Some mc True n show ?thesis
      unfolding fdt_string_eq'_def fdt_get_string_eq[OF rw_tree_ok[OF rw(1)] so] fdt_get_string_eq[OF rw_tree_ok[OF rw(2)] so]
      by (auto simp: ro_probe_rw rw simp del: rd_apply)
  qed
next
  case False
  with n show ?thesis
    unfolding fdt_string_eq'_def fdt_get_string_eq[OF rw_tree_ok[OF rw(1)] so] fdt_get_string_eq[OF rw_tree_ok[OF rw(2)] so]
    by (auto simp: ro_probe_rw rw)
qed

lemma string_eq_at:
  assumes rw: "rw_tree m f" and l: "strlen name = Some l" and so: "0 \<le> so" "so + l + 1 \<le> fdt_size_dt_strings m f"
    and at: "bytes_at (rd m (f + fdt_off_dt_strings m f + so)) (nat (l + 1)) = bytes_at name (nat (l + 1))"
  shows "fdt_string_eq' m f so name l"
proof -
  note b = rw_tree_bounds[OF rw]
  let ?p = "f + fdt_off_dt_strings m f + so"
  have l0: "0 \<le> l" and ps: "points_to_str name (bytes_at name (nat l))" using l strlen_Some_iff by auto
  have i: "is_int so" using so l0 b by (simp add: is_int_def)
  have byte: "m (?p + j) = name j" if "0 \<le> j" "j \<le> l" for j
  proof -
    have "bytes_at (rd m ?p) (nat (l + 1)) ! nat j = bytes_at name (nat (l + 1)) ! nat j" by (simp only: at)
    then show ?thesis using that by simp
  qed
  have "memchr (rd m ?p) 0 (nat (fdt_size_dt_strings m f - so)) = Some l"
    unfolding memchr_Some using byte l0 so ps points_to_str_nonzero[OF ps] by (auto simp: points_to_str_def)
  moreover have "memcmp (rd m ?p) name (sz l) = 0"
  proof -
    have "sz l = nat l" using l0 so b by (intro sz_id) linarith+
    then show ?thesis using byte by (auto simp: memcmp_eq_0 bytes_at_eq_iff)
  qed
  ultimately show ?thesis
    using so l0 by (simp add: fdt_string_eq'_def fdt_get_string_eq[OF rw_tree_ok[OF rw] i] ro_probe_rw[OF rw] del: rd_apply)
qed


section \<open>The property that is resized, and the one that is added\<close>

lemma ld_same: "(\<And>a. p \<le> a \<Longrightarrow> a < p + 4 \<Longrightarrow> m' a = m a) \<Longrightarrow> fdt32_ld' m' p = fdt32_ld' m p"
  by (rule fdt32_ld'_cong[of p 4]) (auto simp: same_on_def)

text \<open>The result of both: the search finds a property of the length asked for, and what is before
  the properties of the node has not changed.\<close>

definition before_props :: "mem \<Rightarrow> addr \<Rightarrow> int \<Rightarrow> mem \<Rightarrow> bool" where
  "before_props m f node m' \<longleftrightarrow> fdt_off_dt_struct m' f = fdt_off_dt_struct m f \<and>
     fdt_check_node_offset' m f node \<le> fdt_size_dt_struct m' f \<and>
     (\<forall>a. f + 40 \<le> a \<and> a < f + fdt_off_dt_struct m f + fdt_check_node_offset' m f node \<longrightarrow> m' a = m a)"

definition finds :: "mem \<Rightarrow> mem \<Rightarrow> addr \<Rightarrow> int \<Rightarrow> cptr \<Rightarrow> int \<Rightarrow> addr \<Rightarrow> int \<Rightarrow> bool" where
  "finds m m' f node name l p len \<longleftrightarrow> rw_tree m' f \<and> fdt_size_dt_struct m' f mod 4 = 0 \<and> before_props m f node m' \<and>
     0 \<le> fdt_check_node_offset' m f node \<and> (\<exists>po. fdt_get_property_namelen' m' f node name l = (Some p, len, po) \<and>
       fdt_check_node_offset' m f node \<le> po)"

lemma check_prop_mod:
  assumes "0 \<le> fdt_check_prop_offset' m f po" "is_int po"
  shows "0 \<le> po \<and> po mod 4 = 0 \<and> fdt32_ld' m (fdt_offset_ptr' m f po) = FDT_PROP"
proof -
  obtain nx where t: "fdt_next_tag m f po = (FDT_PROP, nx)" "0 \<le> po" "u64 po mod 4 = 0"
    using assms(1) by (auto simp: fdt_check_prop_offset'_def split: if_splits prod.splits)
  have "u64 po = po" using t(2) assms(2) by (simp add: u64_id is_int_def)
  moreover have "fdt32_ld' m (fdt_offset_ptr' m f po) = FDT_PROP"
    by (rule fdt_next_tag_cases[OF t(1) _ assms(2)]) simp_all
  ultimately show ?thesis using t by simp
qed

lemma aligned_le: "(a::int) mod 4 = 0 \<Longrightarrow> b mod 4 = 0 \<Longrightarrow> a \<le> b + 3 \<Longrightarrow> a \<le> b"
  by presburger

lemma aligned_add:
  "(a::int) mod 4 = 0 \<Longrightarrow> b mod 4 = 0 \<Longrightarrow> (a + 12 + b) mod 4 = 0"
  "(a::int) mod 4 = 0 \<Longrightarrow> b mod 4 = 0 \<Longrightarrow> c mod 4 = 0 \<Longrightarrow> (a + b - c) mod 4 = 0"
  by presburger+

lemma resize_finds:
  assumes rw: "rw_tree m f" and sz4: "fdt_size_dt_struct m f mod 4 = 0" and l: "strlen name = Some l" "l < 2147483647"
    and node: "is_int node" and len: "0 \<le> len" "len \<le> 2147483632"
    and r: "fdt_resize_property' m f node name len = Some (0, p, m')"
  shows "finds m m' f node name l p len"
proof -
  note b = rw_treeD[OF rw] rw_tree_bounds[OF rw]
  have sl: "s32 l = l" using l strlen_Some_iff by (simp add: s32_id)
  obtain po old m1 where g: "fdt_get_property_namelen m f node name l = (Some p, old)" "0 \<le> old"
    and sp: "fdt_splice_struct' m f (p + 12) (FDT_TAGALIGN old) (FDT_TAGALIGN len) = (0, m1)"
    and m': "m' = store32 m1 (p + 4) (cpu_to_fdt32 (word_of_int len))"
    and ed: "edited f m m'" and po0: "p = fdt_offset_ptr' m f po" "po + 12 + old \<le> fdt_size_dt_struct m f"
    using fdt_resize_property_spec[OF rw l(1) len r] sl by auto
  obtain po' where loop: "get_property_loop m f (fdt_first_property_offset m f node) name l = (Some p, old, po')"
    "p = fdt_offset_ptr' m f po'" "is_int po'" "0 \<le> po'" "0 \<le> fdt_check_prop_offset' m f po'"
    by (rule get_property_found[OF rw g(1)])
  have eqpo: "po' = po" using loop(2) po0(1) by (simp add: fdt_offset_ptr'_def)
  note loop = loop[unfolded eqpo]
  note pm = check_prop_mod[OF loop(5,3)]
  let ?A = "FDT_TAGALIGN old" and ?N = "FDT_TAGALIGN len"
  have al: "old \<le> ?A" "?A \<le> old + 3" "?A mod 4 = 0" "len \<le> ?N" "?N \<le> len + 3" "?N mod 4 = 0"
    using FDT_TAGALIGN_4[of old] FDT_TAGALIGN_4[OF len(1)] len g(2) po0(2) loop(4) b by simp_all
  have "po mod 4 = 0" using pm by blast
  from aligned_le[OF aligned_add(1)[OF this al(3)] sz4]
  have fit: "po + 12 + ?A \<le> fdt_size_dt_struct m f" using al(2) po0(2) by linarith
  have p: "p = f + fdt_off_dt_struct m f + po" using po0(1) by (simp add: fdt_offset_ptr'_def)
  have P: "f + fdt_off_dt_struct m f \<le> p + 12" "p + 12 - f < 18446744073709551616" "is_int ?A"
    "0 \<le> ?N" "?N \<le> 2147483647" "?A \<le> fdt_size_dt_struct m f + ?N"
    unfolding p using loop(4) fit al g(2) len b(7,9,10,12) by simp_all
  note s = fdt_splice_struct_spec[OF rw sp P, simplified]
  have w: "writes_in (p + 4) 4 m1 m'" unfolding m' by (rule writes_in_store32) simp_all
  have h1: "same_on f 40 m1 m'" by (rule writes_in_same_on[OF w]) (use p loop(4) b in linarith)
  note hd = same_header[OF h1]
  have rw': "rw_tree m' f" by (rule edited_rw[OF ed])
  have sz': "fdt_size_dt_struct m' f = fdt_size_dt_struct m f + ?N - ?A" "fdt_off_dt_struct m' f = fdt_off_dt_struct m f"
    "fdt_size_dt_strings m' f = fdt_size_dt_strings m f" "fdt_off_dt_strings m' f = fdt_off_dt_strings m f + ?N - ?A"
    using s hd by simp_all
  have low: "m' a = m a" if "f + 40 \<le> a" "a < p + 12" "a < p + 4 \<or> p + 8 \<le> a" for a
    using s w that P(4) by (auto simp: moved_def writes_in_def)
  have high: "m' (a - ?A + ?N) = m a" if "p + 12 + ?A \<le> a" "a < f + fdt_off_dt_strings m f + fdt_size_dt_strings m f" for a
    using s w that P(4) by (auto simp: moved_def writes_in_def)
  have item: "same_item m f (po + 12) node po m'"
    using same_head_rw[OF rw rw' sz'(2), of "po + 12"] sz'(1) fit al low p get_property_first[OF loop(1) node] b len
    by (auto simp: same_item_def same_on_def)
  have seq: "fdt_string_eq' m' f so name l = fdt_string_eq' m f so name l" if "is_int so" for so
  proof (rule string_eq_moved[OF rw rw' sz'(3) _ that])
    fix i assume "0 \<le> i" "i < fdt_size_dt_strings m f"
    then show "m' (f + fdt_off_dt_strings m' f + i) = m (f + fdt_off_dt_strings m f + i)"
      using high[of "f + fdt_off_dt_strings m f + i"] fit p b(3) by (simp add: sz'(4) algebra_simps)
  qed
  have ld: "fdt32_ld' m' (p + 4) = len"
    using ld_store32_same[of m1 "p + 4" "word_of_int len"] len by (simp add: m' uint_word_of_int)
  have ld8: "fdt32_ld' m' p = fdt32_ld' m p" "fdt32_ld' m' (p + 8) = fdt32_ld' m (p + 8)"
    by (rule ld_same; rule low; use p loop(4) b in linarith)+
  have ptr: "fdt_offset_ptr' m' f po = p" using p sz'(2) by (simp add: fdt_offset_ptr'_def)
  have fit': "po + 12 + len \<le> fdt_size_dt_struct m' f" using fit al sz'(1) by linarith
  have there: "0 \<le> fdt_check_prop_offset' m' f po" "fdt_get_property_by_offset' m' f po = (Some p, len)"
    using by_offset_intro[OF rw' loop(4) _ len(1) fit'] pm ptr ld ld8(1) loop(2) by simp_all
  have "fdt_string_eq' m' f (s32 (fdt32_ld' m' (p + 8))) name l"
    using get_property_loop_name[OF loop(1) first_property_is_int] seq[OF is_int_s32] ld8(2) by simp
  then have "fdt_get_property_namelen' m' f node name l = (Some p, len, po)"
    using get_property_local[OF loop(1) node _ item _ seq there(2,1)] b by simp
  moreover have "fdt_size_dt_struct m' f mod 4 = 0" using sz4 al(3,6) unfolding sz'(1) by (intro aligned_add)
  moreover have "fdt_check_node_offset' m f node \<le> po" "0 \<le> fdt_check_node_offset' m f node"
    using get_property_first[OF loop(1) node] by linarith+
  moreover from this have "before_props m f node m'"
    unfolding before_props_def using sz' low p fit al(4) len by auto
  ultimately show ?thesis using rw' by (auto simp: finds_def)
qed


text \<open>An added property is the first of its node, so the search ends there at once.\<close>

lemma first_property_found:
  assumes rw: "rw_tree m f" and l: "strlen name = Some l" and node: "is_int node"
    and c: "fdt_check_node_offset' m f node = c" "0 \<le> c" "c mod 4 = 0"
    and len: "0 \<le> len" "c + 12 + len \<le> fdt_size_dt_struct m f"
    and ld: "fdt32_ld' m (fdt_offset_ptr' m f c) = FDT_PROP" "fdt32_ld' m (fdt_offset_ptr' m f c + 4) = len"
      "fdt32_ld' m (fdt_offset_ptr' m f c + 8) = so"
    and so: "0 \<le> so" "so + l + 1 \<le> fdt_size_dt_strings m f"
      "bytes_at (rd m (f + fdt_off_dt_strings m f + so)) (nat (l + 1)) = bytes_at name (nat (l + 1))"
  shows "fdt_get_property_namelen' m f node name l = (Some (fdt_offset_ptr' m f c), len, c)"
proof -
  have l0: "0 \<le> l" using l strlen_Some_iff by simp
  note at = by_offset_intro[OF rw c(2,3) len ld(1,2)]
  have "s32 so = so" using so l0 rw_tree_bounds[OF rw] by (simp add: s32_id)
  then have "fdt_string_eq' m f (s32 (fdt32_ld' m (fdt_offset_ptr' m f c + 8))) name l"
    using string_eq_at[OF rw l so] ld(3) by simp
  moreover have "fdt_first_property_offset m f node = c"
    using c(1,2) nextprop'_at at by (simp add: fdt_first_property_offset_def)
  ultimately show ?thesis
    using at c(2) by (simp add: fdt_get_property_namelen'_def get_property_loop.simps[of m f c])
qed

lemma FDT_ALIGN_mod: "0 \<le> n \<Longrightarrow> n < 2147483648 \<Longrightarrow> (12 + FDT_ALIGN n 4) mod 4 = 0"
  using FDT_ALIGN_4[of n] by (simp add: mod_add_right_eq[symmetric, of 12])

lemma add_finds:
  assumes rw: "rw_tree m f" and sz4: "fdt_size_dt_struct m f mod 4 = 0" and l: "strlen name = Some l" "l < 2147483647"
    and node: "is_int node" and len: "0 \<le> len" "len \<le> 2147483632"
    and r: "fdt_add_property' m f node name len = Some (0, p, m')"
  shows "finds m m' f node name l p len"
proof -
  let ?c = "fdt_check_node_offset' m f node" and ?n = "12 + FDT_ALIGN len 4"
  obtain so al m1 m2 where fa: "fdt_find_add_string' m f name = Some (so, al, m1)" "0 \<le> so"
    and c: "0 \<le> ?c" and p: "p = fdt_offset_ptr' m f ?c" and sp: "fdt_splice_struct' m1 f p 0 ?n = (0, m2)"
    and m': "m' = store32 (store32 (store32 m2 p (cpu_to_fdt32 3)) (p + 8) (cpu_to_fdt32 (word_of_int so)))
             (p + 4) (cpu_to_fdt32 (word_of_int len))"
    and ed: "edited f m m'"
    using fdt_add_property_spec[OF rw l node len r] by auto
  have rw': "rw_tree m' f" by (rule edited_rw[OF ed])
  have l0: "0 \<le> l" using l(1) strlen_Some_iff by simp
  have "\<not> so < 0" using fa(2) by simp
  note s1 = fdt_find_add_string_spec[OF rw l fa(1), unfolded if_not_P[OF this]]
  then have rw1: "rw_tree m1 f" using edited_rw by blast
  note b = rw_treeD[OF rw] rw_tree_bounds[OF rw] and b1 = rw_treeD[OF rw1] rw_tree_bounds[OF rw1]
  have cb: "0 \<le> node" "node + 4 \<le> ?c" "?c mod 4 = 0" "?c \<le> fdt_size_dt_struct m f"
    using check_node_bounds[OF rw c node] aligned_le[OF _ sz4, of ?c] by auto
  have A: "len \<le> FDT_ALIGN len 4" "FDT_ALIGN len 4 \<le> len + 3" using FDT_ALIGN_4[of len] len by simp_all
  have pp: "p = f + fdt_off_dt_struct m f + ?c" using p by (simp add: fdt_offset_ptr'_def)
  have P: "f + fdt_off_dt_struct m1 f \<le> p" "p - f < 18446744073709551616" "is_int 0" "0 \<le> ?n" "?n \<le> 2147483647"
    "0 \<le> fdt_size_dt_struct m1 f + ?n"
    unfolding pp using s1 cb A len b(7,9,10,12) b1(7) by (simp_all add: is_int_def)
  note s2 = fdt_splice_struct_spec[OF rw1 sp P, simplified]
  have w: "writes_in p 12 m2 m'"
    unfolding m' by (rule writes_in_trans[OF writes_in_trans]; rule writes_in_store32; simp)
  have h2: "same_on f 40 m2 m'" by (rule writes_in_same_on[OF w]) (use pp cb b in linarith)
  note hd = same_header[OF h2]
  have sz': "fdt_size_dt_struct m' f = fdt_size_dt_struct m f + ?n" "fdt_off_dt_struct m' f = fdt_off_dt_struct m f"
    "fdt_size_dt_strings m' f = fdt_size_dt_strings m1 f" "fdt_off_dt_strings m' f = fdt_off_dt_strings m1 f + ?n"
    using s1 s2 hd by simp_all
  have low: "m' a = m a" if "f + 40 \<le> a" "a < p" for a
  proof -
    have "a < f + fdt_off_dt_strings m f + fdt_size_dt_strings m f" using that pp cb b by linarith
    then show ?thesis using s1 s2 w that P(4) by (auto simp: moved_def writes_in_def)
  qed
  have high: "m' (a + ?n) = m1 a" if "p \<le> a" "a < f + fdt_off_dt_strings m1 f + fdt_size_dt_strings m1 f" for a
    using s2 w that A len by (auto simp: moved_def writes_in_def)
  have item: "same_item m f ?c node ?c m'"
    using same_head_rw[OF rw rw' sz'(2), of ?c] sz'(1) cb A len low pp b
    by (auto simp: same_item_def same_on_def)
  have c': "fdt_check_node_offset' m' f node = ?c"
    using fdt_check_node_offset'_local[OF refl c node item] b by simp
  have ptr: "fdt_offset_ptr' m' f ?c = p" using pp sz'(2) by (simp add: fdt_offset_ptr'_def)
  have ldp: "fdt32_ld' m' p = FDT_PROP" "fdt32_ld' m' (p + 4) = len" "fdt32_ld' m' (p + 8) = so"
  proof -
    have "so < 4294967296" using s1 l0 b1 by linarith
    then show "fdt32_ld' m' p = FDT_PROP" "fdt32_ld' m' (p + 4) = len" "fdt32_ld' m' (p + 8) = so"
      using len fa(2) unfolding m'
      by (simp_all add: ld_store32_same uint_word_of_int ld_outside[OF writes_in_store32[of "p + 4" "p + 4" 4]]
          ld_outside[OF writes_in_store32[of "p + 8" "p + 8" 4]])
  qed
  have str: "bytes_at (rd m' (f + fdt_off_dt_strings m' f + so)) (nat (l + 1)) = bytes_at name (nat (l + 1))"
  proof -
    have "bytes_at (rd m' (f + fdt_off_dt_strings m' f + so)) (nat (l + 1)) =
      bytes_at (rd m1 (f + fdt_off_dt_strings m f + so)) (nat (l + 1))"
    proof (rule bytes_at_cong)
      fix i assume i: "i < nat (l + 1)"
      have "m' (f + fdt_off_dt_strings m1 f + so + int i + ?n) = m1 (f + fdt_off_dt_strings m1 f + so + int i)"
        by (rule high) (use i s1 fa(2) pp cb b l0 in linarith)+
      then show "rd m' (f + fdt_off_dt_strings m' f + so) (int i) = rd m1 (f + fdt_off_dt_strings m f + so) (int i)"
        using s1 by (simp add: sz'(4) algebra_simps)
    qed
    with s1 show ?thesis by simp
  qed
  have "fdt_get_property_namelen' m' f node name l = (Some p, len, ?c)"
    using first_property_found[OF rw' l(1) node c' c cb(3) len(1) _ _ _ _ fa(2) _ str, unfolded ptr] ldp s1 sz' A cb(4) by simp
  moreover have "fdt_size_dt_struct m' f mod 4 = 0"
    unfolding sz'(1) using FDT_ALIGN_mod[of len] sz4 len by (simp add: mod_add_eq[symmetric, of _ ?n])
  moreover have "before_props m f node m'"
    unfolding before_props_def using sz' low pp cb(4) A(1) len by auto
  ultimately show ?thesis using rw' c by (auto simp: finds_def)
qed


section \<open>Setting and getting\<close>

lemma setprop_placeholder_finds:
  assumes rw: "rw_tree m f" and sz4: "fdt_size_dt_struct m f mod 4 = 0" and l: "strlen name = Some l" "l < 2147483647"
    and node: "is_int node" and len: "0 \<le> len" "len \<le> 2147483632"
    and r: "fdt_setprop_placeholder m f node name len = Some (0, v, m')"
  shows "finds m m' f node name l (v - 12) len"
proof -
  obtain e p m1 where rs: "fdt_resize_property' m f node name len = Some (e, p, m1)"
    using r rw_probe_ok[OF rw] by (auto simp: fdt_setprop_placeholder_def split: bind_splits)
  note s1 = fdt_resize_property_spec[OF rw l(1) len rs]
  show ?thesis
  proof (cases "e = - FDT_ERR_NOTFOUND")
    case True
    with s1 have "m1 = m" by simp
    with r rs True rw_probe_ok[OF rw] obtain p2 where "fdt_add_property' m f node name len = Some (0, p2, m')" "v = p2 + 12"
      by (auto simp: fdt_setprop_placeholder_def split: bind_splits if_splits)
    with add_finds[OF rw sz4 l node len] show ?thesis by simp
  next
    case False
    with r rs rw_probe_ok[OF rw] have "e = 0" "m' = m1" "v = p + 12"
      by (auto simp: fdt_setprop_placeholder_def split: if_splits)
    with resize_finds[OF rw sz4 l node len] rs show ?thesis by simp
  qed
qed

text \<open>The value is copied to where it is found, and changes nothing else.\<close>

lemma setprop_getprop:
  assumes rw: "rw_tree m f" and sz4: "fdt_size_dt_struct m f mod 4 = 0" and name: "points_to_str name s" "length s \<le> 2147483631"
    and node: "is_int node" and len: "0 \<le> len" "len \<le> 2147483632"
    and r: "fdt_setprop m f node name val len = Some (0, m')"
  shows "\<exists>p. fdt_getprop m' f node name = Some (Some p, len) \<and> bytes_at (rd m' p) (nat len) = bytes_at val (nat len) \<and>
    f \<le> p \<and> p + len \<le> f + fdt_totalsize m' f \<and> rw_tree m' f \<and> fdt_size_dt_struct m' f mod 4 = 0 \<and>
    before_props m f node m' \<and> 0 \<le> fdt_check_node_offset' m f node"
proof -
  let ?l = "int (length s)"
  have l: "strlen name = Some ?l" "?l < 2147483647" "s32 ?l = ?l"
    using strlen_points_to[OF name(1)] name(2) by (simp_all add: s32_id)
  obtain v m1 where p: "fdt_setprop_placeholder m f node name len = Some (0, v, m1)"
    and m': "m' = memcpy_from m1 v val (sz len)"
    using r by (auto simp: fdt_setprop_def sz_def u64_def split: bind_splits if_splits)
  have z: "sz len = nat len" using len by (simp add: sz_id)
  obtain po where g: "fdt_get_property_namelen' m1 f node name ?l = (Some (v - 12), len, po)"
    and rw1: "rw_tree m1 f" and sz1: "fdt_size_dt_struct m1 f mod 4 = 0"
    and low: "before_props m f node m1" "0 \<le> fdt_check_node_offset' m f node" "fdt_check_node_offset' m f node \<le> po"
    using setprop_placeholder_finds[OF rw sz4 l(1,2) node len p] by (auto simp: finds_def)
  have out: "m' a = m1 a" if "a < v - 12 + 12 \<or> v - 12 + 12 + len \<le> a" for a
    using that len z by (simp add: m' memcpy_from_outside)
  have k: "fdt_get_property_namelen' m' f node name ?l = (Some (v - 12), len, po) \<and> same_on f 40 m1 m' \<and>
    0 \<le> len \<and> len \<le> 2147483647 \<and> po + 12 + len \<le> fdt_size_dt_struct m1 f \<and>
    v - 12 = f + fdt_off_dt_struct m1 f + po \<and> 0 \<le> po"
    by (rule get_property_value_only[OF rw_tree_ok[OF rw1] node g out])
  then have rw': "rw_tree m' f" using rw_tree_cong rw1 by blast
  note hd = same_header[OF conjunct1[OF conjunct2[OF k]]] and b1 = rw_treeD[OF rw1] rw_tree_bounds[OF rw1]
  have "fdt_getprop m' f node name = Some (Some v, len)"
    using k l rw_treeD(6)[OF rw'] by (simp add: fdt_getprop_def fdt_getprop_namelen_def prop_data_def)
  moreover have "bytes_at (rd m' v) (nat len) = bytes_at val (nat len)"
    by (auto simp: bytes_at_eq_iff m' memcpy_from_spec z)
  moreover have "f \<le> v" "v + len \<le> f + fdt_totalsize m1 f" using k b1 by linarith+
  moreover have "before_props m f node m'"
    unfolding before_props_def using low hd out k by (auto simp: before_props_def)
  ultimately show ?thesis using rw' hd sz1 low(2) by auto
qed


text \<open>C14: A value set by \<open>fdt_setprop\<close>, whether the property was there with another length or is added
  with its name, is what \<open>fdt_getprop\<close> finds then, inside of the tree.\<close>

theorem setprop_round_trip:
  assumes "fdt_check_header m f = 0" "fdt_size_dt_struct m f mod 4 = 0" "points_to_str name s" "length s \<le> 2147483631"
    "is_int node" "0 \<le> len" "len \<le> 2147483632" "fdt_setprop m f node name val len = Some (0, m')"
  shows "\<exists>p. fdt_getprop m' f node name = Some (Some p, len) \<and> bytes_at (rd m' p) (nat len) = bytes_at val (nat len) \<and>
    f \<le> p \<and> p + len \<le> f + fdt_totalsize m f"
proof -
  let ?E = "\<lambda>m. fdt_setprop m f node name val len"
  have "?E m = probed ?E m f"
    by (rule probed_again[OF assms(1)]) (simp_all add: fdt_setprop_def fdt_setprop_placeholder_def)
  then obtain m1 where p: "fdt_rw_probe' m f = (0, m1)" and r: "?E m1 = Some (0, m')"
    using assms(8) by (auto simp: probed_def split: prod.splits if_splits)
  have rw: "rw_tree m1 f" "fdt_totalsize m1 f = fdt_totalsize m f"
    using fdt_rw_probe_spec[OF assms(1) p] by simp_all
  have "m1 = m \<or> m1 = fdt_set_version m f 17" using p by (auto simp: fdt_rw_probe'_def split: if_splits)
  then have "fdt_size_dt_struct m1 f mod 4 = 0" using assms(2) by (auto simp: fdt_get_set_hdr)
  note found = setprop_getprop[OF rw(1) this assms(3-7) r]
  have "name_arg name" using assms(3,4) unfolding name_arg_def by blast
  then have "kept f m m'" using setprop.keeps[of "(node, name, val, len)" m f 0 m'] assms by simp
  then have "fdt_totalsize m' f = fdt_totalsize m f" by (simp add: kept_def)
  with found show ?thesis by auto
qed

lemma ex_rw_tree: "rw_tree ex_tree 64"
  by (simp add: rw_tree_def ex_tree_header)

lemma ex_setprop:
  "\<exists>m'. fdt_setprop ex_tree 64 0 (chars ''a'') (lit [1, 2, 3, 4, 5, 6, 7, 8]) 8 = Some (0, m')"
proof -
  have l: "strlen (chars ''a'') = Some 1"
    using strlen_points_to[of "chars ''a''" "str ''a''"] by (simp add: chars_def str_def of_char_of)
  obtain p n po where g: "fdt_get_property_namelen' ex_tree 64 0 (chars ''a'') 1 = (p, n, po)" by (metis prod_cases3)
  have "p = Some 128 \<and> n = 4"
    using ex_getprop l g by (auto simp: fdt_getprop_def fdt_getprop_namelen_def s32_def prop_data_def
        ex_tree_header split: option.splits if_splits)
  with g have g: "fdt_get_property_namelen ex_tree 64 0 (chars ''a'') 1 = (Some 128, 4)"
    by (simp add: fdt_get_property_namelen_def ex_tree_header)
  obtain e m1 where sp: "fdt_splice_struct' ex_tree 64 140 4 8 = (e, m1)" by fastforce
  then have "e = 0"
    by (auto simp: fdt_splice_struct'_def fdt_splice'_def fdt_data_size'_def ex_tree_header u32_def u64_def Let_def
        split: prod.splits if_splits)
  moreover have "FDT_TAGALIGN 4 = 4" "FDT_TAGALIGN 8 = 8"
    by (simp_all add: FDT_TAGALIGN_def FDT_ALIGN_def u64_def s32_def)
  ultimately show ?thesis
    using rw_probe_ok[OF ex_rw_tree] g l sp
    by (simp add: fdt_setprop_def fdt_setprop_placeholder_def fdt_resize_property'_def fdt_get_property_def s32_def)
qed

theorem setprop_round_trip_witness:
  "\<exists>m' p. fdt_setprop ex_tree 64 0 (chars ''a'') (lit [1, 2, 3, 4, 5, 6, 7, 8]) 8 = Some (0, m') \<and>
     fdt_getprop m' 64 0 (chars ''a'') = Some (Some p, 8) \<and> bytes_at (rd m' p) 8 = [1, 2, 3, 4, 5, 6, 7, 8]"
proof -
  obtain m' where m': "fdt_setprop ex_tree 64 0 (chars ''a'') (lit [1, 2, 3, 4, 5, 6, 7, 8]) 8 = Some (0, m')"
    using ex_setprop by blast
  have n: "points_to_str (chars ''a'') (str ''a'')" by (simp add: chars_def str_def of_char_of)
  have "fdt_check_header ex_tree 64 = 0" using ex_tree_ok by (simp add: tree_ok_def)
  from setprop_round_trip[OF this _ n _ _ _ _ m'] obtain p where
    "fdt_getprop m' 64 0 (chars ''a'') = Some (Some p, 8)" "bytes_at (rd m' p) 8 = bytes_at (lit [1, 2, 3, 4, 5, 6, 7, 8]) 8"
    by (auto simp: ex_tree_header is_int_def str_def)
  moreover have "bytes_at (lit [1, 2, 3, 4, 5, 6, 7, 8]) 8 = [1, 2, 3, 4, 5, 6, 7, 8 :: byte]"
    using bytes_at_lit[of "[1, 2, 3, 4, 5, 6, 7, 8]"] by (simp add: eval_nat_numeral)
  ultimately show ?thesis using m' by auto
qed

end
