(* ===== verification/Fdt_Path.thy ===== *)
theory Fdt_Path
  imports Fdt_Setprop
begin

text \<open>
  Finding nodes in an edited tree: a search by name or path reads nothing behind the name of the
  node it finds, and a node that was added is found by its name.
\<close>

section \<open>The walk to a node reads nothing behind its name\<close>

lemma check_node_mod:
  assumes "rw_tree m f" "0 \<le> fdt_check_node_offset' m f o1" "is_int o1"
  shows "\<exists>nx. fdt_next_tag m f o1 = (FDT_BEGIN_NODE, nx) \<and> fdt_check_node_offset' m f o1 = nx \<and> 0 \<le> o1 \<and> o1 + 4 \<le> nx"
  using assms(2) check_node_bounds[OF assms] by (auto simp: fdt_check_node_offset'_def split: if_splits prod.splits)

lemma next_tag_same:
  assumes rw: "rw_tree m f" and t: "fdt_next_tag m f o1 = (tag, nx)" "tag \<noteq> FDT_END" and o: "is_int o1"
    and same: "same_item m f B o1 nx m'" and B: "nx \<le> B"
  shows "fdt_next_tag m' f o1 = (tag, nx)"
proof -
  note nx = fdt_next_tag_bounds[OF rw t o]
  have "o1 + 8 \<le> nx" if p: "tag = FDT_PROP"
  proof -
    obtain e where e: "next_tag_skip m f tag (s32 (o1 + 4)) = Some e" "nx = FDT_TAGALIGN e"
      by (rule fdt_next_tag_cases[OF t o]) simp_all
    note end_e = next_tag_skip_end[OF e(1) _ o]
    have "next_tag_prop m f (s32 (o1 + 4)) = Some e" using e(1) p by (simp add: next_tag_skip_def)
    then show ?thesis
      using next_tag_prop_end[OF _ is_int_s32] end_e nx FDT_TAGALIGN_progress[of e] e(2) by fastforce
  qed
  then have "same_item m f B o1 (item_read tag o1 nx) m'"
    using same_item_sub[OF same, of o1] by (simp add: item_read_def)
  then show ?thesis
    using fdt_next_tag_local[OF t _ o] nx B rw_treeD(6)[OF rw] by simp
qed

lemma next_node_loop_local:
  "next_node_loop m f o1 (Some d) = (r, d') \<Longrightarrow> is_int o1 \<Longrightarrow> rw_tree m f \<Longrightarrow> 0 \<le> fdt_check_node_offset' m f r \<Longrightarrow>
   the d' \<ge> 0 \<Longrightarrow> same_item m f B o1 (fdt_check_node_offset' m f r) m' \<Longrightarrow> fdt_check_node_offset' m f r \<le> B \<Longrightarrow>
   next_node_loop m' f o1 (Some d) = (r, d')"
proof (induction "walk_measure o1" arbitrary: o1 d rule: less_induct)
  case less
  let ?c = "fdt_check_node_offset' m f r"
  note same = less.prems(6) and B = less.prems(7)
  obtain tag nx where t: "fdt_next_tag m f o1 = (tag, nx)" by fastforce
  note eq = less.prems(1)[unfolded next_node_loop.simps[of m f o1] t Let_def prod.case]
  have ir: "is_int r" using next_node_loop_progress[OF less.prems(1,2)] by simp
  have r0: "0 \<le> r" using check_node_mod[OF less.prems(3,4) ir] by auto
  have o1r: "o1 \<le> r" using next_node_loop_progress[OF less.prems(1,2)] r0 by simp
  show ?case
  proof (cases "tag = FDT_BEGIN_NODE")
    case True
    then have "r = o1" using eq by simp
    then have "?c = nx" "0 \<le> nx" using t True less.prems(4) by (auto simp: fdt_check_node_offset'_def split: if_splits)
    then have "fdt_next_tag m' f o1 = (tag, nx)"
      using next_tag_same[OF less.prems(3) t _ less.prems(2), of B m'] True same B by simp
    with True eq show ?thesis by (subst next_node_loop.simps) simp
  next
    case nb: False
    have ne: "tag \<noteq> FDT_END" using eq nb r0 by (auto split: if_splits)
    have nx: "0 \<le> nx" "o1 < nx" "is_int nx"
      using fdt_next_tag_bounds[OF less.prems(3) t ne less.prems(2)] fdt_next_tag_is_int[OF t] by auto
    obtain d2 where rec: "next_node_loop m f nx (Some d2) = (r, d')" "d2 = (if tag = FDT_END_NODE then d - 1 else d)"
      using eq nb ne less.prems(5) by (auto split: if_splits)
    have nxr: "nx \<le> r" using next_node_loop_progress[OF rec(1) nx(3)] r0 by simp
    have rc: "r < ?c" using check_node_mod[OF less.prems(3,4) ir] by auto
    have t': "fdt_next_tag m' f o1 = (tag, nx)"
      by (rule next_tag_same[OF less.prems(3) t ne less.prems(2) same_item_sub[OF same]]) (use nxr rc B in simp_all)
    have "next_node_loop m' f nx (Some d2) = (r, d')"
      using less.hyps[OF fdt_next_tag_less[OF t[symmetric] ne] rec(1) nx(3) less.prems(3-5) _ B] same_item_sub[OF same, of nx ?c] nx by simp
    with t' nb ne rec(2) eq show ?thesis
      by (subst next_node_loop.simps) (auto split: if_splits)
  qed
qed


lemma fdt_next_node_local:
  assumes nn: "fdt_next_node m f o1 (Some d) = (r, d')" and o1: "0 \<le> o1" "is_int o1" and rw: "rw_tree m f"
    and r: "0 \<le> fdt_check_node_offset' m f r" "the d' \<ge> 0"
    and same: "same_item m f B o1 (fdt_check_node_offset' m f r) m'" and B: "fdt_check_node_offset' m f r \<le> B"
  shows "fdt_next_node m' f o1 (Some d) = (r, d') \<and> fdt_check_node_offset' m' f o1 = fdt_check_node_offset' m f o1 \<and>
    0 \<le> fdt_check_node_offset' m f o1 \<and> fdt_check_node_offset' m f o1 \<le> r"
proof -
  let ?c = "fdt_check_node_offset' m f o1" and ?r = "fdt_check_node_offset' m f r"
  have ir: "is_int r" by (rule fdt_next_node_is_int[OF nn])
  have rc: "0 \<le> r" "r < ?r" using check_node_mod[OF rw r(1) ir] by auto
  have c0: "0 \<le> ?c" using nn o1(1) rc(1) by (auto simp: fdt_next_node_def Let_def split: if_splits)
  then have lp: "next_node_loop m f ?c (Some d) = (r, d')" using nn o1(1) by (simp add: fdt_next_node_def)
  have cr: "?c \<le> r" using next_node_loop_progress[OF lp check_offset_is_int(1)] rc(1) by simp
  have oc: "o1 < ?c" using check_node_bounds[OF rw c0 o1(2)] by simp
  have "fdt_check_node_offset' m' f o1 = ?c"
    by (rule fdt_check_node_offset'_local[OF refl c0 o1(2) same_item_sub[OF same]])
      (use cr rc B rw_treeD(6)[OF rw] in simp_all)
  moreover have "next_node_loop m' f ?c (Some d) = (r, d')"
    by (rule next_node_loop_local[OF lp check_offset_is_int(1) rw r same_item_sub[OF same] B]) (use oc in simp_all)
  ultimately show ?thesis using c0 cr o1(1) by (simp add: fdt_next_node_def)
qed

text \<open>Names are compared inside of the item of their node.\<close>

lemma fdt_nodename_eq_iff:
  assumes rw: "rw_tree m f" and node: "is_int node" and c: "0 \<le> fdt_check_node_offset' m f node" and n: "0 \<le> n" "n \<le> 2147483647"
    and nm: "points_to_str (rd m (fdt_offset_ptr' m f (node + 4))) s" "node + 4 + int (length s) + 1 \<le> fdt_size_dt_struct m f"
  shows "fdt_nodename_eq' m f node name n =
    Some (n \<le> int (length s) \<and> take (nat n) s = bytes_at name (nat n) \<and>
      (n = int (length s) \<or> memchr name 64 (nat n) = None \<and> s ! nat n = 64))"
proof -
  let ?p = "fdt_offset_ptr' m f (node + 4)"
  obtain t where t: "fdt_get_name m f node = Some (Some ?p, int (length t))" "points_to_str (rd m ?p) t"
    using fdt_get_name_spec[OF rw node c] by blast
  have "t = s" using points_to_str_unique[OF t(2) nm(1)] .
  then have g: "fdt_get_name m f node = Some (Some ?p, int (length s))" using t(1) by simp
  have z: "sz n = nat n" using n by (simp add: sz_id)
  have bs: "bytes_at (rd m ?p) (length s) = s" "m (?p + int (length s)) = 0" using nm(1) by (simp_all add: points_to_str_def)
  have byte: "m (?p + int i) = s ! i" if "i < length s" for i
    using arg_cong[OF bs(1), of "\<lambda>xs. xs ! i"] that by simp
  have nz: "i < length s \<Longrightarrow> s ! i \<noteq> 0" for i using nm(1) nth_mem[of i s] unfolding points_to_str_def cstring_def by metis
  show ?thesis
  proof (cases "n \<le> int (length s)")
    case False
    with g show ?thesis by (simp add: fdt_nodename_eq'_def)
  next
    case True
    have tk: "bytes_at (rd m ?p) (nat n) = take (nat n) s"
      using True n byte by (intro nth_equalityI) auto
    have at: "m (?p + n) = (if n = int (length s) then 0 else s ! nat n)"
      using bs(2) byte[of "nat n"] True n by auto
    have "n \<noteq> int (length s) \<Longrightarrow> s ! nat n \<noteq> 0" using nz[of "nat n"] True n by auto
    with g True z tk at show ?thesis
      by (auto simp: fdt_nodename_eq'_def memcmp_eq_0)
  qed
qed


lemma node_name_end:
  assumes rw: "rw_tree m f" and node: "is_int node" and c: "0 \<le> fdt_check_node_offset' m f node"
    and s: "points_to_str (rd m (fdt_offset_ptr' m f (node + 4))) s"
  shows "node + 4 + int (length s) + 1 \<le> fdt_check_node_offset' m f node"
  using fdt_get_name_spec[OF rw node c] points_to_str_unique[OF s] by blast

lemma fdt_nodename_eq_local:
  assumes rw: "rw_tree m f" "rw_tree m' f" and node: "is_int node" and c: "0 \<le> fdt_check_node_offset' m f node"
    and n: "0 \<le> n" "n \<le> 2147483647"
    and same: "same_item m f B node (fdt_check_node_offset' m f node) m'" and B: "fdt_check_node_offset' m f node \<le> B"
    and room: "fdt_check_node_offset' m f node \<le> fdt_size_dt_struct m' f"
  shows "fdt_nodename_eq' m' f node name n = fdt_nodename_eq' m f node name n"
proof -
  let ?c = "fdt_check_node_offset' m f node"
  obtain s where s: "points_to_str (rd m (fdt_offset_ptr' m f (node + 4))) s"
    "node + 4 + int (length s) + 1 \<le> fdt_size_dt_struct m f" "node + 4 + int (length s) + 1 \<le> ?c"
    using fdt_get_name_spec[OF rw(1) node c] node_name_end[OF rw(1) node c] by blast
  have ptr: "fdt_offset_ptr' m' f = fdt_offset_ptr' m f" by (rule same_headD(1)[OF same_item_head[OF same]])
  have byte: "m' (fdt_offset_ptr' m f (node + 4) + i) = m (fdt_offset_ptr' m f (node + 4) + i)"
    if "0 \<le> i" "i \<le> int (length s)" for i
    using same_item_byte[OF same, of "node + 4 + i"] that s(3) by (simp add: fdt_offset_ptr'_def add.assoc)
  have "bytes_at (rd m' (fdt_offset_ptr' m f (node + 4))) (length s) = bytes_at (rd m (fdt_offset_ptr' m f (node + 4))) (length s)"
    by (rule bytes_at_cong) (use byte in simp)
  then have s': "points_to_str (rd m' (fdt_offset_ptr' m' f (node + 4))) s"
    using s(1) byte[of "int (length s)"] by (simp add: points_to_str_def ptr)
  have c': "fdt_check_node_offset' m' f node = ?c"
    by (rule fdt_check_node_offset'_local[OF refl c node same]) (use rw_treeD(6)[OF rw(1)] B in simp_all)
  show ?thesis
    using fdt_nodename_eq_iff[OF rw(1) node c n s(1,2)] fdt_nodename_eq_iff[OF rw(2) node _ n s'] c c' s(3) room by simp
qed

text \<open>A search of the subnodes that succeeds.\<close>

lemma nodename_eq_valid: "fdt_nodename_eq' m f o1 name n = Some True \<Longrightarrow> 0 \<le> fdt_check_node_offset' m f o1"
  by (auto simp: fdt_nodename_eq'_def fdt_get_name_def split: bind_splits if_splits option.splits)

lemma subnode_loop_first:
  "subnode_loop m f o1 d name n = Some r \<Longrightarrow> is_int o1 \<Longrightarrow> rw_tree m f \<Longrightarrow> 0 \<le> r \<Longrightarrow>
   0 \<le> fdt_check_node_offset' m f o1 \<and> fdt_check_node_offset' m f o1 \<le> fdt_check_node_offset' m f r \<and> o1 \<le> r \<and> is_int r"
proof (induction m f o1 d name n arbitrary: r rule: subnode_loop.induct)
  case (1 m f o1 d name n)
  note eq = "1.prems"(1)[unfolded subnode_loop.simps[of m f o1]]
  have od: "0 \<le> o1" "0 \<le> d" using eq "1.prems"(4) by (auto split: if_splits)
  obtain b where b: "fdt_nodename_eq' m f o1 name n = Some b" using fdt_nodename_eq_returns "1.prems" by blast
  show ?case
  proof (cases "d = 1 \<and> b")
    case True
    then have "r = o1" using eq od b by simp
    with True b "1.prems"(2) nodename_eq_valid[of m f o1 name n] show ?thesis by simp
  next
    case False
    obtain o2 d2 where nx: "fdt_next_node m f o1 (Some d) = (o2, d2)" by fastforce
    have no: "(if d = 1 then fdt_nodename_eq' m f o1 name n else Some False) = Some False" using False b by auto
    have rec: "subnode_loop m f o2 (the d2) name n = Some r" using eq od no nx by simp
    have i2: "is_int o2" by (rule fdt_next_node_is_int[OF nx])
    have od2: "0 \<le> o2" using rec "1.prems"(4) by (subst (asm) subnode_loop.simps; auto split: if_splits)
    have IH: "0 \<le> fdt_check_node_offset' m f o2 \<and> fdt_check_node_offset' m f o2 \<le> fdt_check_node_offset' m f r \<and> o2 \<le> r \<and> is_int r"
      using "1.IH"[of False o2 d2 r] od no nx rec i2 "1.prems"(3,4) by simp
    let ?c = "fdt_check_node_offset' m f o1"
    have c0: "0 \<le> ?c" using nx od(1) od2 by (auto simp: fdt_next_node_def Let_def split: if_splits)
    then have lp: "next_node_loop m f ?c (Some d) = (o2, d2)" using nx od(1) by (simp add: fdt_next_node_def)
    have "?c \<le> o2" using next_node_loop_progress[OF lp check_offset_is_int(1)] od2 by simp
    moreover have "o1 < ?c" using check_node_bounds[OF "1.prems"(3) c0 "1.prems"(2)] by simp
    moreover have "o2 < fdt_check_node_offset' m f o2" using check_node_bounds[OF "1.prems"(3) _ i2] IH by simp
    ultimately show ?thesis using IH c0 by simp
  qed
qed

lemma subnode_loop_local:
  "subnode_loop m f o1 d name n = Some r \<Longrightarrow> is_int o1 \<Longrightarrow> rw_tree m f \<Longrightarrow> rw_tree m' f \<Longrightarrow> 0 \<le> n \<Longrightarrow> n \<le> 2147483647 \<Longrightarrow>
   0 \<le> r \<Longrightarrow> same_item m f B o1 (fdt_check_node_offset' m f r) m' \<Longrightarrow> fdt_check_node_offset' m f r \<le> B \<Longrightarrow>
   fdt_check_node_offset' m f r \<le> fdt_size_dt_struct m' f \<Longrightarrow>
   subnode_loop m' f o1 d name n = Some r \<and> 0 \<le> fdt_check_node_offset' m f r \<and> 0 \<le> o1 \<and> o1 \<le> r \<and> is_int r"
proof (induction m f o1 d name n arbitrary: r rule: subnode_loop.induct)
  case (1 m f o1 d name n)
  note eq = "1.prems"(1)[unfolded subnode_loop.simps[of m f o1]]
  note rw = "1.prems"(3,4) and same = "1.prems"(8) and B = "1.prems"(9,10)
  have od: "0 \<le> o1" "0 \<le> d" using eq "1.prems"(7) by (auto split: if_splits)
  obtain b where b: "fdt_nodename_eq' m f o1 name n = Some b" using fdt_nodename_eq_returns[OF rw(1) "1.prems"(2)] by blast
  show ?case
  proof (cases "d = 1 \<and> b")
    case True
    then have r: "r = o1" using eq od b by simp
    have c: "0 \<le> fdt_check_node_offset' m f o1" using nodename_eq_valid b True by simp
    have "fdt_nodename_eq' m' f o1 name n = Some True"
      using fdt_nodename_eq_local[OF rw "1.prems"(2) c "1.prems"(5,6)] same B b True r by simp
    with True od r c "1.prems"(2) show ?thesis by (simp add: subnode_loop.simps[of m' f o1])
  next
    case False
    obtain o2 d2 where nx: "fdt_next_node m f o1 (Some d) = (o2, d2)" by fastforce
    have no: "(if d = 1 then fdt_nodename_eq' m f o1 name n else Some False) = Some False" using False b by auto
    have rec: "subnode_loop m f o2 (the d2) name n = Some r" using eq od no nx by simp
    have i2: "is_int o2" by (rule fdt_next_node_is_int[OF nx])
    have od2: "0 \<le> o2" "0 \<le> the d2"
      using rec "1.prems"(7) by (subst (asm) subnode_loop.simps; auto split: if_splits)+
    let ?c2 = "fdt_check_node_offset' m f o2" and ?r = "fdt_check_node_offset' m f r"
    have lt: "o1 < o2" using fdt_next_node_progress[OF nx od(1)] od2 "1.prems"(2) by (simp add: s32_is_int)
    have IH: "subnode_loop m' f o2 (the d2) name n = Some r \<and> 0 \<le> ?r \<and> 0 \<le> o2 \<and> o2 \<le> r \<and> is_int r"
      using "1.IH"[of False o2 d2 r] od no nx rec i2 rw "1.prems"(5-7) same_item_sub[OF same, of o2 ?r] lt B by simp
    have c2: "0 \<le> ?c2 \<and> ?c2 \<le> ?r" using subnode_loop_first[OF rec i2 rw(1) "1.prems"(7)] by simp
    have nn: "fdt_next_node m' f o1 (Some d) = (o2, d2) \<and> fdt_check_node_offset' m' f o1 = fdt_check_node_offset' m f o1 \<and>
      0 \<le> fdt_check_node_offset' m f o1 \<and> fdt_check_node_offset' m f o1 \<le> o2"
      by (rule fdt_next_node_local[OF nx od(1) "1.prems"(2) rw(1) _ od2(2) same_item_sub[OF same]]) (use c2 B in simp_all)
    have "(if d = 1 then fdt_nodename_eq' m' f o1 name n else Some False) = Some False"
      using no fdt_nodename_eq_local[OF rw "1.prems"(2) _ "1.prems"(5,6), of B name] nn same_item_sub[OF same, of o1 "fdt_check_node_offset' m f o1"]
        IH B check_node_bounds[OF rw(1), of r] by (auto split: if_splits)
    with IH nn od lt show ?thesis by (simp add: subnode_loop.simps[of m' f o1])
  qed
qed


lemma subnode_loop_is_int: "subnode_loop m f o1 d name n = Some r \<Longrightarrow> is_int o1 \<Longrightarrow> is_int r"
proof (induction m f o1 d name n arbitrary: r rule: subnode_loop.induct)
  case (1 m f o1 d name n)
  note eq = "1.prems"(1)[unfolded subnode_loop.simps[of m f o1]]
  have i: "is_int (- 1)" by (simp add: is_int_def)
  show ?case
  proof (cases "0 \<le> o1 \<and> 0 \<le> d \<and> (if d = 1 then fdt_nodename_eq' m f o1 name n else Some False) = Some False")
    case True
    obtain o2 d2 where nx: "fdt_next_node m f o1 (Some d) = (o2, d2)" by fastforce
    with eq True have "subnode_loop m f o2 (the d2) name n = Some r" by simp
    then show ?thesis using "1.IH"[of False o2 d2 r] True nx fdt_next_node_is_int[OF nx] by simp
  next
    case False
    with eq "1.prems"(2) i show ?thesis by (auto split: if_splits bind_splits)
  qed
qed

text \<open>A node name matches the name that is asked for exactly when it is that name, or when it is
  that name followed by a unit address and the name asked for has none.\<close>

theorem node_name_matches:
  assumes "rw_tree m f" "is_int node" "0 \<le> fdt_check_node_offset' m f node" "0 \<le> n" "n \<le> 2147483647"
    "points_to_str (rd m (fdt_offset_ptr' m f (node + 4))) s"
  shows "fdt_nodename_eq' m f node name n =
    Some (n \<le> int (length s) \<and> take (nat n) s = bytes_at name (nat n) \<and>
      (n = int (length s) \<or> memchr name 64 (nat n) = None \<and> s ! nat n = 64))"
proof -
  obtain t where "points_to_str (rd m (fdt_offset_ptr' m f (node + 4))) t" "node + 4 + int (length t) + 1 \<le> fdt_size_dt_struct m f"
    using fdt_get_name_spec[OF assms(1-3)] by blast
  with fdt_nodename_eq_iff[OF assms] show ?thesis using points_to_str_unique[OF _ assms(6)] by simp
qed

lemma ex_name: "points_to_str (rd ex_tree (fdt_offset_ptr' ex_tree 64 (24 + 4))) [99]"
  by (simp add: points_to_str_def cstring_def fdt_offset_ptr'_def ex_tree_header ex_bytes bytes_at_def)

theorem node_name_matches_witness:
  "fdt_nodename_eq' ex_tree 64 24 (lit [99]) 1 = Some True \<and> fdt_nodename_eq' ex_tree 64 24 (lit [98]) 1 = Some False"
  using node_name_matches[OF ex_rw_tree _ _ _ _ ex_name, of 1 "lit [99]"] node_name_matches[OF ex_rw_tree _ _ _ _ ex_name, of 1 "lit [98]"]
  by (simp add: is_int_def ex_node bytes_at_def lit_def)

end
