(* ===== verification/Fdt_Subnode.thy ===== *)
theory Fdt_Subnode
  imports Fdt_Path
begin

text \<open>
  A node that \<open>fdt_add_subnode\<close> has added is the first one of its parent, and is found by its name.
\<close>

section \<open>The new node\<close>

lemma next_tag_name_intro:
  "rw_tree m f \<Longrightarrow> 0 \<le> o1 \<Longrightarrow> cstring s \<Longrightarrow> o1 + int (length s) + 1 \<le> fdt_size_dt_struct m f \<Longrightarrow>
   (\<forall>i<length s. m (fdt_offset_ptr' m f (o1 + int i)) = s ! i) \<Longrightarrow> m (fdt_offset_ptr' m f (o1 + int (length s))) = 0 \<Longrightarrow>
   next_tag_name m f o1 = Some (o1 + int (length s) + 1)"
proof (induction s arbitrary: o1)
  case Nil
  note b = rw_tree_bounds[OF Nil.prems(1)]
  have s: "s32 o1 = o1" "s32 (o1 + 1) = o1 + 1" using Nil.prems b by (simp_all add: s32_id)
  have "fdt_offset_ptr m f o1 1 = Some (fdt_offset_ptr' m f o1)"
    using fdt_offset_ptr_intro[OF Nil.prems(1), of o1 1] Nil.prems s by (simp add: u32_id)
  with Nil.prems s show ?case by (subst next_tag_name.simps) simp
next
  case (Cons c s)
  note b = rw_tree_bounds[OF Cons.prems(1)]
  have s: "s32 o1 = o1" "s32 (o1 + 1) = o1 + 1" using Cons.prems b by (simp_all add: s32_id)
  have p: "fdt_offset_ptr m f o1 1 = Some (fdt_offset_ptr' m f o1)"
    using fdt_offset_ptr_intro[OF Cons.prems(1), of o1 1] Cons.prems s by (simp add: u32_id)
  have c: "m (fdt_offset_ptr' m f o1) \<noteq> 0" using Cons.prems(3,5) by (auto simp: cstring_def)
  have at: "m (fdt_offset_ptr' m f (o1 + 1 + int i)) = s ! i" if "i < length s" for i
    using Cons.prems(5)[rule_format, of "Suc i"] that by (simp add: algebra_simps)
  have "next_tag_name m f (o1 + 1) = Some (o1 + 1 + int (length s) + 1)"
    by (rule Cons.IH[OF Cons.prems(1)]) (use Cons.prems(2,3,4,6) at in \<open>simp_all add: cstring_def algebra_simps\<close>)
  with p c s show ?case by (subst next_tag_name.simps) simp
qed

lemma node_intro:
  assumes rw: "rw_tree m f" and o1: "0 \<le> o1" "o1 + 4 + int (length s) + 1 \<le> fdt_size_dt_struct m f"
    and tag: "fdt32_ld' m (fdt_offset_ptr' m f o1) = FDT_BEGIN_NODE" and nm: "points_to_str (rd m (fdt_offset_ptr' m f (o1 + 4))) s"
  shows "fdt_next_tag m f o1 = (FDT_BEGIN_NODE, FDT_TAGALIGN (o1 + 4 + int (length s) + 1))"
proof -
  note b = rw_tree_bounds[OF rw]
  let ?e = "o1 + 4 + int (length s) + 1"
  have s: "s32 o1 = o1" "s32 (o1 + 4) = o1 + 4" "u32 (?e - o1) = 5 + int (length s)"
    using o1 b by (simp_all add: s32_id u32_id)
  have ptr: "fdt_offset_ptr' m f (o1 + 4) + i = fdt_offset_ptr' m f (o1 + 4 + i)" for i by (simp add: fdt_offset_ptr'_def)
  have "next_tag_name m f (o1 + 4) = Some ?e"
  proof (rule next_tag_name_intro[OF rw])
    show "cstring s" using nm by (simp add: points_to_str_def)
    show "m (fdt_offset_ptr' m f (o1 + 4 + int (length s))) = 0" using nm ptr by (simp add: points_to_str_def)
    show "\<forall>i<length s. m (fdt_offset_ptr' m f (o1 + 4 + int i)) = s ! i"
    proof (intro allI impI)
      fix i assume i: "i < length s"
      have "bytes_at (rd m (fdt_offset_ptr' m f (o1 + 4))) (length s) ! i = s ! i" using nm by (simp add: points_to_str_def)
      with i show "m (fdt_offset_ptr' m f (o1 + 4 + int i)) = s ! i" by (simp add: ptr)
    qed
  qed (use o1 in simp_all)
  moreover have "fdt_offset_ptr m f o1 4 \<noteq> None" "fdt_offset_ptr m f o1 (?e - o1) \<noteq> None"
    using fdt_offset_ptr_intro[OF rw, of o1 4] fdt_offset_ptr_intro[OF rw, of o1 "?e - o1"] o1 s by (simp_all add: u32_id)
  ultimately show ?thesis
    using fdt_next_tag_intro[of m f o1 FDT_BEGIN_NODE ?e] tag o1 b s by (simp add: next_tag_skip_def is_int_def)
qed

text \<open>What \<open>put_subnode\<close> writes: the tag, and the name with its terminator.\<close>

lemma put_subnode_item:
  assumes nm: "points_to_str name s" and n: "int (length s) \<le> 2147483632" "k = 4 + FDT_ALIGN (int (length s) + 1) 4 + 4"
  shows "fdt32_ld' (put_subnode m p name (int (length s)) k) p = FDT_BEGIN_NODE \<and>
    points_to_str (rd (put_subnode m p name (int (length s)) k) (p + 4)) s"
proof -
  let ?n = "int (length s)" and ?a = "FDT_ALIGN (int (length s) + 1) 4"
  define m1 where "m1 = store32 m p (cpu_to_fdt32 (word_of_int FDT_BEGIN_NODE))"
  define m2 where "m2 = memset m1 (p + 4) 0 (sz ?a)"
  define m3 where "m3 = memcpy_from m2 (p + 4) name (sz ?n)"
  define m4 where "m4 = store32 m3 (p + k - 4) (cpu_to_fdt32 (word_of_int FDT_END_NODE))"
  have m4: "put_subnode m p name ?n k = m4" by (simp add: put_subnode_def Let_def m1_def m2_def m3_def m4_def)
  have A: "?n + 1 \<le> ?a" "?a \<le> ?n + 4" using FDT_ALIGN_4[of "?n + 1"] n by simp_all
  then have z: "int (sz ?n) = ?n" "int (sz ?a) = ?a" using n by (simp_all add: sz_id)
  have w2: "writes_in (p + 4) ?a m1 m2" unfolding m2_def by (rule writes_in_memset) (use z in simp_all)
  have w3: "writes_in (p + 4) ?a m2 m3" unfolding m3_def by (rule writes_in_memcpy_from) (use z A in simp_all)
  have w4: "writes_in (p + 4 + ?a) 4 m3 m4" unfolding m4_def by (rule writes_in_store32) (use n(2) in simp_all)
  have "fdt32_ld' m4 p = fdt32_ld' m3 p" by (rule ld_outside[OF w4]) (use A in linarith)
  also have "\<dots> = fdt32_ld' m2 p" by (rule ld_outside[OF w3]) simp
  also have "\<dots> = fdt32_ld' m1 p" by (rule ld_outside[OF w2]) simp
  also have "\<dots> = FDT_BEGIN_NODE" by (simp add: m1_def ld_store32_same)
  finally have tag: "fdt32_ld' m4 p = FDT_BEGIN_NODE" .
  have z3: "m3 (p + 4 + int i) = (if i < length s then name (int i) else 0)" if "int i < ?a" for i
    using that z by (auto simp: m3_def memcpy_from_spec m2_def memset_def memset_loop_spec)
  have z4: "m4 (p + 4 + int i) = (if i < length s then name (int i) else 0)" if "i \<le> length s" for i
    using z3[of i] w4 A that by (auto simp: writes_in_def)
  have nb: "bytes_at name (length s) = s" using nm by (simp add: points_to_str_def)
  have "bytes_at (rd m4 (p + 4)) (length s) = bytes_at name (length s)"
    by (rule bytes_at_cong) (use z4 in simp)
  then have "points_to_str (rd m4 (p + 4)) s" using z4[of "length s"] nm nb by (simp add: points_to_str_def)
  with tag show ?thesis by (simp add: m4)
qed

section \<open>The walk to it\<close>

lemma add_subnode_skip_place:
  "rw_tree m f \<Longrightarrow> is_int o1 \<Longrightarrow> o1 mod 4 = 0 \<Longrightarrow>
   o1 \<le> add_subnode_skip m f o1 \<and> add_subnode_skip m f o1 mod 4 = 0"
proof (induction m f o1 rule: add_subnode_skip.induct)
  case (1 m f o1)
  obtain tag nx where t: "fdt_next_tag m f o1 = (tag, nx)" by fastforce
  show ?case
  proof (cases "tag = FDT_PROP \<or> tag = FDT_NOP")
    case True
    then have "tag \<noteq> FDT_END" by auto
    then have "o1 + 4 \<le> nx" "nx mod 4 = 0" using fdt_next_tag_bounds[OF "1.prems"(1) t _ "1.prems"(2)] by simp_all
    then show ?thesis using "1.IH"[of "(tag, nx)" tag nx] t True "1.prems"(1) fdt_next_tag_is_int[OF t]
      by (simp add: add_subnode_skip.simps[of m f o1])
  next
    case False
    with t "1.prems" show ?thesis by (simp add: add_subnode_skip.simps[of m f o1])
  qed
qed

lemma next_node_skip:
  "rw_tree m f \<Longrightarrow> is_int o1 \<Longrightarrow> o1 mod 4 = 0 \<Longrightarrow> same_item m f B o1 (add_subnode_skip m f o1) m' \<Longrightarrow>
   add_subnode_skip m f o1 \<le> B \<Longrightarrow> fdt_next_tag m' f (add_subnode_skip m f o1) = (FDT_BEGIN_NODE, e) \<Longrightarrow>
   next_node_loop m' f o1 (Some d) = (add_subnode_skip m f o1, Some (d + 1))"
proof (induction m f o1 rule: add_subnode_skip.induct)
  case (1 m f o1)
  obtain tag nx where t: "fdt_next_tag m f o1 = (tag, nx)" by fastforce
  show ?case
  proof (cases "tag = FDT_PROP \<or> tag = FDT_NOP")
    case True
    then have ne: "tag \<noteq> FDT_END" by auto
    note nx = fdt_next_tag_bounds[OF "1.prems"(1) t ne "1.prems"(2)] fdt_next_tag_is_int[OF t]
    have sk: "add_subnode_skip m f o1 = add_subnode_skip m f nx"
      using t True by (simp add: add_subnode_skip.simps[of m f o1])
    have le: "nx \<le> add_subnode_skip m f nx" using add_subnode_skip_place[OF "1.prems"(1) nx(2)] nx(1) by linarith
    have i: "same_item m f B o1 nx m'" using same_item_sub[OF "1.prems"(4)[unfolded sk], of o1 nx] le by simp
    have "fdt_next_tag m' f o1 = (tag, nx)"
      by (rule next_tag_same[OF "1.prems"(1) t ne "1.prems"(2) i]) (use le sk "1.prems"(5) in linarith)
    moreover have "next_node_loop m' f nx (Some d) = (add_subnode_skip m f nx, Some (d + 1))"
      using "1.IH"[OF t[symmetric] refl True] "1.prems"(1,5,6) nx same_item_sub[OF "1.prems"(4), of nx] sk by simp
    ultimately show ?thesis using True sk by (auto simp: next_node_loop.simps[of m' f o1])
  next
    case False
    then have "add_subnode_skip m f o1 = o1" using t by (simp add: add_subnode_skip.simps[of m f o1])
    with "1.prems"(6) show ?thesis by (simp add: next_node_loop.simps[of m' f o1])
  qed
qed


section \<open>Adding and finding\<close>

text \<open>A successful call, taken apart.\<close>

lemma add_subnode_success:
  assumes rw: "rw_tree m f" and n: "0 \<le> n" "n \<le> 2147483632"
    and r: "fdt_add_subnode_namelen m f parent name n = Some (off, m')" "0 \<le> off"
  obtains nx m1 where "fdt_next_tag m f parent = (FDT_BEGIN_NODE, nx)" "off = add_subnode_skip m f nx"
    "fdt_splice_struct' m f (fdt_offset_ptr' m f off) 0 (4 + FDT_ALIGN (n + 1) 4 + 4) = (0, m1)"
    "m' = put_subnode m1 (fdt_offset_ptr' m f off) name n (4 + FDT_ALIGN (n + 1) 4 + 4)"
proof -
  obtain tag nx where t: "fdt_next_tag m f parent = (tag, nx)" by fastforce
  let ?o = "add_subnode_skip m f nx" and ?k = "4 + FDT_ALIGN (n + 1) 4 + 4"
  have "FDT_ALIGN (n + 1) 4 \<le> n + 4" "n + 1 \<le> FDT_ALIGN (n + 1) 4" using FDT_ALIGN_4[of "n + 1"] n by simp_all
  then have k: "s32 ?k = ?k" using n by (intro s32_id) linarith+
  obtain e m1 where sp: "fdt_splice_struct' m f (fdt_offset_ptr' m f ?o) 0 ?k = (e, m1)" by fastforce
  obtain so where so: "fdt_subnode_offset_namelen m f parent name n = Some so"
    using r(1) rw_probe_ok[OF rw] by (auto simp: fdt_add_subnode_namelen_def split: bind_splits)
  have ns: "\<not> 0 \<le> so" using r rw_probe_ok[OF rw] so by (auto simp: fdt_add_subnode_namelen_def)
  have nf: "so = - 1" using r rw_probe_ok[OF rw] so ns by (auto simp: fdt_add_subnode_namelen_def split: if_splits)
  have tg: "tag = FDT_BEGIN_NODE" using r rw_probe_ok[OF rw] so nf t by (auto simp: fdt_add_subnode_namelen_def split: if_splits)
  have e: "e \<le> 0" using sp by (auto simp: fdt_splice_struct'_def fdt_splice'_def Let_def split: prod.splits if_splits)
  have "e = 0 \<and> off = ?o \<and> m' = put_subnode m1 (fdt_offset_ptr' m f ?o) name n ?k"
    using r rw_probe_ok[OF rw] so nf t tg sp k e by (auto simp: fdt_add_subnode_namelen_def Let_def split: if_splits)
  with that[of nx m1] t tg sp show thesis by simp
qed

lemma add_subnode_finds:
  assumes rw: "rw_tree m f" and sz4: "fdt_size_dt_struct m f mod 4 = 0"
    and parent: "is_int parent" "parent mod 4 = 0" and nm: "points_to_str name s" "int (length s) \<le> 2147483632"
    and r: "fdt_add_subnode_namelen m f parent name (int (length s)) = Some (off, m')" "0 \<le> off"
  shows "rw_tree m' f \<and> fdt_size_dt_struct m' f mod 4 = 0 \<and>
    (\<forall>nm2. bytes_at nm2 (length s) = s \<longrightarrow> fdt_subnode_offset_namelen m' f parent nm2 (int (length s)) = Some off)"
proof -
  let ?n = "int (length s)" and ?k = "4 + FDT_ALIGN (int (length s) + 1) 4 + 4" and ?p = "fdt_offset_ptr' m f off"
  obtain nx m1 where t: "fdt_next_tag m f parent = (FDT_BEGIN_NODE, nx)" and off: "off = add_subnode_skip m f nx"
    and sp: "fdt_splice_struct' m f ?p 0 ?k = (0, m1)" and m': "m' = put_subnode m1 ?p name ?n ?k"
    by (rule add_subnode_success[OF rw _ nm(2) r]) simp_all
  note b = rw_treeD[OF rw] rw_tree_bounds[OF rw]
  note nx = fdt_next_tag_bounds[OF rw t _ parent(1)] fdt_next_tag_is_int[OF t]
  have o: "nx \<le> off" "off mod 4 = 0" "off \<le> fdt_size_dt_struct m f + 3"
    using add_subnode_skip_place[OF rw nx(2)] add_subnode_skip_bounds[OF rw, of nx] nx(1) unfolding off by simp_all
  have ol: "off \<le> fdt_size_dt_struct m f" by (rule aligned_le[OF o(2) sz4 o(3)])
  have A: "?n + 1 \<le> FDT_ALIGN (?n + 1) 4" "FDT_ALIGN (?n + 1) 4 \<le> ?n + 4" "FDT_ALIGN (?n + 1) 4 mod 4 = 0"
    using FDT_ALIGN_4[of "?n + 1"] nm(2) by simp_all
  have k4: "?k mod 4 = 0" using A(3) by presburger
  have pp: "?p = f + fdt_off_dt_struct m f + off" by (simp add: fdt_offset_ptr'_def)
  have P: "f + fdt_off_dt_struct m f \<le> ?p" "?p - f < 18446744073709551616" using o nx b by (simp_all add: pp)
  have N: "is_int 0" "0 \<le> ?k" "?k \<le> 2147483647" "0 \<le> fdt_size_dt_struct m f + ?k"
    using A nm(2) b by (simp add: is_int_def, linarith+)
  note s1 = fdt_splice_struct_spec[OF rw sp P N, simplified]
  have w: "writes_in ?p ?k m1 m'" unfolding m' by (rule put_subnode_writes) (use nm(2) in simp_all)
  have h2: "same_on f 40 m1 m'" by (rule writes_in_same_on[OF w]) (use pp nx o b in linarith)
  have rw': "rw_tree m' f" using rw_tree_cong[OF h2] s1 by blast
  have sz': "fdt_size_dt_struct m' f = fdt_size_dt_struct m f + ?k" "fdt_off_dt_struct m' f = fdt_off_dt_struct m f"
    using s1 same_header[OF h2] by simp_all
  have low: "m' a = m a" if "f + 40 \<le> a" "a < ?p" for a
    using s1 w that N(2) by (auto simp: moved_def writes_in_def)
  have item: "same_item m f off parent off m'"
    using same_head_rw[OF rw rw' sz'(2), of off] ol sz'(1) N(2) low pp nx b by (auto simp: same_item_def same_on_def)
  have ptr: "fdt_offset_ptr' m' f i = fdt_offset_ptr' m f i" for i by (simp add: fdt_offset_ptr'_def sz'(2))
  have node: "fdt32_ld' m' ?p = FDT_BEGIN_NODE" "points_to_str (rd m' (fdt_offset_ptr' m f (off + 4))) s"
    using put_subnode_item[OF nm refl, of m1 ?p] unfolding m' by (simp_all add: fdt_offset_ptr'_def add.assoc)
  have o0: "0 \<le> off" "off + 4 + ?n + 1 \<le> fdt_size_dt_struct m' f" using nx o ol A unfolding sz'(1) by linarith+
  have new: "fdt_next_tag m' f off = (FDT_BEGIN_NODE, FDT_TAGALIGN (off + 4 + ?n + 1))"
    by (rule node_intro[OF rw' o0]) (use node ptr in simp_all)
  have oi: "is_int off" using o nx b by (simp add: is_int_def)
  have c: "0 \<le> fdt_check_node_offset' m' f off"
    using new fdt_next_tag_bounds[OF rw' new _ oi] o(2) o0(1) oi by (simp add: fdt_check_node_offset'_def u64_id is_int_def)
  have cp: "fdt_check_node_offset' m' f parent = nx"
    by (rule fdt_check_node_offset'_local[OF _ _ parent(1) same_item_sub[OF item]])
      (use t nx parent o b in \<open>simp_all add: fdt_check_node_offset'_def u64_id is_int_def\<close>)
  have "next_node_loop m' f nx (Some 0) = (off, Some (0 + 1))"
    unfolding off by (rule next_node_skip[OF rw nx(2) _ same_item_sub[OF item]])
      (use new nx o off in simp_all)
  then have nn: "fdt_next_node m' f parent (Some 0) = (off, Some 1)"
    using cp nx by (simp add: fdt_next_node_def)
  have "fdt_subnode_offset_namelen m' f parent nm2 ?n = Some off" if "bytes_at nm2 (length s) = s" for nm2
  proof -
    have "fdt_nodename_eq' m' f off nm2 ?n = Some True"
      using fdt_nodename_eq_iff[OF rw' oi c, of ?n s nm2] that node(2) o0(2) nm(2) by (simp add: ptr)
    then have "subnode_loop m' f parent 0 nm2 ?n = Some off"
      using nn nx o0(1) by (simp add: subnode_loop.simps[of m' f parent] subnode_loop.simps[of m' f off])
    with ro_probe_rw[OF rw'] show ?thesis by (simp add: fdt_subnode_offset_namelen_def)
  qed
  moreover have "fdt_size_dt_struct m' f mod 4 = 0" unfolding sz'(1) using k4 sz4 by presburger
  ultimately show ?thesis using rw' by blast
qed

text \<open>A node that \<open>fdt_add_subnode\<close> adds to a parent is found by its name under that parent, at the
  offset that was returned.\<close>

theorem add_subnode_found:
  assumes "fdt_check_header m f = 0" "fdt_size_dt_struct m f mod 4 = 0" "is_int parent" "parent mod 4 = 0"
    "points_to_str name s" "length s \<le> 2147483631" "fdt_add_subnode m f parent name = Some (off, m')" "0 \<le> off"
  shows "fdt_subnode_offset m' f parent name = Some off"
proof -
  let ?n = "int (length s)" and ?E = "\<lambda>m. fdt_add_subnode_namelen m f parent name (int (length s))"
  have l: "strlen name = Some ?n" "s32 ?n = ?n" using strlen_points_to[OF assms(5)] assms(6) by (simp_all add: s32_id)
  have "?E m = probed ?E m f" by (rule probed_again[OF assms(1)]) (simp_all add: fdt_add_subnode_namelen_def)
  moreover have "?E m = Some (off, m')" using assms(7) l by (simp add: fdt_add_subnode_def)
  moreover have "fdt_rw_probe' m f = (e, m1) \<Longrightarrow> e \<le> 0" for e m1
    by (auto simp: fdt_rw_probe'_def split: if_splits)
  ultimately obtain m1 where p: "fdt_rw_probe' m f = (0, m1)" and r: "?E m1 = Some (off, m')"
    using assms(8) by (auto simp: probed_def split: prod.splits if_splits)
  have rw: "rw_tree m1 f" using fdt_rw_probe_spec[OF assms(1) p] by simp
  have "m1 = m \<or> m1 = fdt_set_version m f 17" using p by (auto simp: fdt_rw_probe'_def split: if_splits)
  then have sz4: "fdt_size_dt_struct m1 f mod 4 = 0" using assms(2) by (auto simp: fdt_get_set_hdr)
  show ?thesis
    using add_subnode_finds[OF rw sz4 assms(3-5) _ r assms(8)] assms(5,6) l by (simp add: fdt_subnode_offset_def points_to_str_def)
qed

lemma ex_add_subnode: "\<exists>m'. fdt_add_subnode ex_tree 64 0 (chars ''d'') = Some (24, m')"
proof -
  have l: "strlen (chars ''d'') = Some 1"
    using strlen_points_to[of "chars ''d''" "str ''d''"] by (simp add: chars_def str_def of_char_of)
  have nm: "fdt_nodename_eq' ex_tree 64 24 (chars ''d'') 1 = Some False"
    using node_name_matches[OF ex_rw_tree _ _ _ _ ex_name, of 1 "chars ''d''"]
    by (simp add: is_int_def ex_node bytes_at_def chars_def str_def of_char_of lit_def)
  have nx: "fdt_next_node ex_tree 64 24 (Some 1) = (40, Some (- 1))"
    by (simp add: fdt_next_node_def ex_node next_node_loop.simps[of ex_tree 64 32] next_node_loop.simps[of ex_tree 64 36] ex_tags)
  have so: "fdt_subnode_offset_namelen ex_tree 64 0 (chars ''d'') 1 = Some (- 1)"
    using nm nx ro_probe_rw[OF ex_rw_tree] ex_next_node
    by (simp add: fdt_subnode_offset_namelen_def subnode_loop.simps[of ex_tree 64 0] subnode_loop.simps[of ex_tree 64 24]
        subnode_loop.simps[of ex_tree 64 40])
  have sk: "add_subnode_skip ex_tree 64 8 = 24"
    by (simp add: add_subnode_skip.simps[of ex_tree 64 8] add_subnode_skip.simps[of ex_tree 64 24] ex_tags)
  have "fst (fdt_splice_struct' ex_tree 64 144 0 12) = 0"
    by (simp add: fdt_splice_struct'_def fdt_splice'_def fdt_data_size'_def ex_tree_header u32_def u64_def Let_def)
  then obtain m1 where "fdt_splice_struct' ex_tree 64 144 0 12 = (0, m1)" by (metis prod.collapse)
  with l so sk rw_probe_ok[OF ex_rw_tree] show ?thesis
    by (simp add: fdt_add_subnode_def fdt_add_subnode_namelen_def s32_def ex_tags fdt_offset_ptr'_def ex_tree_header
        FDT_ALIGN_def u64_def)
qed

theorem add_subnode_found_witness:
  "\<exists>m'. fdt_add_subnode ex_tree 64 0 (chars ''d'') = Some (24, m') \<and> fdt_subnode_offset m' 64 0 (chars ''d'') = Some 24"
proof -
  obtain m' where m': "fdt_add_subnode ex_tree 64 0 (chars ''d'') = Some (24, m')" using ex_add_subnode by blast
  have "points_to_str (chars ''d'') (str ''d'')" by (simp add: chars_def str_def of_char_of)
  from add_subnode_found[OF rw_tree_checks[OF ex_rw_tree] _ _ _ this _ m'] m' show ?thesis
    by (auto simp: ex_tree_header is_int_def str_def)
qed

section \<open>A path of one component\<close>

lemma path_of_child:
  assumes s: "s \<noteq> []" "(47 :: byte) \<notin> set s" "cstring s" "length s \<le> 2147483631" and ro: "0 \<le> fdt_ro_probe' m f"
  shows "fdt_path_offset m f (lit (47 # s)) = fdt_subnode_offset_namelen m f 0 (shift (lit (47 # s)) 1) (int (length s))"
proof -
  let ?p = "lit (47 # s)" and ?n = "int (length s)"
  have at: "?p (1 + int i) = s ! i" if "i < length s" for i
    using lit_nth[of "Suc i" "47 # s"] that by simp
  have "memchr (shift ?p 1) 47 (nat ?n) = None"
  proof (rule ccontr)
    assume "memchr (shift ?p 1) 47 (nat ?n) \<noteq> None"
    then obtain k where k: "0 \<le> k" "k < ?n" "?p (1 + k) = 47" by (auto simp: memchr_Some shift_apply)
    then have "nat k < length s" by (simp add: nat_less_iff)
    with at[of "nat k"] nth_mem[of "nat k" s] k s(2) show False by simp
  qed
  moreover have "?p 1 \<noteq> 47" using at[of 0] s(1,2) by (cases s) auto
  then have "path_slashes ?p 0 (?n + 1) = Some (Some 1)"
    using s(1) by (simp add: lit_nth[of 0 "47 # s", simplified] path_slashes.simps[of ?p 0] path_slashes.simps[of ?p 1])
  moreover have "path_loop m f ?p (?n + 1) (?n + 1) o2 = Some o2" for o2 by (simp add: path_loop.simps[of m f ?p])
  ultimately have lp: "path_loop m f ?p 0 (?n + 1) 0 = fdt_subnode_offset_namelen m f 0 (shift ?p 1) ?n"
    using s(4) by (subst path_loop.simps) (simp add: sz_id s32_id bind_eq_None_conv Let_def cong: if_cong)
  have "points_to_str ?p (47 # s)" using s(3) by (simp add: cstring_def)
  from strlen_points_to[OF this] have "strlen ?p = Some (?n + 1)" by simp
  with lp ro s(4) show ?thesis
    by (simp add: fdt_path_offset_def fdt_path_offset_namelen_def path_offset_with_def s32_id lit_nth[of 0 "47 # s", simplified])
qed

end
