(* ===== verification/Boot_Dtb.thy ===== *)
theory Boot_Dtb
  imports Boot Fdt_Subnode
begin

text \<open>
  The kernel command line in the device tree: what \<open>fdt_add_bootargs\<close> of \<open>src/src/main.c\<close> leaves in
  memory is found by the calls the kernel makes, and nothing outside of the tree has changed.
\<close>

section \<open>The command line\<close>

abbreviation "CHOSEN \<equiv> str ''chosen''"

lemma chosen_str: "cstring CHOSEN" "CHOSEN \<noteq> []" "47 \<notin> set CHOSEN" "length CHOSEN = 6" "chars ''/chosen'' = lit (47 # CHOSEN)"
  "chars ''chosen'' = lit CHOSEN"
  by (simp_all add: chars_def str_def of_char_of)

lemma chosen_bytes: "bytes_at (shift (lit (47 # CHOSEN)) 1) 6 = CHOSEN"
proof (rule nth_equalityI)
  fix i :: nat assume "i < length (bytes_at (shift (lit (47 # CHOSEN)) 1) 6)"
  then show "bytes_at (shift (lit (47 # CHOSEN)) 1) 6 ! i = CHOSEN ! i"
    using lit_nth[of "Suc i" "47 # CHOSEN"] chosen_str(4) by (simp add: shift_apply)
qed (simp add: chosen_str)

lemma path_chosen:
  "0 \<le> fdt_ro_probe' m f \<Longrightarrow> fdt_path_offset m f (chars ''/chosen'') = fdt_subnode_offset_namelen m f 0 (shift (lit (47 # CHOSEN)) 1) 6"
  using path_of_child[OF chosen_str(2,3,1)] chosen_str(4,5) by simp

text \<open>A value set on a node leaves the path to the node as it was.\<close>

lemma setprop_keeps_path:
  assumes rw: "rw_tree m f" and sz4: "fdt_size_dt_struct m f mod 4 = 0" and name: "points_to_str name s" "length s \<le> 2147483631"
    and path: "fdt_path_offset m f (chars ''/chosen'') = Some node" "0 \<le> node"
    and len: "0 \<le> len" "len \<le> 2147483632" and r: "fdt_setprop m f node name val len = Some (0, m')"
  shows "fdt_path_offset m' f (chars ''/chosen'') = Some node \<and>
    (\<exists>p. fdt_getprop m' f node name = Some (Some p, len) \<and> bytes_at (rd m' p) (nat len) = bytes_at val (nat len) \<and>
      f \<le> p \<and> p + len \<le> f + fdt_totalsize m' f)"
proof -
  let ?c = "fdt_check_node_offset' m f node" and ?nm = "shift (lit (47 # CHOSEN)) 1"
  have so: "subnode_loop m f 0 0 ?nm 6 = Some node"
    using path ro_probe_rw[OF rw] by (simp add: path_chosen fdt_subnode_offset_namelen_def)
  have i0: "is_int 0" by (simp add: is_int_def)
  have node: "is_int node" by (rule subnode_loop_is_int[OF so i0])
  obtain p where p: "fdt_getprop m' f node name = Some (Some p, len)" "bytes_at (rd m' p) (nat len) = bytes_at val (nat len)"
    "f \<le> p" "p + len \<le> f + fdt_totalsize m' f" and rw': "rw_tree m' f" and bp: "before_props m f node m'" and c: "0 \<le> ?c"
    using setprop_getprop[OF rw sz4 name node len r] by blast
  note low = bp[unfolded before_props_def]
  have sh: "same_head m f ?c m'" by (rule same_head_rw[OF rw rw']) (use low in simp_all)
  have "same_item m f ?c 0 ?c m'"
    using sh low rw_tree_bounds(1)[OF rw] by (auto simp: same_item_def same_on_def)
  then have "subnode_loop m' f 0 0 ?nm 6 = Some node"
    using subnode_loop_local[OF so i0 rw rw' _ _ path(2)] low by simp
  with p ro_probe_rw[OF rw'] show ?thesis by (simp add: path_chosen fdt_subnode_offset_namelen_def)
qed

lemma bootargs_name: "points_to_str (chars ''bootargs'') (str ''bootargs'')" "length (str ''bootargs'') \<le> 2147483631"
  by (simp_all add: chars_def str_def of_char_of)

lemma bootargs_value:
  assumes "cstring args"
  shows "bytes_at (lit args) (nat (int (length args) + 1)) = args @ [0]"
proof -
  have "nat (int (length args) + 1) = length args + 1" by simp
  then show ?thesis by (simp only: bytes_at_append bytes_at_lit) (simp add: bytes_at_Suc shift_apply)
qed

text \<open>The calls of \<open>fdt_add_bootargs\<close> when it succeeds.\<close>

lemma add_bootargs_calls:
  assumes r: "fdt_add_bootargs m f (Some args) = Some (Inr m')" and args: "cstring args" "length args \<le> 2147483631"
  obtains o1 node m1 ret where "fdt_check_header m f = 0" "fdt_path_offset m f (chars ''/chosen'') = Some o1"
    "(if o1 = - 1 then fdt_add_subnode m f 0 (chars ''chosen'') else Some (o1, m)) = Some (node, m1)" "0 \<le> node"
    "fdt_setprop m1 f node (chars ''bootargs'') (lit args) (int (length args) + 1) = Some (ret, m')" "0 \<le> ret"
proof -
  have l: "strlen (lit args) = Some (int (length args))" using strlen_points_to[of "lit args" args] args(1) by simp
  have sl: "s32 (int (length args) + 1) = int (length args) + 1" using args(2) by (simp add: s32_id)
  have hd: "fdt_check_header m f = 0" using r check_header_nonpos[of m f] by (auto simp: fdt_add_bootargs_def split: if_splits)
  obtain o1 where o1: "fdt_path_offset m f (chars ''/chosen'') = Some o1"
    using r hd by (cases "fdt_path_offset m f (chars ''/chosen'')") (simp_all add: fdt_add_bootargs_def)
  obtain node m1 where add: "(if o1 = - 1 then fdt_add_subnode m f 0 (chars ''chosen'') else Some (o1, m)) = Some (node, m1)"
    using r hd o1 by (cases "if o1 = - 1 then fdt_add_subnode m f 0 (chars ''chosen'') else Some (o1, m)")
      (auto simp: fdt_add_bootargs_def)
  have n0: "0 \<le> node" using r hd o1 add by (simp add: fdt_add_bootargs_def not_less split: if_splits)
  obtain ret mr where sp': "fdt_setprop m1 f node (chars ''bootargs'') (lit args) (int (length args) + 1) = Some (ret, mr)"
    using r hd o1 add n0 l sl by (cases "fdt_setprop m1 f node (chars ''bootargs'') (lit args) (int (length args) + 1)")
      (auto simp: fdt_add_bootargs_def)
  have ret: "0 \<le> ret" "mr = m'"
    using r hd o1 add n0 l sl sp' by (simp_all add: fdt_add_bootargs_def not_less split: if_splits)
  show thesis by (rule that[OF hd o1 add n0 sp'[unfolded ret(2)] ret(1)])
qed

text \<open>The node is there, or it is added; then the value is set.\<close>

lemma bootargs_steps:
  assumes r: "fdt_add_bootargs m f (Some args) = Some (Inr m')" and args: "cstring args" "length args \<le> 2147483631"
    and sz4: "fdt_size_dt_struct m f mod 4 = 0" and v: "fdt_version m f \<le> 17"
  obtains node m1 where "rw_tree m1 f" "fdt_size_dt_struct m1 f mod 4 = 0" "kept f m m1"
    "fdt_path_offset m1 f (chars ''/chosen'') = Some node" "0 \<le> node"
    "fdt_setprop m1 f node (chars ''bootargs'') (lit args) (int (length args) + 1) = Some (0, m')"
proof -
  have ln: "strlen (chars ''bootargs'') = Some 8" using strlen_points_to[OF bootargs_name(1)] by (simp add: str_def)
  obtain o1 node m1 ret where hd: "fdt_check_header m f = 0" and o1: "fdt_path_offset m f (chars ''/chosen'') = Some o1"
    and add: "(if o1 = - 1 then fdt_add_subnode m f 0 (chars ''chosen'') else Some (o1, m)) = Some (node, m1)"
    and n0: "0 \<le> node" and sp: "fdt_setprop m1 f node (chars ''bootargs'') (lit args) (int (length args) + 1) = Some (ret, m')"
    and ret: "0 \<le> ret"
    by (rule add_bootargs_calls[OF r args])
  have probe: "fdt_rw_probe' mx f = (0, mx) \<and> rw_tree mx f"
    if p: "fdt_rw_probe' mx f = (0, m2)" "fdt_check_header mx f = 0" "fdt_version mx f \<le> 17" for mx m2
  proof -
    have "m2 = mx" using p(1,3) unfolding fdt_rw_probe'_def by (simp split: if_splits)
    with fdt_rw_probe_spec[OF p(2,1)] p(1) show ?thesis by simp
  qed
  show thesis
  proof (cases "o1 = - 1")
    case False
    then have m1: "m1 = m" "node = o1" using add by simp_all
    obtain e m2 where pr: "fdt_rw_probe' m f = (e, m2)" by fastforce
    have "e \<noteq> 0 \<Longrightarrow> ret = e" using sp pr by (auto simp: m1 fdt_setprop_def fdt_setprop_placeholder_def)
    then have "e = 0" using ret rw_probe_nonpos[OF pr] by fastforce
    with probe pr hd v have rw: "rw_tree m f" by simp
    have "ret = 0" using setprop_nonpos[OF sp _ ln] rw ret m1 by simp
    with that[of m1 node] rw sz4 kept_refl[OF hd] o1 n0 sp m1 show thesis by simp
  next
    case True
    then have ad: "fdt_add_subnode m f 0 (chars ''chosen'') = Some (node, m1)" using add by simp
    have lc: "strlen (chars ''chosen'') = Some 6" using strlen_points_to[of "lit CHOSEN" CHOSEN] chosen_str by simp
    have an: "fdt_add_subnode_namelen m f 0 (chars ''chosen'') 6 = Some (node, m1)"
      using ad lc by (simp add: fdt_add_subnode_def s32_def)
    obtain e m2 where pr: "fdt_rw_probe' m f = (e, m2)" by fastforce
    have "e \<noteq> 0 \<Longrightarrow> node = e" using an pr by (auto simp: fdt_add_subnode_namelen_def)
    then have "e = 0" using n0 rw_probe_nonpos[OF pr] by fastforce
    with probe pr hd v have rw: "rw_tree m f" by simp
    have i0: "is_int 0" by (simp add: is_int_def)
    have fnd: "rw_tree m1 f \<and> fdt_size_dt_struct m1 f mod 4 = 0 \<and>
      (\<forall>nm2. bytes_at nm2 6 = CHOSEN \<longrightarrow> fdt_subnode_offset_namelen m1 f 0 nm2 6 = Some node)"
      using add_subnode_finds[OF rw sz4 i0, of "chars ''chosen''" CHOSEN node m1] an n0 chosen_str by simp
    have "kept f m m1" using add_subnode.keeps[of "(0, chars ''chosen'')" m f node m1] ad hd i0 chosen_str
      by (simp add: name_arg_lit)
    moreover have "fdt_path_offset m1 f (chars ''/chosen'') = Some node"
      using fnd path_chosen[of m1 f] ro_probe_rw[of m1 f] chosen_bytes by simp
    moreover have "ret = 0" using setprop_nonpos[OF sp _ ln] fnd ret by simp
    ultimately show thesis using that[of m1 node] fnd n0 sp by simp
  qed
qed

lemma bootargs_found:
  assumes "fdt_add_bootargs m dtb (Some args) = Some (Inr m')" "cstring args" "length args \<le> 2147483631"
    "fdt_size_dt_struct m dtb mod 4 = 0" "fdt_version m dtb \<le> 17"
  shows "(\<exists>node p. fdt_path_offset m' dtb (chars ''/chosen'') = Some node \<and> 0 \<le> node \<and>
      fdt_getprop m' dtb node (chars ''bootargs'') = Some (Some p, int (length args) + 1) \<and>
      bytes_at (rd m' p) (length args + 1) = args @ [0] \<and>
      dtb \<le> p \<and> p + int (length args) + 1 \<le> dtb + fdt_totalsize m dtb) \<and>
    fdt_check_header m' dtb = 0 \<and> fdt_totalsize m' dtb = fdt_totalsize m dtb \<and>
    (\<forall>a. a < dtb \<or> dtb + fdt_totalsize m dtb \<le> a \<longrightarrow> m' a = m a)"
proof -
  obtain node m1 where s: "rw_tree m1 dtb" "fdt_size_dt_struct m1 dtb mod 4 = 0" "kept dtb m m1"
    "fdt_path_offset m1 dtb (chars ''/chosen'') = Some node" "0 \<le> node"
    "fdt_setprop m1 dtb node (chars ''bootargs'') (lit args) (int (length args) + 1) = Some (0, m')"
    by (rule bootargs_steps[OF assms])
  have i: "is_int node"
    using s(4) ro_probe_rw[OF s(1)] subnode_loop_is_int[of m1 dtb 0 0] by (simp add: path_chosen fdt_subnode_offset_namelen_def is_int_def)
  have "name_arg (chars ''bootargs'')" using bootargs_name unfolding name_arg_def by blast
  then have "kept dtb m1 m'"
    using setprop.keeps[of "(node, chars ''bootargs'', lit args, int (length args) + 1)" m1 dtb 0 m'] s i assms(3)
    by (simp add: rw_tree_checks)
  then have k: "kept dtb m m'" by (rule kept_trans[OF s(3)])
  note found = setprop_keeps_path[OF s(1,2) bootargs_name s(4,5) _ _ s(6)]
  have "nat (int (length args) + 1) = length args + 1" by simp
  then have "\<exists>p. fdt_getprop m' dtb node (chars ''bootargs'') = Some (Some p, int (length args) + 1) \<and>
    bytes_at (rd m' p) (length args + 1) = args @ [0] \<and> dtb \<le> p \<and> p + int (length args) + 1 \<le> dtb + fdt_totalsize m dtb"
    using found bootargs_value[OF assms(2)] assms(3) k by (fastforce simp: kept_def)
  with found s(5) k assms(3) show ?thesis by (auto simp: kept_def writes_in_def)
qed

text \<open>C7: When \<open>fdt_add_bootargs\<close> succeeds, the node \<open>/chosen\<close> is found by its path and its property
  \<open>bootargs\<close> is the command line with its terminator; the tree still checks, has kept its size, and no byte
  outside of it has changed.\<close>

theorem bootargs_reach_kernel:
  assumes "fdt_add_bootargs m dtb (Some args) = Some (Inr m')" "cstring args" "length args \<le> 2147483631"
    "fdt_size_dt_struct m dtb mod 4 = 0" "fdt_version m dtb \<le> 17"
  shows "(\<exists>node p. fdt_path_offset m' dtb (chars ''/chosen'') = Some node \<and> 0 \<le> node \<and>
      fdt_getprop m' dtb node (chars ''bootargs'') = Some (Some p, int (length args) + 1) \<and>
      bytes_at (rd m' p) (length args + 1) = args @ [0] \<and>
      dtb \<le> p \<and> p + int (length args) + 1 \<le> dtb + fdt_totalsize m dtb) \<and>
    fdt_check_header m' dtb = 0 \<and> fdt_totalsize m' dtb = fdt_totalsize m dtb \<and>
    (\<forall>a. a < dtb \<or> dtb + fdt_totalsize m dtb \<le> a \<longrightarrow> m' a = m a)"
  using assms by (rule bootargs_found)

section \<open>An example\<close>

text \<open>The tree \<open>/ { chosen { bootargs = "????????"; }; };\<close>, at address 64.\<close>

definition ex_boot_words :: "int list" where
  "ex_boot_words =
     [0xd00dfeed, 120, 56, 108, 40, 17, 16, 0, 9, 52,
      0, 0, 0, 0,
      1, 0, 1, 0x63686f73, 0x656e0000, 3, 8, 0, 0x3f3f3f3f, 0x3f3f3f00, 2, 2, 9,
      0x626f6f74, 0x61726773, 0]"

definition ex_boot :: mem where
  "ex_boot = place 64 (words ex_boot_words)"

lemma ex_boot_ld:
  assumes "(k - 64) mod 4 = 0" "64 \<le> k" "k < 184"
  shows "fdt32_ld' ex_boot k = ex_boot_words ! nat ((k - 64) div 4)"
    "uint (fdt32_ld (rd ex_boot k)) = ex_boot_words ! nat ((k - 64) div 4)"
  unfolding ex_boot_def using placed_ld[of ex_boot_words k 64] assms by (simp_all add: ex_boot_words_def)

lemma ex_boot_header:
  "fdt_magic ex_boot 64 = 0xd00dfeed" "fdt_totalsize ex_boot 64 = 120" "fdt_off_dt_struct ex_boot 64 = 56"
  "fdt_off_dt_strings ex_boot 64 = 108" "fdt_off_mem_rsvmap ex_boot 64 = 40" "fdt_version ex_boot 64 = 17"
  "fdt_last_comp_version ex_boot 64 = 16" "fdt_size_dt_strings ex_boot 64 = 9" "fdt_size_dt_struct ex_boot 64 = 52"
  by (simp_all add: fdt_get_header_def ex_boot_ld(2) ex_boot_words_def)

lemma ex_boot_rw: "rw_tree ex_boot 64"
  by (simp add: rw_tree_def ex_boot_header)

lemma ex_boot_bytes:
  "ex_boot 124 = 0" "ex_boot 132 = 99" "ex_boot 133 = 104" "ex_boot 134 = 111" "ex_boot 135 = 115" "ex_boot 136 = 101"
  "ex_boot 137 = 110" "ex_boot 138 = 0" "ex_boot 172 = 98" "ex_boot 173 = 111" "ex_boot 174 = 111" "ex_boot 175 = 116"
  "ex_boot 176 = 97" "ex_boot 177 = 114" "ex_boot 178 = 103" "ex_boot 179 = 115" "ex_boot 180 = 0"
  by (simp_all add: ex_boot_def place_def lit_def words_def ex_boot_words_def be32_bytes_def extract_byte_def)

lemma ex_boot_tags:
  "fdt_next_tag ex_boot 64 0 = (1, 8)" "fdt_next_tag ex_boot 64 8 = (1, 20)" "fdt_next_tag ex_boot 64 20 = (3, 40)"
  by (simp_all add: fdt_next_tag_def fdt_offset_ptr_def Let_def ex_boot_header fdt_offset_ptr'_def s32_def u32_def ex_boot_ld ex_boot_words_def
    next_tag_skip_def next_tag_name.simps[of ex_boot 64] ex_boot_bytes FDT_TAGALIGN_def FDT_ALIGN_def u64_def next_tag_prop_def INT_MAX_def)

lemma ex_boot_node: "fdt_check_node_offset' ex_boot 64 0 = 8" "fdt_check_node_offset' ex_boot 64 8 = 20"
  by (simp_all add: fdt_check_node_offset'_def ex_boot_tags u64_def)

lemma ex_boot_name: "points_to_str (rd ex_boot (fdt_offset_ptr' ex_boot 64 (8 + 4))) CHOSEN"
  by (simp add: points_to_str_def cstring_def fdt_offset_ptr'_def ex_boot_header ex_boot_bytes bytes_at_numeral bytes_at_Suc shift_apply str_def of_char_of)

lemma ex_boot_path: "fdt_path_offset ex_boot 64 (chars ''/chosen'') = Some 8"
proof -
  have "fdt_nodename_eq' ex_boot 64 8 (shift (lit (47 # CHOSEN)) 1) 6 = Some True"
    using node_name_matches[OF ex_boot_rw _ _ _ _ ex_boot_name, of 6] chosen_bytes chosen_str(4) ex_boot_node
    by (simp add: is_int_def)
  moreover have "fdt_next_node ex_boot 64 0 (Some 0) = (8, Some 1)"
    by (simp add: fdt_next_node_def ex_boot_node next_node_loop.simps[of ex_boot 64 8] ex_boot_tags)
  ultimately show ?thesis
    using ro_probe_rw[OF ex_boot_rw]
    by (simp add: path_chosen fdt_subnode_offset_namelen_def subnode_loop.simps[of ex_boot 64 0] subnode_loop.simps[of ex_boot 64 8])
qed

lemma ex_boot_property: "fdt_get_property_namelen ex_boot 64 8 (chars ''bootargs'') 8 = (Some 140, 8)"
proof -
  have l: "strlen (chars ''bootargs'') = Some 8" using strlen_points_to[OF bootargs_name(1)] by (simp add: str_def)
  have "bytes_at (rd ex_boot 172) 9 = str ''bootargs'' @ [0]"
    by (simp add: bytes_at_numeral bytes_at_Suc shift_apply ex_boot_bytes str_def of_char_of)
  moreover have "bytes_at (chars ''bootargs'') 9 = str ''bootargs'' @ [0]"
    by (simp add: bytes_at_numeral bytes_at_Suc shift_apply chars_def lit_def str_def of_char_of)
  ultimately have "fdt_string_eq' ex_boot 64 0 (chars ''bootargs'') 8"
    using string_eq_at[OF ex_boot_rw l, of 0] by (simp add: ex_boot_header)
  moreover have "fdt_first_property_offset ex_boot 64 8 = 20"
    by (simp add: fdt_first_property_offset_def ex_boot_node nextprop'.simps[of ex_boot 64 20] ex_boot_tags)
  moreover have "fdt_check_prop_offset' ex_boot 64 20 = 40" by (simp add: fdt_check_prop_offset'_def ex_boot_tags u64_def)
  ultimately show ?thesis
    by (simp add: fdt_get_property_namelen_def fdt_get_property_namelen'_def s32_def
        get_property_loop.simps[of ex_boot 64 20] fdt_get_property_by_offset'_def fdt_offset_ptr'_def
        ex_boot_header ex_boot_ld ex_boot_words_def)
qed

lemma ex_bootargs: "\<exists>m'. fdt_add_bootargs ex_boot 64 (Some (str ''console'')) = Some (Inr m')"
proof -
  have l: "strlen (lit (str ''console'')) = Some 7" "strlen (chars ''bootargs'') = Some 8"
    using strlen_points_to[of "lit (str ''console'')" "str ''console''"] strlen_points_to[OF bootargs_name(1)]
    by (simp_all add: str_def of_char_of)
  have "fst (fdt_splice_struct' ex_boot 64 152 8 8) = 0"
    by (simp add: fdt_splice_struct'_def fdt_splice'_def fdt_data_size'_def ex_boot_header u32_def u64_def Let_def)
  then obtain m1 where "fdt_splice_struct' ex_boot 64 152 8 8 = (0, m1)" by (metis prod.collapse)
  moreover have "FDT_TAGALIGN 8 = 8" by (simp add: FDT_TAGALIGN_def FDT_ALIGN_def u64_def s32_def)
  ultimately have "\<exists>m'. fdt_setprop ex_boot 64 8 (chars ''bootargs'') (lit (str ''console'')) 8 = Some (0, m')"
    using rw_probe_ok[OF ex_boot_rw] ex_boot_property l
    by (simp add: fdt_setprop_def fdt_setprop_placeholder_def fdt_resize_property'_def fdt_get_property_def s32_def)
  then show ?thesis
    using l ex_boot_path rw_tree_checks[OF ex_boot_rw] by (auto simp: fdt_add_bootargs_def s32_def)
qed

theorem bootargs_reach_kernel_witness:
  "\<exists>m' node p. fdt_add_bootargs ex_boot 64 (Some (str ''console'')) = Some (Inr m') \<and>
     fdt_getprop m' 64 node (chars ''bootargs'') = Some (Some p, 8) \<and> bytes_at (rd m' p) 8 = str ''console'' @ [0]"
proof -
  obtain m' where m': "fdt_add_bootargs ex_boot 64 (Some (str ''console'')) = Some (Inr m')" using ex_bootargs by blast
  have "cstring (str ''console'')" "length (str ''console'') = 7" by (simp_all add: str_def of_char_of)
  with bootargs_reach_kernel[OF m'] m' show ?thesis by (auto simp: ex_boot_header)
qed

end
