(* ===== verification/Fdt_Items.thy ===== *)
theory Fdt_Items
  imports Fdt_Subnode Fdt_Remove
begin

text \<open>
  What a device tree says: the list of the items of its structure block, with the names of the
  properties looked up in the table of strings.

  The items are those of the format, read off the bytes of the tree and not off the code of the
  library: \<open>next_tag_item\<close> shows that \<open>fdt_next_tag\<close> (\<open>src/src/libfdt/fdt.c\<close>) walks from one to
  the next.  \<open>replaced_items\<close> is the step every edit takes: the bytes of some items are replaced, what is
  behind them is moved, and the other items stay the same ones.
\<close>

section \<open>Items\<close>

datatype item = Node "byte list" | End_node | Prop "byte list" "byte list" | Nop

text \<open>The bytes an item takes, with the padding to the next tag.\<close>

definition pad4 :: "nat \<Rightarrow> nat" where
  "pad4 n = (n + 3) div 4 * 4"

fun item_len :: "item \<Rightarrow> nat" where
  "item_len (Node s) = pad4 (5 + length s)"
| "item_len End_node = 4"
| "item_len (Prop s v) = 12 + pad4 (length v)"
| "item_len Nop = 4"

abbreviation items_len :: "item list \<Rightarrow> nat" where
  "items_len xs \<equiv> sum_list (map item_len xs)"

fun item_tag :: "item \<Rightarrow> int" where
  "item_tag (Node s) = FDT_BEGIN_NODE"
| "item_tag End_node = FDT_END_NODE"
| "item_tag (Prop s v) = FDT_PROP"
| "item_tag Nop = FDT_NOP"

text \<open>The item at an address, when \<open>N\<close> says which offset of the table of strings holds which name.\<close>

fun item_body :: "mem \<Rightarrow> (int \<Rightarrow> byte list \<Rightarrow> bool) \<Rightarrow> addr \<Rightarrow> item \<Rightarrow> bool" where
  "item_body m N a (Node s) \<longleftrightarrow> points_to_str (rd m (a + 4)) s"
| "item_body m N a (Prop s v) \<longleftrightarrow> fdt32_ld' m (a + 4) = int (length v) \<and> N (fdt32_ld' m (a + 8)) s \<and>
     bytes_at (rd m (a + 12)) (length v) = v"
| "item_body m N a End_node \<longleftrightarrow> True"
| "item_body m N a Nop \<longleftrightarrow> True"

definition item_at :: "mem \<Rightarrow> (int \<Rightarrow> byte list \<Rightarrow> bool) \<Rightarrow> addr \<Rightarrow> item \<Rightarrow> bool" where
  "item_at m N a x \<longleftrightarrow> fdt32_ld' m a = item_tag x \<and> item_body m N a x"

fun items_at :: "mem \<Rightarrow> (int \<Rightarrow> byte list \<Rightarrow> bool) \<Rightarrow> addr \<Rightarrow> item list \<Rightarrow> bool" where
  "items_at m N a [] \<longleftrightarrow> True"
| "items_at m N a (x # xs) \<longleftrightarrow> item_at m N a x \<and> items_at m N (a + int (item_len x)) xs"

definition name_at :: "mem \<Rightarrow> addr \<Rightarrow> int \<Rightarrow> byte list \<Rightarrow> bool" where
  "name_at m f so s \<longleftrightarrow> 0 \<le> so \<and> so + int (length s) < fdt_size_dt_strings m f \<and>
     points_to_str (rd m (f + fdt_off_dt_strings m f + so)) s"

text \<open>A tree that holds a list of items, with the end tag behind them.\<close>

definition holds_items :: "mem \<Rightarrow> addr \<Rightarrow> item list \<Rightarrow> bool" where
  "holds_items m f xs \<longleftrightarrow> items_at m (name_at m f) (f + fdt_off_dt_struct m f) xs \<and>
     fdt32_ld' m (f + fdt_off_dt_struct m f + int (items_len xs)) = FDT_END \<and>
     int (items_len xs) + 4 \<le> fdt_size_dt_struct m f"

section \<open>Lists of items\<close>

lemma pad4_bounds: "n \<le> pad4 n" "pad4 n \<le> n + 3" "pad4 n mod 4 = 0"
  unfolding pad4_def by presburger+

lemma pad4_add: "pad4 (12 + n) = 12 + pad4 n" "pad4 (5 + n) = 4 + pad4 (1 + n)"
  unfolding pad4_def by presburger+

lemma pad4_align: "n < 2147483645 \<Longrightarrow> FDT_ALIGN (int n) 4 = int (pad4 n) \<and> FDT_TAGALIGN (int n) = int (pad4 n)"
proof -
  assume n: "n < 2147483645"
  have "FDT_ALIGN (int n) 4 = int n + 3 - (int n + 3) mod 4"
    using n int_and_not_mask[of "int n + 3" 2] by (simp add: FDT_ALIGN_def u64_id add.commute)
  also have "\<dots> = (int n + 3) div 4 * 4" using div_mult_mod_eq[of "int n + 3" 4] by linarith
  also have "\<dots> = int (pad4 n)" by (simp add: pad4_def zdiv_int)
  finally have "FDT_ALIGN (int n) 4 = int (pad4 n)" .
  moreover have "s32 (int (pad4 n)) = int (pad4 n)" using n pad4_bounds(2)[of n] by (intro s32_id) linarith+
  ultimately show ?thesis by (simp add: FDT_TAGALIGN_def)
qed

lemma item_len_bounds: "4 \<le> item_len x" "item_len x mod 4 = 0"
proof -
  have "4 \<le> pad4 (5 + n)" for n using pad4_bounds(1)[of "5 + n"] by linarith
  then show "4 \<le> item_len x" by (cases x) simp_all
  show "item_len x mod 4 = 0" using pad4_bounds(3) by (cases x) (auto simp: mod_add_eq[symmetric, of 12] mod_add_right_eq)
qed

lemma items_len_mod: "items_len xs mod 4 = 0"
  using item_len_bounds(2) by (induction xs) (auto simp: mod_add_eq[symmetric])

lemma items_at_append [simp]:
  "items_at m N a (xs @ ys) \<longleftrightarrow> items_at m N a xs \<and> items_at m N (a + int (items_len xs)) ys"
  by (induction xs arbitrary: a) (auto simp: add.assoc)

text \<open>The same bytes at another place hold the same items.\<close>

lemma ld_moved: "(\<And>i. 0 \<le> i \<Longrightarrow> i < 4 \<Longrightarrow> m' (b + i) = m (a + i)) \<Longrightarrow> fdt32_ld' m' b = fdt32_ld' m a"
  unfolding fdt32_ld'_eq by (intro arg_cong[of _ _ uint] fdt32_ld_cong) simp

lemma points_to_str_moved:
  "(\<And>i. 0 \<le> i \<Longrightarrow> i \<le> int (length s) \<Longrightarrow> p' i = p i) \<Longrightarrow> points_to_str p s \<Longrightarrow> points_to_str p' s"
  using bytes_at_cong[of "length s" p' p] by (simp add: points_to_str_def)

lemma item_at_moved:
  assumes same: "\<And>i. 0 \<le> i \<Longrightarrow> i < int (item_len x) \<Longrightarrow> m' (b + i) = m (a + i)"
    and names: "\<And>so s. N so s \<Longrightarrow> N' so s" and x: "item_at m N a x"
  shows "item_at m' N' b x"
proof -
  have ld: "fdt32_ld' m' (b + k) = fdt32_ld' m (a + k)" if "0 \<le> k" "k + 4 \<le> int (item_len x)" for k
    by (rule ld_moved) (use same[of "k + _"] that in \<open>simp add: add.assoc\<close>)
  have ld0: "fdt32_ld' m' b = fdt32_ld' m a" using ld[of 0] item_len_bounds(1)[of x] by simp
  have "item_body m' N' b x"
  proof (cases x)
    case (Node s)
    have "points_to_str (rd m' (b + 4)) s"
      by (rule points_to_str_moved[of _ _ "rd m (a + 4)"])
        (use x same[of "4 + _"] pad4_bounds(1)[of "5 + length s"] in \<open>auto simp: Node item_at_def add.assoc\<close>)
    with Node show ?thesis by simp
  next
    case (Prop s v)
    have "bytes_at (rd m' (b + 12)) (length v) = bytes_at (rd m (a + 12)) (length v)"
      by (rule bytes_at_cong) (use same[of "12 + int _"] pad4_bounds(1)[of "length v"] in \<open>simp add: Prop add.assoc\<close>)
    with x ld[of 4] ld[of 8] Prop show ?thesis by (auto simp: item_at_def intro: names)
  qed simp_all
  with x ld0 show ?thesis by (simp add: item_at_def)
qed

lemma items_at_moved:
  assumes "\<And>so s. N so s \<Longrightarrow> N' so s"
  shows "(\<And>i. 0 \<le> i \<Longrightarrow> i < int (items_len xs) \<Longrightarrow> m' (b + i) = m (a + i)) \<Longrightarrow> items_at m N a xs \<Longrightarrow> items_at m' N' b xs"
proof (induction xs arbitrary: a b)
  case (Cons x xs)
  have "item_at m' N' b x"
    by (rule item_at_moved[of x m' b m a N N']) (use Cons.prems assms in simp_all)
  moreover have "items_at m' N' (b + int (item_len x)) xs"
    by (rule Cons.IH[of _ "a + int (item_len x)"]) (use Cons.prems(1)[of "int (item_len x) + _"] Cons.prems(2) in \<open>simp_all add: add.assoc\<close>)
  ultimately show ?case by simp
qed simp

section \<open>The walk of the library\<close>

lemma next_tag_item:
  assumes rw: "rw_tree m f" and k: "k mod 4 = 0" "int k + int (item_len x) \<le> fdt_size_dt_struct m f"
    and x: "item_at m N (f + fdt_off_dt_struct m f + int k) x"
  shows "fdt_next_tag m f (int k) = (item_tag x, int k + int (item_len x))"
proof -
  note b = rw_tree_bounds[OF rw]
  have ptr: "fdt_offset_ptr' m f (int k + i) = f + fdt_off_dt_struct m f + int k + i" for i
    by (simp add: fdt_offset_ptr'_def)
  note ptr0 = ptr[of 0, simplified]
  have k4: "int k mod 4 = 0" using k(1) by presburger
  have tag: "fdt32_ld' m (fdt_offset_ptr' m f (int k)) = item_tag x" using x ptr0 by (simp add: item_at_def)
  have align: "FDT_TAGALIGN (int k + int n) = int k + int (pad4 n)" if "int k + int n \<le> fdt_size_dt_struct m f" for n
  proof -
    have "pad4 (k + n) = k + pad4 n" unfolding pad4_def using k(1) by presburger
    then show ?thesis using pad4_align[of "k + n"] that b by simp
  qed
  have simple: "fdt_next_tag m f (int k) = (item_tag x, int k + 4)" if "next_tag_skip m f (item_tag x) = Some" "item_len x = 4"
    using fdt_next_tag_intro[of m f "int k" "item_tag x" "int k + 4"] tag that fdt_offset_ptr_intro[OF rw, of "int k" 4] k b align[of 4]
    by (simp add: s32_id u32_id is_int_def pad4_def)
  show ?thesis
  proof (cases x)
    case (Node s)
    have "fdt_next_tag m f (int k) = (FDT_BEGIN_NODE, FDT_TAGALIGN (int k + 4 + int (length s) + 1))"
      by (rule node_intro[OF rw]) (use tag x k pad4_bounds(1)[of "5 + length s"] ptr[of 4] in \<open>simp_all add: Node item_at_def\<close>)
    moreover have "FDT_TAGALIGN (int k + 4 + int (length s) + 1) = int k + int (pad4 (5 + length s))"
      using align[of "5 + length s"] k Node pad4_bounds(1)[of "5 + length s"] by (simp add: algebra_simps)
    ultimately show ?thesis by (simp add: Node)
  next
    case (Prop s v)
    have c: "fdt_check_prop_offset' m f (int k) = FDT_TAGALIGN (int k + 12 + int (length v))"
      by (rule check_prop_intro[OF rw]) (use tag x k k4 pad4_bounds(1)[of "length v"] ptr0 in \<open>simp_all add: Prop item_at_def\<close>)
    have e: "FDT_TAGALIGN (int k + 12 + int (length v)) = int k + int (item_len x)"
      using align[of "12 + length v"] k pad4_bounds(1)[of "length v"] by (simp add: Prop pad4_add add.assoc)
    have u: "u64 (int k) = int k" using k(2) b by (intro u64_id) linarith+
    obtain t nx where "fdt_next_tag m f (int k) = (t, nx)" by fastforce
    with c e u k4 show ?thesis by (auto simp: fdt_check_prop_offset'_def Prop split: if_splits)
  qed (use simple in \<open>simp_all add: next_tag_skip_def fun_eq_iff\<close>)
qed

lemma next_tag_end:
  assumes rw: "rw_tree m f" and k: "k mod 4 = 0" "int k + 4 \<le> fdt_size_dt_struct m f"
    and t: "fdt32_ld' m (f + fdt_off_dt_struct m f + int k) = FDT_END"
  shows "fdt_next_tag m f (int k) = (FDT_END, int k + 4)"
proof -
  note b = rw_tree_bounds[OF rw]
  have "pad4 (k + 4) = k + 4" unfolding pad4_def using k(1) by presburger
  then have "FDT_TAGALIGN (int k + 4) = int k + 4" using pad4_align[of "k + 4"] k(2) b by simp
  then show ?thesis
    using fdt_next_tag_intro[of m f "int k" FDT_END "int k + 4"] t fdt_offset_ptr_intro[OF rw, of "int k" 4] k b
    by (simp add: s32_id u32_id is_int_def next_tag_skip_def fdt_offset_ptr'_def)
qed

section \<open>One list of items\<close>

lemma name_at_unique: "name_at m f so s \<Longrightarrow> name_at m f so t \<Longrightarrow> s = t"
  unfolding name_at_def using points_to_str_unique by blast

lemma item_at_unique:
  assumes "item_at m (name_at m f) a x" "item_at m (name_at m f) a y"
  shows "x = y"
proof -
  have t: "item_tag x = item_tag y" using assms by (simp add: item_at_def)
  show ?thesis
  proof (cases x)
    case (Node s)
    with t assms show ?thesis by (cases y) (auto simp: item_at_def intro: points_to_str_unique)
  next
    case (Prop s v)
    with t assms show ?thesis by (cases y) (auto simp: item_at_def intro: name_at_unique)
  qed (use t in \<open>cases y; simp\<close>)+
qed

lemma items_at_unique:
  assumes "fdt32_ld' m (a + int (items_len xs)) = FDT_END" "items_at m (name_at m f) a xs"
    "fdt32_ld' m (a + int (items_len ys)) = FDT_END" "items_at m (name_at m f) a ys"
  shows "xs = ys"
  using assms
proof (induction xs arbitrary: a ys)
  case Nil
  then show ?case by (cases ys; cases "hd ys") (auto simp: item_at_def)
next
  case (Cons x xs)
  then obtain y ys' where ys: "ys = y # ys'" by (cases ys; cases x) (auto simp: item_at_def)
  have "x = y" using item_at_unique[of m f a x y] Cons.prems(2,4) ys by simp
  with Cons.prems ys Cons.IH[of "a + int (item_len x)" ys'] show ?case by (simp add: add.assoc)
qed

section \<open>Replacing items\<close>

lemma names_kept:
  assumes rw: "rw_tree m f" and hdr: "fdt_off_dt_strings m' f = fdt_off_dt_strings m f + d" "fdt_size_dt_strings m f \<le> fdt_size_dt_strings m' f"
    and high: "\<And>a. f + fdt_off_dt_strings m f \<le> a \<Longrightarrow> a < f + fdt_off_dt_strings m f + fdt_size_dt_strings m f \<Longrightarrow> m' (a + d) = m a"
    and s: "name_at m f so s"
  shows "name_at m' f so s"
proof -
  have s: "0 \<le> so" "so + int (length s) < fdt_size_dt_strings m f" "points_to_str (rd m (f + fdt_off_dt_strings m f + so)) s"
    using s by (simp_all add: name_at_def)
  have "points_to_str (rd m' (f + fdt_off_dt_strings m' f + so)) s"
  proof (rule points_to_str_moved[OF _ s(3)])
    fix i assume i: "0 \<le> i" "i \<le> int (length s)"
    have "m' (f + fdt_off_dt_strings m f + so + i + d) = m (f + fdt_off_dt_strings m f + so + i)"
      by (rule high) (use i s in linarith)+
    then show "rd m' (f + fdt_off_dt_strings m' f + so) i = rd m (f + fdt_off_dt_strings m f + so) i"
      by (simp add: hdr(1) algebra_simps)
  qed
  with s hdr(2) show ?thesis by (simp add: name_at_def)
qed

lemma replaced_items:
  assumes rw: "rw_tree m f" and h: "holds_items m f (us @ old @ zs)"
    and new: "items_at m' (name_at m' f) (f + fdt_off_dt_struct m f + int (items_len us)) new"
    and d: "int (items_len new) - int (items_len old) = d"
    and hdr: "fdt_off_dt_struct m' f = fdt_off_dt_struct m f" "fdt_size_dt_struct m' f = fdt_size_dt_struct m f + d"
      "fdt_off_dt_strings m' f = fdt_off_dt_strings m f + d" "fdt_size_dt_strings m f \<le> fdt_size_dt_strings m' f"
    and low: "\<And>a. f + 40 \<le> a \<Longrightarrow> a < f + fdt_off_dt_struct m f + int (items_len us) \<Longrightarrow> m' a = m a"
    and high: "\<And>a. f + fdt_off_dt_struct m f + int (items_len us) + int (items_len old) \<le> a \<Longrightarrow>
      a < f + fdt_off_dt_strings m f + fdt_size_dt_strings m f \<Longrightarrow> m' (a + d) = m a"
  shows "holds_items m' f (us @ new @ zs)"
proof -
  note b = rw_treeD[OF rw] rw_tree_bounds[OF rw]
  let ?P = "f + fdt_off_dt_struct m f" and ?N = "name_at m f" and ?N' = "name_at m' f"
  let ?u = "int (items_len us)" and ?o = "int (items_len old)" and ?n = "int (items_len new)" and ?z = "int (items_len zs)"
  have fit: "?u + ?o + ?z + 4 \<le> fdt_size_dt_struct m f" using h by (simp add: holds_items_def)
  have names: "?N' so s" if "?N so s" for so s
    by (rule names_kept[OF rw hdr(3,4) high that]) (use fit b in linarith)+
  have shifted: "m' (?P + ?u + ?n + i) = m (?P + ?u + ?o + i)" if "0 \<le> i" "i < ?z + 4" for i
  proof -
    have "m' (?P + ?u + ?o + i + d) = m (?P + ?u + ?o + i)" by (rule high) (use that fit b in linarith)+
    then show ?thesis by (simp add: d[symmetric] algebra_simps)
  qed
  have "items_at m' ?N' ?P us"
    by (rule items_at_moved[of ?N ?N' us m' ?P m ?P, OF names]) (use h low b in \<open>simp_all add: holds_items_def\<close>)
  moreover have "items_at m' ?N' (?P + ?u + ?n) zs"
    by (rule items_at_moved[of ?N ?N' zs m' _ m "?P + ?u + ?o", OF names]) (use h shifted in \<open>simp_all add: holds_items_def\<close>)
  moreover have "fdt32_ld' m' (?P + ?u + ?n + ?z) = fdt32_ld' m (?P + ?u + ?o + ?z)"
    by (rule ld_moved) (use shifted[of "?z + _"] in \<open>simp add: add.assoc\<close>)
  ultimately show ?thesis using h new hdr fit d by (simp add: holds_items_def add.assoc)
qed

text \<open>A splice that starts \<open>j\<close> bytes into the items that are replaced.\<close>

lemma splice_items:
  assumes rw: "rw_tree m f" and h: "holds_items m f (us @ old @ zs)" and p: "p = f + fdt_off_dt_struct m f + int (items_len us)"
    and sp: "fdt_splice_struct' m f (p + j) (int (items_len old) - j) (int (items_len new) - j) = (0, m1)"
    and j: "0 \<le> j" "j \<le> int (items_len old)" "j \<le> int (items_len new)" "items_len new \<le> 2147483647"
    and w: "writes_in p (int (items_len new)) m1 m'"
  shows "rw_tree m' f" "name_at m f so s \<Longrightarrow> name_at m' f so s" "fdt_off_dt_struct m' f = fdt_off_dt_struct m f"
    "f + 40 \<le> a \<Longrightarrow> a < p + int (items_len new) \<Longrightarrow> m1 a = m a"
    "items_at m' (name_at m' f) p new \<Longrightarrow> holds_items m' f (us @ new @ zs)"
proof -
  note b = rw_treeD[OF rw] rw_tree_bounds[OF rw]
  let ?u = "int (items_len us)" and ?o = "int (items_len old)" and ?n = "int (items_len new)"
  have fit: "?u + ?o + int (items_len zs) + 4 \<le> fdt_size_dt_struct m f" using h by (simp add: holds_items_def)
  have P: "f + fdt_off_dt_struct m f \<le> p + j" "p + j - f < 18446744073709551616" "is_int (?o - j)"
    "0 \<le> ?n - j" "?n - j \<le> 2147483647" "?o - j \<le> fdt_size_dt_struct m f + (?n - j)"
    using p j fit b by (simp_all add: is_int_def)
  note s = fdt_splice_struct_spec[OF rw sp P, simplified]
  have head: "same_on f 40 m1 m'" by (rule writes_in_same_on[OF w]) (use p b in linarith)
  note hd = same_header[OF head]
  have low: "m1 a = m a" if "f + 40 \<le> a" "a < p + ?n" for a using s that by (auto simp: moved_def)
  have high: "m' (a + (?n - ?o)) = m a" if "p + ?o \<le> a" "a < f + fdt_off_dt_strings m f + fdt_size_dt_strings m f" for a
  proof -
    have "m1 (a - (?o - j) + (?n - j)) = m a" using s that by (auto simp: moved_def)
    moreover have "m' (a + (?n - ?o)) = m1 (a + (?n - ?o))" using w that by (simp add: writes_in_def)
    ultimately show ?thesis by (simp add: algebra_simps)
  qed
  have hdr: "fdt_off_dt_struct m' f = fdt_off_dt_struct m f" "fdt_size_dt_struct m' f = fdt_size_dt_struct m f + (?n - ?o)"
      "fdt_off_dt_strings m' f = fdt_off_dt_strings m f + (?n - ?o)" "fdt_size_dt_strings m f \<le> fdt_size_dt_strings m' f"
    using s hd by simp_all
  have names: "name_at m' f so t" if "name_at m f so t" for so t
    by (rule names_kept[OF rw hdr(3,4) high that]) (use p fit b in linarith)+
  then show "name_at m f so s \<Longrightarrow> name_at m' f so s" .
  show "holds_items m' f (us @ new @ zs)" if "items_at m' (name_at m' f) p new"
  proof (rule replaced_items[OF rw h _ refl hdr])
    show "items_at m' (name_at m' f) (f + fdt_off_dt_struct m f + int (items_len us)) new" using that p by simp
    show "m' a = m a" if "f + 40 \<le> a" "a < f + fdt_off_dt_struct m f + int (items_len us)" for a
      using low[of a] w that p j by (simp add: writes_in_def)
  qed (use high p in simp)
  show "rw_tree m' f" using rw_tree_cong[OF head] s by blast
  show "f + 40 \<le> a \<Longrightarrow> a < p + ?n \<Longrightarrow> m1 a = m a" by (rule low)
  show "fdt_off_dt_struct m' f = fdt_off_dt_struct m f" by (rule hdr(1))
qed

text \<open>The blocks at another place, or with free space between them.\<close>

lemma moved_blocks_items:
  assumes "same_bytes m (f + fdt_off_dt_struct m f) m' (g + fdt_off_dt_struct m' g) (fdt_size_dt_struct m f)"
    "same_bytes m (f + fdt_off_dt_strings m f) m' (g + fdt_off_dt_strings m' g) (fdt_size_dt_strings m f)"
    "fdt_size_dt_struct m' g = fdt_size_dt_struct m f" "fdt_size_dt_strings m' g = fdt_size_dt_strings m f"
    and h: "holds_items m f xs"
  shows "holds_items m' g xs"
proof -
  have names: "name_at m' g so s" if n: "name_at m f so s" for so s
  proof -
    have "points_to_str (rd m' (g + fdt_off_dt_strings m' g + so)) s"
      by (rule points_to_str_moved[of s _ "rd m (f + fdt_off_dt_strings m f + so)"])
        (use n assms(2) in \<open>simp_all add: name_at_def same_bytes_def add.assoc\<close>)
    with n assms(4) show ?thesis by (simp add: name_at_def)
  qed
  have fit: "int (items_len xs) + 4 \<le> fdt_size_dt_struct m f" using h by (simp add: holds_items_def)
  have "items_at m' (name_at m' g) (g + fdt_off_dt_struct m' g) xs"
    by (rule items_at_moved[of "name_at m f" _ xs m' _ m "f + fdt_off_dt_struct m f", OF names])
      (use h fit assms(1) in \<open>simp_all add: holds_items_def same_bytes_def\<close>)
  moreover have "fdt32_ld' m' (g + fdt_off_dt_struct m' g + int (items_len xs)) = fdt32_ld' m (f + fdt_off_dt_struct m f + int (items_len xs))"
    by (rule ld_moved) (use assms(1) fit in \<open>simp add: same_bytes_def add.assoc\<close>)
  ultimately show ?thesis using h assms(3) by (simp add: holds_items_def)
qed

section \<open>An example\<close>

text \<open>The items of the example tree.\<close>

abbreviation "ex_items \<equiv> [Node [], Prop (str ''a'') [0, 0, 0, 7], Node (str ''c''), End_node, End_node]"

lemma ex_holds: "holds_items ex_tree 64 ex_items"
proof -
  have "ex_tree 140 = 0" "ex_tree 141 = 0" "ex_tree 142 = 0" "ex_tree 143 = 7"
    by (simp_all add: ex_tree_def place_def lit_def words_def ex_words_def be32_bytes_def extract_byte_def)
  then show ?thesis
    by (simp add: holds_items_def item_at_def name_at_def ex_tree_header ex_tree_ld ex_words_def pad4_def points_to_str_def cstring_def
        bytes_at_numeral bytes_at_Suc shift_apply ex_bytes str_def of_char_of)
qed

end
