(* ===== verification/Fdt_Lookup.thy ===== *)
theory Fdt_Lookup
  imports Fdt_Items
begin

text \<open>
  Looking up a property on the list of items, and in the tree (\<open>src/src/libfdt/fdt_ro.c\<close>).

  The properties of a node are the items behind it, up to its first subnode or its end.
\<close>

section \<open>The properties of a node\<close>

fun get_prop :: "byte list \<Rightarrow> item list \<Rightarrow> byte list option" where
  "get_prop s (Prop t v # xs) = (if t = s then Some v else get_prop s xs)"
| "get_prop s (Nop # xs) = get_prop s xs"
| "get_prop s _ = None"

fun put_prop :: "byte list \<Rightarrow> byte list \<Rightarrow> item list \<Rightarrow> item list" where
  "put_prop s v (Prop t w # xs) = (if t = s then Prop s v # xs else Prop t w # put_prop s v xs)"
| "put_prop s v (Nop # xs) = Nop # put_prop s v xs"
| "put_prop s v xs = xs"

fun del_prop :: "byte list \<Rightarrow> item list \<Rightarrow> item list" where
  "del_prop s (Prop t w # xs) = (if t = s then xs else Prop t w # del_prop s xs)"
| "del_prop s (Nop # xs) = Nop # del_prop s xs"
| "del_prop s xs = xs"

text \<open>A property that is there keeps its place, and a new one is the first.\<close>

definition set_prop :: "byte list \<Rightarrow> byte list \<Rightarrow> item list \<Rightarrow> item list" where
  "set_prop s v xs = (if get_prop s xs = None then Prop s v # xs else put_prop s v xs)"

text \<open>Items a search for a name goes past, and where it ends.\<close>

fun passes :: "byte list \<Rightarrow> item \<Rightarrow> bool" where
  "passes s (Prop t v) \<longleftrightarrow> t \<noteq> s"
| "passes s Nop \<longleftrightarrow> True"
| "passes s _ \<longleftrightarrow> False"

fun is_prop :: "item \<Rightarrow> bool" where
  "is_prop (Prop t v) \<longleftrightarrow> True"
| "is_prop Nop \<longleftrightarrow> True"
| "is_prop _ \<longleftrightarrow> False"

lemma passesD: "passes s x \<Longrightarrow> x = Nop \<or> (\<exists>t v. x = Prop t v \<and> t \<noteq> s)"
  by (cases x) auto

lemma get_prop_passes: "list_all (passes s) ys \<Longrightarrow> get_prop s (ys @ zs) = get_prop s zs"
  by (induction ys) (auto dest!: passesD)

lemma put_prop_passes: "list_all (passes s) ys \<Longrightarrow> put_prop s v (ys @ zs) = ys @ put_prop s v zs"
  by (induction ys) (auto dest!: passesD)

lemma del_prop_passes: "list_all (passes s) ys \<Longrightarrow> del_prop s (ys @ zs) = ys @ del_prop s zs"
  by (induction ys) (auto dest!: passesD)

lemma get_prop_split: "get_prop s xs = Some v \<Longrightarrow> \<exists>ys zs. xs = ys @ Prop s v # zs \<and> list_all (passes s) ys"
proof (induction s xs rule: get_prop.induct)
  case (1 s t w xs)
  show ?case
  proof (cases "t = s")
    case True
    with 1 have "Prop t w # xs = [] @ Prop s v # xs" by simp
    then show ?thesis by (intro exI[of _ "[]"] exI[of _ xs]) simp
  next
    case False
    with 1 obtain ys zs where "xs = ys @ Prop s v # zs" "list_all (passes s) ys" by auto
    with False show ?thesis by (intro exI[of _ "Prop t w # ys"] exI[of _ zs]) simp
  qed
next
  case (2 s xs)
  then obtain ys zs where "xs = ys @ Prop s v # zs" "list_all (passes s) ys" by auto
  then show ?case by (intro exI[of _ "Nop # ys"] exI[of _ zs]) simp
qed simp_all

lemma get_prop_None: "get_prop s xs = None \<Longrightarrow> \<exists>ys zs. xs = ys @ zs \<and> list_all (passes s) ys \<and> (zs = [] \<or> \<not> is_prop (hd zs))"
proof (induction s xs rule: get_prop.induct)
  case (1 s t w xs)
  then obtain ys zs where "xs = ys @ zs" "list_all (passes s) ys" "zs = [] \<or> \<not> is_prop (hd zs)" by (auto split: if_splits)
  with 1 show ?case by (intro exI[of _ "Prop t w # ys"] exI[of _ zs]) (auto split: if_splits)
next
  case (2 s xs)
  then obtain ys zs where "xs = ys @ zs" "list_all (passes s) ys" "zs = [] \<or> \<not> is_prop (hd zs)" by auto
  then show ?case by (intro exI[of _ "Nop # ys"] exI[of _ zs]) auto
qed (force intro: exI[of _ "[]"])+

lemma get_set_prop: "get_prop s (set_prop s v xs) = Some v"
proof (cases "get_prop s xs")
  case (Some w)
  then obtain ys zs where "xs = ys @ Prop s w # zs" "list_all (passes s) ys" using get_prop_split by blast
  with Some show ?thesis by (simp add: set_prop_def put_prop_passes get_prop_passes)
qed (simp add: set_prop_def)

lemma get_put_other: "t \<noteq> s \<Longrightarrow> get_prop t (put_prop s v xs) = get_prop t xs"
  by (induction s v xs rule: put_prop.induct) auto

lemma get_set_other: "t \<noteq> s \<Longrightarrow> get_prop t (set_prop s v xs) = get_prop t xs"
  by (simp add: set_prop_def get_put_other)

section \<open>The search of the library\<close>

lemma string_eq_name:
  assumes rw: "rw_tree m f" and so: "name_at m f so t" and name: "points_to_str name s"
  shows "fdt_string_eq' m f so name (int (length s)) \<longleftrightarrow> t = s"
proof -
  note b = rw_tree_bounds[OF rw]
  let ?p = "rd m (f + fdt_off_dt_strings m f + so)"
  have so': "0 \<le> so" "so + int (length t) < fdt_size_dt_strings m f" "points_to_str ?p t"
    using so by (simp_all add: name_at_def)
  then have i: "is_int so" using b by (simp add: is_int_def)
  have mc: "memchr ?p 0 (nat (fdt_size_dt_strings m f - so)) = Some (int (length t))"
    unfolding memchr_Some using so' points_to_str_nonzero[OF so'(3)] by (auto simp: points_to_str_def)
  have z: "sz (int (length t)) = length t" using so' b by (simp add: sz_id)
  have "bytes_at ?p (length t) = t" "bytes_at name (length s) = s" using so'(3) name by (simp_all add: points_to_str_def)
  with mc z so' show ?thesis
    by (auto simp: fdt_string_eq'_def fdt_get_string_eq[OF rw_tree_ok[OF rw] i] ro_probe_rw[OF rw] memcmp_eq_0 simp del: rd_apply)
qed

definition look :: "mem \<Rightarrow> addr \<Rightarrow> cptr \<Rightarrow> byte list \<Rightarrow> nat \<Rightarrow> addr option \<times> int \<times> int" where
  "look m f name s k = get_property_loop m f (nextprop' m f (int k)) name (int (length s))"

lemma look_Nop: "fdt_next_tag m f (int k) = (FDT_NOP, int k + 4) \<Longrightarrow> look m f name s k = look m f name s (k + 4)"
  by (simp add: look_def nextprop'.simps[of m f "int k"] add.commute)

lemma look_stop:
  "fdt_next_tag m f (int k) = (tag, nx) \<Longrightarrow> tag = FDT_BEGIN_NODE \<or> tag = FDT_END_NODE \<Longrightarrow>
     look m f name s k = (None, - FDT_ERR_NOTFOUND, - FDT_ERR_NOTFOUND)"
  "fdt_next_tag m f (int k) = (FDT_END, nx) \<Longrightarrow> 0 \<le> nx \<Longrightarrow>
     look m f name s k = (None, - FDT_ERR_BADSTRUCTURE, - FDT_ERR_BADSTRUCTURE)"
  by (auto simp: look_def nextprop'.simps[of m f "int k"] get_property_loop.simps)

lemma look_Prop:
  assumes rw: "rw_tree m f" and k: "k mod 4 = 0" "int k + int (item_len (Prop t v)) \<le> fdt_size_dt_struct m f"
    and x: "item_at m (name_at m f) (f + fdt_off_dt_struct m f + int k) (Prop t v)" and name: "points_to_str name s"
  shows "look m f name s k =
    (if t = s then (Some (f + fdt_off_dt_struct m f + int k), int (length v), int k)
     else look m f name s (k + item_len (Prop t v)))"
proof -
  note b = rw_tree_bounds[OF rw]
  let ?p = "f + fdt_off_dt_struct m f + int k"
  note t = next_tag_item[OF rw k x]
  have u: "u64 (int k) = int k" using k b by (intro u64_id) linarith+
  have k4: "int k mod 4 = 0" using k(1) by presburger
  have c: "fdt_check_prop_offset' m f (int k) = int k + int (item_len (Prop t v))"
    using t u k4 by (simp add: fdt_check_prop_offset'_def)
  have x': "fdt32_ld' m (?p + 4) = int (length v)" "name_at m f (fdt32_ld' m (?p + 8)) t" using x by (simp_all add: item_at_def)
  have so: "s32 (fdt32_ld' m (?p + 8)) = fdt32_ld' m (?p + 8)"
    using x'(2) b by (intro s32_id) (simp_all add: name_at_def)
  have len: "s32 (int (length v)) = int (length v)" using k(2) b pad4_bounds(1)[of "length v"] by (intro s32_id) simp_all
  have ptr: "fdt_offset_ptr' m f (int k) = ?p" by (simp add: fdt_offset_ptr'_def)
  have by_off: "fdt_get_property_by_offset' m f (int k) = (Some ?p, int (length v))"
    using c x'(1) len by (simp add: fdt_get_property_by_offset'_def ptr)
  have nx: "fdt_next_property_offset m f (int k) = nextprop' m f (int (k + item_len (Prop t v)))"
    using c by (simp add: fdt_next_property_offset_def)
  have at: "nextprop' m f (int k) = int k" using nextprop'_at[of m f "int k"] c by simp
  show ?thesis
    using by_off nx string_eq_name[OF rw x'(2) name] so
    unfolding look_def at by (simp add: get_property_loop.simps[of m f "int k"] del: item_len.simps)
qed

lemma look_passes:
  assumes rw: "rw_tree m f" and name: "points_to_str name s"
  shows "list_all (passes s) ys \<Longrightarrow> k mod 4 = 0 \<Longrightarrow> int k + int (items_len ys) \<le> fdt_size_dt_struct m f \<Longrightarrow>
    items_at m (name_at m f) (f + fdt_off_dt_struct m f + int k) ys \<Longrightarrow> look m f name s k = look m f name s (k + items_len ys)"
proof (induction ys arbitrary: k)
  case (Cons y ys)
  let ?k = "k + item_len y"
  have y: "item_at m (name_at m f) (f + fdt_off_dt_struct m f + int k) y" "int k + int (item_len y) \<le> fdt_size_dt_struct m f"
    using Cons.prems(3,4) by simp_all
  have "?k mod 4 = 0" using Cons.prems(2) item_len_bounds(2)[of y] by presburger
  then have "look m f name s ?k = look m f name s (?k + items_len ys)"
    by (rule Cons.IH[rotated]) (use Cons.prems in \<open>simp_all add: add.assoc\<close>)
  moreover have "look m f name s k = look m f name s ?k"
  proof (cases y)
    case (Prop t v)
    with look_Prop[OF rw Cons.prems(2) _ _ name] y Cons.prems(1) show ?thesis by simp
  next
    case Nop
    with look_Nop next_tag_item[OF rw Cons.prems(2) y(2,1)] show ?thesis by simp
  qed (use Cons.prems(1) in simp_all)
  ultimately show ?case by (simp add: add.assoc)
qed simp

text \<open>What the search for a name returns for a node.\<close>

lemma property_search:
  assumes rw: "rw_tree m f" and h: "holds_items m f (us @ Node t # xs)" and name: "points_to_str name s"
  shows "fdt_get_property_namelen' m f (int (items_len us)) name (int (length s)) = look m f name s (items_len (us @ [Node t]))"
    "fdt_check_node_offset' m f (int (items_len us)) = int (items_len (us @ [Node t]))"
proof -
  have n: "items_len us mod 4 = 0" by (rule items_len_mod)
  have fit: "int (items_len us) + int (item_len (Node t)) \<le> fdt_size_dt_struct m f"
    using h by (simp add: holds_items_def)
  have x: "item_at m (name_at m f) (f + fdt_off_dt_struct m f + int (items_len us)) (Node t)"
    using h by (simp add: holds_items_def)
  have u: "u64 (int (items_len us)) = int (items_len us)" using fit rw_tree_bounds[OF rw] by (intro u64_id) linarith+
  have n4: "int (items_len us) mod 4 = 0" using n by presburger
  show c: "fdt_check_node_offset' m f (int (items_len us)) = int (items_len (us @ [Node t]))"
    using next_tag_item[OF rw n fit x] u n4 by (simp add: fdt_check_node_offset'_def)
  show "fdt_get_property_namelen' m f (int (items_len us)) name (int (length s)) = look m f name s (items_len (us @ [Node t]))"
    by (simp add: fdt_get_property_namelen'_def fdt_first_property_offset_def c look_def del: item_len.simps)
qed

lemma search_found:
  assumes rw: "rw_tree m f" and h: "holds_items m f (us @ Node t # ys @ Prop s v # zs)" and name: "points_to_str name s"
    and ys: "list_all (passes s) ys"
  shows "fdt_get_property_namelen' m f (int (items_len us)) name (int (length s)) =
    (Some (f + fdt_off_dt_struct m f + int (items_len (us @ Node t # ys))), int (length v), int (items_len (us @ Node t # ys)))"
proof -
  let ?k = "items_len (us @ [Node t])"
  have fit: "int ?k + int (items_len ys) + int (item_len (Prop s v)) \<le> fdt_size_dt_struct m f"
    and at: "items_at m (name_at m f) (f + fdt_off_dt_struct m f + int ?k) ys"
    "item_at m (name_at m f) (f + fdt_off_dt_struct m f + int (?k + items_len ys)) (Prop s v)"
    using h by (simp_all add: holds_items_def add.assoc)
  have "look m f name s ?k = look m f name s (?k + items_len ys)"
    by (rule look_passes[OF rw name ys items_len_mod]) (use fit at in simp_all)
  moreover have "(?k + items_len ys) mod 4 = 0" using items_len_mod[of "us @ Node t # ys"] by (simp add: add.assoc)
  then have "look m f name s (?k + items_len ys) = (Some (f + fdt_off_dt_struct m f + int (?k + items_len ys)), int (length v), int (?k + items_len ys))"
    using look_Prop[OF rw _ _ at(2) name] fit by (simp del: item_len.simps)
  ultimately show ?thesis using property_search(1)[OF rw h name] by (simp add: add.assoc)
qed

lemma search_missing:
  assumes rw: "rw_tree m f" and h: "holds_items m f (us @ Node t # xs)" and name: "points_to_str name s"
    and no: "get_prop s xs = None"
  shows "\<exists>e po. fdt_get_property_namelen' m f (int (items_len us)) name (int (length s)) = (None, e, po) \<and>
    (e = - FDT_ERR_NOTFOUND \<or> e = - FDT_ERR_BADSTRUCTURE \<and> list_all is_prop xs)"
proof -
  obtain ys zs where xs: "xs = ys @ zs" "list_all (passes s) ys" "zs = [] \<or> \<not> is_prop (hd zs)"
    using get_prop_None[OF no] by blast
  let ?k = "items_len (us @ [Node t])" and ?e = "items_len (us @ Node t # ys)"
  have h': "holds_items m f (us @ Node t # ys @ zs)" using h xs by simp
  have fit: "int ?k + int (items_len ys) + int (items_len zs) + 4 \<le> fdt_size_dt_struct m f"
    and at: "items_at m (name_at m f) (f + fdt_off_dt_struct m f + int ?k) ys"
      "items_at m (name_at m f) (f + fdt_off_dt_struct m f + int ?e) zs"
    and e: "fdt32_ld' m (f + fdt_off_dt_struct m f + int ?e + int (items_len zs)) = FDT_END"
    using h' by (simp_all add: holds_items_def add.assoc)
  have "look m f name s ?k = look m f name s ?e"
    using look_passes[OF rw name xs(2) items_len_mod[of "us @ [Node t]"] _ at(1)] fit by (simp add: add.assoc)
  moreover have "look m f name s ?e = (if zs = [] then (None, - FDT_ERR_BADSTRUCTURE, - FDT_ERR_BADSTRUCTURE)
      else (None, - FDT_ERR_NOTFOUND, - FDT_ERR_NOTFOUND))"
  proof (cases zs)
    case Nil
    have "fdt_next_tag m f (int ?e) = (FDT_END, int ?e + 4)"
      by (rule next_tag_end[OF rw items_len_mod]) (use fit e Nil in simp_all)
    from look_stop(2)[OF this] Nil show ?thesis by simp
  next
    case (Cons z zs')
    have "fdt_next_tag m f (int ?e) = (item_tag z, int ?e + int (item_len z))"
      by (rule next_tag_item[where N = "name_at m f", OF rw items_len_mod]) (use fit at(2) Cons in simp_all)
    from look_stop(1)[OF this] Cons xs(3) show ?thesis by (cases z) simp_all
  qed
  moreover have "list_all is_prop xs" if "zs = []"
    using xs that by (auto simp: list_all_iff) (metis is_prop.elims(3) passes.simps(3,4))
  ultimately show ?thesis using property_search(1)[OF rw h name] by auto
qed

end
