(* ===== verification/Fdt_Refine.thy ===== *)
theory Fdt_Refine
  imports Fdt_Lookup
begin

text \<open>
  The edits of \<open>src/src/libfdt/fdt_rw.c\<close> as operations on the list of items: a call that succeeds leaves
  the list its operation yields, and so keeps every other item of the tree.
\<close>

section \<open>Properties\<close>

text \<open>A property whose value is resized and written, in full or only at its end.\<close>

lemma prop_resized:
  assumes rw: "rw_tree m f" and h: "holds_items m f (us @ Prop s v # zs)" and p: "p = f + fdt_off_dt_struct m f + int (items_len us)"
    and sp: "fdt_splice_struct' m f (p + 12) (FDT_TAGALIGN (int (length v))) (FDT_TAGALIGN (int n)) = (0, m1)" "n \<le> 2147483632"
    and out: "\<And>a. a < p + 4 \<or> p + 8 \<le> a \<and> a < p + 12 \<or> p + 12 + int n \<le> a \<Longrightarrow> m' a = m1 a"
    and len: "fdt32_ld' m' (p + 4) = int n"
  shows "rw_tree m' f \<and> holds_items m' f (us @ Prop s (bytes_at (rd m' (p + 12)) n) # zs)"
proof -
  note b = rw_tree_bounds[OF rw]
  let ?v = "bytes_at (rd m' (p + 12)) n"
  have v: "length v < 2147483645"
    using h b pad4_bounds(1)[of "length v"] by (simp add: holds_items_def)
  have al: "FDT_TAGALIGN (int (length v)) = int (pad4 (length v))" "FDT_TAGALIGN (int n) = int (pad4 n)"
    using pad4_align v sp(2) by simp_all
  have pn: "n \<le> pad4 n" "pad4 n \<le> n + 3" using pad4_bounds by simp_all
  have w: "writes_in p (int (items_len [Prop s ?v])) m1 m'" using out pn by (simp add: writes_in_def)
  have h': "holds_items m f (us @ [Prop s v] @ zs)" using h by simp
  have sp': "fdt_splice_struct' m f (p + 12) (int (items_len [Prop s v]) - 12) (int (items_len [Prop s ?v]) - 12) = (0, m1)"
    using sp al by simp
  note S = splice_items[OF rw h' p sp' _ _ _ _ w]
  have pp: "f + 56 \<le> p" using p b by linarith
  have x: "item_at m (name_at m f) p (Prop s v)" using h p by (simp add: holds_items_def)
  have same: "m' a = m a" if "p \<le> a" "a < p + 4 \<or> p + 8 \<le> a \<and> a < p + 12" for a
  proof -
    have "m' a = m1 a" by (rule out) (use that in blast)
    also have "\<dots> = m a" by (rule S(4)) (use that pp pn sp(2) in auto)
    finally show ?thesis .
  qed
  have "fdt32_ld' m' p = fdt32_ld' m p" "fdt32_ld' m' (p + 8) = fdt32_ld' m (p + 8)"
    by (rule ld_same; rule same; simp)+
  with x len S(2) pn sp(2) have "item_at m' (name_at m' f) p (Prop s ?v)" by (simp add: item_at_def)
  with S(1,5) pn sp(2) show ?thesis by simp
qed

lemma resize_items:
  assumes rw: "rw_tree m f" and h: "holds_items m f (us @ Node t # ys @ Prop s v # zs)" and ys: "list_all (passes s) ys"
    and name: "points_to_str name s" "length s \<le> 2147483631" and n: "n \<le> 2147483632"
    and r: "fdt_resize_property' m f (int (items_len us)) name (int n) = Some (err, p, m1)"
    and out: "\<And>a. a < p + 12 \<or> p + 12 + int n \<le> a \<Longrightarrow> m' a = m1 a" and ok: "err = 0"
  shows "rw_tree m' f \<and> holds_items m' f (us @ Node t # ys @ Prop s (bytes_at (rd m' (p + 12)) n) # zs)"
proof -
  have l: "strlen name = Some (int (length s))" "s32 (int (length s)) = int (length s)"
    using strlen_points_to[OF name(1)] name(2) by (simp_all add: s32_id)
  note v = rw_treeD(6)[OF rw]
  have g: "fdt_get_property m f (int (items_len us)) name = Some (Some (f + fdt_off_dt_struct m f + int (items_len (us @ Node t # ys))), int (length v))"
    using search_found[OF rw h name(1) ys] l v by (simp add: fdt_get_property_def fdt_get_property_namelen_def)
  obtain m0 where sp: "fdt_splice_struct' m f (p + 12) (FDT_TAGALIGN (int (length v))) (FDT_TAGALIGN (int n)) = (0, m0)"
    and p: "p = f + fdt_off_dt_struct m f + int (items_len (us @ Node t # ys))" and m1: "m1 = store32 m0 (p + 4) (cpu_to_fdt32 (word_of_int (int n)))"
    using r ok g by (auto simp: fdt_resize_property'_def split: prod.splits if_splits)
  have h': "holds_items m f ((us @ Node t # ys) @ Prop s v # zs)" using h by simp
  have o1: "m' a = m0 a" if "a < p + 4 \<or> p + 8 \<le> a \<and> a < p + 12 \<or> p + 12 + int n \<le> a" for a
    using that out[of a] writes_in_store32[of "p + 4" "p + 4" 4 m0 "cpu_to_fdt32 (word_of_int (int n))"] by (auto simp: writes_in_def m1)
  have "fdt32_ld' m' (p + 4) = fdt32_ld' m1 (p + 4)" by (rule ld_same) (use out in simp)
  moreover have "uint (word_of_int (int n) :: 32 word) = int n" by (subst uint_word_of_int) (use n in simp)
  ultimately have "fdt32_ld' m' (p + 4) = int n" unfolding m1 ld_store32_same by simp
  from prop_resized[OF rw h' p sp n o1 this] show ?thesis by simp
qed

text \<open>A property that is added, with its name found in the table or put there.\<close>

lemma string_added_items:
  assumes rw: "rw_tree m f" and h: "holds_items m f xs" and name: "points_to_str name s" "length s \<le> 2147483631"
    and r: "fdt_find_add_string' m f name = Some (so, al, m1)" "0 \<le> so"
  shows "rw_tree m1 f \<and> holds_items m1 f xs \<and> name_at m1 f so s \<and> fdt_off_dt_struct m1 f = fdt_off_dt_struct m f"
proof -
  have l: "strlen name = Some (int (length s))" "int (length s) < 2147483647"
    using strlen_points_to[OF name(1)] name(2) by simp_all
  have "\<not> so < 0" using r(2) by simp
  note s1 = fdt_find_add_string_spec[OF rw l r(1), unfolded if_not_P[OF this]]
  then have rw1: "rw_tree m1 f" using edited_rw by blast
  note b = rw_treeD[OF rw] rw_tree_bounds[OF rw]
  have fit: "int (items_len xs) + 4 \<le> fdt_size_dt_struct m f" using h by (simp add: holds_items_def)
  have same: "m1 a = m a" if "f + 40 \<le> a" "a < f + fdt_off_dt_strings m f + fdt_size_dt_strings m f" for a
    using s1 that by blast
  have low: "m1 a = m a" if "f + 40 \<le> a" "a < f + fdt_off_dt_struct m f + int (items_len xs)" for a
    by (rule same[OF that(1)]) (use that fit b in linarith)
  have "holds_items m1 f (xs @ [] @ [])"
  proof (rule replaced_items[OF rw, of xs "[]" "[]" m1 "[]" 0])
    show "m1 a = m a" if "f + 40 \<le> a" "a < f + fdt_off_dt_struct m f + int (items_len xs)" for a by (rule low[OF that])
    show "m1 (a + 0) = m a" if "f + fdt_off_dt_struct m f + int (items_len xs) + int (items_len []) \<le> a"
      "a < f + fdt_off_dt_strings m f + fdt_size_dt_strings m f" for a
      using same[OF _ that(2)] that(1) b by simp
  qed (use h s1 in simp_all)
  moreover have "points_to_str (rd m1 (f + fdt_off_dt_strings m1 f + so)) s"
  proof (rule points_to_str_moved[OF _ name(1)])
    fix i assume "0 \<le> i" "i \<le> int (length s)"
    moreover have "\<forall>j<nat (int (length s) + 1). rd m1 (f + fdt_off_dt_strings m f + so) (int j) = name (int j)"
      using s1 unfolding bytes_at_eq_iff by blast
    note this[rule_format, of "nat i"]
    ultimately show "rd m1 (f + fdt_off_dt_strings m1 f + so) i = name i" using s1 by simp
  qed
  ultimately show ?thesis using s1 rw1 r(2) by (simp add: name_at_def)
qed

lemma add_items:
  assumes rw: "rw_tree m f" and h: "holds_items m f (us @ Node t # xs)"
    and name: "points_to_str name s" "length s \<le> 2147483631" and n: "n \<le> 2147483632"
    and r: "fdt_add_property' m f (int (items_len us)) name (int n) = Some (err, p, m3)"
    and out: "\<And>a. a < p + 12 \<or> p + 12 + int n \<le> a \<Longrightarrow> m' a = m3 a" and ok: "err = 0"
  shows "rw_tree m' f \<and> holds_items m' f (us @ Node t # Prop s (bytes_at (rd m' (p + 12)) n) # xs)"
proof -
  let ?k = "items_len (us @ [Node t])" and ?v = "bytes_at (rd m' (p + 12)) n"
  have l: "strlen name = Some (int (length s))" "int (length s) < 2147483647"
    using strlen_points_to[OF name(1)] name(2) by simp_all
  note b = rw_treeD[OF rw] rw_tree_bounds[OF rw]
  have node: "is_int (int (items_len us))" using h b by (simp add: holds_items_def is_int_def)
  have N: "0 \<le> int n" "int n \<le> 2147483632" using n by simp_all
  obtain so al m1 m2 where fa: "fdt_find_add_string' m f name = Some (so, al, m1)" "0 \<le> so"
    and p: "p = fdt_offset_ptr' m f (int ?k)" and sp: "fdt_splice_struct' m1 f p 0 (12 + FDT_ALIGN (int n) 4) = (0, m2)"
    and m3: "m3 = store32 (store32 (store32 m2 p (cpu_to_fdt32 3)) (p + 8) (cpu_to_fdt32 (word_of_int so)))
             (p + 4) (cpu_to_fdt32 (word_of_int (int n)))"
    using fdt_add_property_spec[OF rw l node N r] ok property_search(2)[OF rw h name(1)] by auto
  note s1 = string_added_items[OF rw h name fa]
  then have rw1: "rw_tree m1 f" and h1: "holds_items m1 f ((us @ [Node t]) @ [] @ xs)" by simp_all
  have pp: "p = f + fdt_off_dt_struct m1 f + int ?k" using s1 by (simp add: p fdt_offset_ptr'_def)
  have pn: "FDT_ALIGN (int n) 4 = int (pad4 n)" "n \<le> pad4 n" "pad4 n \<le> n + 3"
    using pad4_align[of n] pad4_bounds n by simp_all
  have w3: "writes_in p 12 m2 m3"
    unfolding m3 by (rule writes_in_trans[OF writes_in_trans]; rule writes_in_store32; simp)
  have w: "writes_in p (int (items_len [Prop s ?v])) m2 m'" using out w3 pn by (simp add: writes_in_def)
  have sp': "fdt_splice_struct' m1 f (p + 0) (int (items_len []) - 0) (int (items_len [Prop s ?v]) - 0) = (0, m2)"
    using sp pn by simp
  note S = splice_items[OF rw1 h1 pp sp' _ _ _ _ w]
  have "so < 4294967296" using s1 rw_tree_bounds[OF rw1] by (simp add: name_at_def)
  then have "uint (word_of_int so :: 32 word) = so" "uint (word_of_int (int n) :: 32 word) = int n"
    using fa(2) n by (subst uint_word_of_int; simp)+
  then have "fdt32_ld' m3 p = FDT_PROP" "fdt32_ld' m3 (p + 4) = int n" "fdt32_ld' m3 (p + 8) = so"
    unfolding m3 by (simp_all add: ld_store32_same ld_outside[OF writes_in_store32[of "p + 4" "p + 4" 4]]
          ld_outside[OF writes_in_store32[of "p + 8" "p + 8" 4]])
  moreover have "fdt32_ld' m' p = fdt32_ld' m3 p" "fdt32_ld' m' (p + 4) = fdt32_ld' m3 (p + 4)" "fdt32_ld' m' (p + 8) = fdt32_ld' m3 (p + 8)"
    by (rule ld_same; rule out; simp)+
  moreover have "name_at m' f so s" by (rule S(2)) (use s1 pn n in simp_all)
  ultimately have "item_at m' (name_at m' f) p (Prop s ?v)" by (simp add: item_at_def)
  with S(1,5) pn n show ?thesis by simp
qed

text \<open>Setting a property sets it in the list.\<close>

lemma setprop_items:
  assumes rw: "rw_tree m f" and h: "holds_items m f (us @ Node t # xs)"
    and name: "points_to_str name s" "length s \<le> 2147483631" and n: "n \<le> 2147483632"
    and r: "fdt_setprop m f (int (items_len us)) name val (int n) = Some (0, m')"
  shows "rw_tree m' f \<and> holds_items m' f (us @ Node t # set_prop s (bytes_at val n) xs)"
proof -
  let ?r = "fdt_resize_property' m f (int (items_len us)) name (int n)"
  obtain v m1 where pl: "fdt_setprop_placeholder m f (int (items_len us)) name (int n) = Some (0, v, m1)"
    and m': "m' = memcpy_from m1 v val n"
    using r n by (auto simp: fdt_setprop_def sz_def u64_def split: bind_splits if_splits)
  have out: "m' a = m1 a" if "a < v \<or> v + int n \<le> a" for a using that by (auto simp: m' memcpy_from_spec)
  have val: "bytes_at (rd m' v) n = bytes_at val n" by (auto simp: bytes_at_eq_iff m' memcpy_from_spec)
  obtain e p m0 where rs: "?r = Some (e, p, m0)"
    using pl rw_probe_ok[OF rw] by (auto simp: fdt_setprop_placeholder_def split: bind_splits)
  have l: "strlen name = Some (int (length s))" "s32 (int (length s)) = int (length s)"
    using strlen_points_to[OF name(1)] name(2) by (simp_all add: s32_id)
  show ?thesis
  proof (cases "get_prop s xs")
    case None
    obtain e' po where g: "fdt_get_property_namelen' m f (int (items_len us)) name (int (length s)) = (None, e', po)"
      "e' = - FDT_ERR_NOTFOUND \<or> e' = - FDT_ERR_BADSTRUCTURE"
      using search_missing[OF rw h name(1) None] by blast
    then have "e = e' \<and> m0 = m" using rs l rw_treeD(6)[OF rw]
      by (auto simp: fdt_resize_property'_def fdt_get_property_def fdt_get_property_namelen_def)
    with pl rs g(2) rw_probe_ok[OF rw] obtain p2 where
      "fdt_add_property' m f (int (items_len us)) name (int n) = Some (0, p2, m1)" "v = p2 + 12"
      by (auto simp: fdt_setprop_placeholder_def split: bind_splits if_splits)
    from add_items[OF rw h name n this(1), of m'] this(2) out val None show ?thesis by (simp add: set_prop_def)
  next
    case (Some w)
    obtain ys zs where xs: "xs = ys @ Prop s w # zs" "list_all (passes s) ys" using get_prop_split[OF Some] by blast
    have h': "holds_items m f (us @ Node t # ys @ Prop s w # zs)" using h xs by simp
    have "e \<noteq> - FDT_ERR_NOTFOUND"
      using rs search_found[OF rw h' name(1) xs(2)] l rw_treeD(6)[OF rw] fdt_splice_struct'_def
      by (auto simp: fdt_resize_property'_def fdt_get_property_def fdt_get_property_namelen_def fdt_splice_struct'_def
          fdt_splice'_def Let_def split: prod.splits if_splits)
    with pl rs rw_probe_ok[OF rw] have e: "e = 0" "m0 = m1" "v = p + 12"
      by (auto simp: fdt_setprop_placeholder_def split: if_splits)
    have "rw_tree m' f \<and> holds_items m' f (us @ Node t # ys @ Prop s (bytes_at (rd m' (p + 12)) n) # zs)"
      by (rule resize_items[OF rw h' xs(2) name n rs]) (use e out in simp_all)
    with e val xs Some show ?thesis by (simp add: set_prop_def put_prop_passes)
  qed
qed

text \<open>Looking up, removing and appending.\<close>

lemma get_property_items:
  assumes rw: "rw_tree m f" and h: "holds_items m f (us @ Node t # xs)" and name: "points_to_str name s" "length s \<le> 2147483631"
  shows "case get_prop s xs of
      None \<Rightarrow> \<exists>e<0. fdt_get_property m f (int (items_len us)) name = Some (None, e)
    | Some v \<Rightarrow> \<exists>ys zs. xs = ys @ Prop s v # zs \<and> list_all (passes s) ys \<and> fdt_get_property m f (int (items_len us)) name =
        Some (Some (f + fdt_off_dt_struct m f + int (items_len (us @ Node t # ys))), int (length v))"
proof -
  have l: "strlen name = Some (int (length s))" "s32 (int (length s)) = int (length s)"
    using strlen_points_to[OF name(1)] name(2) by (simp_all add: s32_id)
  note v = rw_treeD(6)[OF rw]
  show ?thesis
  proof (cases "get_prop s xs")
    case None
    with search_missing[OF rw h name(1) None] l v show ?thesis
      by (fastforce simp: fdt_get_property_def fdt_get_property_namelen_def)
  next
    case (Some w)
    obtain ys zs where xs: "xs = ys @ Prop s w # zs" "list_all (passes s) ys" using get_prop_split[OF Some] by blast
    have h': "holds_items m f (us @ Node t # ys @ Prop s w # zs)" using h xs by simp
    show ?thesis
      using search_found[OF rw h' name(1) xs(2)] l v Some xs by (auto simp: fdt_get_property_def fdt_get_property_namelen_def)
  qed
qed

lemma getprop_items:
  assumes rw: "rw_tree m f" and h: "holds_items m f (us @ Node t # xs)" and name: "points_to_str name s" "length s \<le> 2147483631"
  shows "case get_prop s xs of
      None \<Rightarrow> \<exists>e<0. fdt_getprop m f (int (items_len us)) name = Some (None, e)
    | Some v \<Rightarrow> \<exists>p. fdt_getprop m f (int (items_len us)) name = Some (Some p, int (length v)) \<and> bytes_at (rd m p) (length v) = v"
proof -
  have l: "strlen name = Some (int (length s))" "s32 (int (length s)) = int (length s)"
    using strlen_points_to[OF name(1)] name(2) by (simp_all add: s32_id)
  show ?thesis
  proof (cases "get_prop s xs")
    case None
    with search_missing[OF rw h name(1) None] l show ?thesis
      by (fastforce simp: fdt_getprop_def fdt_getprop_namelen_def)
  next
    case (Some w)
    obtain ys zs where xs: "xs = ys @ Prop s w # zs" "list_all (passes s) ys" using get_prop_split[OF Some] by blast
    have h': "holds_items m f (us @ Node t # ys @ Prop s w # zs)" using h xs by simp
    then have "bytes_at (rd m (f + fdt_off_dt_struct m f + int (items_len (us @ Node t # ys)) + 12)) (length w) = w"
      by (simp add: holds_items_def item_at_def add.assoc)
    with search_found[OF rw h' name(1) xs(2)] l Some rw_treeD(6)[OF rw] show ?thesis
      by (auto simp: fdt_getprop_def fdt_getprop_namelen_def prop_data_def)
  qed
qed

lemma delprop_items:
  assumes rw: "rw_tree m f" and h: "holds_items m f (us @ Node t # xs)" and name: "points_to_str name s" "length s \<le> 2147483631"
    and r: "fdt_delprop m f (int (items_len us)) name = Some (0, m')"
  shows "rw_tree m' f \<and> holds_items m' f (us @ Node t # del_prop s xs) \<and> get_prop s xs \<noteq> None"
proof -
  note g = get_property_items[OF rw h name]
  obtain v where v: "get_prop s xs = Some v"
    using r g rw_probe_ok[OF rw] by (cases "get_prop s xs") (auto simp: fdt_delprop_def)
  then obtain ys zs where xs: "xs = ys @ Prop s v # zs" "list_all (passes s) ys" and
    gp: "fdt_get_property m f (int (items_len us)) name = Some (Some (f + fdt_off_dt_struct m f + int (items_len (us @ Node t # ys))), int (length v))"
    using g by auto
  have h': "holds_items m f ((us @ Node t # ys) @ [Prop s v] @ zs)" using h xs by simp
  have lv: "length v + 12 \<le> 2147483590"
    using h' rw_tree_bounds(4)[OF rw] pad4_bounds(1)[of "length v"] by (simp add: holds_items_def)
  have al: "s32 (12 + FDT_ALIGN (int (length v)) 4) = 12 + int (pad4 (length v))"
    using pad4_align[of "length v"] pad4_bounds(2)[of "length v"] lv by (simp add: s32_id)
  have sp: "fdt_splice_struct' m f (f + fdt_off_dt_struct m f + int (items_len (us @ Node t # ys)) + 0)
    (int (items_len [Prop s v]) - 0) (int (items_len []) - 0) = (0, m')"
    using r gp rw_probe_ok[OF rw] al by (simp add: fdt_delprop_def)
  note S = splice_items[OF rw h' refl sp _ _ _ _ writes_in_refl]
  have "holds_items m' f ((us @ Node t # ys) @ [] @ zs)" by (rule S(5)) simp_all
  with S(1) xs v show ?thesis by (simp add: del_prop_passes)
qed

lemma appendprop_items:
  assumes rw: "rw_tree m f" and h: "holds_items m f (us @ Node t # xs)"
    and name: "points_to_str name s" "length s \<le> 2147483631"
    and n: "n + (case get_prop s xs of None \<Rightarrow> 0 | Some v \<Rightarrow> length v) \<le> 2147483632"
    and r: "fdt_appendprop m f (int (items_len us)) name val (int n) = Some (0, m')"
  shows "rw_tree m' f \<and> holds_items m' f (us @ Node t #
    set_prop s ((case get_prop s xs of None \<Rightarrow> [] | Some v \<Rightarrow> v) @ bytes_at val n) xs)"
proof (cases "get_prop s xs")
  case None
  obtain e where "fdt_get_property m f (int (items_len us)) name = Some (None, e)"
    using get_property_items[OF rw h name] None by auto
  then obtain p m1 where ad: "fdt_add_property' m f (int (items_len us)) name (int n) = Some (0, p, m1)"
    and m': "m' = memcpy_from m1 (p + 12) val n"
    using r rw_probe_ok[OF rw] n None by (auto simp: fdt_appendprop_def sz_def u64_def split: bind_splits if_splits)
  have "bytes_at (rd m' (p + 12)) n = bytes_at val n" by (auto simp: bytes_at_eq_iff m' memcpy_from_spec)
  moreover have "rw_tree m' f \<and> holds_items m' f (us @ Node t # Prop s (bytes_at (rd m' (p + 12)) n) # xs)"
    by (rule add_items[OF rw h name _ ad]) (use n None in \<open>auto simp: m' memcpy_from_spec\<close>)
  ultimately show ?thesis using None by (simp add: set_prop_def)
next
  case (Some v)
  let ?n = "length v + n"
  obtain ys zs where xs: "xs = ys @ Prop s v # zs" "list_all (passes s) ys"
    and gp: "fdt_get_property m f (int (items_len us)) name = Some (Some (f + fdt_off_dt_struct m f + int (items_len (us @ Node t # ys))), int (length v))"
    using get_property_items[OF rw h name] Some by auto
  let ?p = "f + fdt_off_dt_struct m f + int (items_len (us @ Node t # ys))"
  have N: "?n \<le> 2147483632" using n Some by simp
  then have s: "s32 (int n + int (length v)) = int ?n" by (simp add: s32_id)
  obtain m1 where sp: "fdt_splice_struct' m f (?p + 12) (FDT_TAGALIGN (int (length v))) (FDT_TAGALIGN (int ?n)) = (0, m1)"
    and m': "m' = memcpy_from (store32 m1 (?p + 4) (cpu_to_fdt32 (word_of_int (int ?n)))) (?p + 12 + int (length v)) val n"
    using r gp rw_probe_ok[OF rw] s N by (auto simp: fdt_appendprop_def sz_def u64_def Let_def split: prod.splits if_splits)
  have h': "holds_items m f ((us @ Node t # ys) @ Prop s v # zs)" using h xs by simp
  have out: "m' a = m1 a" if "a < ?p + 4 \<or> ?p + 8 \<le> a \<and> a < ?p + 12 + int (length v) \<or> ?p + 12 + int ?n \<le> a" for a
    using that writes_in_store32[of "?p + 4" "?p + 4" 4 m1 "cpu_to_fdt32 (word_of_int (int ?n))"]
    by (auto simp: m' memcpy_from_spec writes_in_def)
  have "fdt32_ld' m' (?p + 4) = fdt32_ld' (store32 m1 (?p + 4) (cpu_to_fdt32 (word_of_int (int ?n)))) (?p + 4)"
    by (rule ld_same) (simp add: m' memcpy_from_spec)
  moreover have "uint (word_of_int (int ?n) :: 32 word) = int ?n" by (subst uint_word_of_int) (use N in simp)
  ultimately have ld: "fdt32_ld' m' (?p + 4) = int ?n" unfolding ld_store32_same by simp
  have out2: "m' a = m1 a" if "a < ?p + 4 \<or> ?p + 8 \<le> a \<and> a < ?p + 12 \<or> ?p + 12 + int ?n \<le> a" for a
    using that by (intro out) linarith
  note fin = prop_resized[OF rw h' refl sp N out2 ld]
  have "bytes_at (rd m' (?p + 12)) ?n = v @ bytes_at val n"
  proof -
    have "m1 a = m a" if "?p + 12 \<le> a" "a < ?p + 12 + int (length v)" for a
    proof -
      have sp': "fdt_splice_struct' m f (?p + 12) (int (items_len [Prop s v]) - 12) (int (items_len [Prop s (v @ bytes_at val n)]) - 12) = (0, m1)"
        using sp pad4_align[of "length v"] pad4_align[of ?n] N by simp
      have h2: "holds_items m f ((us @ Node t # ys) @ [Prop s v] @ zs)" using h' by simp
      show ?thesis
        by (rule splice_items(4)[OF rw h2 refl sp' _ _ _ _ writes_in_refl])
          (use that N pad4_bounds[of ?n] rw_tree_bounds(1)[OF rw] in auto)
    qed
    then have "m' a = m a" if "?p + 12 \<le> a" "a < ?p + 12 + int (length v)" for a using that out[of a] by auto
    then have "bytes_at (rd m' (?p + 12)) (length v) = bytes_at (rd m (?p + 12)) (length v)" by (intro bytes_at_cong) simp
    also have "\<dots> = v" using h' by (simp add: holds_items_def item_at_def add.assoc)
    finally have "bytes_at (rd m' (?p + 12)) (length v) = v" .
    moreover have "bytes_at (shift (rd m' (?p + 12)) (int (length v))) n = bytes_at val n"
      by (auto simp: bytes_at_eq_iff shift_apply m' memcpy_from_spec add.assoc)
    ultimately show ?thesis by (simp add: bytes_at_append)
  qed
  with fin Some xs show ?thesis by (simp add: set_prop_def put_prop_passes)
qed

end
