(* ===== verification/Fdt_Children.thy ===== *)
theory Fdt_Children
  imports Fdt_Refine
begin

text \<open>
  Nodes on the list of items: the children of a node, the items of a subtree, and the searches and edits
  of \<open>src/src/libfdt/fdt_ro.c\<close> and \<open>fdt_rw.c\<close> that walk over them.
\<close>

section \<open>Children and subtrees\<close>

text \<open>A name that is asked for is that of the node, with or without its unit address.\<close>

definition name_matches :: "byte list \<Rightarrow> byte list \<Rightarrow> bool" where
  "name_matches s t \<longleftrightarrow> t = s \<or> 64 \<notin> set s \<and> (\<exists>u. t = s @ 64 # u)"

definition before :: "'a \<Rightarrow> ('a list \<times> 'b) option \<Rightarrow> ('a list \<times> 'b) option" where
  "before x r = map_option (\<lambda>(ys, z). (x # ys, z)) r"

lemma before_simps [simp]: "before x None = None" "before x (Some (ys, z)) = Some (x # ys, z)"
  by (simp_all add: before_def)

lemma before_Some: "before x r = Some (ys, z) \<longleftrightarrow> (\<exists>ys'. r = Some (ys', z) \<and> ys = x # ys')"
  by (cases r) auto

text \<open>The first child with a name, among the items behind a node; \<open>d\<close> is the depth below it.  The result
  is what comes before the child, its name, and what comes behind.\<close>

fun find_child :: "byte list \<Rightarrow> nat \<Rightarrow> item list \<Rightarrow> (item list \<times> byte list \<times> item list) option" where
  "find_child s d (Node t # xs) = (if d = 0 \<and> name_matches s t then Some ([], t, xs)
     else before (Node t) (find_child s (Suc d) xs))"
| "find_child s d (End_node # xs) = (if d = 0 then None else before End_node (find_child s (d - 1) xs))"
| "find_child s d (x # xs) = before x (find_child s d xs)"
| "find_child s d [] = None"

text \<open>The items of a node, to its end, and those behind it.\<close>

fun subtree :: "nat \<Rightarrow> item list \<Rightarrow> (item list \<times> item list) option" where
  "subtree d (Node t # xs) = before (Node t) (subtree (Suc d) xs)"
| "subtree d (End_node # xs) = (if d = 0 then Some ([End_node], xs) else before End_node (subtree (d - 1) xs))"
| "subtree d (x # xs) = before x (subtree d xs)"
| "subtree d [] = None"

definition add_child :: "byte list \<Rightarrow> item list \<Rightarrow> item list" where
  "add_child s xs = takeWhile is_prop xs @ Node s # End_node # dropWhile is_prop xs"

lemma find_child_split: "find_child s d xs = Some (ys, t, zs) \<Longrightarrow> xs = ys @ Node t # zs \<and> name_matches s t"
  by (induction s d xs arbitrary: ys rule: find_child.induct) (auto simp: before_Some split: if_splits)

lemma subtree_split: "subtree d xs = Some (ys, zs) \<Longrightarrow> xs = ys @ zs"
  by (induction d xs arbitrary: ys rule: subtree.induct) (auto simp: before_Some split: if_splits)

lemma find_child_props: "list_all is_prop ys \<Longrightarrow> find_child s d (ys @ xs) = map_option (\<lambda>(us, r). (ys @ us, r)) (find_child s d xs)"
proof (induction ys)
  case (Cons y ys)
  then show ?case by (cases y) (auto simp: before_def option.map_comp comp_def split_def)
qed (simp add: option.map_ident split_def)

lemma find_added_child: "find_child s 0 (add_child s xs) = Some (takeWhile is_prop xs, s, End_node # dropWhile is_prop xs)"
proof -
  have "list_all is_prop (takeWhile is_prop xs)" by (auto simp: list_all_iff dest: set_takeWhileD)
  then show ?thesis by (simp add: add_child_def find_child_props name_matches_def)
qed

text \<open>Setting a property of a child does not change which child is found.\<close>

lemma find_child_again: "find_child s d (ys @ Node t # zs) = Some (ys, t, zs) \<Longrightarrow> find_child s d (ys @ Node t # zs') = Some (ys, t, zs')"
proof (induction ys arbitrary: d)
  case Nil
  then show ?case by (auto simp: before_Some split: if_splits)
next
  case (Cons y ys)
  then show ?case by (cases y) (auto simp: before_Some split: if_splits)
qed

section \<open>The walk over the nodes\<close>

lemma name_matches_take:
  "name_matches s t \<longleftrightarrow> length s \<le> length t \<and> take (length s) t = s \<and> (length s = length t \<or> 64 \<notin> set s \<and> t ! length s = 64)"
proof
  assume "name_matches s t"
  then show "length s \<le> length t \<and> take (length s) t = s \<and> (length s = length t \<or> 64 \<notin> set s \<and> t ! length s = 64)"
    by (auto simp: name_matches_def)
next
  assume a: "length s \<le> length t \<and> take (length s) t = s \<and> (length s = length t \<or> 64 \<notin> set s \<and> t ! length s = 64)"
  show "name_matches s t"
  proof (cases "length s = length t")
    case False
    with a have "t = take (length s) t @ t ! length s # drop (Suc (length s)) t" by (intro id_take_nth_drop) simp
    with a False show ?thesis unfolding name_matches_def by metis
  qed (use a in \<open>simp add: name_matches_def\<close>)
qed

text \<open>The item at a place of the structure block.\<close>

definition there :: "mem \<Rightarrow> addr \<Rightarrow> nat \<Rightarrow> item \<Rightarrow> bool" where
  "there m f k x \<longleftrightarrow> rw_tree m f \<and> k mod 4 = 0 \<and> int k + int (item_len x) \<le> fdt_size_dt_struct m f \<and>
     item_at m (name_at m f) (f + fdt_off_dt_struct m f + int k) x"

lemma thereD:
  assumes "there m f k x"
  shows "fdt_next_tag m f (int k) = (item_tag x, int (k + item_len x))" "is_int (int k)" "u64 (int k) mod 4 = 0"
proof -
  have rw: "rw_tree m f" and k: "k mod 4 = 0" "int k + int (item_len x) \<le> fdt_size_dt_struct m f"
    and x: "item_at m (name_at m f) (f + fdt_off_dt_struct m f + int k) x" using assms by (simp_all add: there_def)
  note b = rw_tree_bounds[OF rw]
  show "fdt_next_tag m f (int k) = (item_tag x, int (k + item_len x))" using next_tag_item[OF rw k x] by simp
  show "is_int (int k)" using k b by (simp add: is_int_def)
  have "u64 (int k) = int k" using k b by (intro u64_id) linarith+
  with k show "u64 (int k) mod 4 = 0" by presburger
qed

lemma holds_there: "rw_tree m f \<Longrightarrow> holds_items m f (us @ x # xs) \<Longrightarrow> there m f (items_len us) x"
  using items_len_mod by (simp add: there_def holds_items_def)

lemma memchr_None_set: "memchr p 64 n = None \<longleftrightarrow> 64 \<notin> set (bytes_at p n)"
proof -
  have "(\<forall>j. 0 \<le> j \<and> j < int n \<longrightarrow> p j \<noteq> 64) \<longleftrightarrow> (\<forall>i<n. p (int i) \<noteq> 64)"
    by (metis nonneg_int_cases of_nat_0_le_iff of_nat_less_iff)
  then show ?thesis by (auto simp: memchr_def memchr_loop_None in_set_conv_nth)
qed

lemma node_name:
  assumes t: "there m f k (Node t)" and n: "n \<le> 2147483647"
  shows "fdt_nodename_eq' m f (int k) name (int n) = Some (name_matches (bytes_at name n) t)"
proof -
  have rw: "rw_tree m f" and k: "int k + int (pad4 (5 + length t)) \<le> fdt_size_dt_struct m f"
    and p: "points_to_str (rd m (f + fdt_off_dt_struct m f + int k + 4)) t" using t by (simp_all add: there_def item_at_def)
  have c: "0 \<le> fdt_check_node_offset' m f (int k)" using thereD(1,3)[OF t] by (simp add: fdt_check_node_offset'_def)
  have p': "points_to_str (rd m (fdt_offset_ptr' m f (int k + 4))) t" using p by (simp add: fdt_offset_ptr'_def add.assoc)
  have "memchr name 64 n = None \<longleftrightarrow> 64 \<notin> set (bytes_at name n)" by (rule memchr_None_set)
  then show ?thesis
    using fdt_nodename_eq_iff[OF rw thereD(2)[OF t] c _ _ p', of "int n" name] n k pad4_bounds(1)[of "5 + length t"]
    by (auto simp: name_matches_take)
qed

text \<open>The search for a child, from behind a node at depth \<open>d\<close>.\<close>

definition children :: "mem \<Rightarrow> addr \<Rightarrow> cptr \<Rightarrow> nat \<Rightarrow> nat \<Rightarrow> nat \<Rightarrow> int option" where
  "children m f name n k d = (case next_node_loop m f (int k) (Some (int d)) of
     (o', d') \<Rightarrow> subnode_loop m f o' (the d') name (int n))"

lemma children_step:
  assumes t: "there m f k x" and n: "n \<le> 2147483647"
  shows "children m f name n k d = (case x of
      Node t \<Rightarrow> if d = 0 \<and> name_matches (bytes_at name n) t then Some (int k) else children m f name n (k + item_len x) (Suc d)
    | End_node \<Rightarrow> if d = 0 then Some (- FDT_ERR_NOTFOUND) else children m f name n (k + item_len x) (d - 1)
    | _ \<Rightarrow> children m f name n (k + item_len x) d)"
proof -
  note td = thereD[OF t]
  show ?thesis
  proof (cases x)
    case (Node u)
    have c: "fdt_check_node_offset' m f (int k) = int (k + item_len x)" using td Node by (simp add: fdt_check_node_offset'_def)
    have "subnode_loop m f (int k) (int d + 1) name (int n) =
      (if d = 0 \<and> name_matches (bytes_at name n) u then Some (int k) else children m f name n (k + item_len x) (Suc d))"
      using node_name[OF t[unfolded Node] n, of name] c
      by (subst subnode_loop.simps) (simp add: children_def fdt_next_node_def add.commute del: item_len.simps)
    then show ?thesis
      using td(1) Node by (simp add: children_def[of _ _ _ _ k] next_node_loop.simps[of m f "int k"] del: item_len.simps)
  next
    case End_node
    have "int (d - 1) = int d - 1" if "d \<noteq> 0" using that by simp
    with td(1) End_node show ?thesis
      by (auto simp: children_def next_node_loop.simps[of m f "int k"] subnode_loop.simps[of _ _ _ "- 1"])
  qed (use td(1) in \<open>simp_all add: children_def next_node_loop.simps[of m f "int k"] del: item_len.simps\<close>)
qed

lemma children_end:
  assumes "fdt_next_tag m f (int k) = (FDT_END, nx)" "0 \<le> nx"
  shows "children m f name n k d = Some (- FDT_ERR_NOTFOUND)"
  using assms by (simp add: children_def next_node_loop.simps[of m f "int k"] subnode_loop.simps)

lemma children_items:
  assumes rw: "rw_tree m f" and n: "n \<le> 2147483647"
  shows "holds_items m f (us @ xs) \<Longrightarrow> children m f name n (items_len us) d =
    Some (case find_child (bytes_at name n) d xs of None \<Rightarrow> - FDT_ERR_NOTFOUND | Some (ys, _) \<Rightarrow> int (items_len (us @ ys)))"
proof (induction xs arbitrary: us d)
  case Nil
  have "fdt_next_tag m f (int (items_len us)) = (FDT_END, int (items_len us) + 4)"
    by (rule next_tag_end[OF rw items_len_mod]) (use Nil in \<open>simp_all add: holds_items_def\<close>)
  from children_end[OF this] show ?case by simp
next
  case (Cons x xs)
  have IH: "children m f name n (items_len us + item_len x) e =
    Some (case find_child (bytes_at name n) e xs of None \<Rightarrow> - FDT_ERR_NOTFOUND | Some (ys, _) \<Rightarrow> int (items_len (us @ x # ys)))" for e
    using Cons.IH[of "us @ [x]" e] Cons.prems by (simp split: option.split)
  note step = children_step[OF holds_there[OF rw Cons.prems] n, of name d]
  show ?case
  proof (cases x)
    case (Node t)
    with step IH[of "Suc d"] show ?thesis
      by (cases "find_child (bytes_at name n) (Suc d) xs") (auto simp del: item_len.simps)
  next
    case End_node
    with step IH[of "d - 1"] show ?thesis
      by (cases "find_child (bytes_at name n) (d - 1) xs") (auto simp del: item_len.simps)
  next
    case (Prop s v)
    with step IH[of d] show ?thesis by (cases "find_child (bytes_at name n) d xs") (auto simp del: item_len.simps)
  next
    case Nop
    with step IH[of d] show ?thesis by (cases "find_child (bytes_at name n) d xs") (auto simp del: item_len.simps)
  qed
qed

text \<open>\<open>fdt_subnode_offset_namelen\<close> finds the first child with the name.\<close>

lemma subnode_items:
  assumes rw: "rw_tree m f" and h: "holds_items m f (us @ Node t # xs)" and n: "n \<le> 2147483647"
  shows "fdt_subnode_offset_namelen m f (int (items_len us)) name (int n) =
    Some (case find_child (bytes_at name n) 0 xs of None \<Rightarrow> - FDT_ERR_NOTFOUND | Some (ys, _) \<Rightarrow> int (items_len (us @ Node t # ys)))"
proof -
  note td = thereD[OF holds_there[OF rw h]]
  have c: "fdt_check_node_offset' m f (int (items_len us)) = int (items_len (us @ [Node t]))"
    using td by (simp add: fdt_check_node_offset'_def)
  have "subnode_loop m f (int (items_len us)) 0 name (int n) = children m f name n (items_len (us @ [Node t])) 0"
    using c by (subst subnode_loop.simps) (simp add: children_def fdt_next_node_def del: item_len.simps)
  with children_items[OF rw n, of "us @ [Node t]" xs name 0] h ro_probe_rw[OF rw] show ?thesis
    by (simp add: fdt_subnode_offset_namelen_def del: item_len.simps split: option.split)
qed

section \<open>The ends of nodes\<close>

definition ends :: "mem \<Rightarrow> addr \<Rightarrow> nat \<Rightarrow> nat \<Rightarrow> int" where
  "ends m f k d = (case next_node_loop m f (int k) (Some (int d)) of (o', d') \<Rightarrow> node_end_loop m f o' (the d'))"

lemma ends_step:
  assumes t: "there m f k x"
  shows "ends m f k d = (case x of
      Node t \<Rightarrow> ends m f (k + item_len x) (Suc d)
    | End_node \<Rightarrow> if d = 0 then int (k + item_len x) else ends m f (k + item_len x) (d - 1)
    | _ \<Rightarrow> ends m f (k + item_len x) d)"
proof -
  note td = thereD[OF t]
  show ?thesis
  proof (cases x)
    case (Node u)
    have c: "fdt_check_node_offset' m f (int k) = int (k + item_len x)" using td Node by (simp add: fdt_check_node_offset'_def)
    then have "node_end_loop m f (int k) (int d + 1) = ends m f (k + item_len x) (Suc d)"
      by (subst node_end_loop.simps) (simp add: ends_def fdt_next_node_def add.commute del: item_len.simps)
    then show ?thesis
      using td(1) Node by (simp add: ends_def[of _ _ k] next_node_loop.simps[of m f "int k"] del: item_len.simps)
  next
    case End_node
    have "int (d - 1) = int d - 1" if "d \<noteq> 0" using that by simp
    with td(1) End_node show ?thesis
      by (auto simp: ends_def next_node_loop.simps[of m f "int k"] node_end_loop.simps[of _ _ _ "- 1"])
  qed (use td(1) in \<open>simp_all add: ends_def next_node_loop.simps[of m f "int k"] del: item_len.simps\<close>)
qed

lemma ends_items:
  assumes rw: "rw_tree m f"
  shows "holds_items m f (us @ xs) \<Longrightarrow> ends m f (items_len us) d =
    (case subtree d xs of None \<Rightarrow> - FDT_ERR_NOTFOUND | Some (ys, _) \<Rightarrow> int (items_len (us @ ys)))"
proof (induction xs arbitrary: us d)
  case Nil
  have "fdt_next_tag m f (int (items_len us)) = (FDT_END, int (items_len us) + 4)"
    by (rule next_tag_end[OF rw items_len_mod]) (use Nil in \<open>simp_all add: holds_items_def\<close>)
  then show ?case by (simp add: ends_def next_node_loop.simps[of m f "int (items_len us)"] node_end_loop.simps)
next
  case (Cons x xs)
  have IH: "ends m f (items_len us + item_len x) e =
    (case subtree e xs of None \<Rightarrow> - FDT_ERR_NOTFOUND | Some (ys, _) \<Rightarrow> int (items_len (us @ x # ys)))" for e
    using Cons.IH[of "us @ [x]" e] Cons.prems by (simp split: option.split)
  note step = ends_step[OF holds_there[OF rw Cons.prems], of d]
  show ?case
  proof (cases x)
    case (Node t)
    with step IH[of "Suc d"] show ?thesis by (cases "subtree (Suc d) xs") (auto simp del: item_len.simps)
  next
    case End_node
    with step IH[of "d - 1"] show ?thesis by (cases "subtree (d - 1) xs") auto
  next
    case (Prop s v)
    with step IH[of d] show ?thesis by (cases "subtree d xs") (auto simp del: item_len.simps)
  next
    case Nop
    with step IH[of d] show ?thesis by (cases "subtree d xs") (auto simp del: item_len.simps)
  qed
qed

text \<open>Removing a node removes its items, to the end of the node, and no other.\<close>

lemma del_node_items:
  assumes rw: "rw_tree m f" and h: "holds_items m f (us @ Node t # xs)" and r: "fdt_del_node m f (int (items_len us)) = (0, m')"
  shows "\<exists>ys zs. subtree 0 xs = Some (ys, zs) \<and> xs = ys @ zs \<and> rw_tree m' f \<and> holds_items m' f (us @ zs)"
proof -
  note td = thereD[OF holds_there[OF rw h]]
  let ?e = "fdt_node_end_offset' m f (int (items_len us))"
  have c: "fdt_check_node_offset' m f (int (items_len us)) = int (items_len (us @ [Node t]))"
    using td by (simp add: fdt_check_node_offset'_def)
  have "?e = ends m f (items_len (us @ [Node t])) 0"
    unfolding fdt_node_end_offset'_def using c
    by (subst node_end_loop.simps) (simp add: ends_def fdt_next_node_def del: item_len.simps)
  with ends_items[OF rw, of "us @ [Node t]" xs 0] h
  have e: "?e = (case subtree 0 xs of None \<Rightarrow> - FDT_ERR_NOTFOUND | Some (ys, _) \<Rightarrow> int (items_len (us @ Node t # ys)))"
    by (simp split: option.split)
  obtain ys zs where s: "subtree 0 xs = Some (ys, zs)"
    using r e rw_probe_ok[OF rw] by (cases "subtree 0 xs") (auto simp: fdt_del_node_def)
  note xs = subtree_split[OF s]
  have h': "holds_items m f (us @ (Node t # ys) @ zs)" using h xs by simp
  have sp: "fdt_splice_struct' m f (f + fdt_off_dt_struct m f + int (items_len us) + 0)
    (int (items_len (Node t # ys)) - 0) (int (items_len []) - 0) = (0, m')"
    using r e s rw_probe_ok[OF rw] by (simp add: fdt_del_node_def fdt_offset_ptr'_def)
  note S = splice_items[OF rw h' refl sp _ _ _ _ writes_in_refl]
  have "holds_items m' f (us @ [] @ zs)" by (rule S(5)) simp_all
  with S(1) s xs show ?thesis by simp
qed

section \<open>Adding and naming nodes\<close>

lemma skip_items:
  assumes rw: "rw_tree m f"
  shows "holds_items m f (us @ xs) \<Longrightarrow> add_subnode_skip m f (int (items_len us)) = int (items_len (us @ takeWhile is_prop xs))"
proof (induction xs arbitrary: us)
  case Nil
  have "fdt_next_tag m f (int (items_len us)) = (FDT_END, int (items_len us) + 4)"
    by (rule next_tag_end[OF rw items_len_mod]) (use Nil in \<open>simp_all add: holds_items_def\<close>)
  then show ?case by (simp add: add_subnode_skip.simps[of m f "int (items_len us)"])
next
  case (Cons x xs)
  note td = thereD(1)[OF holds_there[OF rw Cons.prems]]
  have "add_subnode_skip m f (int (items_len us + item_len x)) = int (items_len (us @ x # takeWhile is_prop xs))"
    using Cons.IH[of "us @ [x]"] Cons.prems by simp
  with td show ?case
    by (cases x) (simp_all add: add_subnode_skip.simps[of m f "int (items_len us)"] del: item_len.simps)
qed

lemma put_subnode_end:
  "fdt32_ld' (put_subnode m p name n k) (p + k - 4) = FDT_END_NODE"
  by (simp add: put_subnode_def Let_def ld_store32_same)

lemma add_subnode_items:
  assumes rw: "rw_tree m f" and h: "holds_items m f (us @ Node t # xs)" and name: "points_to_str name s" "length s \<le> 2147483631"
    and r: "fdt_add_subnode m f (int (items_len us)) name = Some (off, m')" "0 \<le> off"
  shows "rw_tree m' f \<and> holds_items m' f (us @ Node t # add_child s xs) \<and> find_child s 0 xs = None \<and>
    off = int (items_len (us @ Node t # takeWhile is_prop xs))"
proof -
  let ?n = "int (length s)" and ?k = "4 + FDT_ALIGN (int (length s) + 1) 4 + 4" and ?ps = "takeWhile is_prop xs"
  have l: "strlen name = Some ?n" "s32 ?n = ?n" using strlen_points_to[OF name(1)] name(2) by (simp_all add: s32_id)
  have r': "fdt_add_subnode_namelen m f (int (items_len us)) name ?n = Some (off, m')"
    using r(1) l by (simp add: fdt_add_subnode_def)
  note td = thereD[OF holds_there[OF rw h]]
  obtain nx m1 where nx: "fdt_next_tag m f (int (items_len us)) = (FDT_BEGIN_NODE, nx)" and off: "off = add_subnode_skip m f nx"
    and sp: "fdt_splice_struct' m f (fdt_offset_ptr' m f off) 0 ?k = (0, m1)"
    and m': "m' = put_subnode m1 (fdt_offset_ptr' m f off) name ?n ?k"
    by (rule add_subnode_success[OF rw _ _ r' r(2)]) (use name(2) in simp_all)
  have off': "off = int (items_len (us @ Node t # ?ps))"
    using skip_items[OF rw, of "us @ [Node t]" xs] h td nx off by (simp del: item_len.simps)
  have none: "find_child s 0 xs = None"
  proof (rule ccontr)
    assume "find_child s 0 xs \<noteq> None"
    moreover have "bytes_at name (length s) = s" using name(1) by (simp add: points_to_str_def)
    ultimately have "\<exists>so\<ge>0. fdt_subnode_offset_namelen m f (int (items_len us)) name ?n = Some so"
      using subnode_items[OF rw h, of "length s" name] name(2) by auto
    then show False using r' r(2) rw_probe_ok[OF rw] by (auto simp: fdt_add_subnode_namelen_def)
  qed
  let ?p = "f + fdt_off_dt_struct m f + int (items_len (us @ Node t # ?ps))" and ?new = "[Node s, End_node]"
  have p: "fdt_offset_ptr' m f off = ?p" by (simp add: off' fdt_offset_ptr'_def)
  have al: "FDT_ALIGN (?n + 1) 4 = int (pad4 (1 + length s))" using pad4_align[of "1 + length s"] name(2) by (simp add: add.commute)
  have k: "?k = int (items_len ?new)" using al by (simp add: pad4_add)
  have h': "holds_items m f ((us @ Node t # ?ps) @ [] @ dropWhile is_prop xs)" using h by simp
  have sp': "fdt_splice_struct' m f (?p + 0) (int (items_len []) - 0) (int (items_len ?new) - 0) = (0, m1)"
    using sp p k by simp
  have w: "writes_in ?p (int (items_len ?new)) m1 m'"
    unfolding m' p k[symmetric] by (rule put_subnode_writes) (use name(2) in simp_all)
  have small: "items_len ?new \<le> 2147483647" using name(2) pad4_bounds(2)[of "5 + length s"] by simp
  note S = splice_items[OF rw h' refl sp' _ _ _ small w]
  have "item_at m' (name_at m' f) ?p (Node s)"
    using put_subnode_item[OF name(1) _ refl, of m1 ?p] name(2) by (simp add: item_at_def m' p)
  moreover have "item_at m' (name_at m' f) (?p + int (item_len (Node s))) End_node"
    using put_subnode_end[of m1 ?p name ?n "int (items_len ?new)"] unfolding m' p k item_at_def by (simp add: algebra_simps)
  ultimately have "items_at m' (name_at m' f) ?p ?new" by simp
  then have "holds_items m' f ((us @ Node t # ?ps) @ ?new @ dropWhile is_prop xs)" by (intro S(5)) simp_all
  with S(1) none off' show ?thesis by (simp add: add_child_def)
qed

text \<open>Renaming a node changes its name in the list.\<close>

lemma set_name_items:
  assumes rw: "rw_tree m f" and h: "holds_items m f (us @ Node t # xs)" and name: "points_to_str name s" "length s \<le> 2147483631"
    and r: "fdt_set_name m f (int (items_len us)) name = Some (0, m')"
  shows "rw_tree m' f \<and> holds_items m' f (us @ Node s # xs)"
proof -
  have l: "strlen name = Some (int (length s))" "s32 (int (length s)) = int (length s)"
    using strlen_points_to[OF name(1)] name(2) by (simp_all add: s32_id)
  have th: "there m f (items_len us) (Node t)" by (rule holds_there[OF rw h])
  note td = thereD[OF th]
  let ?P = "f + fdt_off_dt_struct m f + int (items_len us)"
  have c: "0 \<le> fdt_check_node_offset' m f (int (items_len us))" using td(1,3) by (simp add: fdt_check_node_offset'_def)
  have pt: "points_to_str (rd m (?P + 4)) t" using th by (simp add: there_def item_at_def)
  have ptr: "fdt_offset_ptr' m f (int (items_len us) + 4) = ?P + 4" by (simp add: fdt_offset_ptr'_def)
  have gn: "fdt_get_name m f (int (items_len us)) = Some (Some (?P + 4), int (length t))"
    using fdt_get_name_spec[OF rw td(2) c] points_to_str_unique[OF pt] unfolding ptr by blast
  have lt: "length t \<le> 2147483590"
    using th rw_tree_bounds(4)[OF rw] pad4_bounds(1)[of "5 + length t"] by (simp add: there_def)
  have al: "FDT_TAGALIGN (int (length t) + 1) = int (pad4 (5 + length t)) - 4" "FDT_TAGALIGN (int (length s) + 1) = int (pad4 (5 + length s)) - 4"
    using pad4_align[of "1 + length t"] pad4_align[of "1 + length s"] lt name(2) pad4_add(2) by (simp_all add: add.commute)
  have z: "sz (int (length s) + 1) = length s + 1" using name(2) sz_id[of "int (length s) + 1"] by simp
  obtain m1 where sp: "fdt_splice_struct' m f (?P + 4) (int (items_len [Node t]) - 4) (int (items_len [Node s]) - 4) = (0, m1)"
    and m': "m' = memcpy_from m1 (?P + 4) name (length s + 1)"
    using r gn l al z rw_probe_ok[OF rw] by (auto simp: fdt_set_name_def Let_def split: prod.splits if_splits)
  have h': "holds_items m f (us @ [Node t] @ xs)" using h by simp
  have w: "writes_in ?P (int (items_len [Node s])) m1 m'"
    using pad4_bounds(1)[of "5 + length s"] by (auto simp: writes_in_def m' memcpy_from_spec)
  have small: "items_len [Node s] \<le> 2147483647" using name(2) pad4_bounds(2)[of "5 + length s"] by simp
  have j: "4 \<le> int (items_len [Node t])" "4 \<le> int (items_len [Node s])" using item_len_bounds(1)[of "Node t"] item_len_bounds(1)[of "Node s"] by simp_all
  note S = splice_items[OF rw h' refl sp _ j small w]
  have "fdt32_ld' m' ?P = fdt32_ld' m ?P"
  proof (rule ld_same)
    fix a assume a: "?P \<le> a" "a < ?P + 4"
    then have "m1 a = m a" by (intro S(4)) (use a j rw_tree_bounds(1)[OF rw] in simp_all)
    with a show "m' a = m a" by (simp add: m' memcpy_from_spec)
  qed
  moreover have "points_to_str (rd m' (?P + 4)) s"
    by (rule points_to_str_moved[OF _ name(1)]) (simp add: m' memcpy_from_spec)
  ultimately have "items_at m' (name_at m' f) ?P [Node s]" using th by (simp add: item_at_def there_def)
  then have "holds_items m' f (us @ [Node s] @ xs)" by (intro S(5)) simp_all
  with S(1) show ?thesis by simp
qed

end
