(* ===== verification/Fdt_Room.thy ===== *)
theory Fdt_Room
  imports Fdt_Children
begin

text \<open>
  Edits that have room succeed (\<open>src/src/libfdt/fdt_rw.c\<close>): the blocks of the tree, with what the edit adds, end
  inside of \<open>totalsize\<close>.
\<close>

section \<open>Splices\<close>

lemma data_size_bounds:
  assumes "rw_tree m f"
  shows "fdt_off_dt_struct m f + fdt_size_dt_struct m f \<le> fdt_data_size' m f" "fdt_data_size' m f \<le> 2147483646"
    "fdt_off_dt_strings m f \<le> fdt_data_size' m f"
  using rw_treeD[OF assms] rw_tree_bounds[OF assms] unfolding fdt_data_size_eq[OF assms] by linarith+

lemma splice_room:
  assumes rw: "rw_tree m f" and p: "f \<le> p" "0 \<le> k" "p + k \<le> f + fdt_data_size' m f"
    and n: "0 \<le> n" "n \<le> 2147483647" "fdt_data_size' m f - k + n \<le> fdt_totalsize m f"
  shows "\<exists>m1. fdt_splice' m f p k n = (0, m1)"
proof -
  note b = rw_treeD[OF rw] rw_tree_bounds[OF rw]
  let ?d = "fdt_data_size' m f"
  have d: "0 \<le> ?d" "?d \<le> 2147483646" using b by (simp_all add: fdt_data_size_eq[OF rw])
  have u: "u64 (p - f) = p - f" "u64 (p - f + k) = p - f + k" "u32 (?d + n) = ?d + n" "u32 k = k" "u32 (?d - k + n) = ?d - k + n"
    using p n d by (auto intro!: u64_id u32_id)
  then show ?thesis using p n by (simp add: fdt_splice'_def Let_def)
qed

lemma splice_struct_room:
  assumes "rw_tree m f" "f \<le> p" "0 \<le> k" "p + k \<le> f + fdt_data_size' m f" "0 \<le> n" "n \<le> 2147483647"
    "fdt_data_size' m f - k + n \<le> fdt_totalsize m f"
  shows "\<exists>m1. fdt_splice_struct' m f p k n = (0, m1)"
  using splice_room[OF assms] by (auto simp: fdt_splice_struct'_def Let_def)

lemma find_add_string_room:
  assumes rw: "rw_tree m f" and l: "strlen name = Some l" "l < 2147483647" and room: "fdt_data_size' m f + l + 1 \<le> fdt_totalsize m f"
  shows "\<exists>so al m1. fdt_find_add_string' m f name = Some (so, al, m1) \<and> 0 \<le> so \<and> rw_tree m1 f \<and>
    fdt_data_size' m1 f \<le> fdt_data_size' m f + l + 1 \<and> fdt_totalsize m1 f = fdt_totalsize m f \<and>
    fdt_off_dt_struct m1 f = fdt_off_dt_struct m f \<and> fdt_size_dt_struct m1 f = fdt_size_dt_struct m f"
proof -
  note b = rw_treeD[OF rw] rw_tree_bounds[OF rw]
  have l0: "0 \<le> l" using l(1) strlen_Some_iff by simp
  let ?t = "f + fdt_off_dt_strings m f" and ?s = "fdt_size_dt_strings m f"
  have ss: "s32 ?s = ?s" by (rule s32_id) (use b in linarith)+
  have len: "s32 (l + 1) = l + 1" "sz (l + 1) = nat (l + 1)" using l(2) l0 by (simp_all add: s32_id sz_id)
  note len = len ss
  obtain so al m1 where fa: "fdt_find_add_string' m f name = Some (so, al, m1)" using fdt_find_add_string_returns[OF l(1)] by blast
  obtain q where q: "fdt_find_string' m ?t ?s name = Some q" using l(1) by (simp add: fdt_find_string'_def Let_def)
  have so: "0 \<le> so"
  proof (cases q)
    case (Some p)
    with q l(1) len have "find_string_loop m ?t (?t + ?s - (l + 1)) name (nat (l + 1)) = Some p"
      by (simp add: fdt_find_string'_def Let_def)
    note fs = find_string_loop_Some[OF this]
    have "s32 (p - ?t) = p - ?t" by (rule s32_id) (use fs b l0 in linarith)+
    then show ?thesis using fs fa l(1) q Some len by (auto simp: fdt_find_add_string'_def Let_def)
  next
    case None
    have "\<exists>m2. fdt_splice' m f (?t + ?s) 0 (l + 1) = (0, m2)"
      by (rule splice_room[OF rw]) (use fdt_data_size_eq[OF rw] b l0 l(2) room in simp_all)
    then obtain m2 where "fdt_splice_string' m f (l + 1) = (0, m2)" by (auto simp: fdt_splice_string'_def)
    then show ?thesis using fa l(1) q None len by (auto simp: fdt_find_add_string'_def Let_def)
  qed
  then have "\<not> so < 0" by simp
  note s = fdt_find_add_string_spec[OF rw l fa, unfolded if_not_P[OF this]]
  then have rw1: "rw_tree m1 f" using edited_rw by blast
  have "fdt_data_size' m1 f \<le> fdt_data_size' m f + l + 1"
    using s l0 by (simp add: fdt_data_size_eq[OF rw] fdt_data_size_eq[OF rw1])
  with fa so s rw1 show ?thesis by (simp add: edited_def)
qed

section \<open>Properties and nodes\<close>

lemma setprop_room:
  assumes rw: "rw_tree m f" and h: "holds_items m f (us @ Node t # xs)" and open_end: "\<not> list_all is_prop xs"
    and name: "points_to_str name s" "length s \<le> 2147483631" and n: "n \<le> 2147483632"
    and room: "fdt_data_size' m f + 12 + int (pad4 n) + int (length s) + 1 \<le> fdt_totalsize m f"
  shows "\<exists>m'. fdt_setprop m f (int (items_len us)) name val (int n) = Some (0, m')"
proof -
  note b = rw_treeD[OF rw] rw_tree_bounds[OF rw]
  have l: "strlen name = Some (int (length s))" "s32 (int (length s)) = int (length s)"
    using strlen_points_to[OF name(1)] name(2) by (simp_all add: s32_id)
  have fit: "f + fdt_off_dt_struct m f + int (items_len us) + int (item_len (Node t)) + int (items_len xs) + 4 \<le> f + fdt_data_size' m f"
    using h data_size_bounds(1)[OF rw] by (simp add: holds_items_def)
  have al: "FDT_ALIGN (int n) 4 = int (pad4 n)" "FDT_TAGALIGN (int n) = int (pad4 n)" "s32 (12 + int (pad4 n)) = 12 + int (pad4 n)"
    using pad4_align[of n] pad4_bounds(2)[of n] n by (simp_all add: s32_id)
  show ?thesis
  proof (cases "get_prop s xs")
    case None
    obtain e where g: "fdt_get_property m f (int (items_len us)) name = Some (None, e)" "e = - FDT_ERR_NOTFOUND"
      using search_missing[OF rw h name(1) None] open_end l rw_treeD(6)[OF rw]
      by (fastforce simp: fdt_get_property_def fdt_get_property_namelen_def)
    obtain so al' m1 where fa: "fdt_find_add_string' m f name = Some (so, al', m1)" "0 \<le> so" "rw_tree m1 f"
      "fdt_data_size' m1 f \<le> fdt_data_size' m f + int (length s) + 1" "fdt_totalsize m1 f = fdt_totalsize m f"
      "fdt_off_dt_struct m1 f = fdt_off_dt_struct m f" "fdt_size_dt_struct m1 f = fdt_size_dt_struct m f"
      using find_add_string_room[OF rw l(1)] name(2) room by auto
    note c = property_search(2)[OF rw h name(1)]
    let ?p = "fdt_offset_ptr' m1 f (int (items_len (us @ [Node t])))"
    have "\<exists>m2. fdt_splice_struct' m1 f ?p 0 (12 + int (pad4 n)) = (0, m2)"
    proof (rule splice_struct_room[OF fa(3)])
      show "?p + 0 \<le> f + fdt_data_size' m1 f"
        using h fa(6,7) data_size_bounds(1)[OF fa(3)] by (simp add: fdt_offset_ptr'_def holds_items_def)
    qed (use b fa room n pad4_bounds(2)[of n] in \<open>simp_all add: fdt_offset_ptr'_def\<close>)
    then obtain m2 where "fdt_splice_struct' m1 f ?p 0 (12 + int (pad4 n)) = (0, m2)" by blast
    then have "\<exists>p m3. fdt_add_property' m f (int (items_len us)) name (int n) = Some (0, p, m3)"
      using fa(1,2) c al by (simp add: fdt_add_property'_def Let_def del: item_len.simps)
    then show ?thesis
      using g rw_probe_ok[OF rw] by (auto simp: fdt_setprop_def fdt_setprop_placeholder_def fdt_resize_property'_def)
  next
    case (Some v)
    obtain ys zs where xs: "xs = ys @ Prop s v # zs"
      and g: "fdt_get_property m f (int (items_len us)) name =
        Some (Some (f + fdt_off_dt_struct m f + int (items_len (us @ Node t # ys))), int (length v))"
      using get_property_items[OF rw h name] Some by auto
    let ?p = "f + fdt_off_dt_struct m f + int (items_len (us @ Node t # ys))"
    have lv: "length v < 2147483645" using fit xs b data_size_bounds(2)[OF rw] pad4_bounds(1)[of "length v"] by simp
    then have alv: "FDT_TAGALIGN (int (length v)) = int (pad4 (length v))" using pad4_align by blast
    have "\<exists>m2. fdt_splice_struct' m f (?p + 12) (int (pad4 (length v))) (int (pad4 n)) = (0, m2)"
      by (rule splice_struct_room[OF rw]) (use fit xs b room n pad4_bounds(2)[of n] in simp_all)
    then show ?thesis
      using g al alv rw_probe_ok[OF rw] by (auto simp: fdt_setprop_def fdt_setprop_placeholder_def fdt_resize_property'_def)
  qed
qed

lemma add_subnode_room:
  assumes rw: "rw_tree m f" and h: "holds_items m f (us @ Node t # xs)" and name: "points_to_str name s" "length s \<le> 2147483631"
    and new: "find_child s 0 xs = None" and room: "fdt_data_size' m f + int (pad4 (5 + length s)) + 4 \<le> fdt_totalsize m f"
  shows "\<exists>off m'. fdt_add_subnode m f (int (items_len us)) name = Some (off, m') \<and> 0 \<le> off \<and>
    fdt_data_size' m' f = fdt_data_size' m f + int (pad4 (5 + length s)) + 4 \<and> fdt_totalsize m' f = fdt_totalsize m f"
proof -
  note b = rw_treeD[OF rw] rw_tree_bounds[OF rw]
  let ?n = "int (length s)"
  have l: "strlen name = Some ?n" "s32 ?n = ?n" "bytes_at name (length s) = s"
    using strlen_points_to[OF name(1)] name by (simp_all add: s32_id points_to_str_def)
  have so: "fdt_subnode_offset_namelen m f (int (items_len us)) name ?n = Some (- FDT_ERR_NOTFOUND)"
    using subnode_items[OF rw h, of "length s" name] name(2) l(3) new by simp
  note td = thereD(1)[OF holds_there[OF rw h]]
  let ?k = "items_len (us @ Node t # takeWhile is_prop xs)"
  have sk: "add_subnode_skip m f (int (items_len us + item_len (Node t))) = int ?k"
    using skip_items[OF rw, of "us @ [Node t]" xs] h by simp
  have len: "items_len (takeWhile is_prop xs) \<le> items_len xs"
    using arg_cong[OF takeWhile_dropWhile_id[of is_prop xs], of items_len] by (simp del: takeWhile_dropWhile_id)
  let ?p = "fdt_offset_ptr' m f (int ?k)" and ?new = "int (pad4 (5 + length s)) + 4"
  have al: "s32 (4 + FDT_ALIGN (?n + 1) 4 + 4) = ?new"
    using pad4_align[of "1 + length s"] pad4_add(2)[of "length s"] name(2) pad4_bounds(2)[of "1 + length s"] by (simp add: add.commute s32_id)
  have P: "f \<le> ?p" "0 \<le> (0::int)" "?p + 0 \<le> f + fdt_data_size' m f" "0 \<le> ?new" "?new \<le> 2147483647"
    using h b len name(2) pad4_bounds(2)[of "5 + length s"] data_size_bounds(1)[OF rw] by (simp_all add: fdt_offset_ptr'_def holds_items_def)
  obtain m1 where sp: "fdt_splice_struct' m f ?p 0 ?new = (0, m1)"
    using splice_struct_room[OF rw P] room by auto
  define m' where "m' = put_subnode m1 ?p name ?n ?new"
  have r: "fdt_add_subnode m f (int (items_len us)) name = Some (int ?k, m')"
    using l so td sk al sp rw_probe_ok[OF rw] by (simp add: fdt_add_subnode_def fdt_add_subnode_namelen_def m'_def Let_def del: item_len.simps)
  have P2: "f + fdt_off_dt_struct m f \<le> ?p" "?p - f < 18446744073709551616" "is_int 0" "0 \<le> fdt_size_dt_struct m f + ?new"
    using P b data_size_bounds(2)[OF rw] by (simp_all add: fdt_offset_ptr'_def is_int_def)
  note s = fdt_splice_struct_spec[OF rw sp P2(1-3) P(4,5) P2(4), simplified]
  have w: "writes_in ?p ?new m1 m'"
  proof -
    have "4 + FDT_ALIGN (?n + 1) 4 + 4 = ?new"
      using pad4_align[of "1 + length s"] pad4_add(2)[of "length s"] name(2) by (simp add: add.commute)
    with put_subnode_writes[of ?n ?p m1 name] name(2) show ?thesis by (simp add: m'_def)
  qed
  have head: "same_on f 40 m1 m'" by (rule writes_in_same_on[OF w]) (use P2(1) b in linarith)
  have rw': "rw_tree m' f" using rw_tree_cong[OF head] s by blast
  have "fdt_data_size' m' f = fdt_data_size' m f + ?new"
    using s same_header[OF head] by (simp add: fdt_data_size_eq[OF rw] fdt_data_size_eq[OF rw'])
  then show ?thesis using r s same_header[OF head] by auto
qed

end
