(* ===== verification/Boot_Items.thy ===== *)
theory Boot_Items
  imports Boot_Dtb Fdt_Room
begin

text \<open>
  What \<open>fdt_add_bootargs\<close> of \<open>src/src/main.c\<close> does to the items of the tree: it sets one property of one
  node, which it adds if it has to, and keeps all the others.
\<close>

section \<open>The tree with the command line\<close>

abbreviation "BOOTARGS \<equiv> str ''bootargs''"

definition with_chosen :: "(item list \<Rightarrow> item list) \<Rightarrow> item list \<Rightarrow> item list" where
  "with_chosen g xs = (case find_child CHOSEN 0 xs of
       Some (ys, t, zs) \<Rightarrow> ys @ Node t # g zs
     | None \<Rightarrow> takeWhile is_prop xs @ Node CHOSEN # g (End_node # dropWhile is_prop xs))"

text \<open>The items behind the root node are \<open>xs\<close>.\<close>

definition set_bootargs :: "byte list \<Rightarrow> item list \<Rightarrow> item list" where
  "set_bootargs args = with_chosen (set_prop BOOTARGS (args @ [0]))"

lemma find_set_bootargs:
  "\<exists>ys t zs. find_child CHOSEN 0 (set_bootargs args xs) = Some (ys, t, zs) \<and> get_prop BOOTARGS zs = Some (args @ [0])"
proof (cases "find_child CHOSEN 0 xs")
  case None
  have "find_child CHOSEN 0 (takeWhile is_prop xs @ Node CHOSEN # zs) = Some (takeWhile is_prop xs, CHOSEN, zs)" for zs
    using find_child_again[OF find_added_child[of CHOSEN xs, unfolded add_child_def]] by blast
  with None get_set_prop show ?thesis unfolding set_bootargs_def with_chosen_def by (simp del: find_child.simps)
next
  case (Some r)
  obtain ys t zs where r: "r = (ys, t, zs)" by (cases r)
  have "find_child CHOSEN 0 (ys @ Node t # zs') = Some (ys, t, zs')" for zs'
    using find_child_again[of CHOSEN 0 ys t zs zs'] find_child_split[OF Some[unfolded r]] Some r by simp
  with Some r get_set_prop show ?thesis unfolding set_bootargs_def with_chosen_def by (simp del: find_child.simps)
qed

section \<open>The call\<close>

lemma chosen_items:
  assumes rw: "rw_tree m f" and h: "holds_items m f (Node t # xs)"
  shows "fdt_path_offset m f (chars ''/chosen'') =
    Some (case find_child CHOSEN 0 xs of None \<Rightarrow> - FDT_ERR_NOTFOUND | Some (ys, _) \<Rightarrow> int (items_len (Node t # ys)))"
  using subnode_items[OF rw, of "[]" t xs 6 "shift (lit (47 # CHOSEN)) 1"] h path_chosen[of m f] ro_probe_rw[OF rw] chosen_bytes
  by (simp split: option.split)

lemma bootargs_items:
  assumes r: "fdt_add_bootargs m f (Some args) = Some (Inr m')" and args: "cstring args" "length args \<le> 2147483631"
    and rw: "rw_tree m f" and h: "holds_items m f (Node t # xs)"
  shows "rw_tree m' f \<and> holds_items m' f (Node t # set_bootargs args xs)"
proof -
  obtain o1 node m1 ret where c: "fdt_path_offset m f (chars ''/chosen'') = Some o1"
    "(if o1 = - 1 then fdt_add_subnode m f 0 (chars ''chosen'') else Some (o1, m)) = Some (node, m1)" "0 \<le> node"
    "fdt_setprop m1 f node (chars ''bootargs'') (lit args) (int (length args) + 1) = Some (ret, m')" "0 \<le> ret"
    by (rule add_bootargs_calls[OF r args])
  have ln: "strlen (chars ''bootargs'') = Some 8" using strlen_points_to[OF bootargs_name(1)] by (simp add: str_def)
  have len: "int (length args + 1) = int (length args) + 1" "length args + 1 \<le> 2147483632" using args(2) by simp_all
  have val: "bytes_at (lit args) (length args + 1) = args @ [0]" using bootargs_value[OF args(1)] by (simp add: nat_add_distrib)
  have set: "rw_tree m' f \<and> holds_items m' f (us @ Node u # set_prop BOOTARGS (args @ [0]) zs)"
    if "rw_tree m1 f" "holds_items m1 f (us @ Node u # zs)" "node = int (items_len us)" for us u zs
  proof -
    have "ret = 0" using setprop_nonpos[OF c(4) that(1) ln] c(5) by simp
    with setprop_items[OF that(1,2) bootargs_name len(2), of "lit args" m'] c(4) that(3) len(1) val show ?thesis by (simp add: add.commute)
  qed
  show ?thesis
  proof (cases "find_child CHOSEN 0 xs")
    case None
    then have "o1 = - 1" using chosen_items[OF rw h] c(1) by simp
    then have ad: "fdt_add_subnode m f (int (items_len [])) (chars ''chosen'') = Some (node, m1)" using c(2) by simp
    have nm: "points_to_str (chars ''chosen'') CHOSEN" "length CHOSEN \<le> 2147483631" using chosen_str by simp_all
    note a = add_subnode_items[OF rw _ nm ad c(3), of t xs]
    then have "rw_tree m1 f" "holds_items m1 f ((Node t # takeWhile is_prop xs) @ Node CHOSEN # End_node # dropWhile is_prop xs)"
      "node = int (items_len (Node t # takeWhile is_prop xs))"
      using h by (simp_all add: add_child_def)
    from set[OF this] None show ?thesis by (simp add: set_bootargs_def with_chosen_def)
  next
    case (Some r)
    obtain ys u zs where r: "r = (ys, u, zs)" by (cases r)
    have o1: "o1 = int (items_len (Node t # ys))" using chosen_items[OF rw h] c(1) Some r by simp
    then have n: "m1 = m" "node = o1" using c(2) by (simp_all split: if_splits)
    have "holds_items m1 f ((Node t # ys) @ Node u # zs)" using h n find_child_split[OF Some[unfolded r]] by simp
    from set[OF _ this] rw n o1 Some r show ?thesis by (simp add: set_bootargs_def with_chosen_def)
  qed
qed

lemma add_bootargs_returns:
  assumes rw: "rw_tree m f" and args: "cstring args"
  shows "\<exists>r. fdt_add_bootargs m f (Some args) = Some r"
proof -
  have i0: "is_int 0" by (simp add: is_int_def)
  obtain o1 where o1: "fdt_path_offset m f (chars ''/chosen'') = Some o1" "is_int o1"
    using subnode_loop_returns[OF rw i0] ro_probe_rw[OF rw] by (fastforce simp: path_chosen fdt_subnode_offset_namelen_def)
  have lc: "strlen (chars ''chosen'') = Some 6" using strlen_points_to[of "lit CHOSEN" CHOSEN] chosen_str by simp
  have ln: "strlen (chars ''bootargs'') = Some 8" using strlen_points_to[OF bootargs_name(1)] by (simp add: str_def)
  have la: "strlen (lit args) = Some (int (length args))" using strlen_points_to[of "lit args" args] args by simp
  have set: "\<exists>ret m'. fdt_setprop mx f node (chars ''bootargs'') (lit args) l = Some (ret, m')"
    for mx node l
    using fdt_setprop_returns[OF ln] by blast
  obtain e m1 where ad: "fdt_add_subnode m f 0 (chars ''chosen'') = Some (e, m1)"
    using fdt_add_subnode_returns[OF rw_tree_checks[OF rw] i0 lc] by blast
  obtain node m2 where nd: "(if o1 = - 1 then fdt_add_subnode m f 0 (chars ''chosen'') else Some (o1, m)) = Some (node, m2)"
    using ad by (cases "o1 = - 1") auto
  obtain ret m3 where st: "fdt_setprop m2 f node (chars ''bootargs'') (lit args) (s32 (int (length args) + 1)) = Some (ret, m3)"
    using set by blast
  show ?thesis using o1(1) nd la st by (simp add: fdt_add_bootargs_def)
qed

section \<open>Room for the command line\<close>

text \<open>The items end with the end of the root node, and there are 41 bytes more than the command line: the
  node \<open>/chosen\<close>, the property, its name and padding.\<close>

definition takes_args :: "mem \<Rightarrow> addr \<Rightarrow> byte list \<Rightarrow> bool" where
  "takes_args m f args \<longleftrightarrow> (\<exists>t xs. holds_items m f (Node t # xs) \<and> xs \<noteq> [] \<and> last xs = End_node) \<and>
     fdt_off_dt_strings m f + fdt_size_dt_strings m f + int (length args) + 41 \<le> fdt_totalsize m f"

lemma bootargs_room:
  assumes rw: "rw_tree m f" and args: "cstring args" "length args \<le> 2147483631" and room: "takes_args m f args"
  shows "\<exists>m'. fdt_add_bootargs m f (Some args) = Some (Inr m')"
proof -
  obtain t xs where h: "holds_items m f (Node t # xs)" and e: "xs \<noteq> []" "last xs = End_node" using room by (auto simp: takes_args_def)
  have R: "fdt_data_size' m f + int (length args) + 41 \<le> fdt_totalsize m f"
    using room by (simp add: takes_args_def fdt_data_size_eq[OF rw])
  have l: "strlen (lit args) = Some (int (length args))" using strlen_points_to[of "lit args" args] args(1) by simp
  have sl: "s32 (int (length args) + 1) = int (length args + 1)" using args(2) by (simp add: s32_id)
  have len: "length args + 1 \<le> 2147483632" using args(2) by simp
  have pad: "pad4 (length args + 1) \<le> length args + 4" using pad4_bounds(2)[of "length args + 1"] by simp
  have bl: "length BOOTARGS = 8" by (simp add: str_def)
  have hd: "fdt_check_header m f = 0" by (rule rw_tree_checks[OF rw])
  have set: "\<exists>m'. fdt_setprop m1 f (int (items_len us)) (chars ''bootargs'') (lit args) (int (length args + 1)) = Some (0, m')"
    if "rw_tree m1 f" "holds_items m1 f (us @ Node u # zs)" "End_node \<in> set zs"
      "fdt_data_size' m1 f + int (length args) + 25 \<le> fdt_totalsize m1 f" for m1 us u zs
  proof (rule setprop_room[OF that(1,2) _ bootargs_name len])
    show "\<not> list_all is_prop zs" using that(3) by (auto simp: list_all_iff intro!: bexI[of _ End_node])
    show "fdt_data_size' m1 f + 12 + int (pad4 (length args + 1)) + int (length BOOTARGS) + 1 \<le> fdt_totalsize m1 f"
      using that(4) pad bl by linarith
  qed
  show ?thesis
  proof (cases "find_child CHOSEN 0 xs")
    case None
    then have o1: "fdt_path_offset m f (chars ''/chosen'') = Some (- 1)" using chosen_items[OF rw h] by simp
    have nm: "points_to_str (chars ''chosen'') CHOSEN" "length CHOSEN \<le> 2147483631" using chosen_str by simp_all
    have h': "holds_items m f ([] @ Node t # xs)" using h by simp
    have n: "int (pad4 (5 + length CHOSEN)) = 12" using chosen_str(4) by (simp add: pad4_def)
    have rm: "fdt_data_size' m f + int (pad4 (5 + length CHOSEN)) + 4 \<le> fdt_totalsize m f" unfolding n using R by simp
    obtain off m1 where ad: "fdt_add_subnode m f 0 (chars ''chosen'') = Some (off, m1)" "0 \<le> off"
      "fdt_data_size' m1 f = fdt_data_size' m f + 16" "fdt_totalsize m1 f = fdt_totalsize m f"
      using add_subnode_room[OF rw h' nm None rm] unfolding n by auto
    from add_subnode_items[OF rw h' nm] ad(1,2) have a: "rw_tree m1 f"
      "holds_items m1 f ((Node t # takeWhile is_prop xs) @ Node CHOSEN # End_node # dropWhile is_prop xs)"
      "off = int (items_len (Node t # takeWhile is_prop xs))"
      by (simp_all add: add_child_def)
    obtain m' where "fdt_setprop m1 f off (chars ''bootargs'') (lit args) (int (length args + 1)) = Some (0, m')"
      using set[OF a(1,2)] ad(3,4) R unfolding a(3) by auto
    with o1 ad(1,2) l sl hd show ?thesis by (simp add: fdt_add_bootargs_def)
  next
    case (Some r)
    obtain ys u zs where r: "r = (ys, u, zs)" by (cases r)
    have xs: "xs = ys @ Node u # zs" using find_child_split[OF Some[unfolded r]] by simp
    have o1: "fdt_path_offset m f (chars ''/chosen'') = Some (int (items_len (Node t # ys)))"
      using chosen_items[OF rw h] Some r by simp
    have "zs \<noteq> [] \<and> last zs = End_node" using e xs by (auto split: if_splits)
    then have "End_node \<in> set zs" using last_in_set[of zs] by auto
    then obtain m' where "fdt_setprop m f (int (items_len (Node t # ys))) (chars ''bootargs'') (lit args) (int (length args + 1)) = Some (0, m')"
      using set[OF rw, of "Node t # ys" u zs] h xs R by auto
    with o1 l sl hd show ?thesis by (simp add: fdt_add_bootargs_def del: item_len.simps)
  qed
qed

section \<open>A copied tree\<close>

lemma copied_items:
  assumes rw: "rw_tree m f" and same: "same_bytes m f m' g (fdt_totalsize m f)" and h: "holds_items m f xs"
  shows "holds_items m' g xs"
proof (rule moved_blocks_items[OF _ _ _ _ h])
  note b = rw_treeD[OF rw] rw_tree_bounds[OF rw]
  have "40 \<le> fdt_totalsize m f" using b by linarith
  note hd = same_bytes_field[OF same this]
  have part: "same_bytes m (f + i) m' (g + i) n" if "0 \<le> i" "i + n \<le> fdt_totalsize m f" for i n
    using same that by (simp add: same_bytes_def add.assoc)
  show "same_bytes m (f + fdt_off_dt_struct m f) m' (g + fdt_off_dt_struct m' g) (fdt_size_dt_struct m f)"
    "same_bytes m (f + fdt_off_dt_strings m f) m' (g + fdt_off_dt_strings m' g) (fdt_size_dt_strings m f)"
    using part[of "fdt_off_dt_struct m f" "fdt_size_dt_struct m f"] part[of "fdt_off_dt_strings m f" "fdt_size_dt_strings m f"] b hd by simp_all
qed (use same_bytes_field[OF same] rw_tree_bounds[OF rw] in simp_all)

lemma copied_takes_args:
  assumes "rw_tree m f" "same_bytes m f m' g (fdt_totalsize m f)" "takes_args m f a"
  shows "takes_args m' g a"
proof -
  have "40 \<le> fdt_totalsize m f" using rw_tree_bounds[OF assms(1)] by simp
  note hd = same_bytes_field[OF assms(2) this]
  show ?thesis using assms(3) copied_items[OF assms(1,2)] hd by (auto simp: takes_args_def)
qed

section \<open>Properties\<close>

text \<open>C6: \<open>fdt_add_bootargs\<close> always returns.  When it succeeds, the items of the tree are the ones it had, but for the
  property \<open>bootargs\<close> of \<open>/chosen\<close>, which is the command line with its terminator: an old value is replaced in its place, a new
  property is the first of its node, and a node that is missing is added behind the properties of the root.  It succeeds when the
  tree has room for that.\<close>

theorem bootargs_only_change:
  assumes "rw_tree m dtb" "holds_items m dtb (Node t # xs)" "cstring args" "length args \<le> 2147483631"
  shows "\<exists>r. fdt_add_bootargs m dtb (Some args) = Some r \<and>
    (\<forall>m'. r = Inr m' \<longrightarrow> rw_tree m' dtb \<and> holds_items m' dtb (Node t # set_bootargs args xs)) \<and>
    (takes_args m dtb args \<longrightarrow> (\<exists>m'. r = Inr m'))"
  using add_bootargs_returns[OF assms(1,3)] bootargs_items[OF _ assms(3,4,1,2)] bootargs_room[OF assms(1,3,4)] by blast

text \<open>The tree \<open>/ { };\<close> at address 64, with 200 spare bytes.\<close>

definition ex_bare_words :: "int list" where
  "ex_bare_words =
     [0xd00dfeed, 276, 56, 72, 40, 17, 16, 0, 4, 16,
      0, 0, 0, 0,
      1, 0, 2, 9,
      0x61000000]"

definition ex_bare :: mem where
  "ex_bare = place 64 (words ex_bare_words)"

lemma ex_bare_ld:
  assumes "(k - 64) mod 4 = 0" "64 \<le> k" "k < 140"
  shows "fdt32_ld' ex_bare k = ex_bare_words ! nat ((k - 64) div 4)"
    "uint (fdt32_ld (rd ex_bare k)) = ex_bare_words ! nat ((k - 64) div 4)"
  unfolding ex_bare_def using placed_ld[of ex_bare_words k 64] assms by (simp_all add: ex_bare_words_def)

lemma ex_bare_header:
  "fdt_magic ex_bare 64 = 0xd00dfeed" "fdt_totalsize ex_bare 64 = 276" "fdt_off_dt_struct ex_bare 64 = 56"
  "fdt_off_dt_strings ex_bare 64 = 72" "fdt_off_mem_rsvmap ex_bare 64 = 40" "fdt_version ex_bare 64 = 17"
  "fdt_last_comp_version ex_bare 64 = 16" "fdt_size_dt_strings ex_bare 64 = 4" "fdt_size_dt_struct ex_bare 64 = 16"
  by (simp_all add: fdt_get_header_def ex_bare_ld(2) ex_bare_words_def)

lemma ex_bare_holds: "holds_items ex_bare 64 [Node [], End_node]"
proof -
  have "ex_bare 124 = 0" by (simp add: ex_bare_def place_def lit_def words_def ex_bare_words_def be32_bytes_def extract_byte_def)
  then show ?thesis
    by (simp add: holds_items_def item_at_def ex_bare_header ex_bare_ld ex_bare_words_def pad4_def points_to_str_Nil)
qed

theorem bootargs_only_change_witness:
  "\<exists>m'. fdt_add_bootargs ex_bare 64 (Some (str ''quiet'')) = Some (Inr m') \<and>
     holds_items m' 64 [Node [], Node CHOSEN, Prop BOOTARGS (str ''quiet'' @ [0]), End_node, End_node]"
proof -
  have rw: "rw_tree ex_bare 64" by (simp add: rw_tree_def ex_bare_header)
  have a: "cstring (str ''quiet'')" "length (str ''quiet'') = 5" by (simp_all add: str_def of_char_of)
  have "takes_args ex_bare 64 (str ''quiet'')"
    unfolding takes_args_def using ex_bare_holds a(2)
    by (intro conjI exI[of _ "[]"] exI[of _ "[End_node]"]) (simp_all add: ex_bare_header)
  moreover have "set_bootargs (str ''quiet'') [End_node] = [Node CHOSEN, Prop BOOTARGS (str ''quiet'' @ [0]), End_node, End_node]"
    by (simp add: set_bootargs_def with_chosen_def set_prop_def)
  ultimately show ?thesis using bootargs_only_change[OF rw ex_bare_holds a(1)] a(2) by auto
qed

end
