(* ===== verification/Boot_Main.thy ===== *)
theory Boot_Main
  imports Boot_Cycle Boot_Kernel Boot_Items
begin

text \<open>
  The whole boot (\<open>rom_main\<close> of \<open>src/src/main.c\<close>): what runs before the disk is read, and what is to be left when a kernel is
  started, the image and the device tree the disk and the command line call for.
\<close>

section \<open>What runs before the disk is read\<close>

lemma quiet_uart_init: "quiet D V \<Longrightarrow> stored V (dev (uart_init D s)) = stored V (dev s) \<and> ram (uart_init D s) = ram s"
  by (simp add: uart_init_def Let_def quiet_wreg)

lemma uart_init_sent: "sent (uart_init D s) = sent s"
  by (simp add: uart_init_def Let_def sent_def UART_CR_def UART_IBRD_def UART_FBRD_def UART_LCRH_def UART_IMSC_def UART_DR_def)

lemma sent_reg: "0 \<le> k \<Longrightarrow> sent (wreg D (REG k) v s) = sent s" "sent (snd (rreg D a s)) = sent s"
  by (simp_all add: sent_def UART_DR_def UART0_BASE_def REG_def VIRTIO_BLK_MMIO_BASE_def)

lemma sent_ram: "sent (s\<lparr>ram := m\<rparr>) = sent s"
  by (simp add: sent_def)

lemma sent_rreg: "rreg D a s = (v, s') \<Longrightarrow> sent s' = sent s"
  using sent_reg(2)[of D a s] by simp

lemma quiet_snd_rreg: "quiet D V \<Longrightarrow> stored V (dev (snd (rreg D a s))) = stored V (dev s)"
  by (simp add: quiet_def rreg_def split: prod.splits) (metis snd_conv)

lemma quiet_probe_ids: "probe_ids D s = (b, s') \<Longrightarrow> quiet D V \<Longrightarrow> stored V (dev s') = stored V (dev s) \<and> ram s' = ram s"
proof -
  assume q: "quiet D V"
  have "stored V (dev (snd (probe_ids D s))) = stored V (dev s) \<and> ram (snd (probe_ids D s)) = ram s"
    by (simp add: probe_ids_def case_prod_unfold quiet_snd_rreg[OF q])
  then show "probe_ids D s = (b, s') \<Longrightarrow> stored V (dev s') = stored V (dev s) \<and> ram s' = ram s" by simp
qed

lemma quiet_negotiate: "quiet D V \<Longrightarrow> stored V (dev (negotiate D s)) = stored V (dev s) \<and> ram (negotiate D s) = ram s"
  by (simp add: negotiate_def Let_def case_prod_unfold quiet_wreg quiet_snd_rreg)

lemma sent_probe_negotiate: "sent (snd (probe_ids D s)) = sent s" "sent (negotiate D s) = sent s"
  by (simp_all add: probe_ids_def negotiate_def Let_def case_prod_unfold sent_reg)

lemma clear_queue_outside: "\<not> driver_memory L a \<Longrightarrow> clear_queue L m a = m a"
  by (auto simp: clear_queue_def Let_def memset_def memset_loop_spec driver_memory_def inside_def)

lemma quiet_init:
  assumes "virtio_blk_init D L s = (Inr (), s')" and q: "quiet D V"
  shows "stored V (dev s') = stored V (dev s) \<and> (\<forall>a. \<not> driver_memory L a \<longrightarrow> ram s' a = ram s a) \<and> sent s' = sent s"
proof -
  obtain s1 where s1: "probe_ids D s = (True, s1)"
    using assms(1) by (cases "probe_ids D s") (auto simp: virtio_blk_init_def split: if_splits)
  obtain v2 s2 where s2: "rreg D VIRT_MMIO_STATUS (negotiate D s1) = (v2, s2)" by fastforce
  obtain v3 s3 where s3: "rreg D VIRT_MMIO_QUEUE_READY (wreg D VIRT_MMIO_QUEUE_SEL 0 s2) = (v3, s3)" by fastforce
  obtain v4 s4 where s4: "rreg D VIRT_MMIO_QUEUE_NUM_MAX s3 = (v4, s4)" by fastforce
  let ?s5 = "wreg D VIRT_MMIO_QUEUE_NUM (word_of_int QUEUE_SIZE) s4"
  have "s' = wreg D VIRT_MMIO_STATUS (1 OR 2 OR 8 OR 4) (wreg D VIRT_MMIO_QUEUE_READY 1
      (publish_queue D L (?s5\<lparr>ram := clear_queue L (ram ?s5)\<rparr>)))"
    using assms(1) s1 s2 s3 s4 by (simp add: virtio_blk_init_def Let_def split: if_splits)
  then have fin: "stored V (dev s') = stored V (dev s4)" "ram s' = clear_queue L (ram s4)" "sent s' = sent s4"
    using q by (simp_all add: quiet_wreg publish_queue_def sent_reg sent_ram Let_def)
  have "sent s4 = sent s"
    using sent_rreg[OF s2] sent_rreg[OF s3] sent_rreg[OF s4] sent_probe_negotiate[of D s] sent_probe_negotiate[of D s1] s1 by (simp add: sent_reg)
  with quiet_probe_ids[OF s1 q] quiet_negotiate[OF q, of s1] quiet_rreg[OF q s2] quiet_rreg[OF q s3] quiet_rreg[OF q s4] quiet_wreg[OF q] fin
  show ?thesis by (simp add: clear_queue_outside)
qed

section \<open>The arguments that are chosen\<close>

lemma block_choice_args:
  assumes "block_choice b = ((lba, args), saved)"
  shows "0 \<le> lba \<and> lba < 18446744073709551616 \<and> (\<forall>a. args = Some a \<longrightarrow> cstring a \<and> length a \<le> 131072)"
proof (cases "read_block b")
  case None
  with assms show ?thesis by (auto simp: block_choice_def)
next
  case (Some ps)
  have k: "lba = 512 \<and> args = None \<or> (\<exists>slot. kernel_of (map_of ps) slot = (lba, args))"
    using assms Some
    by (auto simp: block_choice_def boot_choice_def upgrade_choice_def trial_def revert_slot_def map_of_al_set kernel_of_upd
        split: option.splits if_splits)
  have v: "cstring v \<and> length v \<le> 131072" if "map_of ps key = Some v" for key v
    using that map_of_SomeD[OF that] read_block_ok[OF Some] read_block_short[OF Some] by (auto simp: pair_ok_def short_values_def)
  have "0 \<le> decimal_value l" "decimal_value l < 18446744073709551616" for l by (simp_all add: decimal_value_def u64_def)
  with k v show ?thesis by (fastforce simp: kernel_of_def split: option.splits)
qed

section \<open>The device tree is passed on\<close>

definition boot_disk :: "disk \<Rightarrow> disk" where
  "boot_disk d = (case snd (block_choice (env_area d)) of None \<Rightarrow> d | Some ps \<Rightarrow> save_block d ps)"

text \<open>Where the tree goes: behind the image, at the next multiple of eight.\<close>

lemma align8:
  assumes "0 \<le> n" "n \<le> 67108864"
  shows "n \<le> (u64 (n + 7) AND NOT 7) \<and> (u64 (n + 7) AND NOT 7) \<le> n + 7 \<and> (u64 (n + 7) AND NOT 7) mod 8 = 0"
proof -
  have e: "(u64 (n + 7) AND NOT 7) = n + 7 - (n + 7) mod 8"
    using assms int_and_not_mask[of "n + 7" 3] by (simp add: u64_id)
  have "(n + 7 - (n + 7) mod 8) mod 8 = 0" by (simp add: mod_diff_right_eq)
  with e pos_mod_bound[of 8 "n + 7"] pos_mod_sign[of 8 "n + 7"] show ?thesis by simp
qed

lemma mod8_and7: "(g :: int) mod 8 = 0 \<Longrightarrow> g AND 7 = 0"
  using take_bit_eq_mask[of 3 g] by (simp add: take_bit_eq_mod mask_eq_exp_minus_1)

lemma swap_twice: "fdt32_to_cpu (fdt32_to_cpu x) = x"
  by (rule word32_eqI) (simp_all add: fdt32_to_cpu_bits)

text \<open>The tree at \<open>g\<close> is the one at \<open>f\<close>, with the command line in it: \<open>/chosen\<close> and its \<open>bootargs\<close> are
  found, and the items of the tree are the same ones otherwise.\<close>

definition tree_given :: "mem \<Rightarrow> addr \<Rightarrow> byte list option \<Rightarrow> mem \<Rightarrow> addr \<Rightarrow> bool" where
  "tree_given m f args m' g \<longleftrightarrow> (case args of
     None \<Rightarrow> same_bytes m f m' g (fdt_totalsize m f)
   | Some a \<Rightarrow> fdt_check_header m' g = 0 \<and>
       (\<exists>node p. fdt_path_offset m' g (chars ''/chosen'') = Some node \<and> 0 \<le> node \<and>
          fdt_getprop m' g node (chars ''bootargs'') = Some (Some p, int (length a) + 1) \<and>
          bytes_at (rd m' p) (length a + 1) = a @ [0]) \<and>
       (\<forall>t xs. holds_items m f (Node t # xs) \<longrightarrow> holds_items m' g (Node t # set_bootargs a xs)))"

lemma tree_given_trans:
  assumes "rw_tree m f" "same_bytes m f m1 f (fdt_totalsize m f)" "fdt_totalsize m1 f = fdt_totalsize m f" "tree_given m1 f args m' g"
  shows "tree_given m f args m' g"
  using assms(3,4) copied_items[OF assms(1,2)] assms(2) by (auto simp: tree_given_def same_bytes_def split: option.splits)

lemma load_dtb_spec:
  assumes src: "rw_tree m f" and g: "g mod 8 = 0" and apart: "g < f \<or> f + fdt_totalsize m f \<le> g"
    and args: "\<forall>a. args = Some a \<longrightarrow> cstring a \<and> length a \<le> 2147483631" and sz4: "fdt_size_dt_struct m f mod 4 = 0"
  shows "\<exists>r. load_dtb m f g args = Some r \<and> ((\<forall>a. args = Some a \<longrightarrow> takes_args m f a) \<longrightarrow> (\<exists>m'. r = Inr m')) \<and>
    (\<forall>m'. r = Inr m' \<longrightarrow> writes_in g (fdt_totalsize m f) m m' \<and> tree_given m f args m' g)"
proof -
  have "fdt32_to_cpu (load32 (rd m f)) = word_of_int (uint (fdt32_ld (rd m f)))" by (simp add: fdt32_to_cpu_load32)
  also have "\<dots> = 0xd00dfeed" using src by (simp add: rw_tree_def fdt_get_header_def)
  finally have "load32 (rd m f) = fdt32_to_cpu 0xd00dfeed" using swap_twice[of "load32 (rd m f)"] by simp
  then have False: "load32 (rd m f) = 0xedfe0dd0" by (simp add: be32_to_le32_swaps[symmetric] be32_to_le32_def)
  let ?T = "fdt_totalsize m f"
  let ?m1 = "memcpy m g f (nat ?T)"
  have len: "unat (be32_to_le32 (load32 (rd m (f + 4)))) = nat ?T"
    unfolding be32_to_le32_swaps fdt32_to_cpu_load32 fdt_get_header_def unat_eq_nat_uint ..
  have T: "40 \<le> ?T" using rw_tree_bounds[OF src] by simp
  have m1: "?m1 = (\<lambda>a. if g \<le> a \<and> a < g + int (nat ?T) then m (f + (a - g)) else m a)"
    by (rule memcpy_forward) (use apart T in \<open>elim disjE; simp\<close>)
  have same: "same_bytes m f ?m1 g ?T" using T by (simp add: m1 same_bytes_def)
  have w1: "writes_in g ?T m ?m1" using T by (auto simp: m1 writes_in_def)
  have rw1: "rw_tree ?m1 g" by (rule same_bytes_rw_tree[OF src same T mod8_and7[OF g]])
  note fields = same_bytes_field[OF same T]
  have ld: "load_dtb m f g args = fdt_add_bootargs ?m1 g args" using False len by (simp add: load_dtb_def Let_def)
  show ?thesis
  proof (cases args)
    case None
    with ld same w1 show ?thesis by (simp add: fdt_add_bootargs_def tree_given_def)
  next
    case (Some a)
    note ok = args[rule_format, OF Some]
    obtain r where r: "fdt_add_bootargs ?m1 g (Some a) = Some r" using add_bootargs_returns[OF rw1] ok by blast
    have "writes_in g ?T m m' \<and> tree_given m f args m' g" if m': "r = Inr m'" for m'
    proof -
      note r' = r[unfolded m'] and ok' = conjunct1[OF ok] conjunct2[OF ok]
      note found = bootargs_found[OF r' ok']
      have "holds_items m' g (Node t # set_bootargs a xs)" if "holds_items m f (Node t # xs)" for t xs
        using bootargs_items[OF r' ok' rw1 copied_items[OF src same that]] by blast
      then have "tree_given m f args m' g" using found sz4 fields rw_treeD(6)[OF src] Some by (auto simp: tree_given_def)
      moreover have "writes_in g ?T ?m1 m'" using found sz4 fields rw_treeD(6)[OF src] by (simp add: writes_in_def)
      ultimately show ?thesis using writes_in_trans[OF w1] by blast
    qed
    moreover have "\<exists>m'. r = Inr m'" if "takes_args m f a"
      using bootargs_room[OF rw1 _ _ copied_takes_args[OF src same that]] ok r by simp
    ultimately show ?thesis using ld r Some by auto
  qed
qed

section \<open>The boot\<close>

text \<open>What a boot from the disk \<open>d\<close> and a tree at \<open>dtb\<close> is to leave: disk, memory and registers.\<close>

definition started :: "disk \<Rightarrow> mem \<Rightarrow> addr \<Rightarrow> disk \<Rightarrow> mem \<Rightarrow> jump \<Rightarrow> bool" where
  "started d m dtb d' m' j \<longleftrightarrow> d' = boot_disk d \<and>
     (case fst (block_choice (env_area d)) of (lba, args) \<Rightarrow>
        let n = uint (image_size (kernel_header_at d' (512 * lba))) in
        pc j = 0x40200000 \<and> x0 j mod 8 = 0 \<and> pc j + n \<le> x0 j \<and>
        (\<forall>i. 0 \<le> i \<and> i < n \<longrightarrow> m' (pc j + i) = d' (512 * lba + i)) \<and>
        tree_given m dtb args m' (x0 j))"

text \<open>The steps from the environment on.\<close>

definition rom_main_rest :: "'d device \<Rightarrow> layout \<Rightarrow> int \<Rightarrow> int \<Rightarrow> addr \<Rightarrow> 'd boot \<Rightarrow> (message \<times> 'd io + jump \<times> 'd boot) option" where
  "rom_main_rest D L kernel_lba_p el dtb_source s = do {
     r \<leftarrow> process_uboot_env D L kernel_lba_p s;
     case r of
       Inl msg \<Rightarrow> Some (Inl msg)
     | Inr (kernel_lba, kernel_args, s) \<Rightarrow> do {
         r \<leftarrow> load_kernel D L kernel_lba KERNEL_LOAD_ADDR (io s);
         case r of
           Inl msg \<Rightarrow> Some (Inl msg)
         | Inr (kernel_len, io') \<Rightarrow> do {
             let dtb_load_addr = KERNEL_LOAD_ADDR + (u64 (kernel_len + 7) AND NOT 7);
             r \<leftarrow> load_dtb (ram io') dtb_source dtb_load_addr kernel_args;
             case r of
               Inl (msg, m) \<Rightarrow> Some (Inl (msg, io'\<lparr>ram := m\<rparr>))
             | Inr m \<Rightarrow> do {
                 s \<leftarrow> say D (str ''Starting Linux...'') [] (s\<lparr>io := io'\<lparr>ram := m\<rparr>\<rparr>);
                 Some (Inr (\<lparr>x0 = dtb_load_addr, pc = KERNEL_LOAD_ADDR, el2_timer = (el = 2)\<rparr>, s))
               }
           }
       }
   }"

lemma el_message_cstring: "cstring (str (el_message el))"
  by (simp add: el_message_def str_def of_char_of)

lemma init_sent: "sent (snd (virtio_blk_init D L s)) = sent s"
  by (simp add: virtio_blk_init_def Let_def case_prod_unfold publish_queue_def sent_reg sent_ram sent_probe_negotiate)

lemma boot_steps_init:
  assumes banner: "cstring (str banner)"
  shows "\<exists>io2. sent io2 = sent (io s) @ str banner @ str (el_message el) \<and>
    (quiet D V \<longrightarrow> ram io2 = ram (io s) \<and> stored V (dev io2) = stored V (dev (io s))) \<and>
    boot_steps D L stack_top p banner el dtb s =
      (case virtio_blk_init D L io2 of
         (Inl msg, io3) \<Rightarrow> Some (Inl ((str msg, []), io3))
       | (Inr _, io3) \<Rightarrow> rom_main_rest D L p el dtb (s\<lparr>heap := (heap s)\<lparr>brk := stack_top\<rparr>, io := io3\<rparr>))"
proof -
  have bn: "points_to_str (chars banner) (str banner)" "points_to_str (chars (el_message el)) (str (el_message el))"
    using banner el_message_cstring by (simp_all add: chars_def)
  obtain io1 where io1: "uart_puts D (chars banner) (uart_init D (io s)) = Some io1" "sent io1 = sent (io s) @ str banner"
    using uart_puts_sends[OF bn(1), of D "uart_init D (io s)"] uart_init_sent[of D "io s"]
    by (auto simp: sent_def ucast_byte comp_def)
  obtain io2 where io2: "uart_puts D (chars (el_message el)) io1 = Some io2" "sent io2 = sent io1 @ str (el_message el)"
    using uart_puts_sends[OF bn(2), of D io1] by (auto simp: sent_def ucast_byte comp_def)
  have "ram io2 = ram (io s) \<and> stored V (dev io2) = stored V (dev (io s))" if q: "quiet D V"
    using uart_puts_told[OF bn(1) q, of "uart_init D (io s)"] uart_puts_told[OF bn(2) q, of io1] io1(1) io2(1) quiet_uart_init[OF q, of "io s"]
    by (auto simp: told_def)
  moreover have "boot_steps D L stack_top p banner el dtb s =
      (case virtio_blk_init D L io2 of
         (Inl msg, io3) \<Rightarrow> Some (Inl ((str msg, []), io3))
       | (Inr _, io3) \<Rightarrow> rom_main_rest D L p el dtb (s\<lparr>heap := (heap s)\<lparr>brk := stack_top\<rparr>, io := io3\<rparr>))"
    using io1(1) io2(1) by (simp add: boot_steps_def rom_main_rest_def util_init_def Let_def split: prod.split sum.split)
  ultimately show ?thesis using io1(2) io2(2) by (intro exI[of _ io2]) simp
qed

text \<open>With a disk that is found.\<close>

lemma boot_steps_found:
  assumes q: "quiet D V" and banner: "cstring (str banner)"
    and init: "\<forall>s s'. virtio_blk_init D L s = (Inr (), s') \<longrightarrow> attached L V s'"
  shows "(\<exists>msg io3. boot_steps D L stack_top p banner el dtb s = Some (Inl ((str msg, []), io3)) \<and>
      (\<exists>io2. virtio_blk_init D L io2 = (Inl msg, io3))) \<or>
    (\<exists>io3. attached L V io3 \<and> stored V (dev io3) = stored V (dev (io s)) \<and>
      (\<forall>a. \<not> driver_memory L a \<longrightarrow> ram io3 a = ram (io s) a) \<and> sent io3 = sent (io s) @ str banner @ str (el_message el) \<and>
      boot_steps D L stack_top p banner el dtb s = rom_main_rest D L p el dtb (s\<lparr>heap := (heap s)\<lparr>brk := stack_top\<rparr>, io := io3\<rparr>))"
proof -
  obtain io2 where io2: "sent io2 = sent (io s) @ str banner @ str (el_message el)"
    "ram io2 = ram (io s)" "stored V (dev io2) = stored V (dev (io s))"
    "boot_steps D L stack_top p banner el dtb s =
      (case virtio_blk_init D L io2 of
         (Inl msg, io3) \<Rightarrow> Some (Inl ((str msg, []), io3))
       | (Inr _, io3) \<Rightarrow> rom_main_rest D L p el dtb (s\<lparr>heap := (heap s)\<lparr>brk := stack_top\<rparr>, io := io3\<rparr>))"
    using boot_steps_init[OF banner, of s el D V L stack_top p dtb] q by blast
  obtain r io3 where i: "virtio_blk_init D L io2 = (r, io3)" by fastforce
  show ?thesis
  proof (cases r)
    case (Inl msg)
    with i io2(4) show ?thesis by auto
  next
    case (Inr u)
    then have i': "virtio_blk_init D L io2 = (Inr (), io3)" using i by simp
    have "attached L V io3 \<and> stored V (dev io3) = stored V (dev (io s)) \<and> (\<forall>a. \<not> driver_memory L a \<longrightarrow> ram io3 a = ram (io s) a) \<and>
      sent io3 = sent (io s) @ str banner @ str (el_message el) \<and>
      boot_steps D L stack_top p banner el dtb s = rom_main_rest D L p el dtb (s\<lparr>heap := (heap s)\<lparr>brk := stack_top\<rparr>, io := io3\<rparr>)"
      using i' io2 quiet_init[OF i' q] init by simp
    then show ?thesis by (intro disjI2 exI[of _ io3])
  qed
qed

end
