(* ===== verification/Boot_Start.thy ===== *)
theory Boot_Start
  imports Boot_Main
begin

text \<open>
  The stages of a boot once the disk is found (\<open>rom_main_rest\<close>): the image is loaded, the device tree is
  copied behind it, and the run ends with the jump.
\<close>

section \<open>Memory\<close>

abbreviation "kernel_base \<equiv> 0x40200000 :: int"

text \<open>Memory after an image of \<open>n\<close> bytes is loaded from the block \<open>lba\<close>, with the environment's buffer at \<open>buffer\<close>.\<close>

definition loaded :: "layout \<Rightarrow> addr \<Rightarrow> disk \<Rightarrow> int \<Rightarrow> int \<Rightarrow> mem \<Rightarrow> mem \<Rightarrow> bool" where
  "loaded L buffer d lba n m m' \<longleftrightarrow> (\<forall>a. \<not> driver_memory L a \<longrightarrow>
     (if inside kernel_base (512 * image_sectors n) a then m' a = d (512 * lba + (a - kernel_base))
      else inside buffer 131072 a \<or> m' a = m a))"

text \<open>A tree that no stage before its copy writes to.\<close>

definition tree_apart :: "layout \<Rightarrow> addr \<Rightarrow> addr \<Rightarrow> int \<Rightarrow> bool" where
  "tree_apart L buffer dtb n \<longleftrightarrow> (\<forall>a. inside dtb n a \<longrightarrow>
     \<not> driver_memory L a \<and> \<not> inside buffer 131072 a \<and> \<not> inside kernel_base (67109376 + n) a)"

abbreviation (input) dtb_addr :: "int \<Rightarrow> addr" where
  "dtb_addr n \<equiv> kernel_base + (u64 (n + 7) AND NOT 7)"

lemma dtb_addr_bounds:
  assumes "0 \<le> n" "n \<le> 67108864"
  shows "dtb_addr n mod 8 = 0 \<and> kernel_base + n \<le> dtb_addr n \<and> dtb_addr n \<le> kernel_base + 67108871"
  using align8[OF assms] assms mod_add_eq[of kernel_base 8 "u64 (n + 7) AND NOT 7"] by simp

lemma loaded_tree:
  assumes "loaded L buffer d lba n m m'" "tree_apart L buffer dtb t" "0 < n" "n \<le> 67108864" "40 \<le> t"
  shows "same_bytes m dtb m' dtb t"
proof -
  have "m' a = m a" if "inside dtb t a" for a
  proof -
    from assms(2) that have out: "\<not> driver_memory L a" "\<not> inside buffer 131072 a" "\<not> inside kernel_base (67109376 + t) a"
      by (auto simp: tree_apart_def)
    from out(3) have "\<not> inside kernel_base (512 * image_sectors n) a"
      using image_sectors_bounds[OF assms(3,4)] assms(5) by (auto simp: inside_def)
    with assms(1) out show ?thesis by (auto simp: loaded_def)
  qed
  then show ?thesis by (simp add: same_bytes_def inside_def)
qed

lemma loaded_image:
  assumes "loaded L buffer d lba n m m'" "usable L kernel_base (512 + 67108864)" "0 < n" "n \<le> 67108864" "0 \<le> i" "i < n"
  shows "m' (kernel_base + i) = d (512 * lba + i)"
proof -
  have "inside kernel_base (512 + 67108864) (kernel_base + i)" "inside kernel_base (512 * image_sectors n) (kernel_base + i)"
    using assms image_sectors_bounds[OF assms(3,4)] by (simp_all add: inside_def)
  with assms(1,2) show ?thesis by (simp add: loaded_def usable_def)
qed

section \<open>The image\<close>

lemma kernel_stage:
  assumes dev: "serves D L V" "layout_addresses L" "attached L V s" and mem: "usable L kernel_base (512 + 67108864)"
    and lba: "0 \<le> lba" "lba < 18446744073709551616" "load_refusal (capacity V) (stored V (dev s)) lba = None \<longrightarrow> image_size hdr \<noteq> 0"
    and hdr: "hdr = kernel_header_at (stored V (dev s)) (512 * lba)"
    and m: "\<forall>a. \<not> driver_memory L a \<and> \<not> inside buffer 131072 a \<longrightarrow> ram s a = m a"
  shows "\<exists>s'. load_kernel D L lba kernel_base s =
        Some (case load_refusal (capacity V) (stored V (dev s)) lba of
            Some r \<Rightarrow> Inl (refusal_message lba (uint (image_size hdr)) r, s')
          | None \<Rightarrow> Inr (uint (image_size hdr), s')) \<and>
      stored V (dev s') = stored V (dev s) \<and> attached L V s' \<and> sent s' = sent s \<and>
      (load_refusal (capacity V) (stored V (dev s)) lba = None \<longrightarrow> loaded L buffer (stored V (dev s)) lba (uint (image_size hdr)) m (ram s'))"
proof -
  have "kernel_base + 512 < 18446744073709551616" by simp
  note k = load_kernel_spec[OF dev mem this lba(1,2) lba(3)[unfolded hdr], folded hdr]
  then obtain s' where s': "load_kernel D L lba kernel_base s =
        Some (case load_refusal (capacity V) (stored V (dev s)) lba of
            Some r \<Rightarrow> Inl (refusal_message lba (uint (image_size hdr)) r, s')
          | None \<Rightarrow> Inr (uint (image_size hdr), s'))" "attached L V s'" "stored V (dev s') = stored V (dev s)" "sent s' = sent s"
    "load_refusal (capacity V) (stored V (dev s)) lba = None \<longrightarrow> (\<forall>a. \<not> driver_memory L a \<longrightarrow>
         ram s' a = (if inside kernel_base (512 * image_sectors (uint (image_size hdr))) a
                     then stored V (dev s) (512 * lba + (a - kernel_base)) else ram s a))"
    by (elim exE conjE) (rule that)
  have l: "loaded L buffer (stored V (dev s)) lba (uint (image_size hdr)) m (ram s')"
    if "load_refusal (capacity V) (stored V (dev s)) lba = None"
    using s'(5) that m unfolding loaded_def by metis
  show ?thesis
    by (intro exI[of _ s'] conjI impI) (rule s'(1-4) | erule l)+
qed

lemma load_refusal_None:
  "load_refusal cap d lba = None \<Longrightarrow> uint (image_size (kernel_header_at d (512 * lba))) \<le> 67108864"
  by (auto simp: load_refusal_def Let_def split: if_splits)

section \<open>The device tree\<close>

lemma tree_stage:
  assumes tree: "rw_tree m dtb" "fdt_size_dt_struct m dtb mod 4 = 0" "tree_apart L buffer dtb (fdt_totalsize m dtb)"
    and ld: "loaded L buffer (boot_disk d) lba n m m5" and n: "0 < n" "n \<le> 67108864"
    and mem: "usable L kernel_base (512 + 67108864)"
    and c: "fst (block_choice (env_area d)) = (lba, args)" "n = uint (image_size (kernel_header_at (boot_disk d) (512 * lba)))"
  shows "\<exists>r. load_dtb m5 dtb (dtb_addr n) args = Some r \<and> ((\<forall>a. args = Some a \<longrightarrow> takes_args m dtb a) \<longrightarrow> (\<exists>m'. r = Inr m')) \<and>
    (\<forall>m'. r = Inr m' \<longrightarrow> started d m dtb (boot_disk d) m' \<lparr>x0 = dtb_addr n, pc = kernel_base, el2_timer = b\<rparr>)"
proof -
  let ?t = "fdt_totalsize m dtb"
  define g where "g = dtb_addr n"
  have g: "g mod 8 = 0" "kernel_base + n \<le> g" "g \<le> kernel_base + 67108871" unfolding g_def using dtb_addr_bounds[of n] n by simp_all
  have t: "40 \<le> ?t" using rw_tree_bounds[OF tree(1)] by simp
  have same: "same_bytes m dtb m5 dtb ?t" by (rule loaded_tree[OF ld tree(3) n t])
  note fields = same_bytes_field[OF same t]
  have rw5: "rw_tree m5 dtb" by (rule same_bytes_rw_tree[OF tree(1) same t]) (use tree(1) in \<open>simp add: rw_tree_def\<close>)
  have t5: "fdt_totalsize m5 dtb = ?t" and s5: "fdt_size_dt_struct m5 dtb mod 4 = 0" using fields tree(2) by simp_all
  have "\<not> (inside dtb ?t g \<and> inside kernel_base (67109376 + ?t) g)" using tree(3) unfolding tree_apart_def by blast
  then have apart: "g < dtb \<or> dtb + fdt_totalsize m5 dtb \<le> g" using t5 g n t by (auto simp: inside_def)
  obtain saved where "block_choice (env_area d) = ((lba, args), saved)" using c(1) by (metis prod.collapse)
  then have ar: "\<forall>a. args = Some a \<longrightarrow> cstring a \<and> length a \<le> 2147483631" using block_choice_args by fastforce
  from load_dtb_spec[OF rw5 g(1) apart ar s5, unfolded t5] obtain r where
    r: "load_dtb m5 dtb g args = Some r" "(\<forall>a. args = Some a \<longrightarrow> takes_args m5 dtb a) \<longrightarrow> (\<exists>m'. r = Inr m')"
    and all: "\<forall>m'. r = Inr m' \<longrightarrow> writes_in g ?t m5 m' \<and> tree_given m5 dtb args m' g"
    by (elim exE conjE)
  have "started d m dtb (boot_disk d) m' \<lparr>x0 = g, pc = kernel_base, el2_timer = b\<rparr>" if "r = Inr m'" for m'
  proof -
    note w = all[rule_format, OF that]
    have "m' (kernel_base + i) = boot_disk d (512 * lba + i)" if "0 \<le> i" "i < n" for i
      using loaded_image[OF ld mem n that] w g that by (auto simp: writes_in_def)
    moreover have "tree_given m dtb args m' g" using tree_given_trans[OF tree(1) same t5] w by blast
    ultimately show ?thesis using g(1,2) c(2) unfolding started_def c(1) prod.case Let_def by simp
  qed
  with r copied_takes_args[OF tree(1) same] show ?thesis unfolding g_def by blast
qed

section \<open>All stages\<close>

lemma boot_stages:
  assumes dev: "serves D L V" "layout_addresses L" "quiet D V" "attached L V (io s)"
    and mem: "usable L (brk (heap s)) 131072" "0 < brk (heap s)" "usable L kernel_base (512 + 67108864)" "0 \<le> p" "p < 18446744073709551616"
    and d: "272 \<le> capacity V" "d = stored V (dev (io s))" "slot_named (env_area d)"
    and lba: "fst (block_choice (env_area d)) = (lba, args)" "hdr = kernel_header_at (boot_disk d) (512 * lba)"
      "load_refusal (capacity V) (boot_disk d) lba = None \<longrightarrow> image_size hdr \<noteq> 0"
    and m: "\<forall>a. \<not> driver_memory L a \<longrightarrow> ram (io s) a = m a"
  shows "(\<forall>why. load_refusal (capacity V) (boot_disk d) lba = Some why \<longrightarrow>
      (\<exists>io'. rom_main_rest D L p el dtb s = Some (Inl (refusal_message lba (uint (image_size hdr)) why, io')) \<and>
         sent io' = sent (io s) @ block_log p (env_area d))) \<and>
    (load_refusal (capacity V) (boot_disk d) lba = None \<and>
       rw_tree m dtb \<and> fdt_size_dt_struct m dtb mod 4 = 0 \<and> tree_apart L (brk (heap s)) dtb (fdt_totalsize m dtb) \<longrightarrow>
      (\<exists>r. rom_main_rest D L p el dtb s = Some r \<and>
        (\<forall>j s'. r = Inr (j, s') \<longrightarrow> started d m dtb (stored V (dev (io s'))) (ram (io s')) j \<and> (el2_timer j \<longleftrightarrow> el = 2) \<and>
           sent (io s') = sent (io s) @ block_log p (env_area d) @ msg_line (str ''Starting Linux...'')) \<and>
        (\<forall>msg io'. r = Inl (msg, io') \<longrightarrow> args_fit (fst msg) (snd msg)) \<and>
        ((\<forall>a. args = Some a \<longrightarrow> takes_args m dtb a) \<longrightarrow> (\<exists>j s'. r = Inr (j, s')))))"
proof -
  obtain s4 where s4: "process_uboot_env D L p s = Some (Inr (lba, args, s4))" "attached L V (io s4)" "stored V (dev (io s4)) = boot_disk d"
    "\<forall>a. \<not> driver_memory L a \<and> \<not> inside (brk (heap s)) 131072 a \<longrightarrow> ram (io s4) a = m a"
    "sent (io s4) = sent (io s) @ block_log p (env_area d)"
    using process_spec[OF dev mem(1,2) d(1) _ mem(4,5)] d(2,3) lba(1) m by (auto simp: boot_disk_def split: option.splits)
  have "0 \<le> lba" "lba < 18446744073709551616" using block_choice_args lba(1) by (metis prod.collapse)+
  note k = kernel_stage[OF dev(1,2) s4(2) mem(3) this _ _ s4(4), unfolded s4(3), OF lba(3,2)]
  let ?n = "uint (image_size hdr)"
  obtain io5 where io5: "load_kernel D L lba kernel_base (io s4) =
        Some (case load_refusal (capacity V) (boot_disk d) lba of Some r \<Rightarrow> Inl (refusal_message lba ?n r, io5) | None \<Rightarrow> Inr (?n, io5))"
    "stored V (dev io5) = boot_disk d" "sent io5 = sent (io s4)"
    "load_refusal (capacity V) (boot_disk d) lba = None \<longrightarrow> loaded L (brk (heap s)) (boot_disk d) lba ?n m (ram io5)"
    using k by (elim exE conjE) (rule that)
  show ?thesis
  proof (cases "load_refusal (capacity V) (boot_disk d) lba")
    case (Some why)
    with io5 s4 show ?thesis by (auto simp: rom_main_rest_def)
  next
    case None
    then have n: "0 < ?n" "?n \<le> 67108864" using uint_positive lba(3) load_refusal_None[OF None] by (simp_all add: lba(2))
    have "\<exists>r. rom_main_rest D L p el dtb s = Some r \<and>
        (\<forall>j s'. r = Inr (j, s') \<longrightarrow> started d m dtb (stored V (dev (io s'))) (ram (io s')) j \<and> (el2_timer j \<longleftrightarrow> el = 2) \<and>
           sent (io s') = sent (io s) @ block_log p (env_area d) @ msg_line (str ''Starting Linux...'')) \<and>
        (\<forall>msg io'. r = Inl (msg, io') \<longrightarrow> args_fit (fst msg) (snd msg)) \<and>
        ((\<forall>a. args = Some a \<longrightarrow> takes_args m dtb a) \<longrightarrow> (\<exists>j s'. r = Inr (j, s')))"
      if tree: "rw_tree m dtb" "fdt_size_dt_struct m dtb mod 4 = 0" "tree_apart L (brk (heap s)) dtb (fdt_totalsize m dtb)"
    proof -
      obtain r where r: "load_dtb (ram io5) dtb (dtb_addr ?n) args = Some r" "(\<forall>a. args = Some a \<longrightarrow> takes_args m dtb a) \<longrightarrow> (\<exists>m'. r = Inr m')"
        "\<forall>m'. r = Inr m' \<longrightarrow> started d m dtb (boot_disk d) m' \<lparr>x0 = dtb_addr ?n, pc = kernel_base, el2_timer = (el = 2)\<rparr>"
        using tree_stage[OF tree io5(4)[rule_format, OF None] n mem(3) lba(1)] lba(2) by blast
      show ?thesis
      proof (cases r)
        case (Inl e)
        with r s4(1) io5(1) None load_dtb_message_fits show ?thesis by (cases e) (auto simp: rom_main_rest_def Let_def)
      next
        case (Inr m')
        let ?s5 = "s4\<lparr>io := io5\<lparr>ram := m'\<rparr>\<rparr>"
        obtain s6 where "say D (str ''Starting Linux...'') [] ?s5 = Some s6" "told V (io ?s5) (msg_line (str ''Starting Linux...'')) (io s6)"
          using say_plain(6)[OF dev(3), of ?s5] by blast
        with s4(1,5) io5(1-3) r Inr None show ?thesis
          by (auto simp: rom_main_rest_def Let_def told_def sent_ram)
      qed
    qed
    with None show ?thesis by simp
  qed
qed

lemma refusal_fits: "why \<noteq> Too_big \<Longrightarrow> args_fit (fst (refusal_message lba n why)) (snd (refusal_message lba n why))"
  by (cases why) (auto simp: refusal_message_def str_def of_char_of args_fit_char args_fit_percent)

text \<open>The whole, up to the jump or the call of \<open>fatal\<close>.\<close>

lemma boot_outcome:
  assumes dev: "serves D L V" "layout_addresses L" "quiet D V"
      "\<forall>s s'. virtio_blk_init D L s = (Inr (), s') \<longrightarrow> attached L V s'" "272 \<le> capacity V"
    and mem: "usable L stack_top 131072" "0 < stack_top" "usable L kernel_base (512 + 67108864)" "cstring (str banner)"
      "0 \<le> p" "p < 18446744073709551616"
    and d: "d = stored V (dev (io s))" "slot_named (env_area d)"
    and lba: "fst (block_choice (env_area d)) = (lba, args)" "hdr = kernel_header_at (boot_disk d) (512 * lba)"
      "load_refusal (capacity V) (boot_disk d) lba = None \<longrightarrow> image_size hdr \<noteq> 0"
    and tree: "m = ram (io s)" "rw_tree m dtb" "fdt_size_dt_struct m dtb mod 4 = 0" "tree_apart L stack_top dtb (fdt_totalsize m dtb)"
  shows "\<exists>r. boot_steps D L stack_top p banner el dtb s = Some r \<and>
    (\<forall>j s'. r = Inr (j, s') \<longrightarrow> started d m dtb (stored V (dev (io s'))) (ram (io s')) j \<and> (el2_timer j \<longleftrightarrow> el = 2) \<and>
       sent (io s') = sent (io s) @ str banner @ str (el_message el) @ block_log p (env_area d) @ msg_line (str ''Starting Linux...'')) \<and>
    ((\<forall>a. args = Some a \<longrightarrow> takes_args m dtb a) \<and> (\<forall>s. fst (virtio_blk_init D L s) = Inr ()) \<and>
       load_refusal (capacity V) (boot_disk d) lba = None \<longrightarrow> (\<exists>j s'. r = Inr (j, s'))) \<and>
    (load_refusal (capacity V) (boot_disk d) lba \<noteq> Some Too_big \<longrightarrow>
       (\<forall>msg io'. r = Inl (msg, io') \<longrightarrow> args_fit (fst msg) (snd msg)))"
  using boot_steps_found[OF dev(3) mem(4) dev(4), where s = s and el = el and stack_top = stack_top and p = p and dtb = dtb]
proof (elim disjE exE conjE)
  fix msg io2 io3
  assume b: "boot_steps D L stack_top p banner el dtb s = Some (Inl ((str msg, []), io3))" and i: "virtio_blk_init D L io2 = (Inl msg, io3)"
  have "fst (virtio_blk_init D L io2) \<noteq> Inr ()" using i by simp
  with b init_message_fits[OF i] show ?thesis by auto
next
  fix io3
  assume io3: "attached L V io3" "stored V (dev io3) = stored V (dev (io s))" "\<forall>a. \<not> driver_memory L a \<longrightarrow> ram io3 a = ram (io s) a"
    "sent io3 = sent (io s) @ str banner @ str (el_message el)"
    and b: "boot_steps D L stack_top p banner el dtb s = rom_main_rest D L p el dtb (s\<lparr>heap := (heap s)\<lparr>brk := stack_top\<rparr>, io := io3\<rparr>)"
  let ?s = "s\<lparr>heap := (heap s)\<lparr>brk := stack_top\<rparr>, io := io3\<rparr>"
  have s: "attached L V (io ?s)" "usable L (brk (heap ?s)) 131072" "0 < brk (heap ?s)" "d = stored V (dev (io ?s))"
    "\<forall>a. \<not> driver_memory L a \<longrightarrow> ram (io ?s) a = m a" using io3 mem(1,2) d(1) tree(1) by simp_all
  note stages = boot_stages[OF dev(1-3) s(1-3) mem(3,5,6) dev(5) s(4) d(2) lba s(5), where el = el and dtb = dtb]
  show ?thesis
  proof (cases "load_refusal (capacity V) (boot_disk d) lba")
    case (Some why)
    with stages b refusal_fits[of why lba "uint (image_size hdr)"] show ?thesis by auto
  next
    case None
    with stages tree(2-4) obtain r where "rom_main_rest D L p el dtb ?s = Some r"
      "\<forall>j s'. r = Inr (j, s') \<longrightarrow> started d m dtb (stored V (dev (io s'))) (ram (io s')) j \<and> (el2_timer j \<longleftrightarrow> el = 2) \<and>
         sent (io s') = sent (io ?s) @ block_log p (env_area d) @ msg_line (str ''Starting Linux...'')"
      "\<forall>msg io'. r = Inl (msg, io') \<longrightarrow> args_fit (fst msg) (snd msg)"
      "(\<forall>a. args = Some a \<longrightarrow> takes_args m dtb a) \<longrightarrow> (\<exists>j s'. r = Inr (j, s'))"
      by auto
    with b io3(4) show ?thesis by auto
  qed
qed

end
