(* ===== verification/Boot_Fail.thy ===== *)
theory Boot_Fail
  imports Boot_Start
begin

text \<open>
  Boots that end in \<open>fatal\<close>: what is reported.
\<close>

section \<open>What is reported\<close>

text \<open>The frame of \<open>fatal\<close> around a text, and how the run ends, by exception level.\<close>

definition fatal_text :: "int \<Rightarrow> byte list \<Rightarrow> byte list" where
  "fatal_text el txt =
     crlf @ crlf @ str ''FATAL ERROR:'' @ crlf @ txt @ crlf @ crlf @ str ''POWERING OFF QEMU.'' @ crlf @ el_notice el"

definition switched_off :: "(firmware_call \<Rightarrow> bool) \<Rightarrow> int \<Rightarrow> outcome \<Rightarrow> bool" where
  "switched_off stops el h \<longleftrightarrow>
     (waits h \<longleftrightarrow> (\<forall>c\<in>set (calls h). \<not> stops c)) \<and>
     calls h = (if el = 1 then (if stops (Hvc 0x84000008) then [Hvc 0x84000008] else [Hvc 0x84000008, Smc 0x84000008])
                else if el = 2 then [Smc 0x84000008] else [])"

lemma fatal_reports:
  assumes "format_bytes fmt ap = Some txt"
  shows "\<exists>h s'. fatal D stops el fmt ap s = Some (h, s') \<and> sent s' = sent s @ fatal_text (get_el el) txt \<and> switched_off stops (get_el el) h"
  using fatal_runs[OF assms, of D stops el s] by (auto simp: sent_def ucast_byte comp_def fatal_text_def switched_off_def)

text \<open>The texts on an image that is not loaded.\<close>

definition refusal_text :: "int \<Rightarrow> refusal \<Rightarrow> byte list option" where
  "refusal_text lba why =
     (case why of
        No_header \<Rightarrow> Some (str ''Failed to read kernel header at LBA '' @ decimal (nat lba))
      | No_magic \<Rightarrow> Some (str (''Linux kernel header magic isn'' @ CHR 0x27 # ''t ARM'' @ CHR 0x5C # ''x64''))
      | Too_big \<Rightarrow> None
      | No_image \<Rightarrow> Some (str ''Failed to read kernel''))"

lemma refusal_bytes:
  assumes "refusal_text lba why = Some txt" "0 \<le> lba" "lba < 18446744073709551616"
  shows "format_bytes (fst (refusal_message lba n why)) (snd (refusal_message lba n why)) = Some txt"
  using assms
  by (cases why) (auto simp: refusal_text_def refusal_message_def str_def of_char_of format_char percent_lu)

lemma percent_d:
  "0 \<le> v \<Longrightarrow> v < 2147483648 \<Longrightarrow>
   format_bytes (37 # 100 # rest) (Va_w v # args) = map_option (append (decimal (nat v))) (format_bytes rest args)"
  using format_number[of "percent LEN_MOD_NONE 100" v rest args]
  by (simp add: percent_def is_number_def directive_ok_def conv_of_def conv_chars_def in_range_def is_signed_def arg_of_def
      directive_text_def flag_text_def width_text_def prec_text_def mod_text_def number_field_def layout_field_def zero_padded_def
      number_digits_def number_sign_def base_of_def digits_of_decimal)

definition no_env_text :: "byte list" where
  "no_env_text = str ''Failed to read u-boot environment from LBA '' @ decimal 16 @ str ''\<newline>''"

lemma no_env_bytes: "format_bytes (str ''Failed to read u-boot environment from LBA %d\<newline>'') [Va_w 16] = Some no_env_text"
  by (simp add: no_env_text_def str_def of_char_of format_char percent_d)

text \<open>What a boot from the disk \<open>d\<close> of \<open>cap\<close> sectors fails with: the log up to there, and the text.\<close>

definition boot_failure :: "int \<Rightarrow> int \<Rightarrow> disk \<Rightarrow> (byte list \<times> byte list) option" where
  "boot_failure kernel_lba_p cap d =
     (if cap < 272 then Some ([], no_env_text)
      else case fst (block_choice (env_area d)) of (lba, args) \<Rightarrow>
        (case load_refusal cap (boot_disk d) lba of
           None \<Rightarrow> None
         | Some why \<Rightarrow> map_option (Pair (block_log kernel_lba_p (env_area d))) (refusal_text lba why)))"

section \<open>Properties\<close>

text \<open>C38: A boot that finds no kernel says why and ends.  When the disk has no room for an environment, or the image the
  settings name is not on the disk, is cut off by its end or lacks the magic number, the whole run returns; the serial port has been sent the
  banner, the exception level, the messages of the settings' choice, and the reason in the frame of \<open>fatal\<close>, and
  nothing else; the power-off calls of the level have been made, and it waits forever when none of them ended the run.\<close>

theorem failure_reported:
  assumes dev: "serves D L V" "layout_addresses L" "quiet D V"
      "\<forall>s. \<exists>s'. virtio_blk_init D L s = (Inr (), s') \<and> attached L V s'"
    and mem: "usable L stack_top 131072" "0 < stack_top" "usable L 0x40200000 (512 + 67108864)" "cstring (str banner)"
      "0 \<le> p" "p < 18446744073709551616"
    and slot: "slot_named (env_area (stored V (dev (io s))))"
    and fails: "boot_failure p (capacity V) (stored V (dev (io s))) = Some (said, reason)"
  shows "\<exists>h s'. rom_main D L stops CurrentEL stack_top p banner dtb s = Some (Inl (h, s')) \<and>
    sent s' = sent (io s) @ str banner @ str (el_message (get_el CurrentEL)) @ said @ fatal_text (get_el CurrentEL) reason \<and>
    switched_off stops (get_el CurrentEL) h"
proof -
  let ?d = "stored V (dev (io s))" and ?el = "get_el CurrentEL"
  have "virtio_blk_init D L x \<noteq> (Inl msg, y)" for x y msg using dev(4)[rule_format, of x] by auto
  moreover have "\<forall>s s'. virtio_blk_init D L s = (Inr (), s') \<longrightarrow> attached L V s'" using dev(4) by (metis prod.inject)
  ultimately obtain io3 where io3: "attached L V io3" "stored V (dev io3) = ?d" "\<forall>a. \<not> driver_memory L a \<longrightarrow> ram io3 a = ram (io s) a"
    "sent io3 = sent (io s) @ str banner @ str (el_message ?el)"
    and b: "boot_steps D L stack_top p banner ?el dtb s = rom_main_rest D L p ?el dtb (s\<lparr>heap := (heap s)\<lparr>brk := stack_top\<rparr>, io := io3\<rparr>)"
    using boot_steps_found[OF dev(3) mem(4), where s = s and el = ?el and stack_top = stack_top and p = p and dtb = dtb] by blast
  let ?s = "s\<lparr>heap := (heap s)\<lparr>brk := stack_top\<rparr>, io := io3\<rparr>"
  obtain lba args where ch: "fst (block_choice (env_area ?d)) = (lba, args)" by fastforce
  have "\<exists>msg io'. rom_main_rest D L p ?el dtb ?s = Some (Inl (msg, io')) \<and> sent io' = sent io3 @ said \<and>
      format_bytes (fst msg) (snd msg) = Some reason"
  proof (cases "capacity V < 272")
    case True
    then have "said = []" "reason = no_env_text" using fails by (simp_all add: boot_failure_def)
    moreover obtain io4 where "process_uboot_env D L p ?s = Some (Inl ((str ''Failed to read u-boot environment from LBA %d\<newline>'', [Va_w 16]), io4))"
      "sent io4 = sent io3"
      using process_no_disk[OF dev(1,2), of ?s p] io3(1) mem True by auto
    ultimately show ?thesis using no_env_bytes by (simp add: rom_main_rest_def)
  next
    case False
    then obtain why where why: "load_refusal (capacity V) (boot_disk ?d) lba = Some why" "refusal_text lba why = Some reason"
      "said = block_log p (env_area ?d)"
      using fails ch by (auto simp: boot_failure_def split: option.splits)
    have "0 \<le> lba" "lba < 18446744073709551616" using block_choice_args ch by (metis prod.collapse)+
    moreover obtain io4 where "rom_main_rest D L p ?el dtb ?s =
        Some (Inl (refusal_message lba (uint (image_size (kernel_header_at (boot_disk ?d) (512 * lba)))) why, io4))"
      "sent io4 = sent io3 @ said"
      using boot_stages[where s = ?s and d = ?d and m = "ram (io s)" and el = ?el and dtb = dtb,
          OF dev(1-3) _ _ _ mem(3,5,6) _ _ slot ch refl] why io3 mem False by auto
    ultimately show ?thesis using refusal_bytes[OF why(2)] by blast
  qed
  then obtain fmt ap io' where r: "boot_steps D L stack_top p banner ?el dtb s = Some (Inl ((fmt, ap), io'))" "sent io' = sent io3 @ said"
    "format_bytes fmt ap = Some reason" unfolding b by fastforce
  obtain h s' where "fatal D stops CurrentEL fmt ap io' = Some (h, s')" "sent s' = sent io' @ fatal_text ?el reason" "switched_off stops ?el h"
    using fatal_reports[OF r(3)] by blast
  with r(1,2) io3(4) show ?thesis by (simp add: rom_main_def)
qed

text \<open>At an example: a disk without an image at sector 1024, in EL2, with a firmware that ends the run.\<close>

theorem failure_reported_witness:
  "\<exists>h s'. rom_main (sim_device ex_layout) ex_layout (\<lambda>_. True) 8 0x40000 0x50000 ''loader'' 64 (ex_machine (save_block ex_disk ex_stable)) = Some (Inl (h, s')) \<and>
     calls h = [Smc 0x84000008] \<and> \<not> waits h"
proof -
  let ?d = "save_block ex_disk ex_stable"
  have c: "fst (block_choice (env_area ?d)) = (1024, None)" "boot_disk ?d = ?d" "slot_named (env_area ?d)"
    by (simp_all add: boot_disk_def ex_stable_choice)
  have "?d a = 0" if "139264 \<le> a" for a using that by (auto simp: save_block_def ex_disk_def inside_def)
  then have "magic (kernel_header_at ?d 524288) = 0" by (simp add: kernel_header_at_def load32_def)
  then have "load_refusal (capacity sim_drive) ?d 1024 = Some No_magic"
    by (simp add: load_refusal_def sim_drive_def sim_sectors_def Let_def)
  then obtain said reason where f: "boot_failure 0x50000 (capacity sim_drive) ?d = Some (said, reason)"
    using c by (simp add: boot_failure_def refusal_text_def sim_drive_def sim_sectors_def)
  have u: "usable ex_layout 0x40200000 (512 + 67108864)"
    by (auto simp: usable_def driver_memory_def inside_def ex_layout_def)
  have i: "\<forall>s. \<exists>s'. virtio_blk_init (sim_device ex_layout) ex_layout s = (Inr (), s') \<and> attached ex_layout sim_drive s'"
    using sim_init[OF ex_layout_ok] by blast
  have dv: "stored sim_drive (dev (io (ex_machine ?d))) = ?d" by (simp add: sim_drive_def ex_machine_def)
  have el: "get_el 8 = 2" by (simp add: get_el_def s32_def)
  show ?thesis
    using failure_reported[OF sim_serves ex_layout_addresses sim_quiet i ex_buffer _ u, where banner = "''loader''" and p = "0x50000" and
        s = "ex_machine ?d" and said = said and reason = reason and stops = "\<lambda>_. True" and CurrentEL = 8 and dtb = 64] c(3) f
    by (auto simp: dv el switched_off_def str_def of_char_of)
qed

text \<open>C35: A machine without a virtio block device of the version the loader knows, whatever else is at the addresses, is told
  how to start one: the run sends the banner, the exception level and the text on the command line of QEMU, in the
  frame of \<open>fatal\<close>, and ends the same way.\<close>

theorem missing_disk_reported:
  assumes "\<exists>(a, v) \<in> {(VIRT_MMIO_MAGIC, 0x74726976), (VIRT_MMIO_VERSION, 2), (VIRT_MMIO_DEVICE_ID, 2), (VIRT_MMIO_VENDOR_ID, 0x554d4551)}.
      \<forall>d. fst (reg_read D d a) \<noteq> v" "cstring (str banner)"
  shows "\<exists>h s'. rom_main D L stops CurrentEL stack_top p banner dtb s = Some (Inl (h, s')) \<and>
    sent s' = sent (io s) @ str banner @ str (el_message (get_el CurrentEL)) @ fatal_text (get_el CurrentEL) (str no_device_text) \<and>
    switched_off stops (get_el CurrentEL) h"
proof -
  have "fst (rreg D a x) = fst (reg_read D (dev x) a)" for a x by (simp add: rreg_def split: prod.split)
  then have probe: "\<not> fst (probe_ids D x)" for x
    using assms(1) by (auto simp: probe_ids_def case_prod_unfold)
  have init: "fst (virtio_blk_init D L x) = Inl no_device_text" for x
    using probe[of x] by (simp add: virtio_blk_init_def case_prod_unfold)
  obtain io2 where io2: "sent io2 = sent (io s) @ str banner @ str (el_message (get_el CurrentEL))"
    "boot_steps D L stack_top p banner (get_el CurrentEL) dtb s =
      (case virtio_blk_init D L io2 of
         (Inl msg, io3) \<Rightarrow> Some (Inl ((str msg, []), io3))
       | (Inr _, io3) \<Rightarrow> rom_main_rest D L p (get_el CurrentEL) dtb (s\<lparr>heap := (heap s)\<lparr>brk := stack_top\<rparr>, io := io3\<rparr>))"
    using boot_steps_init[OF assms(2)] by blast
  obtain io3 where io3: "virtio_blk_init D L io2 = (Inl no_device_text, io3)" using init[of io2] by (metis prod.collapse)
  have "sent io3 = sent io2" using init_sent[of D L io2] io3 by simp
  moreover have "format_bytes (str no_device_text) [] = Some (str no_device_text)"
    by (rule plain_text) (simp add: no_device_text_def str_def of_char_of)
  note f = fatal_reports[OF this, of D stops CurrentEL io3]
  ultimately show ?thesis using io2 io3 f by (auto simp: rom_main_def)
qed

text \<open>At an example: nothing at all on the bus.\<close>

definition no_disk :: "unit device" where
  "no_disk = \<lparr>reg_read = (\<lambda>d a. (0, d)), reg_write = (\<lambda>d a v. d), dma = (\<lambda>d m. (d, m))\<rparr>"

theorem missing_disk_reported_witness:
  "\<exists>h s'. rom_main no_disk ex_layout (\<lambda>_. False) 4 0x40000 0x50000 ''loader'' 64
     \<lparr>io = \<lparr>dev = (), ram = (\<lambda>_. 0), accesses = []\<rparr>, heap = \<lparr>pairs = (\<lambda>_. \<lparr>nv_name = [], nv_value = [], nv_next = 0\<rparr>), brk = 0\<rparr>\<rparr> =
     Some (Inl (h, s')) \<and> calls h = [Hvc 0x84000008, Smc 0x84000008] \<and> waits h"
proof -
  have el: "get_el 4 = 1" by (simp add: get_el_def s32_def)
  have "cstring (str ''loader'')" by (simp add: str_def of_char_of)
  from missing_disk_reported[OF _ this, where D = no_disk and stops = "\<lambda>_. False" and CurrentEL = 4] show ?thesis
    by (fastforce simp: no_disk_def el switched_off_def)
qed

definition oversize_format :: "byte list" where
  "oversize_format = str ''Linux kernel header image size of %lu is larger than max support size of %lu''"

text \<open>The message on the size passes \<open>KERNEL_MAX_LENGTH\<close>, an \<open>int\<close>, to \<open>%lu\<close>: what it prints is not defined.\<close>

lemma format_percent_None:
  "npf_parse_format_spec (37 # rest) = (k, fs) \<Longrightarrow> k \<noteq> 0 \<Longrightarrow> one_bytes fs args = None \<Longrightarrow> format_bytes (37 # rest) args = None"
  by (subst format_bytes.simps) simp

lemma percent_lu_word: "format_bytes (37 # 108 # 117 # rest) (Va_w v # args) = None"
proof -
  let ?d = "percent LEN_MOD_LONG 117"
  have d: "directive_ok ?d" "directive_text ?d = [37, 108, 117]"
    by (simp_all add: percent_def directive_ok_def conv_chars_def directive_text_def flag_text_def width_text_def prec_text_def mod_text_def)
  have "one_bytes (spec_of ?d) (Va_w v # args) = None"
    by (simp add: one_bytes_def star_spec_of npf_convert_def convert_unsigned_def extract_unsigned_def va_long_def conv_of_def conv_chars_def
        percent_def)
  with format_percent_None[of "108 # 117 # rest"] parse_directive[OF d(1), of rest] show ?thesis by (simp add: d(2))
qed

theorem oversize_message_undefined:
  assumes "0 \<le> n" "n < 18446744073709551616"
  shows "fatal D stops el oversize_format [Va_x n, Va_w (64 * 1024 * 1024)] s = None"
proof -
  have "format_bytes oversize_format [Va_x n, Va_w (64 * 1024 * 1024)] = None"
    using assms by (simp add: oversize_format_def str_def of_char_of format_char percent_lu percent_lu_word)
  then show ?thesis by (simp add: fatal_def npf_vpprintf_bytes split: bind_splits)
qed

end
