(* ===== verification/Fdt_Fail.thy ===== *)
theory Fdt_Fail
  imports Fdt_Safe
begin

text \<open>
  Edits that fail (\<open>src/src/libfdt/fdt_rw.c\<close>): nothing of the tree has changed.  The hard case is a new
  property whose name has been put into the string block before the property itself finds no room:
  the name is given up again (\<open>fdt_del_last_string_\<close>), and only free space behind the blocks differs.
\<close>

section \<open>What is in use\<close>

definition same_data :: "addr \<Rightarrow> mem \<Rightarrow> mem \<Rightarrow> bool" where
  "same_data f m m' \<longleftrightarrow> (\<forall>a. a < f + fdt_off_dt_strings m f + fdt_size_dt_strings m f \<longrightarrow> m' a = m a)"

lemma same_data_refl [simp]: "same_data f m m"
  by (simp add: same_data_def)

lemma find_add_string_cases:
  assumes rw: "rw_tree m f" and l: "strlen name = Some l" "l < 2147483647"
    and r: "fdt_find_add_string' m f name = Some (off, allocated, m')"
  shows "if allocated then m' = memcpy_from (fdt_set_size_dt_strings m f (fdt_size_dt_strings m f + (l + 1)))
      (f + fdt_off_dt_strings m f + fdt_size_dt_strings m f) name (nat (l + 1)) \<and>
      fdt_off_dt_strings m f + fdt_size_dt_strings m f + (l + 1) \<le> fdt_totalsize m f
    else m' = m"
proof -
  note b = rw_treeD[OF rw] rw_tree_bounds[OF rw]
  have l0: "0 \<le> l" using l(1) strlen_Some_iff by simp
  let ?t = "f + fdt_off_dt_strings m f" and ?s = "fdt_size_dt_strings m f"
  have len: "s32 (l + 1) = l + 1" "sz (l + 1) = nat (l + 1)" using l(2) l0 by (simp_all add: s32_id sz_id)
  have ss: "s32 ?s = ?s" by (rule s32_id) (use b in linarith)+
  obtain q where q: "fdt_find_string' m ?t ?s name = Some q" using l(1) by (simp add: fdt_find_string'_def Let_def)
  obtain err m1 where sp: "fdt_splice_string' m f (l + 1) = (err, m1)" by fastforce
  have "0 \<le> l + 1" "l + 1 \<le> 2147483647" using l0 l(2) by linarith+
  note s = fdt_splice_string_spec[OF rw sp this]
  show ?thesis using r l(1) q ss len sp s by (cases q) (auto simp: fdt_find_add_string'_def Let_def split: if_splits)
qed

text \<open>The name is given up again.\<close>

lemma string_given_up:
  assumes rw: "rw_tree m f" and l: "strlen name = Some l" "l < 2147483647"
    and r: "fdt_find_add_string' m f name = Some (off, True, m1)" and d: "fdt_del_last_string' m1 f name = Some m'"
  shows "same_data f m m'"
proof -
  note b = rw_treeD[OF rw] rw_tree_bounds[OF rw]
  have l0: "0 \<le> l" using l(1) strlen_Some_iff by simp
  let ?e = "f + fdt_off_dt_strings m f + fdt_size_dt_strings m f" and ?s = "fdt_size_dt_strings m f"
  let ?m0 = "fdt_set_size_dt_strings m f (?s + (l + 1))"
  have m1: "m1 = memcpy_from ?m0 ?e name (nat (l + 1))" "fdt_off_dt_strings m f + ?s + (l + 1) \<le> fdt_totalsize m f"
    using find_add_string_cases[OF rw l r] by simp_all
  have "f + 40 \<le> ?e" using b by linarith
  then have "same_on f 40 ?m0 m1"
    unfolding m1(1) by (intro writes_in_same_on[OF writes_in_memcpy_from[of ?e ?e _ "l + 1"]]) (use l0 in simp_all)
  then have "fdt_size_dt_strings m1 f = ?s + (l + 1)"
    using same_header[of f ?m0 m1] m1(2) l0 b by (simp add: fdt_get_set_hdr u32_id)
  moreover have "s32 (l + 1) = l + 1" using l(2) l0 by (simp add: s32_id)
  ultimately have m': "m' = fdt_set_size_dt_strings m1 f ?s" using d l(1) by (simp add: fdt_del_last_string'_def)
  have "m' a = m a" if "a < ?e" for a
  proof (cases "f + 32 \<le> a \<and> a < f + 36")
    case True
    then show ?thesis unfolding m' by (intro set_hdr_back) (simp_all add: u32_id)
  next
    case False
    then show ?thesis using that unfolding m' m1(1) by (auto simp: fdt_set_hdr_outside memcpy_from_spec)
  qed
  then show ?thesis by (simp add: same_data_def)
qed

section \<open>The edits\<close>

lemma splice_struct_fails: "fdt_splice_struct' m f p oldlen newlen = (err, m') \<Longrightarrow> err \<noteq> 0 \<Longrightarrow> m' = m"
  by (auto simp: fdt_splice_struct'_def fdt_splice'_def Let_def split: if_splits prod.splits)

lemma add_property_fails:
  assumes rw: "rw_tree m f" and l: "strlen name = Some l" "l < 2147483647"
    and r: "fdt_add_property' m f node name len = Some (err, p, m')" and err: "err \<noteq> 0"
  shows "same_data f m m'"
proof (cases "fdt_check_node_offset' m f node < 0")
  case True
  with r show ?thesis by (auto simp: fdt_add_property'_def)
next
  case False
  then obtain off al m1 where fa: "fdt_find_add_string' m f name = Some (off, al, m1)"
    using r by (auto simp: fdt_add_property'_def split: bind_splits)
  obtain e m2 where sp: "fdt_splice_struct' m1 f (fdt_offset_ptr' m1 f (fdt_check_node_offset' m f node)) 0 (s32 (12 + FDT_ALIGN len 4)) = (e, m2)"
    by fastforce
  show ?thesis
  proof (cases "off < 0")
    case True
    with fdt_find_add_string_spec[OF rw l fa] False r fa show ?thesis by (auto simp: fdt_add_property'_def)
  next
    case o: False
    with r err False fa sp have e: "e \<noteq> 0" by (auto simp: fdt_add_property'_def Let_def)
    with splice_struct_fails[OF sp] have m2: "m2 = m1" by simp
    show ?thesis
    proof (cases al)
      case True
      with r False fa sp o e m2 have "fdt_del_last_string' m1 f name = Some m'"
        by (auto simp: fdt_add_property'_def Let_def split: bind_splits)
      with string_given_up[OF rw l] fa True show ?thesis by simp
    next
      case n: False
      with r False fa sp o e m2 find_add_string_cases[OF rw l fa] show ?thesis by (auto simp: fdt_add_property'_def Let_def)
    qed
  qed
qed

lemma setprop_fails:
  assumes rw: "rw_tree m f" and l: "strlen name = Some l" "l < 2147483647"
    and r: "fdt_setprop m f node name val len = Some (err, m')" and err: "err \<noteq> 0" and len: "0 \<le> len" "len \<le> 2147483632"
  shows "same_data f m m'"
proof -
  obtain e p m1 where rs: "fdt_resize_property' m f node name len = Some (e, p, m1)"
    using r rw_probe_ok[OF rw] by (auto simp: fdt_setprop_def fdt_setprop_placeholder_def split: bind_splits)
  show ?thesis
  proof (cases "e = - FDT_ERR_NOTFOUND")
    case True
    with fdt_resize_property_spec[OF rw l(1) len rs] have "m1 = m" by simp
    with r rs True rw_probe_ok[OF rw] err obtain p2 where "fdt_add_property' m f node name len = Some (err, p2, m')"
      by (auto simp: fdt_setprop_def fdt_setprop_placeholder_def split: bind_splits if_splits)
    with add_property_fails[OF rw l _ err] show ?thesis by blast
  next
    case False
    with r rs rw_probe_ok[OF rw] err have "e \<noteq> 0" "m' = m1"
      by (auto simp: fdt_setprop_def fdt_setprop_placeholder_def split: if_splits)
    with fdt_resize_property_spec[OF rw l(1) len rs] show ?thesis by simp
  qed
qed

lemma appendprop_fails:
  assumes rw: "rw_tree m f" and l: "strlen name = Some l" "l < 2147483647"
    and r: "fdt_appendprop m f node name val len = Some (err, m')" and err: "err \<noteq> 0"
  shows "same_data f m m'"
proof -
  obtain pr n where g: "fdt_get_property_namelen m f node name (s32 l) = (pr, n)" by fastforce
  show ?thesis
  proof (cases pr)
    case None
    with r rw_probe_ok[OF rw] l(1) g err obtain p2 where "fdt_add_property' m f node name len = Some (err, p2, m')"
      by (auto simp: fdt_appendprop_def fdt_get_property_def split: bind_splits if_splits)
    with add_property_fails[OF rw l _ err] show ?thesis by blast
  next
    case (Some p)
    with r rw_probe_ok[OF rw] l(1) g err have "m' = m"
      by (auto simp: fdt_appendprop_def fdt_get_property_def Let_def split: prod.splits if_splits dest: splice_struct_fails)
    then show ?thesis by simp
  qed
qed

lemma removal_fails:
  assumes rw: "rw_tree m f" and err: "err < 0"
  shows "fdt_delprop m f node name = Some (err, m') \<Longrightarrow> m' = m" "fdt_set_name m f node name = Some (err, m') \<Longrightarrow> m' = m"
    "fdt_del_node m f node = (err, m') \<Longrightarrow> m' = m"
  using err rw_probe_ok[OF rw]
  by (auto simp: fdt_delprop_def fdt_set_name_def fdt_del_node_def Let_def split: bind_splits option.splits prod.splits if_splits
      dest: splice_struct_fails)

lemma add_subnode_fails:
  assumes rw: "rw_tree m f" and r: "fdt_add_subnode m f node name = Some (err, m')" and err: "err < 0"
    and node: "is_int node"
  shows "m' = m"
proof -
  obtain l where l: "fdt_add_subnode_namelen m f node name l = Some (err, m')" using r by (auto simp: fdt_add_subnode_def split: bind_splits)
  show ?thesis
  proof (cases "fdt_next_tag m f node")
    case (Pair tag nx)
    have "0 \<le> add_subnode_skip m f nx" if "tag = FDT_BEGIN_NODE"
      using add_subnode_skip_bounds[OF rw, of nx] fdt_next_tag_bounds[OF rw Pair _ node] that by simp
    with l err rw_probe_ok[OF rw] Pair show ?thesis
      by (auto simp: fdt_add_subnode_namelen_def Let_def split: bind_splits prod.splits if_splits dest: splice_struct_fails)
  qed
qed

lemma edit_fails:
  assumes "rw_tree m f" "edit_args x (fdt_totalsize m f)" "run_edit x m f = Some (err, m')" "err < 0"
  shows "same_data f m m'"
proof (cases x)
  case (Setprop node name val len)
  with assms show ?thesis using setprop_fails[OF assms(1)] by (fastforce dest: name_argD)
next
  case (Appendprop node name val len)
  with assms show ?thesis using appendprop_fails[OF assms(1)] by (fastforce dest: name_argD)
next
  case (Delprop node name)
  then have "m' = m" using assms(3) by (intro removal_fails(1)[OF assms(1,4)]) simp
  then show ?thesis by simp
next
  case (Set_name node name)
  then have "m' = m" using assms(3) by (intro removal_fails(2)[OF assms(1,4)]) simp
  then show ?thesis by simp
next
  case (Add_subnode node name)
  then have "m' = m" using assms(2,3) by (intro add_subnode_fails[OF assms(1) _ assms(4), where node = node and name = name]) simp_all
  then show ?thesis by simp
next
  case (Del_node node)
  then have "m' = m" using assms(3) by (intro removal_fails(3)[OF assms(1,4)]) simp
  then show ?thesis by simp
next
  case (Del_mem_rsv k)
  with assms(2-4) fdt_del_mem_rsv_spec[OF assms(1), of k err m'] show ?thesis by simp
qed

section \<open>Properties\<close>

text \<open>C13: An edit that reports an error has done nothing: below the end of the strings, headers and blocks
  included, every byte of the tree is what it was, and so is everything outside of the tree; a name that was added
  for a property without room is given up again.\<close>

theorem failed_edit_harmless:
  assumes "rw_tree m f" "edit_args x (fdt_totalsize m f)" "run_edit x m f = Some (err, m')" "err < 0"
  shows "\<forall>a. a < f + fdt_off_dt_strings m f + fdt_size_dt_strings m f \<or> f + fdt_totalsize m f \<le> a \<longrightarrow> m' a = m a"
proof -
  have "same_data f m m'" using assms by (rule edit_fails)
  moreover have "kept f m m'" by (rule any.keeps[OF assms(2) rw_tree_checks[OF assms(1)] assms(3)])
  ultimately show ?thesis by (auto simp: same_data_def kept_def writes_in_def)
qed

text \<open>The example tree has 24 free bytes: a name of two fits, a property of 128 does not.\<close>

theorem failed_edit_harmless_witness:
  "\<exists>err m'. fdt_setprop ex_tree 64 0 (chars ''b'') (lit []) 128 = Some (err, m') \<and> err < 0 \<and> (\<forall>a<168. m' a = ex_tree a)"
proof -
  have rw: "rw_tree ex_tree 64" by (simp add: rw_tree_def ex_tree_header)
  have l: "strlen (chars ''b'') = Some 1" and n: "name_arg (chars ''b'')"
    using strlen_points_to[of "chars ''b''" "str ''b''"] by (simp_all add: chars_def str_def of_char_of name_arg_lit)
  obtain err m' where r: "fdt_setprop ex_tree 64 0 (chars ''b'') (lit []) 128 = Some (err, m')" using fdt_setprop_returns[OF l] by blast
  obtain v' m1 where p: "fdt_setprop_placeholder ex_tree 64 0 (chars ''b'') 128 = Some (err, v', m1)"
    using r by (auto simp: fdt_setprop_def split: bind_splits if_splits)
  have "err \<noteq> 0" using fdt_setprop_placeholder_edited[OF rw l _ _ _ _ p] by (auto simp: is_int_def ex_tree_header)
  with setprop_nonpos[OF r rw l] have e: "err < 0" by simp
  from failed_edit_harmless[OF rw _ _ e, of "Setprop 0 (chars ''b'') (lit []) 128" m'] r n e
  show ?thesis by (auto simp: is_int_def ex_tree_header)
qed

end
