(* ===== verification/Fdt_Pack.thy ===== *)
theory Fdt_Pack
  imports Fdt_Items
begin

text \<open>
  Moving the blocks of a tree (\<open>fdt_packblocks_\<close>, \<open>fdt_pack\<close>, \<open>fdt_open_into\<close> of
  \<open>src/src/libfdt/fdt_rw.c\<close>): where they go, and that none of their bytes is lost.
\<close>

section \<open>The blocks in their new places\<close>

text \<open>The blocks of the tree at \<open>f\<close>, with a reservation map of \<open>r\<close> bytes, are those of the tree at \<open>g\<close>.\<close>

definition same_blocks :: "int \<Rightarrow> mem \<Rightarrow> addr \<Rightarrow> mem \<Rightarrow> addr \<Rightarrow> bool" where
  "same_blocks r m f m' g \<longleftrightarrow>
     fdt_size_dt_struct m' g = fdt_size_dt_struct m f \<and> fdt_size_dt_strings m' g = fdt_size_dt_strings m f \<and>
     same_bytes m (f + fdt_off_mem_rsvmap m f) m' (g + fdt_off_mem_rsvmap m' g) r \<and>
     same_bytes m (f + fdt_off_dt_struct m f) m' (g + fdt_off_dt_struct m' g) (fdt_size_dt_struct m f) \<and>
     same_bytes m (f + fdt_off_dt_strings m f) m' (g + fdt_off_dt_strings m' g) (fdt_size_dt_strings m f)"

lemma memmove_moves: "0 \<le> n \<Longrightarrow> memmove m d s (nat n) = (\<lambda>a. if inside d n a then m (s + (a - d)) else m a)"
  by (simp add: memmove_spec inside_def fun_eq_iff)

lemma header_outside: "0 \<le> k \<Longrightarrow> k \<le> 36 \<Longrightarrow> \<not> inside f 40 a \<Longrightarrow> fdt_set_hdr m f k v a = m a"
  by (rule fdt_set_hdr_outside) (auto simp: inside_def)

lemma same_bytes_header:
  "same_bytes m p m1 (f + k) n \<Longrightarrow> 40 \<le> k \<Longrightarrow> 0 \<le> j \<Longrightarrow> j \<le> 36 \<Longrightarrow> same_bytes m p (fdt_set_hdr m1 f j v) (f + k) n"
  by (auto simp: same_bytes_def header_outside inside_def)

lemma same_bytes_sub: "same_bytes m f m' g n \<Longrightarrow> 0 \<le> k \<Longrightarrow> k + j \<le> n \<Longrightarrow> same_bytes m (f + k) m' (g + k) j"
  by (simp add: same_bytes_def add.assoc)

lemma same_bytes_trans: "same_bytes m f m1 g n \<Longrightarrow> same_bytes m1 g m2 h n \<Longrightarrow> same_bytes m f m2 h n"
  by (simp add: same_bytes_def)

text \<open>A tree that is copied with all of its blocks.\<close>

lemma same_blocks_copy:
  assumes "same_blocks r m f m1 g" "same_bytes m1 g m2 h n" "40 \<le> n" "0 \<le> fdt_off_mem_rsvmap m1 g"
    "fdt_off_mem_rsvmap m1 g + r \<le> n" "fdt_off_dt_struct m1 g + fdt_size_dt_struct m1 g \<le> n"
    "fdt_off_dt_strings m1 g + fdt_size_dt_strings m1 g \<le> n"
  shows "same_blocks r m f m2 h"
  using assms(1) same_bytes_sub[OF assms(2)] assms(4-7) unfolding same_blocks_def
  by (auto simp: same_bytes_field[OF assms(2,3)] intro: same_bytes_trans)

lemma same_blocks_refl: "same_blocks r m f m f"
  by (simp add: same_blocks_def same_bytes_def)

lemma same_blocks_items: "same_blocks r m f m' g \<Longrightarrow> holds_items m f xs \<Longrightarrow> holds_items m' g xs"
  using moved_blocks_items[of m f m' g xs] by (simp add: same_blocks_def)

lemma same_blocks_header:
  assumes "same_blocks r m f m' g" "k \<in> {0, 4, 20, 24, 28}"
    "40 \<le> fdt_off_mem_rsvmap m' g" "40 \<le> fdt_off_dt_struct m' g" "40 \<le> fdt_off_dt_strings m' g"
  shows "same_blocks r m f (fdt_set_hdr m' g k v) g"
proof -
  have keep: "fdt_get_header (fdt_set_hdr m' g k v) g j = fdt_get_header m' g j" if "j \<in> {8, 12, 16, 32, 36}" for j
    using assms(2) that by (intro trans[OF fdt_get_set_hdr]) auto
  have k: "0 \<le> k" "k \<le> 36" using assms(2) by auto
  show ?thesis unfolding same_blocks_def
    by (simp only: keep insert_iff simp_thms, intro conjI same_bytes_header k assms(3-5)) (use assms(1) in \<open>simp_all only: same_blocks_def simp_thms\<close>)
qed

text \<open>The blocks are moved one after the other; none of them may lie where an earlier one is put.\<close>

lemma packblocks_spec:
  fixes m old new R
  defines "S \<equiv> fdt_size_dt_struct m old" and "T \<equiv> fdt_size_dt_strings m old"
  defines "m' \<equiv> fdt_packblocks' m old new R S T"
  assumes sz: "0 \<le> R" "40 + R + S + T < 2147483648"
    and hd: "old = new \<or> (\<forall>a. inside old 40 a \<longrightarrow> \<not> inside new (40 + R + S + T) a)"
    and st: "\<forall>a. inside (old + fdt_off_dt_struct m old) S a \<longrightarrow> \<not> inside new (40 + R) a"
    and sg: "\<forall>a. inside (old + fdt_off_dt_strings m old) T a \<longrightarrow> \<not> inside new (40 + R + S) a"
  shows "writes_in new (40 + R + S + T) m m'" "same_blocks R m old m' new"
    "fdt_off_mem_rsvmap m' new = 40" "fdt_off_dt_struct m' new = 40 + R" "fdt_off_dt_strings m' new = 40 + R + S"
    "\<And>k. k \<in> {0, 4, 20, 24, 28} \<Longrightarrow> fdt_get_header m' new k = fdt_get_header m new k"
proof -
  have ST: "0 \<le> S" "0 \<le> T" by (simp_all add: S_def T_def)
  have n: "sz R = nat R" "sz S = nat S" "sz T = nat T" using sz ST by (simp_all add: sz_id)
  let ?m1 = "memmove m (new + 40) (old + fdt_off_mem_rsvmap m old) (nat R)"
  let ?m2 = "fdt_set_off_mem_rsvmap ?m1 new 40"
  let ?m3 = "memmove ?m2 (new + (40 + R)) (old + fdt_off_dt_struct m old) (nat S)"
  let ?m4 = "fdt_set_off_dt_struct ?m3 new (40 + R)"
  let ?m5 = "fdt_set_size_dt_struct ?m4 new S"
  let ?m6 = "memmove ?m5 (new + (40 + R + S)) (old + fdt_off_dt_strings m old) (nat T)"
  let ?m7 = "fdt_set_off_dt_strings ?m6 new (40 + R + S)"
  have field: "fdt_get_header (memmove mx d s (nat k)) f j = fdt_get_header mx f j"
    if "0 \<le> k" "\<forall>a. inside f 40 a \<longrightarrow> \<not> inside d k a" "0 \<le> j" "j \<le> 36" for mx d s k f j
    unfolding fdt_get_header_def
    by (intro arg_cong[of _ _ uint] fdt32_ld_cong) (use that in \<open>auto simp: memmove_moves inside_def\<close>)
  have away: "fdt_get_header (fdt_set_hdr mx new k v) old j = fdt_get_header mx old j"
    if "k \<noteq> j" "k + 4 \<le> j \<or> j + 4 \<le> k" "0 \<le> k" "k \<le> 36" "0 \<le> j" "j \<le> 36" for mx k v j
  proof (cases "old = new")
    case True
    then show ?thesis using that by (simp add: fdt_get_set_hdr)
  next
    case False
    then have "\<forall>a. inside old 40 a \<longrightarrow> \<not> inside new 40 a" using hd sz ST by (auto simp: inside_def)
    then show ?thesis unfolding fdt_get_header_def using that
      by (intro arg_cong[of _ _ uint] fdt32_ld_cong) (simp, rule header_outside, auto simp: inside_def)
  qed
  have old: "\<forall>a. inside old 40 a \<longrightarrow> \<not> inside (new + d) k a" if "40 \<le> d" "0 \<le> k" "d + k \<le> 40 + R + S + T" for d k
    using hd that by (auto simp: inside_def)
  have new: "\<forall>a. inside new 40 a \<longrightarrow> \<not> inside (new + d) k a" if "40 \<le> d" for d k
    using that by (auto simp: inside_def)
  have o: "fdt_off_dt_struct ?m2 old = fdt_off_dt_struct m old" "fdt_off_dt_strings ?m5 old = fdt_off_dt_strings m old"
    "fdt_size_dt_strings ?m7 old = T"
    using sz ST by (simp_all add: away field old T_def)
  have m': "m' = fdt_set_size_dt_strings ?m7 new T"
    using o by (simp add: m'_def fdt_packblocks'_def header_align n add.assoc Let_def)
  show "fdt_off_mem_rsvmap m' new = 40" "fdt_off_dt_struct m' new = 40 + R" "fdt_off_dt_strings m' new = 40 + R + S"
    "\<And>k. k \<in> {0, 4, 20, 24, 28} \<Longrightarrow> fdt_get_header m' new k = fdt_get_header m new k"
    using sz ST unfolding m' by (auto simp: fdt_get_set_hdr field new u32_id)
  moreover have "fdt_size_dt_struct m' new = S" "fdt_size_dt_strings m' new = T"
    using sz ST unfolding m' by (simp_all add: fdt_get_set_hdr field new u32_id)
  moreover have B: "m' a = (if inside (new + (40 + R + S)) T a then ?m5 (old + fdt_off_dt_strings m old + (a - (new + (40 + R + S))))
      else ?m5 a)" if "\<not> inside new 40 a" for a
    using that ST unfolding m' by (simp add: header_outside memmove_moves)
  have C: "?m5 a = (if inside (new + (40 + R)) S a then ?m2 (old + fdt_off_dt_struct m old + (a - (new + (40 + R)))) else ?m2 a)"
    if "\<not> inside new 40 a" for a
    using that ST by (simp add: header_outside memmove_moves)
  have E: "?m2 a = (if inside (new + 40) R a then m (old + fdt_off_mem_rsvmap m old + (a - (new + 40))) else m a)"
    if "\<not> inside new 40 a" for a
    using that sz by (simp add: header_outside memmove_moves)
  have outer: "\<not> inside new (40 + R) a \<Longrightarrow> ?m2 a = m a" "\<not> inside new (40 + R + S) a \<Longrightarrow> ?m5 a = m a" for a
    using sz ST C[of a] E[of a] by (auto simp: inside_def)
  show "writes_in new (40 + R + S + T) m m'"
    using B outer(2) sz ST by (auto simp: writes_in_def inside_def)
  have "same_bytes m (old + fdt_off_mem_rsvmap m old) m' (new + 40) R"
    using B C E ST sz by (simp add: same_bytes_def inside_def)
  moreover have "same_bytes m (old + fdt_off_dt_struct m old) m' (new + (40 + R)) S"
    using B C outer(1) st ST sz by (simp add: same_bytes_def inside_def)
  moreover have "same_bytes m (old + fdt_off_dt_strings m old) m' (new + (40 + R + S)) T"
    using B outer(2) sg ST sz by (simp add: same_bytes_def inside_def)
  ultimately show "same_blocks R m old m' new" by (simp add: same_blocks_def S_def T_def)
qed

section \<open>Packing\<close>

lemma pack_spec:
  assumes rw: "rw_tree m f" and n: "fdt_num_mem_rsv m f = Some n" "0 \<le> n" "fdt_off_mem_rsvmap m f + 16 * n + 16 \<le> fdt_off_dt_struct m f"
  shows "\<exists>m'. fdt_pack m f = Some (0, m') \<and> rw_tree m' f \<and> same_blocks (16 * n + 16) m f m' f \<and>
    writes_in f (fdt_totalsize m f) m m' \<and> fdt_totalsize m' f = fdt_off_dt_strings m' f + fdt_size_dt_strings m' f \<and>
    fdt_off_dt_strings m' f = fdt_off_dt_struct m' f + fdt_size_dt_struct m' f \<and>
    fdt_off_dt_struct m' f = 56 + 16 * n \<and> fdt_off_mem_rsvmap m' f = 40"
proof -
  note b = rw_treeD[OF rw] rw_tree_bounds[OF rw]
  let ?R = "16 * n + 16" and ?S = "fdt_size_dt_struct m f" and ?T = "fdt_size_dt_strings m f"
  have s': "s32 ?S = ?S" "s32 ?T = ?T" by (rule s32_id; use b in linarith)+
  obtain m1 where m1: "fdt_packblocks' m f f ?R ?S ?T = m1" by blast
  have R: "0 \<le> ?R" "40 + ?R + ?S + ?T < 2147483648" "40 + ?R + ?S + ?T \<le> fdt_totalsize m f" using n(2,3) b by linarith+
  have s: "s32 ?R = ?R" by (rule s32_id) (use R(1,2) b(7,8) in linarith)+
  have disj: "\<forall>a. inside (f + fdt_off_dt_struct m f) ?S a \<longrightarrow> \<not> inside f (40 + ?R) a"
    "\<forall>a. inside (f + fdt_off_dt_strings m f) ?T a \<longrightarrow> \<not> inside f (40 + ?R + ?S) a"
    using n(3) b by (auto simp: inside_def)
  note p = packblocks_spec[OF R(1,2) disjI1[OF refl] disj, unfolded m1]
  let ?m2 = "fdt_set_totalsize m1 f (fdt_data_size' m1 f)"
  have d: "fdt_data_size' m1 f = 40 + ?R + ?S + ?T"
    using p(2,5) R by (simp add: fdt_data_size'_def same_blocks_def u32_id)
  have keep: "fdt_get_header ?m2 f k = fdt_get_header m1 f k" if "k \<noteq> 4" "k mod 4 = 0" "0 \<le> k" for k
    using that by (intro trans[OF fdt_get_set_hdr]) presburger+
  have t: "fdt_totalsize ?m2 f = 40 + ?R + ?S + ?T" using R b by (simp add: fdt_get_set_hdr d u32_id)
  have sb: "same_blocks ?R m f ?m2 f"
    by (rule same_blocks_header[OF p(2)]; use R(1) b(7) p(3-5) in \<open>linarith | simp\<close>)
  have fields: "fdt_magic ?m2 f = fdt_magic m f" "fdt_version ?m2 f = fdt_version m f" "fdt_last_comp_version ?m2 f = fdt_last_comp_version m f"
    using p(6) by (simp_all add: keep)
  have "rw_tree ?m2 f"
    using rw sb R n(2) unfolding rw_tree_def fields t same_blocks_def by (simp add: keep p(3-5))
  moreover have "writes_in f (fdt_totalsize m f) m m1" using p(1) R(3) by (rule_tac writes_in_mono) auto
  then have "writes_in f (fdt_totalsize m f) m ?m2" by (rule writes_in_trans) (use b in \<open>simp add: writes_in_header\<close>)
  ultimately show ?thesis
    using sb rw_probe_ok[OF rw] n(1) s s' m1 p(3-5) t
    by (simp add: fdt_pack_def keep same_blocks_def Let_def distrib_right mult.commute[of _ 16])
qed

section \<open>Opening\<close>

text \<open>What the header says once the fields of an opened tree are written.\<close>

lemma open_in_order:
  assumes c: "fdt_check_header m f = 0" "17 \<le> fdt_version m f" "fdt_totalsize m f < 2147483647"
    and o: "\<not> fdt_blocks_misordered' m f R (fdt_size_dt_struct m f)" "16 \<le> R" "fdt_off_mem_rsvmap m f + R \<le> fdt_totalsize m f"
    and buf: "buf AND 7 = 0" "fdt_totalsize m f \<le> bufsize" "bufsize < 2147483647"
    and m': "m' = fdt_set_totalsize (fdt_set_size_dt_struct (fdt_set_version (memmove m buf f (sz (fdt_totalsize m f))) buf 17) buf
      (fdt_size_dt_struct m f)) buf bufsize"
  shows "rw_tree m' buf \<and> same_blocks R m f m' buf \<and> fdt_totalsize m' buf = bufsize \<and> writes_in buf bufsize m m'"
proof -
  let ?t = "fdt_totalsize m f" and ?S = "fdt_size_dt_struct m f"
  have h: "fdt_magic m f = FDT_MAGIC" "fdt_last_comp_version m f \<le> 17" "40 \<le> ?t" "40 \<le> fdt_off_dt_struct m f"
    "fdt_off_dt_struct m f + ?S \<le> ?t" "40 \<le> fdt_off_dt_strings m f"
    "fdt_off_dt_strings m f + fdt_size_dt_strings m f \<le> ?t" "0 \<le> ?S"
    using c(1)[unfolded fdt_check_header_iff fdt_header_size_def fdt_header_size'_def] c(2) by simp_all
  have "u32 (fdt_off_mem_rsvmap m f + R) = fdt_off_mem_rsvmap m f + R" "u32 (fdt_off_dt_struct m f + ?S) = fdt_off_dt_struct m f + ?S"
    by (rule u32_id; use o(2,3) c(3) h fdt_get_header_range(1)[of m f 16] in linarith)+
  then have ord: "40 \<le> fdt_off_mem_rsvmap m f" "fdt_off_mem_rsvmap m f + R \<le> fdt_off_dt_struct m f"
    "fdt_off_dt_struct m f + ?S \<le> fdt_off_dt_strings m f"
    using o(1) by (auto simp: fdt_blocks_misordered'_def header_align)
  define m1 where "m1 = memmove m buf f (nat ?t)"
  have b: "same_bytes m f m1 buf ?t" using h(3) by (simp add: m1_def memmove_moves same_bytes_def inside_def)
  note hd = same_bytes_field[OF b h(3)]
  have sb: "same_blocks R m f m1 buf"
    by (rule same_blocks_copy[OF same_blocks_refl b h(3)]) (use ord o h in linarith)+
  have "fdt_set_size_dt_struct (fdt_set_version m1 buf 17) buf ?S = fdt_set_version m1 buf 17"
    by (rule set_hdr_same) (use h c(3) in \<open>simp add: fdt_get_set_hdr hd u32_id\<close>)
  moreover have "sz ?t = nat ?t" using c(3) h(3) by (simp add: sz_id)
  ultimately have m': "m' = fdt_set_totalsize (fdt_set_version m1 buf 17) buf bufsize" by (simp add: m' m1_def)
  have f: "fdt_magic m' buf = FDT_MAGIC" "fdt_last_comp_version m' buf = fdt_last_comp_version m f" "fdt_version m' buf = 17"
    "fdt_totalsize m' buf = bufsize" "fdt_off_mem_rsvmap m' buf = fdt_off_mem_rsvmap m f" "fdt_off_dt_struct m' buf = fdt_off_dt_struct m f"
    "fdt_off_dt_strings m' buf = fdt_off_dt_strings m f" "fdt_size_dt_struct m' buf = ?S" "fdt_size_dt_strings m' buf = fdt_size_dt_strings m f"
    using h(1,3) buf by (simp_all add: m' fdt_get_set_hdr hd u32_id)
  have "rw_tree m' buf" using ord h o(2) buf unfolding rw_tree_def f by (intro conjI) (assumption | linarith | simp)+
  moreover have "40 \<le> fdt_off_mem_rsvmap m1 buf" "40 \<le> fdt_off_dt_struct m1 buf" "40 \<le> fdt_off_dt_strings m1 buf"
    using ord(1) h(4,6) by (simp_all add: hd)
  then have "same_blocks R m f m' buf"
    unfolding m' by (intro same_blocks_header sb) (simp_all add: fdt_get_set_hdr)
  moreover have "writes_in buf bufsize m m1" unfolding m1_def using h(3) buf(2) by (intro writes_in_memmove) simp_all
  then have "writes_in buf bufsize m m'"
    unfolding m' using h(3) buf(2) by (intro writes_in_trans[OF _ writes_in_trans[OF writes_in_header writes_in_header]]) simp_all
  ultimately show ?thesis using f(4) by simp
qed

lemma open_reordered:
  assumes c: "fdt_check_header m f = 0" "17 \<le> fdt_version m f" "fdt_totalsize m f < 2147483647"
    and R: "16 \<le> R" "fdt_off_mem_rsvmap m f + R \<le> fdt_totalsize m f"
      "40 + R + fdt_size_dt_struct m f + fdt_size_dt_strings m f < 2147483648"
    and buf: "buf AND 7 = 0" "bufsize < 2147483647"
    and r: "open_reorder m f buf bufsize R (fdt_size_dt_struct m f) = (0, m')"
  shows "rw_tree m' buf \<and> same_blocks R m f m' buf \<and> fdt_totalsize m' buf = bufsize \<and> writes_in buf bufsize m m'"
proof -
  let ?t = "fdt_totalsize m f" and ?S = "fdt_size_dt_struct m f" and ?T = "fdt_size_dt_strings m f"
  let ?n = "40 + R + ?S + ?T"
  have h: "40 \<le> ?t" "40 \<le> fdt_off_dt_struct m f" "fdt_off_dt_struct m f + ?S \<le> ?t" "40 \<le> fdt_off_dt_strings m f"
    "fdt_off_dt_strings m f + ?T \<le> ?t" "0 \<le> ?S" "0 \<le> ?T"
    using c(1)[unfolded fdt_check_header_iff fdt_header_size_def fdt_header_size'_def] c(2) by simp_all
  have "s32 ?n = ?n" "s32 ?T = ?T" by (rule s32_id; use R h c(3) in linarith)+
  moreover have "sz ?n = nat ?n" by (rule sz_id) (use R h in linarith)+
  ultimately have n: "s32 ?n = ?n" "s32 ?T = ?T" "sz ?n = nat ?n" by blast+
  define tmp where "tmp = (if buf + ?n > f \<and> buf < f + ?t then f + ?t else buf)"
  have tmp: "?n \<le> bufsize" "buf \<le> tmp" "tmp + ?n \<le> buf + bufsize" "tmp + ?n \<le> f \<or> f + ?t \<le> tmp"
    using r n unfolding open_reorder_def tmp_def Let_def header_align by (auto split: if_splits)
  obtain m1 where m1: "fdt_packblocks' m f tmp R ?S ?T = m1" by blast
  define m2 where "m2 = memmove m1 buf tmp (nat ?n)"
  have away: "\<not> inside tmp ?n a" if "inside (f + d) k a" "0 \<le> d" "d + k \<le> ?t" for a d k
    using tmp(4) that by (auto simp: inside_def)
  have hd: "\<forall>a. inside f 40 a \<longrightarrow> \<not> inside tmp ?n a" using away[of 0 40] h(1) by simp
  have le: "inside tmp k a \<Longrightarrow> k \<le> ?n \<Longrightarrow> inside tmp ?n a" for k a by (simp add: inside_def)
  have "0 \<le> fdt_off_dt_struct m f" "0 \<le> fdt_off_dt_strings m f" "40 + R \<le> ?n" "40 + R + ?S \<le> ?n" using h by linarith+
  then have st: "\<forall>a. inside (f + fdt_off_dt_struct m f) ?S a \<longrightarrow> \<not> inside tmp (40 + R) a"
    and sg: "\<forall>a. inside (f + fdt_off_dt_strings m f) ?T a \<longrightarrow> \<not> inside tmp (40 + R + ?S) a"
    using away le h(3,5) by meson+
  have "0 \<le> R" using R(1) by simp
  note p = packblocks_spec[OF this R(3) disjI2[OF hd] st sg, unfolded m1]
  have b: "same_bytes m1 tmp m2 buf ?n" using R h by (simp add: m2_def memmove_moves same_bytes_def inside_def)
  have n40: "40 \<le> ?n" using R(1) h by linarith
  note hd = same_bytes_field[OF b n40]
  have sizes: "fdt_size_dt_struct m1 tmp = ?S" "fdt_size_dt_strings m1 tmp = ?T" using p(2) by (simp_all add: same_blocks_def)
  have sb: "same_blocks R m f m2 buf"
    by (rule same_blocks_copy[OF p(2) b n40]) (use p(3-5) sizes h R(1) in linarith)+
  define boot where "boot = fdt_boot_cpuid_phys (fdt_set_last_comp_version (fdt_set_version (fdt_set_totalsize
      (fdt_set_magic m2 buf FDT_MAGIC) buf bufsize) buf 17) buf 16) f"
  have m': "m' = fdt_set_boot_cpuid_phys (fdt_set_last_comp_version (fdt_set_version (fdt_set_totalsize
      (fdt_set_magic m2 buf FDT_MAGIC) buf bufsize) buf 17) buf 16) buf boot"
    using r n m1 by (auto simp: open_reorder_def Let_def header_align m2_def boot_def tmp_def split: if_splits)
  have f: "fdt_magic m' buf = FDT_MAGIC" "fdt_last_comp_version m' buf = 16" "fdt_version m' buf = 17"
    "fdt_totalsize m' buf = bufsize" "fdt_off_mem_rsvmap m' buf = 40" "fdt_off_dt_struct m' buf = 40 + R"
    "fdt_off_dt_strings m' buf = 40 + R + ?S" "fdt_size_dt_struct m' buf = ?S" "fdt_size_dt_strings m' buf = ?T"
    using buf(2) tmp(1) n40 p(3-5) sizes by (simp_all add: m' fdt_get_set_hdr hd u32_id)
  have "rw_tree m' buf" using R(1) h tmp(1) buf unfolding rw_tree_def f by (intro conjI) (assumption | linarith | simp)+
  moreover have "40 \<le> fdt_off_mem_rsvmap m2 buf" "40 \<le> fdt_off_dt_struct m2 buf" "40 \<le> fdt_off_dt_strings m2 buf"
    using R(1) h p(3-5) by (simp_all add: hd)
  then have "same_blocks R m f m' buf"
    unfolding m' by (intro same_blocks_header sb) (simp_all add: fdt_get_set_hdr)
  moreover have "writes_in buf bufsize m m2"
    unfolding m2_def using writes_in_mono[OF p(1) tmp(2,3)] n40 tmp(1) by (elim writes_in_trans) (intro writes_in_memmove, simp_all)
  then have "writes_in buf bufsize m m'"
    unfolding m' using n40 tmp(1) by (elim writes_in_trans) (intro writes_in_trans[OF _ writes_in_header] writes_in_header, simp_all)
  ultimately show ?thesis using f(4) by simp
qed

lemma open_spec:
  assumes c: "fdt_check_header m f = 0" "17 \<le> fdt_version m f" "fdt_totalsize m f < 2147483647"
    and n: "fdt_num_mem_rsv m f = Some n" "0 \<le> n" "56 + 16 * n + fdt_size_dt_struct m f + fdt_size_dt_strings m f < 2147483648"
    and buf: "buf AND 7 = 0" "bufsize < 2147483647" and r: "fdt_open_into m f buf bufsize = Some (0, m')"
  shows "rw_tree m' buf \<and> same_blocks (16 * n + 16) m f m' buf \<and> fdt_totalsize m' buf = bufsize \<and> writes_in buf bufsize m m'"
proof -
  have t: "40 \<le> fdt_totalsize m f" "fdt_off_mem_rsvmap m f \<le> fdt_totalsize m f" "fdt_size_dt_struct m f \<le> fdt_totalsize m f"
    using c(1)[unfolded fdt_check_header_iff fdt_header_size_def fdt_header_size'_def] c(2) by simp_all
  have R: "16 \<le> 16 * n + 16" "fdt_off_mem_rsvmap m f + (16 * n + 16) \<le> fdt_totalsize m f"
    using num_mem_rsv_returns[OF c(1) order_refl] n t by (auto simp: fdt_num_mem_rsv_def)
  have N: "40 + (16 * n + 16) + fdt_size_dt_struct m f + fdt_size_dt_strings m f < 2147483648" using n(3) by linarith
  have s: "s32 (16 * n + 16) = 16 * n + 16" "s32 (fdt_size_dt_struct m f) = fdt_size_dt_struct m f"
    by (rule s32_id; use R t c(3) fdt_get_header_range(1)[of m f 16] fdt_get_header_range(1)[of m f 36] in linarith)+
  show ?thesis
  proof (cases "fdt_blocks_misordered' m f (16 * n + 16) (fdt_size_dt_struct m f)")
    case True
    then have "open_reorder m f buf bufsize (16 * n + 16) (fdt_size_dt_struct m f) = (0, m')"
      using r n(1) c(2) s by (auto simp: fdt_open_into_def distrib_right mult.commute[of _ 16] split: if_splits)
    then show ?thesis by (rule open_reordered[OF c R N buf])
  next
    case False
    then have "fdt_totalsize m f \<le> bufsize" and m': "m' = fdt_set_totalsize (fdt_set_size_dt_struct (fdt_set_version
        (memmove m buf f (sz (fdt_totalsize m f))) buf 17) buf (fdt_size_dt_struct m f)) buf bufsize"
      using r n(1) c(2) s buf(2)
      by (auto simp: fdt_open_into_def fdt_move_def distrib_right mult.commute[of _ 16] Let_def u32_id split: if_splits)
    then show ?thesis using open_in_order[OF c False R buf(1)] buf(2) by blast
  qed
qed

section \<open>Properties\<close>

text \<open>C15: A tree that \<open>fdt_open_into\<close> opens arrives complete, in whatever order its blocks were and
  also when buffer and tree overlap: the reservations with their terminator, the structure and the strings are found
  byte for byte where the new header says, the header can be edited and gives the buffer's size as \<open>totalsize\<close>, and
  nothing outside of the buffer is written.  It holds the items the source did.\<close>

theorem open_into_keeps_blocks:
  assumes "fdt_check_header m f = 0" "17 \<le> fdt_version m f" "fdt_totalsize m f < 2147483647"
    "fdt_num_mem_rsv m f = Some n" "0 \<le> n" "56 + 16 * n + fdt_size_dt_struct m f + fdt_size_dt_strings m f < 2147483648"
    "buf AND 7 = 0" "bufsize < 2147483647" "fdt_open_into m f buf bufsize = Some (0, m')"
  shows "rw_tree m' buf \<and> same_blocks (16 * (n + 1)) m f m' buf \<and> fdt_totalsize m' buf = bufsize \<and>
    (\<forall>a. a < buf \<or> buf + bufsize \<le> a \<longrightarrow> m' a = m a) \<and> (\<forall>xs. holds_items m f xs \<longrightarrow> holds_items m' buf xs)"
  using open_spec[OF assms] same_blocks_items by (auto simp: writes_in_def distrib_left)

lemma ex_num_mem_rsv: "fdt_num_mem_rsv ex_tree 64 = Some 0"
proof -
  have "ex_tree 112 = 0" "ex_tree 113 = 0" "ex_tree 114 = 0" "ex_tree 115 = 0" "ex_tree 116 = 0" "ex_tree 117 = 0"
    "ex_tree 118 = 0" "ex_tree 119 = 0"
    by (simp_all add: ex_tree_def place_def lit_def words_def ex_words_def be32_bytes_def extract_byte_def)
  then have "fdt64_ld' ex_tree 112 = 0"
    by (simp add: fdt64_ld'_def load64_def load32_def fdt64_to_cpu_def extract_byte_def shift_apply)
  then show ?thesis
    by (simp add: fdt_num_mem_rsv_def num_mem_rsv_loop.simps[of ex_tree 64 0] fdt_mem_rsv_def Let_def ex_tree_header
        fdt_mem_rsv'_def u32_def u64_def)
qed

theorem open_into_keeps_blocks_witness:
  "\<exists>m'. fdt_open_into ex_tree 64 512 1024 = Some (0, m') \<and> rw_tree m' 512 \<and> fdt_totalsize m' 512 = 1024 \<and>
     same_blocks 16 ex_tree 64 m' 512"
proof -
  have "fdt_ro_probe' ex_tree 64 = 128" by (simp add: fdt_ro_probe'_def ex_tree_header INT_MAX_def)
  moreover have "\<not> fdt_blocks_misordered' ex_tree 64 16 44"
    by (simp add: fdt_blocks_misordered'_def ex_tree_header header_align u32_def)
  ultimately obtain m' where m': "fdt_open_into ex_tree 64 512 1024 = Some (0, m')"
    by (simp add: fdt_open_into_def fdt_move_def ex_num_mem_rsv ex_tree_header s32_def u32_def Let_def)
  have "fdt_check_header ex_tree 64 = 0" using ex_tree_ok by (simp add: tree_ok_def)
  from open_into_keeps_blocks[OF this _ _ ex_num_mem_rsv _ _ _ _ m'] m' show ?thesis
    by (simp add: ex_tree_header)
qed

text \<open>C16: \<open>fdt_pack\<close> gives up the free space of a tree and nothing else: reservations,
  structure and strings are kept byte for byte, they follow each other behind the header without gaps, \<open>totalsize\<close> ends with the strings,
  and nothing outside of the tree is written.  It holds the items it did.\<close>

theorem pack_keeps_blocks:
  assumes "rw_tree m f" "fdt_num_mem_rsv m f = Some n" "0 \<le> n" "fdt_off_mem_rsvmap m f + 16 * (n + 1) \<le> fdt_off_dt_struct m f"
  shows "\<exists>m'. fdt_pack m f = Some (0, m') \<and> rw_tree m' f \<and> same_blocks (16 * (n + 1)) m f m' f \<and>
    fdt_off_mem_rsvmap m' f = 40 \<and> fdt_off_dt_struct m' f = 40 + 16 * (n + 1) \<and>
    fdt_off_dt_strings m' f = fdt_off_dt_struct m' f + fdt_size_dt_struct m' f \<and>
    fdt_totalsize m' f = fdt_off_dt_strings m' f + fdt_size_dt_strings m' f \<and>
    (\<forall>a. a < f \<or> f + fdt_totalsize m f \<le> a \<longrightarrow> m' a = m a) \<and> (\<forall>xs. holds_items m f xs \<longrightarrow> holds_items m' f xs)"
  using pack_spec[OF assms(1-3)] assms(4) same_blocks_items by (simp add: writes_in_def distrib_left) blast

theorem pack_keeps_blocks_witness:
  "\<exists>m'. fdt_pack ex_tree 64 = Some (0, m') \<and> fdt_totalsize m' 64 = 104 \<and> same_blocks 16 ex_tree 64 m' 64"
proof -
  have "rw_tree ex_tree 64" by (simp add: rw_tree_def ex_tree_header)
  from pack_keeps_blocks[OF this ex_num_mem_rsv] show ?thesis
    by (auto simp: ex_tree_header same_blocks_def)
qed

end
