(* ===== verification/Fdt_Tree.thy ===== *)
theory Fdt_Tree
  imports Fdt_Children Fdt_Fail
begin

text \<open>
  Sequences of edits of a tree (\<open>src/src/libfdt/fdt_rw.c\<close>) against the same sequence on the list of
  items, and the look-ups on what it leaves.
\<close>

section \<open>Edits of the list\<close>

text \<open>The part of the list from the node at an offset on.\<close>

fun at_node :: "int \<Rightarrow> (byte list \<Rightarrow> item list \<Rightarrow> item list option) \<Rightarrow> item list \<Rightarrow> item list option" where
  "at_node off g (x # xs) =
     (if off = 0 then (case x of Node t \<Rightarrow> g t xs | _ \<Rightarrow> None)
      else map_option ((#) x) (at_node (off - int (item_len x)) g xs))"
| "at_node off g [] = None"

definition c_str :: "cptr \<Rightarrow> byte list" where
  "c_str p = (case strlen p of None \<Rightarrow> [] | Some n \<Rightarrow> bytes_at p (nat n))"

fun edit_items :: "edit \<Rightarrow> item list \<Rightarrow> item list option" where
  "edit_items (Setprop node name val len) =
     at_node node (\<lambda>t xs. Some (Node t # set_prop (c_str name) (bytes_at val (nat len)) xs))"
| "edit_items (Appendprop node name val len) =
     at_node node (\<lambda>t xs. Some (Node t # set_prop (c_str name)
       ((case get_prop (c_str name) xs of None \<Rightarrow> [] | Some v \<Rightarrow> v) @ bytes_at val (nat len)) xs))"
| "edit_items (Delprop node name) = at_node node (\<lambda>t xs. Some (Node t # del_prop (c_str name) xs))"
| "edit_items (Set_name node name) = at_node node (\<lambda>t xs. Some (Node (c_str name) # xs))"
| "edit_items (Add_subnode node name) = at_node node (\<lambda>t xs. Some (Node t # add_child (c_str name) xs))"
| "edit_items (Del_node node) = at_node node (\<lambda>t xs. map_option snd (subtree 0 xs))"
| "edit_items (Del_mem_rsv k) = (\<lambda>_. None)"

lemma at_node_Some:
  "at_node off g xs = Some ys \<Longrightarrow>
   \<exists>us t zs ws. xs = us @ Node t # zs \<and> off = int (items_len us) \<and> g t zs = Some ws \<and> ys = us @ ws"
proof (induction off g xs arbitrary: ys rule: at_node.induct)
  case (1 off g x xs)
  show ?case
  proof (cases "off = 0")
    case True
    with "1.prems" obtain t where "x = Node t" "g t xs = Some ys" by (auto split: item.splits)
    with True show ?thesis by (intro exI[of _ "[]"] exI[of _ t] exI[of _ xs] exI[of _ ys]) simp
  next
    case False
    with "1.prems" obtain ys' where ys': "at_node (off - int (item_len x)) g xs = Some ys'" "ys = x # ys'" by auto
    from "1.IH"[OF False ys'(1)] obtain us t zs ws where
      "xs = us @ Node t # zs" "off - int (item_len x) = int (items_len us)" "g t zs = Some ws" "ys' = us @ ws" by blast
    with ys'(2) show ?thesis by (intro exI[of _ "x # us"] exI[of _ t] exI[of _ zs] exI[of _ ws]) simp
  qed
qed simp

lemma c_str: "points_to_str p s \<Longrightarrow> c_str p = s"
  by (simp add: c_str_def strlen_points_to points_to_str_def)

lemma name_arg_str: "name_arg p \<Longrightarrow> points_to_str p (c_str p) \<and> length (c_str p) \<le> 2147483631"
  using c_str by (auto simp: name_arg_def)

section \<open>Results that are not negative\<close>

lemma delprop_nonneg:
  assumes "rw_tree m f" "name_arg name" "fdt_delprop m f node name = Some (r, m')" "0 \<le> r"
  shows "r = 0"
proof -
  obtain l where l: "strlen name = Some l" using name_argD[OF assms(2)] by auto
  have "fdt_get_property_namelen m f node name (s32 l) = (None, e) \<Longrightarrow> e < 0" for e
    by (rule get_property_missing[OF rw_treeD(6)[OF assms(1)]])
  with assms(3,4) l rw_probe_ok[OF assms(1)] show ?thesis
    by (fastforce simp: fdt_delprop_def fdt_get_property_def split: option.splits prod.splits dest: splice_struct_nonpos)
qed

lemma appendprop_nonneg:
  assumes "rw_tree m f" "name_arg name" "fdt_appendprop m f node name val len = Some (r, m')" "0 \<le> r"
  shows "r = 0"
  using assms(3,4) rw_probe_ok[OF assms(1)] add_property_nonpos splice_struct_nonpos
  by (fastforce simp: fdt_appendprop_def Let_def split: bind_splits option.splits prod.splits if_splits)

lemma del_node_nonneg:
  assumes "rw_tree m f" "fdt_del_node m f node = (r, m')" "0 \<le> r"
  shows "r = 0"
  using assms(2,3) rw_probe_ok[OF assms(1)] splice_struct_nonpos by (fastforce simp: fdt_del_node_def Let_def split: if_splits)

lemma set_name_nonneg:
  assumes "rw_tree m f" "holds_items m f (us @ Node t # xs)" "fdt_set_name m f (int (items_len us)) name = Some (r, m')" "0 \<le> r"
  shows "r = 0"
proof -
  note td = thereD[OF holds_there[OF assms(1,2)]]
  then have "0 \<le> fdt_check_node_offset' m f (int (items_len us))" by (simp add: fdt_check_node_offset'_def)
  then obtain p n where "fdt_get_name m f (int (items_len us)) = Some (Some p, n)"
    using fdt_get_name_spec[OF assms(1) td(2)] by blast
  with assms(3,4) rw_probe_ok[OF assms(1)] show ?thesis
    by (fastforce simp: fdt_set_name_def Let_def split: bind_splits prod.splits if_splits dest: splice_struct_nonpos)
qed

section \<open>The interface of an edit\<close>

text \<open>What an edit does to the items when it succeeds, and that it keeps them when it fails.\<close>

locale item_edit =
  fixes edit :: "'a \<Rightarrow> mem \<Rightarrow> addr \<Rightarrow> (int \<times> mem) option" and step :: "'a \<Rightarrow> item list \<Rightarrow> item list option"
    and allowed :: "'a \<Rightarrow> int \<Rightarrow> bool"
  assumes performs: "rw_tree m f \<Longrightarrow> holds_items m f xs \<Longrightarrow> allowed x (fdt_totalsize m f) \<Longrightarrow> edit x m f = Some (r, m') \<Longrightarrow>
      0 \<le> r \<Longrightarrow> step x xs = Some ys \<Longrightarrow> rw_tree m' f \<and> holds_items m' f ys"
    and fails: "rw_tree m f \<Longrightarrow> holds_items m f xs \<Longrightarrow> allowed x (fdt_totalsize m f) \<Longrightarrow> edit x m f = Some (r, m') \<Longrightarrow>
      r < 0 \<Longrightarrow> rw_tree m' f \<and> holds_items m' f xs"
    and same_size: "rw_tree m f \<Longrightarrow> allowed x (fdt_totalsize m f) \<Longrightarrow> edit x m f = Some (r, m') \<Longrightarrow> fdt_totalsize m' f = fdt_totalsize m f"

text \<open>A sequence with the result of each edit, and the same sequence on the list.\<close>

fun run_results :: "('a \<Rightarrow> mem \<Rightarrow> addr \<Rightarrow> (int \<times> mem) option) \<Rightarrow> 'a list \<Rightarrow> mem \<Rightarrow> addr \<Rightarrow> (int list \<times> mem) option" where
  "run_results edit [] m f = Some ([], m)"
| "run_results edit (x # xs) m f = do {
     (r, m) \<leftarrow> edit x m f;
     (rs, m) \<leftarrow> run_results edit xs m f;
     Some (r # rs, m)
   }"

fun run_items :: "('a \<Rightarrow> item list \<Rightarrow> item list option) \<Rightarrow> ('a \<times> int) list \<Rightarrow> item list \<Rightarrow> item list option" where
  "run_items step [] xs = Some xs"
| "run_items step ((x, r) # es) xs = do {
     ys \<leftarrow> if r < 0 then Some xs else step x xs;
     run_items step es ys
   }"

context item_edit
begin

lemma run_refines:
  "rw_tree m f \<Longrightarrow> holds_items m f xs \<Longrightarrow> list_all (\<lambda>x. allowed x (fdt_totalsize m f)) es \<Longrightarrow>
   run_results edit es m f = Some (rs, m') \<Longrightarrow> run_items step (zip es rs) xs = Some ys \<Longrightarrow>
   rw_tree m' f \<and> holds_items m' f ys"
proof (induction es arbitrary: m xs rs)
  case (Cons x es)
  note rw = Cons.prems(1) and h = Cons.prems(2)
  have a: "allowed x (fdt_totalsize m f)" using Cons.prems(3) by simp
  obtain r m1 rs' where r: "edit x m f = Some (r, m1)" "run_results edit es m1 f = Some (rs', m')" "rs = r # rs'"
    using Cons.prems(4) by (auto split: bind_splits)
  obtain zs where zs: "(if r < 0 then Some xs else step x xs) = Some zs" "run_items step (zip es rs') zs = Some ys"
    using Cons.prems(5) r(3) by (auto split: bind_splits)
  have "rw_tree m1 f \<and> holds_items m1 f zs"
    using performs[OF rw h a r(1)] fails[OF rw h a r(1)] zs(1) by (auto split: if_splits)
  moreover have "list_all (\<lambda>x. allowed x (fdt_totalsize m1 f)) es" using same_size[OF rw a r(1)] Cons.prems(3) by simp
  ultimately show ?case using Cons.IH r(2) zs(2) by blast
qed simp

end

section \<open>The edits of the library\<close>

lemma edit_performs:
  assumes rw: "rw_tree m f" and h: "holds_items m f xs" and a: "edit_args x (fdt_totalsize m f)"
    and r: "run_edit x m f = Some (r, m')" "0 \<le> r" and s: "edit_items x xs = Some ys"
  shows "rw_tree m' f \<and> holds_items m' f ys"
proof (cases x)
  case (Setprop node name val len)
  then obtain us t zs where xs: "xs = us @ Node t # zs" "node = int (items_len us)"
    and ys: "ys = us @ Node t # set_prop (c_str name) (bytes_at val (nat len)) zs" using s at_node_Some by fastforce
  have n: "points_to_str name (c_str name)" "length (c_str name) \<le> 2147483631" using name_arg_str a Setprop by simp_all
  have len: "int (nat len) = len" "nat len \<le> 2147483632" using a Setprop by (simp_all add: nat_le_iff)
  have "fdt_setprop m f (int (items_len us)) name val (int (nat len)) = Some (r, m')" using r(1) xs(2) len(1) Setprop by simp
  moreover have "r = 0" using setprop_nonpos[OF calculation rw strlen_points_to[OF n(1)]] r(2) by simp
  ultimately show ?thesis unfolding ys using setprop_items[OF rw h[unfolded xs(1)] n len(2)] by blast
next
  case (Appendprop node name val len)
  then obtain us t zs where xs: "xs = us @ Node t # zs" "node = int (items_len us)"
    and ys: "ys = us @ Node t # set_prop (c_str name) ((case get_prop (c_str name) zs of None \<Rightarrow> [] | Some v \<Rightarrow> v) @ bytes_at val (nat len)) zs"
    using s at_node_Some by fastforce
  have n: "points_to_str name (c_str name)" "length (c_str name) \<le> 2147483631" "name_arg name" using name_arg_str a Appendprop by simp_all
  have len: "int (nat len) = len" "len + fdt_totalsize m f \<le> 2147483632" using a Appendprop by simp_all
  have room: "nat len + (case get_prop (c_str name) zs of None \<Rightarrow> 0 | Some v \<Rightarrow> length v) \<le> 2147483632"
  proof (cases "get_prop (c_str name) zs")
    case (Some v)
    from get_prop_split[OF this] obtain us2 zs2 where "zs = us2 @ Prop (c_str name) v # zs2" by blast
    then have "int (length v) \<le> fdt_size_dt_struct m f"
      using h xs(1) pad4_bounds(1)[of "length v"] by (simp add: holds_items_def)
    then have "int (nat len) + int (length v) \<le> 2147483632" using len rw_treeD[OF rw] rw_tree_bounds(1)[OF rw] by linarith
    then have "nat len + length v \<le> 2147483632" by linarith
    with Some show ?thesis by simp
  qed (use len rw_tree_bounds(8)[OF rw] in simp)
  have ap: "fdt_appendprop m f (int (items_len us)) name val (int (nat len)) = Some (r, m')" using r(1) xs(2) len(1) Appendprop by simp
  with appendprop_nonneg[OF rw n(3) ap r(2)] show ?thesis
    unfolding ys using appendprop_items[OF rw h[unfolded xs(1)] n(1,2) room] by blast
next
  case (Delprop node name)
  then obtain us t zs where xs: "xs = us @ Node t # zs" "node = int (items_len us)"
    and ys: "ys = us @ Node t # del_prop (c_str name) zs" using s at_node_Some by fastforce
  have n: "points_to_str name (c_str name)" "length (c_str name) \<le> 2147483631" "name_arg name" using name_arg_str a Delprop by simp_all
  have dp: "fdt_delprop m f (int (items_len us)) name = Some (r, m')" using r(1) xs(2) Delprop by simp
  with delprop_nonneg[OF rw n(3) dp r(2)] show ?thesis
    unfolding ys using delprop_items[OF rw h[unfolded xs(1)] n(1,2)] by blast
next
  case (Set_name node name)
  then obtain us t zs where xs: "xs = us @ Node t # zs" "node = int (items_len us)"
    and ys: "ys = us @ Node (c_str name) # zs" using s at_node_Some by fastforce
  have n: "points_to_str name (c_str name)" "length (c_str name) \<le> 2147483631" using name_arg_str a Set_name by simp_all
  have sn: "fdt_set_name m f (int (items_len us)) name = Some (r, m')" using r(1) xs(2) Set_name by simp
  with set_name_nonneg[OF rw h[unfolded xs(1)] sn r(2)] show ?thesis
    unfolding ys using set_name_items[OF rw h[unfolded xs(1)] n] by blast
next
  case (Add_subnode node name)
  then obtain us t zs where xs: "xs = us @ Node t # zs" "node = int (items_len us)"
    and ys: "ys = us @ Node t # add_child (c_str name) zs" using s at_node_Some by fastforce
  have n: "points_to_str name (c_str name)" "length (c_str name) \<le> 2147483631" using name_arg_str a Add_subnode by simp_all
  have "fdt_add_subnode m f (int (items_len us)) name = Some (r, m')" using r(1) xs(2) Add_subnode by simp
  with r(2) show ?thesis unfolding ys using add_subnode_items[OF rw h[unfolded xs(1)] n] by blast
next
  case (Del_node node)
  then obtain us t zs ws where xs: "xs = us @ Node t # zs" "node = int (items_len us)"
    and ys: "map_option snd (subtree 0 zs) = Some ws" "ys = us @ ws" using s at_node_Some by fastforce
  have dn: "fdt_del_node m f (int (items_len us)) = (r, m')" using r(1) xs(2) Del_node by simp
  with del_node_nonneg[OF rw dn r(2)] del_node_items[OF rw h[unfolded xs(1)]] ys show ?thesis by auto
next
  case (Del_mem_rsv k)
  with s show ?thesis by simp
qed

lemma same_data_items:
  assumes rw: "rw_tree m f" and same: "same_data f m m'" and h: "holds_items m f xs"
  shows "rw_tree m' f \<and> holds_items m' f xs"
proof -
  note b = rw_treeD[OF rw] rw_tree_bounds[OF rw]
  have low: "m' (f + i) = m (f + i)" if "i < fdt_off_dt_strings m f + fdt_size_dt_strings m f" for i
    using same that by (simp add: same_data_def)
  have "m' (f + i) = m (f + i)" if "i < 40" for i by (rule low) (use that b in linarith)
  from this[of "_ - f"] have head: "same_on f 40 m m'" by (simp add: same_on_def)
  note hd = same_header[OF head]
  have part: "same_bytes m (f + k) m' (f + k) n" if "k + n \<le> fdt_off_dt_strings m f + fdt_size_dt_strings m f" for k n
    using low[of "k + _"] that by (simp add: same_bytes_def add.assoc)
  have "fdt_off_dt_struct m f + fdt_size_dt_struct m f \<le> fdt_off_dt_strings m f + fdt_size_dt_strings m f" using b by linarith
  then have "holds_items m' f xs"
    using part hd by (intro moved_blocks_items[OF _ _ _ _ h]) simp_all
  with rw_tree_cong[OF head rw] show ?thesis by simp
qed

interpretation items: item_edit run_edit edit_items edit_args
proof unfold_locales
  fix x m f r m' xs
  assume a: "rw_tree m f" "edit_args x (fdt_totalsize m f)" "run_edit x m f = Some (r, m')"
  then show "fdt_totalsize m' f = fdt_totalsize m f"
    using any.keeps[OF a(2) rw_tree_checks[OF a(1)] a(3)] by (simp add: kept_def)
  assume "r < 0" "holds_items m f xs"
  with same_data_items[OF a(1) edit_fails[OF a]] show "rw_tree m' f \<and> holds_items m' f xs" by simp
qed (rule edit_performs)

section \<open>Properties\<close>

text \<open>C5: Any sequence of edits, each with the result it returned, does to the items of the tree what the same sequence of
  operations does to a list: an edit that returned an error does nothing, and the others set, extend and remove
  properties, rename, add and remove nodes, and leave all other items of the tree as they were.\<close>

theorem edits_refine_items:
  assumes "rw_tree m f" "holds_items m f xs" "list_all (\<lambda>x. edit_args x (fdt_totalsize m f)) es"
    "run_results run_edit es m f = Some (rs, m')" "run_items edit_items (zip es rs) xs = Some ys"
  shows "rw_tree m' f \<and> holds_items m' f ys"
  using assms by (rule items.run_refines)

lemma ex_names: "points_to_str (chars ''a'') (str ''a'')" "points_to_str (chars ''b'') (str ''b'')" "points_to_str (chars ''c'') (str ''c'')"
  by (simp_all add: chars_def str_def of_char_of)

theorem edits_refine_items_witness:
  "\<exists>e m'. run_results run_edit [Delprop 0 (chars ''b''), Setprop 0 (chars ''a'') (lit [1, 2, 3, 4, 5, 6, 7, 8]) 8] ex_tree 64 = Some ([e, 0], m') \<and>
     e < 0 \<and> holds_items m' 64 [Node [], Prop (str ''a'') [1, 2, 3, 4, 5, 6, 7, 8], Node (str ''c''), End_node, End_node]"
proof -
  let ?es = "[Delprop 0 (chars ''b''), Setprop 0 (chars ''a'') (lit [1, 2, 3, 4, 5, 6, 7, 8]) 8]"
  have ab: "str ''a'' \<noteq> str ''b''" by (simp add: str_def of_char_of)
  have "get_prop (str ''b'') (tl ex_items) = None" using ab by simp
  with get_property_items[OF ex_rw_tree, of "[]" "[]" "tl ex_items" "chars ''b''" "str ''b''"] ex_holds ex_names
  obtain e where e: "fdt_get_property ex_tree 64 0 (chars ''b'') = Some (None, e)" "e < 0" by (auto simp: str_def)
  then have d: "fdt_delprop ex_tree 64 0 (chars ''b'') = Some (e, ex_tree)"
    using rw_probe_ok[OF ex_rw_tree] by (simp add: fdt_delprop_def)
  obtain m' where m': "fdt_setprop ex_tree 64 0 (chars ''a'') (lit [1, 2, 3, 4, 5, 6, 7, 8]) 8 = Some (0, m')"
    using ex_setprop by blast
  have run: "run_results run_edit ?es ex_tree 64 = Some ([e, 0], m')" using d m' by simp
  have "bytes_at (lit [1, 2, 3, 4, 5, 6, 7, 8]) 8 = [1, 2, 3, 4, 5, 6, 7, 8 :: byte]"
    using bytes_at_lit[of "[1, 2, 3, 4, 5, 6, 7, 8]"] by (simp add: eval_nat_numeral)
  then have items: "run_items edit_items (zip ?es [e, 0]) ex_items =
    Some [Node [], Prop (str ''a'') [1, 2, 3, 4, 5, 6, 7, 8], Node (str ''c''), End_node, End_node]"
    using e(2) c_str[OF ex_names(1)] by (simp add: set_prop_def)
  have "list_all (\<lambda>x. edit_args x (fdt_totalsize ex_tree 64)) ?es"
    using ex_names by (auto simp: is_int_def name_arg_def str_def)
  from edits_refine_items[OF ex_rw_tree ex_holds this run items] run e(2) show ?thesis by blast
qed

text \<open>C10: In a tree that holds a list of items, \<open>fdt_getprop\<close> finds exactly the properties that the node has in the
  list, each with its value, and \<open>fdt_subnode_offset\<close> the first child with the name, up to its unit address, or reports
  that there is none.\<close>

theorem lookups_answer_items:
  assumes "rw_tree m f" "holds_items m f (us @ Node t # xs)" "points_to_str name s" "length s \<le> 2147483631"
  shows "(case get_prop s xs of
       None \<Rightarrow> \<exists>e<0. fdt_getprop m f (int (items_len us)) name = Some (None, e)
     | Some v \<Rightarrow> \<exists>p. fdt_getprop m f (int (items_len us)) name = Some (Some p, int (length v)) \<and> bytes_at (rd m p) (length v) = v) \<and>
    fdt_subnode_offset m f (int (items_len us)) name =
      Some (case find_child s 0 xs of None \<Rightarrow> - FDT_ERR_NOTFOUND | Some (ys, _) \<Rightarrow> int (items_len (us @ Node t # ys)))"
proof -
  have "strlen name = Some (int (length s))" "s32 (int (length s)) = int (length s)" "bytes_at name (length s) = s"
    using strlen_points_to[OF assms(3)] assms(3,4) by (simp_all add: s32_id points_to_str_def)
  then show ?thesis
    using getprop_items[OF assms] subnode_items[OF assms(1,2), of "length s" name] assms(4) by (simp add: fdt_subnode_offset_def)
qed

theorem lookups_answer_items_witness:
  "fdt_subnode_offset ex_tree 64 0 (chars ''c'') = Some 24 \<and>
     (\<exists>p. fdt_getprop ex_tree 64 0 (chars ''a'') = Some (Some p, 4) \<and> bytes_at (rd ex_tree p) 4 = [0, 0, 0, 7])"
proof -
  have h: "holds_items ex_tree 64 ([] @ Node [] # tl ex_items)" using ex_holds by simp
  have l: "length (str ''a'') \<le> 2147483631" "length (str ''c'') \<le> 2147483631" by (simp_all add: str_def)
  have g: "get_prop (str ''a'') (tl ex_items) = Some [0, 0, 0, 7]"
    and c: "find_child (str ''c'') 0 (tl ex_items) = Some ([Prop (str ''a'') [0, 0, 0, 7]], str ''c'', [End_node, End_node])"
    by (simp_all add: name_matches_def)
  have n: "int (length [0, 0, 0, 7 :: byte]) = 4" "length [0, 0, 0, 7 :: byte] = 4" by simp_all
  show ?thesis
    using conjunct1[OF lookups_answer_items[OF ex_rw_tree h ex_names(1) l(1)], unfolded g option.case n]
      conjunct2[OF lookups_answer_items[OF ex_rw_tree h ex_names(3) l(2)], unfolded c]
    by (simp add: pad4_def)
qed

end
