(* ===== verification/Fdt_Walk.thy ===== *)
theory Fdt_Walk
  imports Fdt_Items
begin

text \<open>
  Reading the items of a tree with the calls of the library: every tree that can be walked to its end tag, with
  names that are in the table of strings, holds a list of items, and reading yields that list.
\<close>

section \<open>Reading\<close>

text \<open>The item at an offset, by the functions a client uses.\<close>

definition read_item :: "mem \<Rightarrow> addr \<Rightarrow> int \<Rightarrow> int \<Rightarrow> item option" where
  "read_item m f offset tag =
     (if tag = FDT_BEGIN_NODE then do {
        (p, n) \<leftarrow> fdt_get_name m f offset;
        p \<leftarrow> p;
        Some (Node (bytes_at (rd m p) (nat n)))
      }
      else if tag = FDT_PROP then
        (case fdt_getprop_by_offset m f offset of
           (Some data, Some name, len) \<Rightarrow> do {
             n \<leftarrow> strlen (rd m name);
             Some (Prop (bytes_at (rd m name) (nat n)) (bytes_at (rd m data) (nat len)))
           }
         | _ \<Rightarrow> None)
      else if tag = FDT_END_NODE then Some End_node
      else if tag = FDT_NOP then Some Nop
      else None)"

function read_items :: "mem \<Rightarrow> addr \<Rightarrow> int \<Rightarrow> item list option" where
  "read_items m f offset =
     (case fdt_next_tag m f offset of
        (tag, nx) \<Rightarrow>
          if tag = FDT_END then (if nx < 0 then None else Some [])
          else do {
            x \<leftarrow> read_item m f offset tag;
            xs \<leftarrow> read_items m f nx;
            Some (x # xs)
          })"
  by pat_completeness auto
termination
  by (relation "measure (\<lambda>(m, f, offset). walk_measure offset)") (auto intro: fdt_next_tag_less)

declare read_items.simps [simp del]

section \<open>Items that are read\<close>

lemma get_string_name:
  assumes rw: "rw_tree m f" and so: "is_int so"
  shows "fdt_get_string m f so = (Some p, n) \<longleftrightarrow>
    p = f + fdt_off_dt_strings m f + so \<and> 0 \<le> n \<and> name_at m f so (bytes_at (rd m p) (nat n))"
proof -
  let ?q = "f + fdt_off_dt_strings m f + so" and ?k = "nat (fdt_size_dt_strings m f - so)"
  have iff: "memchr (rd m ?q) 0 ?k = Some n \<longleftrightarrow> 0 \<le> n \<and> so + n < fdt_size_dt_strings m f \<and>
      points_to_str (rd m ?q) (bytes_at (rd m ?q) (nat n))" if "0 \<le> so" "so < fdt_size_dt_strings m f"
  proof
    assume a: "memchr (rd m ?q) 0 ?k = Some n"
    then have n: "0 \<le> n" "so + n < fdt_size_dt_strings m f" "m (?q + n) = 0"
      and nz: "\<And>j. 0 \<le> j \<Longrightarrow> j < n \<Longrightarrow> m (?q + j) \<noteq> 0" using that by (auto simp: memchr_Some)
    then show "0 \<le> n \<and> so + n < fdt_size_dt_strings m f \<and> points_to_str (rd m ?q) (bytes_at (rd m ?q) (nat n))"
      using nz[of "int _"] by (auto simp: points_to_str_def cstring_def in_set_conv_nth nat_less_iff)
  next
    assume a: "0 \<le> n \<and> so + n < fdt_size_dt_strings m f \<and> points_to_str (rd m ?q) (bytes_at (rd m ?q) (nat n))"
    then show "memchr (rd m ?q) 0 ?k = Some n"
      using points_to_str_nonzero[of "rd m ?q" "bytes_at (rd m ?q) (nat n)"] that by (auto simp: memchr_Some points_to_str_def)
  qed
  show ?thesis
    using iff ro_probe_rw[OF rw] by (auto simp: fdt_get_string_eq[OF rw_tree_ok[OF rw] so] name_at_def split: option.splits)
qed

lemma read_item_at:
  assumes rw: "rw_tree m f" and k: "k mod 4 = 0" "int k + int (item_len x) \<le> fdt_size_dt_struct m f"
    and x: "item_at m (name_at m f) (f + fdt_off_dt_struct m f + int k) x"
  shows "read_item m f (int k) (item_tag x) = Some x"
proof -
  note b = rw_tree_bounds[OF rw]
  let ?p = "f + fdt_off_dt_struct m f + int k"
  note t = next_tag_item[OF rw k x]
  have i: "is_int (int k)" "u64 (int k) = int k" using k b by (simp_all add: is_int_def u64_id)
  have i4: "int k mod 4 = 0" using k(1) by presburger
  have ptr: "fdt_offset_ptr' m f (int k + j) = ?p + j" for j by (simp add: fdt_offset_ptr'_def)
  show ?thesis
  proof (cases x)
    case (Node s)
    have c: "0 \<le> fdt_check_node_offset' m f (int k)" using t i(2) i4 Node by (simp add: fdt_check_node_offset'_def)
    have s: "points_to_str (rd m (?p + 4)) s" using x Node by (simp add: item_at_def)
    then have "fdt_get_name m f (int k) = Some (Some (?p + 4), int (length s))"
      using fdt_get_name_spec[OF rw i(1) c] points_to_str_unique[OF s] unfolding ptr by blast
    with s Node show ?thesis by (simp add: read_item_def points_to_str_def)
  next
    case (Prop s v)
    have x': "fdt32_ld' m ?p = FDT_PROP" "fdt32_ld' m (?p + 4) = int (length v)" "name_at m f (fdt32_ld' m (?p + 8)) s"
      "bytes_at (rd m (?p + 12)) (length v) = v" using x Prop by (simp_all add: item_at_def)
    have by_off: "fdt_get_property_by_offset' m f (int k) = (Some ?p, int (length v))"
      using by_offset_intro[OF rw _ i4, of "int (length v)"] x' k Prop pad4_bounds(1)[of "length v"] ptr[of 0] by simp
    have so: "s32 (fdt32_ld' m (?p + 8)) = fdt32_ld' m (?p + 8)" "is_int (fdt32_ld' m (?p + 8))"
      using x'(3) b by (simp_all add: name_at_def is_int_def s32_id)
    let ?q = "f + fdt_off_dt_strings m f + fdt32_ld' m (?p + 8)"
    have q: "points_to_str (rd m ?q) s" using x'(3) by (simp add: name_at_def)
    then have qs: "bytes_at (rd m ?q) (length s) = s" by (simp add: points_to_str_def)
    have "fdt_get_string m f (fdt32_ld' m (?p + 8)) = (Some ?q, int (length s))"
      using get_string_name[OF rw so(2), of ?q "int (length s)"] x'(3) qs by simp
    with by_off so(1) x'(4) rw_treeD(6)[OF rw] strlen_points_to[OF q] qs Prop show ?thesis
      by (simp add: read_item_def fdt_getprop_by_offset_def prop_data_def)
  qed (simp_all add: read_item_def)
qed

lemma read_held:
  assumes rw: "rw_tree m f"
  shows "holds_items m f (us @ xs) \<Longrightarrow> read_items m f (int (items_len us)) = Some xs"
proof (induction xs arbitrary: us)
  case Nil
  have "fdt_next_tag m f (int (items_len us)) = (FDT_END, int (items_len us) + 4)"
    by (rule next_tag_end[OF rw items_len_mod]) (use Nil in \<open>simp_all add: holds_items_def\<close>)
  then show ?case by (simp add: read_items.simps[of m f "int (items_len us)"])
next
  case (Cons x xs)
  have fit: "int (items_len us) + int (item_len x) \<le> fdt_size_dt_struct m f"
    and x: "item_at m (name_at m f) (f + fdt_off_dt_struct m f + int (items_len us)) x"
    using Cons.prems by (simp_all add: holds_items_def)
  have "read_items m f (int (items_len us) + int (item_len x)) = Some xs"
    using Cons.IH[of "us @ [x]"] Cons.prems by simp
  moreover have "item_tag x \<noteq> FDT_END" by (cases x) simp_all
  ultimately show ?case
    using next_tag_item[OF rw items_len_mod fit x] read_item_at[OF rw items_len_mod fit x]
    by (simp add: read_items.simps[of m f "int (items_len us)"])
qed

lemma at_read_item:
  assumes rw: "rw_tree m f" and sz4: "fdt_size_dt_struct m f mod 4 = 0" and k: "k mod 4 = 0"
    and t: "fdt_next_tag m f (int k) = (tag, nx)" "tag \<noteq> FDT_END" and i: "is_int (int k)" and r: "read_item m f (int k) tag = Some x"
  shows "item_at m (name_at m f) (f + fdt_off_dt_struct m f + int k) x \<and> int k + int (item_len x) \<le> fdt_size_dt_struct m f \<and>
    nx = int k + int (item_len x)"
proof -
  note b = rw_treeD[OF rw] rw_tree_bounds[OF rw]
  let ?p = "f + fdt_off_dt_struct m f + int k"
  have ptr: "fdt_offset_ptr' m f (int k + j) = ?p + j" for j by (simp add: fdt_offset_ptr'_def)
  have u: "u64 (int k) = int k" using i by (simp add: is_int_def u64_id)
  have k4: "int k mod 4 = 0" using k by presburger
  note nb = fdt_next_tag_bounds[OF rw t i]
  have nxl: "nx \<le> fdt_size_dt_struct m f" by (rule aligned_le[OF _ sz4]) (use nb in simp_all)
  have tag: "fdt32_ld' m ?p = tag" using fdt_next_tag_cases[OF t i] ptr[of 0] by fastforce
  have up: "int k + int (pad4 n) \<le> fdt_size_dt_struct m f" if "int k + int n \<le> fdt_size_dt_struct m f" for n
  proof (rule aligned_le[OF _ sz4])
    show "(int k + int (pad4 n)) mod 4 = 0" using k pad4_bounds(3)[of n] by presburger
    show "int k + int (pad4 n) \<le> fdt_size_dt_struct m f + 3" using that pad4_bounds(2)[of n] by linarith
  qed
  have x: "item_at m (name_at m f) ?p x \<and> int k + int (item_len x) \<le> fdt_size_dt_struct m f \<and> item_tag x = tag"
  proof -
    consider "tag = FDT_BEGIN_NODE" | "tag = FDT_PROP" | "x = End_node" "tag = FDT_END_NODE" | "x = Nop" "tag = FDT_NOP"
      using r by (auto simp: read_item_def split: if_splits)
    then show ?thesis
    proof cases
      case 1
      have c: "0 \<le> fdt_check_node_offset' m f (int k)" using t nb 1 u k4 by (simp add: fdt_check_node_offset'_def)
      obtain s where s: "fdt_get_name m f (int k) = Some (Some (?p + 4), int (length s))" "points_to_str (rd m (?p + 4)) s"
        "int k + 4 + int (length s) + 1 \<le> fdt_size_dt_struct m f"
        using fdt_get_name_spec[OF rw i c] unfolding ptr by blast
      then have "x = Node s" using r 1 by (simp add: read_item_def points_to_str_def)
      with s tag 1 up[of "5 + length s"] show ?thesis by (simp add: item_at_def)
    next
      case 2
      obtain data name len where g: "fdt_getprop_by_offset m f (int k) = (Some data, Some name, len)"
        using r 2 by (auto simp: read_item_def split: prod.splits option.splits)
      obtain n where n: "strlen (rd m name) = Some n" "x = Prop (bytes_at (rd m name) (nat n)) (bytes_at (rd m data) (nat len))"
        using r 2 g by (auto simp: read_item_def split: bind_splits)
      have c: "0 \<le> fdt_check_prop_offset' m f (int k)" using t nb 2 u k4 by (simp add: fdt_check_prop_offset'_def)
      let ?so = "s32 (fdt32_ld' m (?p + 8))"
      obtain ns where gs: "fdt_get_string m f ?so = (Some name, ns)" and d: "data = ?p + 12" "len = s32 (fdt32_ld' m (?p + 4))"
        using g c ptr[of 0] rw_treeD(6)[OF rw]
        by (auto simp: fdt_getprop_by_offset_def fdt_get_property_by_offset'_def prop_data_def Let_def split: prod.splits option.splits)
      note nm = gs[unfolded get_string_name[OF rw is_int_s32]]
      have "points_to_str (rd m name) (bytes_at (rd m name) (nat ns))" using nm by (auto simp: name_at_def)
      from strlen_points_to[OF this] n(1) nm have ns: "n = ns" by simp
      have "0 \<le> fdt32_ld' m (?p + 4) \<and> fdt32_ld' m (?p + 4) \<le> 2147483647 \<and> int k + 12 + fdt32_ld' m (?p + 4) \<le> fdt_size_dt_struct m f"
        using prop_value_bounds[OF c i] rw_treeD(6)[OF rw] ptr[of 0] by simp
      then have l: "0 \<le> len" "len = fdt32_ld' m (?p + 4)" "int k + 12 + len \<le> fdt_size_dt_struct m f"
        using d(2) by (simp_all add: s32_id)
      have so: "?so = fdt32_ld' m (?p + 8)"
      proof -
        have "0 \<le> ?so" using nm by (simp add: name_at_def)
        moreover have "0 \<le> fdt32_ld' m (?p + 8)" "fdt32_ld' m (?p + 8) < 4294967296"
          using uint_lt2p[of "fdt32_ld (rd m (?p + 8))"] by (simp_all add: fdt32_ld'_eq)
        ultimately show ?thesis using s32_cases[of "fdt32_ld' m (?p + 8)"] by linarith
      qed
      from up[of "12 + nat len"] l have "int k + (12 + int (pad4 (nat len))) \<le> fdt_size_dt_struct m f" by (simp add: pad4_add)
      moreover have "name_at m f (fdt32_ld' m (?p + 8)) (bytes_at (rd m name) (nat ns))" using nm unfolding so by blast
      ultimately show ?thesis using l tag 2 d(1) unfolding n(2) ns by (simp add: item_at_def)
    qed (use tag nb nxl in \<open>simp_all add: item_at_def\<close>)
  qed
  with next_tag_item[OF rw k _ conjunct1[OF x]] t(1) show ?thesis by simp
qed

lemma held_read:
  assumes rw: "rw_tree m f" and sz4: "fdt_size_dt_struct m f mod 4 = 0"
  shows "read_items m f o1 = Some xs \<Longrightarrow> is_int o1 \<Longrightarrow> o1 = int k \<Longrightarrow> k mod 4 = 0 \<Longrightarrow>
    items_at m (name_at m f) (f + fdt_off_dt_struct m f + int k) xs \<and>
    fdt32_ld' m (f + fdt_off_dt_struct m f + int k + int (items_len xs)) = FDT_END \<and>
    int k + int (items_len xs) + 4 \<le> fdt_size_dt_struct m f"
proof (induction xs arbitrary: o1 k)
  case Nil
  obtain tag nx where t: "fdt_next_tag m f o1 = (tag, nx)" by fastforce
  have "tag = FDT_END" "0 \<le> nx" using Nil.prems(1) t by (auto simp: read_items.simps[of m f o1] split: if_splits bind_splits)
  with t have e: "fdt_offset_ptr m f o1 4 = Some p \<Longrightarrow> fdt32_ld' m p = FDT_END" "fdt_offset_ptr m f o1 4 \<noteq> None" for p
    by (auto simp: fdt_next_tag_def Let_def split: option.splits if_splits)
  then obtain p where p: "fdt_offset_ptr m f o1 4 = Some p" by auto
  with fdt_offset_ptr_Some[OF p Nil.prems(2)] e(1)[OF p] rw_treeD(6)[OF rw] Nil.prems(3) show ?case
    by (simp add: fdt_offset_ptr'_def u32_id)
next
  case (Cons x xs)
  obtain tag nx where t: "fdt_next_tag m f o1 = (tag, nx)" by fastforce
  have r: "tag \<noteq> FDT_END" "read_item m f o1 tag = Some x" "read_items m f nx = Some xs"
    using Cons.prems(1) t by (auto simp: read_items.simps[of m f o1] split: if_splits bind_splits)
  note a = at_read_item[OF rw sz4 Cons.prems(4) t[unfolded Cons.prems(3)] r(1) Cons.prems(2)[unfolded Cons.prems(3)] r(2)[unfolded Cons.prems(3)]]
  have "(k + item_len x) mod 4 = 0" using Cons.prems(4) item_len_bounds(2)[of x] by presburger
  with Cons.IH[OF r(3) fdt_next_tag_is_int[OF t], of "k + item_len x"] a show ?case by (simp add: add.assoc)
qed

section \<open>The items of a tree\<close>

text \<open>C9: The items a tree holds are those that a client reads with the calls of the library: the walk of
  \<open>fdt_next_tag\<close> from the start to the end tag, the names that \<open>fdt_get_name\<close> returns and the names and values of
  \<open>fdt_getprop_by_offset\<close>; so a tree holds at most one list of items, and it holds one whenever the walk succeeds.\<close>

theorem items_are_read:
  assumes "rw_tree m f" "fdt_size_dt_struct m f mod 4 = 0"
  shows "holds_items m f xs \<longleftrightarrow> read_items m f 0 = Some xs"
proof
  show "holds_items m f xs \<Longrightarrow> read_items m f 0 = Some xs" using read_held[OF assms(1), of "[]" xs] by simp
  have i: "is_int 0" by (simp add: is_int_def)
  show "read_items m f 0 = Some xs \<Longrightarrow> holds_items m f xs"
    using held_read[OF assms _ i, of xs 0] by (simp add: holds_items_def)
qed

theorem items_are_read_witness: "read_items ex_tree 64 0 = Some ex_items"
  using items_are_read[OF ex_rw_tree, of ex_items] ex_holds by (simp add: ex_tree_header)

end
