(* ===== verification/Fdt_Paths.thy ===== *)
theory Fdt_Paths
  imports Fdt_Children
begin

text \<open>
  Paths (\<open>fdt_path_offset\<close> of \<open>src/src/libfdt/fdt_ro.c\<close>) on the list of items: a path leads from the root
  to the first child with each of its names.
\<close>

section \<open>Paths in the list\<close>

text \<open>From the node \<open>t\<close> with \<open>us\<close> before it and \<open>xs\<close> behind it.\<close>

fun find_path :: "byte list list \<Rightarrow> item list \<times> byte list \<times> item list \<Rightarrow> (item list \<times> byte list \<times> item list) option" where
  "find_path [] r = Some r"
| "find_path (c # cs) (us, t, xs) = (case find_child c 0 xs of
       None \<Rightarrow> None
     | Some (ys, u, zs) \<Rightarrow> find_path cs (us @ Node t # ys, u, zs))"

lemma find_path_split: "find_path cs (us, t, xs) = Some (vs, u, zs) \<Longrightarrow> us @ Node t # xs = vs @ Node u # zs"
proof (induction cs arbitrary: us t xs)
  case (Cons c cs)
  then obtain ys u' zs' where c: "find_child c 0 xs = Some (ys, u', zs')" "find_path cs (us @ Node t # ys, u', zs') = Some (vs, u, zs)"
    by (auto split: option.splits)
  with Cons.IH[OF c(2)] find_child_split[OF c(1)] show ?case by simp
qed simp

text \<open>The text of a path.\<close>

definition path_str :: "byte list list \<Rightarrow> byte list" where
  "path_str cs = concat (map (\<lambda>c. 47 # c) cs)"

definition component :: "byte list \<Rightarrow> bool" where
  "component c \<longleftrightarrow> c \<noteq> [] \<and> 47 \<notin> set c \<and> cstring c"

section \<open>The loop over a path\<close>

lemma memchr_component:
  assumes "47 \<notin> set c" "rest = [] \<or> (\<exists>r. rest = 47 # r)"
  shows "memchr (shift (lit (pre @ c @ rest)) (int (length pre))) 47 (length c + length rest) =
    (if rest = [] then None else Some (int (length c)))"
proof -
  let ?p = "shift (lit (pre @ c @ rest)) (int (length pre))"
  have at: "?p (int i) = (c @ rest) ! i" if "i < length c + length rest" for i
    using lit_nth[of "length pre + i" "pre @ c @ rest"] that by (simp add: shift_apply nth_append)
  have c: "?p j \<noteq> 47" if "0 \<le> j" "j < int (length c)" for j
  proof -
    have j: "nat j < length c" using that by simp
    then have "c ! nat j \<noteq> 47" using nth_mem[OF j] assms(1) by metis
    with j that at[of "nat j"] show ?thesis by (simp add: nth_append)
  qed
  show ?thesis
  proof (cases "rest = []")
    case True
    have "memchr ?p 47 (length c + length rest) \<noteq> Some k" for k
      using c[of k] True by (auto simp: memchr_Some)
    then show ?thesis using True by (cases "memchr ?p 47 (length c + length rest)") auto
  next
    case False
    then obtain r where r: "rest = 47 # r" using assms(2) by blast
    have "?p (int (length c)) = 47" using at[of "length c"] r by (simp add: nth_append)
    with c r show ?thesis by (auto simp: memchr_Some)
  qed
qed

lemma path_loop_items:
  assumes rw: "rw_tree m f" and tr: "tr = [] \<or> tr = [47]"
  shows "list_all component cs \<Longrightarrow> holds_items m f (us @ Node t # xs) \<Longrightarrow> length (pre @ path_str cs @ tr) \<le> 2147483631 \<Longrightarrow>
    path_loop m f (lit (pre @ path_str cs @ tr)) (int (length pre)) (int (length (pre @ path_str cs @ tr))) (int (items_len us)) =
    Some (case find_path cs (us, t, xs) of None \<Rightarrow> - FDT_ERR_NOTFOUND | Some (vs, _) \<Rightarrow> int (items_len vs))"
proof (induction cs arbitrary: us t xs pre)
  case Nil
  show ?case
  proof (cases "tr = []")
    case True
    then show ?thesis by (simp add: path_str_def path_loop.simps[of m f])
  next
    case False
    with tr have tr: "tr = [47]" by simp
    have "lit (pre @ [47]) (int (length pre)) = 47" using lit_nth[of "length pre" "pre @ [47]"] by simp
    then have "path_slashes (lit (pre @ [47])) (int (length pre)) (1 + int (length pre)) = Some None"
      by (simp add: path_slashes.simps)
    with tr show ?thesis by (subst path_loop.simps) (simp add: path_str_def)
  qed
next
  case (Cons c cs)
  let ?rest = "path_str cs @ tr"
  let ?s = "pre @ path_str (c # cs) @ tr"
  let ?p = "int (length pre)" and ?e = "int (length (pre @ path_str (c # cs) @ tr))"
  have c: "c \<noteq> []" "47 \<notin> set c" "cstring c" using Cons.prems(1) by (simp_all add: component_def)
  have s: "?s = pre @ 47 # c @ ?rest" "?s = (pre @ [47]) @ c @ ?rest" by (simp_all add: path_str_def)
  have e: "?e = ?p + 1 + int (length c) + int (length ?rest)" by (simp add: s(1))
  have small: "?e \<le> 2147483631" using Cons.prems(3) by simp
  have rest: "?rest = [] \<or> (\<exists>r. ?rest = 47 # r)" using tr by (cases cs) (auto simp: path_str_def)
  have "lit ?s ?p = 47" using lit_nth[of "length pre" ?s] by (simp add: s(1) nth_append)
  moreover have "lit ?s (?p + 1) \<noteq> 47"
    using lit_nth[of "Suc (length pre)" ?s] c(1,2) by (cases c) (auto simp: path_str_def nth_append add.commute)
  moreover obtain b d where "c = b # d" using c(1) by (cases c) auto
  ultimately have sl: "path_slashes (lit ?s) ?p ?e = Some (Some (?p + 1))"
    unfolding e by (simp add: path_slashes.simps[of _ ?p] path_slashes.simps[of _ "?p + 1"])
  have lt: "(?p < ?e) = True" unfolding e by simp
  have z: "sz (?e - (?p + 1)) = length c + length ?rest" using small unfolding e by (subst sz_id) simp_all
  have mc: "memchr (shift (lit ?s) (?p + 1)) 47 (sz (?e - (?p + 1))) = (if ?rest = [] then None else Some (int (length c)))"
  proof -
    have "int (length (pre @ [47])) = ?p + 1" by simp
    then show ?thesis using memchr_component[OF c(2) rest, of "pre @ [47]"] unfolding z by (simp only: s(2)[symmetric])
  qed
  have q: "(case memchr (shift (lit ?s) (?p + 1)) 47 (sz (?e - (?p + 1))) of None \<Rightarrow> ?e | Some i \<Rightarrow> ?p + 1 + i) = ?p + 1 + int (length c)"
    unfolding mc by (simp add: path_str_def)
  have len: "s32 (?p + 1 + int (length c) - (?p + 1)) = int (length c)" "length c \<le> 2147483647"
    using small unfolding e by (simp_all add: s32_id)
  have nm: "bytes_at (shift (lit ?s) (?p + 1)) (length c) = c"
  proof (rule nth_equalityI)
    fix i assume "i < length (bytes_at (shift (lit ?s) (?p + 1)) (length c))"
    then show "bytes_at (shift (lit ?s) (?p + 1)) (length c) ! i = c ! i"
      using lit_nth[of "Suc (length pre) + i" ?s] by (simp add: s(1) nth_append shift_apply add.commute add.left_commute)
  qed simp
  note so = subnode_items[OF rw Cons.prems(2) len(2), of "shift (lit ?s) (?p + 1)", unfolded nm]
  have loop: "path_loop m f (lit ?s) ?p ?e (int (items_len us)) =
    Option.bind (fdt_subnode_offset_namelen m f (int (items_len us)) (shift (lit ?s) (?p + 1)) (int (length c)))
      (\<lambda>offset. if offset < 0 then Some offset else path_loop m f (lit ?s) (?p + 1 + int (length c)) ?e offset)"
    by (subst path_loop.simps) (simp only: lt sl q len(1) Let_def if_True Option.bind.simps option.case)
  show ?case
  proof (cases "find_child c 0 xs")
    case None
    with loop so show ?thesis by simp
  next
    case (Some r)
    obtain ys u zs where r: "r = (ys, u, zs)" by (cases r)
    have h': "holds_items m f ((us @ Node t # ys) @ Node u # zs)" using Cons.prems(2) find_child_split[OF Some[unfolded r]] by simp
    have "path_loop m f (lit ?s) (?p + 1 + int (length c)) ?e (int (items_len (us @ Node t # ys))) =
      Some (case find_path cs (us @ Node t # ys, u, zs) of None \<Rightarrow> - FDT_ERR_NOTFOUND | Some (vs, _) \<Rightarrow> int (items_len vs))"
      using Cons.IH[OF _ h', of "pre @ 47 # c"] Cons.prems(1,3) by (simp add: path_str_def add.commute add.left_commute)
    with loop so Some r show ?thesis by (simp del: item_len.simps)
  qed
qed

section \<open>Property\<close>

text \<open>C11: \<open>fdt_path_offset\<close> of an absolute path returns the offset of the node the path leads to in the list of
  items, from the root to the first child with each name, up to unit addresses, with or without a slash at the end; and
  the error \<open>FDT_ERR_NOTFOUND\<close> when one of them is missing.\<close>

theorem path_leads_to_node:
  assumes "rw_tree m f" "holds_items m f (Node t # xs)" "list_all component cs" "tr = [] \<and> cs \<noteq> [] \<or> tr = [47]"
    "length (path_str cs @ tr) \<le> 2147483631"
  shows "fdt_path_offset m f (lit (path_str cs @ tr)) =
    Some (case find_path cs ([], t, xs) of None \<Rightarrow> - FDT_ERR_NOTFOUND | Some (us, _) \<Rightarrow> int (items_len us))"
proof -
  let ?s = "path_str cs @ tr"
  have cs: "cstring ?s" using assms(3,4) by (auto simp: path_str_def cstring_def component_def list_all_iff)
  then have "strlen (lit ?s) = Some (int (length ?s))" using strlen_points_to[of "lit ?s" ?s] by simp
  moreover have "s32 (int (length ?s)) = int (length ?s)" using assms(5) by (simp add: s32_id)
  moreover obtain r where r: "?s = 47 # r" using assms(4) by (cases cs) (auto simp: path_str_def)
  then have "lit ?s 0 = 47" "\<not> int (length ?s) \<le> 0" using lit_nth[of 0 ?s] by simp_all
  moreover have "path_loop m f (lit ?s) 0 (int (length ?s)) 0 =
    Some (case find_path cs ([], t, xs) of None \<Rightarrow> - FDT_ERR_NOTFOUND | Some (us, _) \<Rightarrow> int (items_len us))"
    using path_loop_items[OF assms(1), of tr cs "[]" t xs "[]"] assms(2-5) by auto
  ultimately show ?thesis
    using ro_probe_rw[OF assms(1)]
    by (simp add: fdt_path_offset_def fdt_path_offset_namelen_def path_offset_with_def del: length_append) blast
qed

theorem path_leads_to_node_witness: "fdt_path_offset ex_tree 64 (lit (47 # str ''c'' @ [47])) = Some 24"
  using path_leads_to_node[OF ex_rw_tree ex_holds, of "[str ''c'']" "[47]"]
  by (simp add: component_def path_str_def name_matches_def pad4_def str_def of_char_of)

end
