(* ===== verification/Spec2Isabelle.thy ===== *)
theory Spec2Isabelle
  imports Boot_Start Boot_Fail Env_Props Fdt_Fail Fdt_Pack Fdt_Tree Fdt_Walk Fdt_Paths
begin

text \<open>
  little_loader: a boot loader for Nerves systems on the QEMU \<open>virt\<close> machine.

  Started from ROM with the address of a device tree, the program sets up its serial port and the
  virtio block device, reads the U-Boot environment from the disk, chooses the firmware slot (going
  back to the other slot when an upgrade has not validated itself), loads the Linux kernel of the
  slot, puts the kernel's arguments into a copy of the device tree and jumps.  All of it is modelled,
  from the byte loops of its own C library up to \<open>rom_main\<close>, and the theorems go from the bytes
  up to what a machine does over any number of boots.

  Theories and sources (under \<open>src/src/\<close>):

  \<^item> \<open>Prelude\<close>, \<open>Memory\<close>: C integers, byte-addressed memory, C strings; loads and stores.
  \<^item> \<open>Util\<close>: \<open>util.c\<close>, one definition per function, under the code's name without its
    final underscore.
  \<^item> \<open>Crc32\<close>: \<open>crc32.c\<close>.  \<open>crc32buf\<close> against the bit-serial CRC-32, and the bursts it detects.
  \<^item> \<open>Uboot_Env\<close>: \<open>uboot_env.c\<close>, the linked list and the block.  \<open>Env_Format\<close>: what reading and
    writing mean on lists of pairs (\<open>env_rep\<close> is the representation, \<open>parse_env\<close> and \<open>env_block\<close> the
    reference parser and printer).  \<open>Env_Props\<close>: its properties.
  \<^item> \<open>Nanoprintf\<close>: \<open>nanoprintf.h\<close>.  \<open>Nanoprintf_Spec\<close>: the bytes a format stands for (\<open>format_bytes\<close>,
    \<open>field_bytes\<close>, \<open>digits_of\<close>) and the written form of a conversion (\<open>directive\<close>), and that the
    formatter produces the one and parses the other.  \<open>Nanoprintf_Props\<close>: its properties.
  \<^item> \<open>Uart\<close>: \<open>pl011_uart.c\<close>; also devices and their registers.  \<open>Console\<close>: messages, \<open>fatal\<close> and
    power-off of \<open>util.c\<close>.  \<open>Virtio\<close>: \<open>virtio_blk.c\<close>,
    \<open>virtio.h\<close>.  \<open>Disk\<close>: the driver together with a device that serves requests as the virtio
    specification says (\<open>serves\<close>), a store of sectors (locale \<open>block_store\<close>).
  \<^item> \<open>Fdt_Base\<close>: \<open>libfdt/fdt.h\<close>, \<open>libfdt_env.h\<close>, \<open>libfdt.h\<close>, \<open>libfdt_internal.h\<close>.  \<open>Fdt_Core\<close>:
    \<open>libfdt/fdt.c\<close>.  \<open>Fdt_Ro\<close>, \<open>Fdt_Nodes\<close>: \<open>fdt_ro.c\<close>.  \<open>Fdt_Wip\<close>: \<open>fdt_wip.c\<close>,
    \<open>fdt_strerror.c\<close>.  \<open>Fdt_Rw\<close>: \<open>fdt_rw.c\<close>.
  \<^item> \<open>Fdt_Local\<close>: which bytes a walk or a search reads.  \<open>Fdt_Props\<close>: properties of walking, header
    and in-place writes, and an example tree.  \<open>Fdt_Edit\<close>: what a splice moves, and that every edit
    keeps a tree that can be edited (\<open>rw_tree\<close>, \<open>edited\<close>).  \<open>Fdt_Remove\<close>: the same for removing nodes
    and reservations.  \<open>Fdt_Safe\<close>: the contract of an edit (locale
    \<open>tree_edit\<close>), interpreted for seven edits and for their sequences.  \<open>Fdt_Fail\<close>: edits that fail change nothing
    that is in use.  \<open>Fdt_Pack\<close>: the blocks survive \<open>fdt_open_into\<close> and \<open>fdt_pack\<close> (\<open>same_blocks\<close>).  \<open>Fdt_Setprop\<close>,
    \<open>Fdt_Path\<close>, \<open>Fdt_Subnode\<close>: a property that was set, a name, a node that was added are found.
  \<^item> \<open>Fdt_Items\<close>: the structure block as a list of items, nodes with their names and properties with their
    values (\<open>item\<close>, \<open>holds_items\<close>), and what a splice does to it.  \<open>Fdt_Lookup\<close>, \<open>Fdt_Children\<close>: search, set, add and remove
    on such lists (\<open>get_prop\<close>, \<open>set_prop\<close>, \<open>del_prop\<close>, \<open>find_child\<close>, \<open>add_child\<close>, \<open>subtree\<close>), and that the functions of
    \<open>fdt_ro.c\<close> and \<open>fdt_rw.c\<close> implement them, those on properties in \<open>Fdt_Refine\<close>.  \<open>Fdt_Tree\<close>: sequences of edits (locale
    \<open>item_edit\<close>: what an edit does to the list when it succeeds, and that it keeps the list when it fails).  \<open>Fdt_Paths\<close>: paths.
    \<open>Fdt_Walk\<close>: a tree holds the list that is read from it with the calls of the library.  \<open>Fdt_Room\<close>:
    how much free space is enough for an edit to succeed.
  \<^item> \<open>Boot\<close>: \<open>main.c\<close>, and the messages of \<open>ERR_RETURN\<close> (\<open>util.h\<close>) in the calls it makes to \<open>uboot_env.c\<close>.  \<open>Boot_Log\<close>: what a message sends.  \<open>Boot_Spec\<close>: the choice of slot and kernel as a function of the settings
    (\<open>boot_choice\<close>), and that \<open>process_uboot_env\<close> implements it.  \<open>Boot_Cycle\<close>: the settings over any
    number of boots (\<open>boot_run\<close>).  \<open>Boot_Kernel\<close>: \<open>load_kernel\<close>.  \<open>Boot_Dtb\<close>, \<open>Boot_Items\<close>: \<open>fdt_add_bootargs\<close>, what
    the kernel finds and what of the tree is kept.
    \<open>Boot_Fail\<close>: boots that end in \<open>fatal\<close>.  \<open>Boot_Main\<close>, \<open>Boot_Start\<close> and this theory: \<open>rom_main\<close>, the whole.

  Conventions.  A C integer is an \<^typ>\<open>int\<close>; every conversion or wrap-around of the code is
  written (\<open>u8\<close>, \<open>u16\<close>, \<open>u32\<close>, \<open>u64\<close>, \<open>s32\<close>), and where the code works on bits the value is a word.  The
  program runs on the bare machine, so memory is a total map from addresses to bytes (\<open>mem\<close>) and
  reading past an object gives whatever is there.  A string the code only reads is a map from indices
  to bytes (\<open>cptr\<close>).  A loop that may not end is a \<open>partial_function (option)\<close> and \<open>None\<close> is not
  returning; there is no fuel.  Other loops are \<open>function\<close>s whose measure is the distance to the end
  of what is walked over (\<open>walk_measure\<close>, \<open>loop_measure\<close>).  Errors are \<open>Inl\<close> in the environment and the
  loader, and the negative codes of the code in \<open>libfdt\<close>.  State is passed explicitly: memory, the
  heap of list nodes with the break of the allocator (\<open>eheap\<close>), the device with the accesses made to it
  (\<open>io\<close>), all of it (\<open>boot\<close>).  The bound of 100000 in \<open>uart_wait\<close> is the code's.

  Parameters.  The device (\<open>'d device\<close>): what a register read returns, what a write does and what the
  device does to memory on its own.  The theorems on the driver's registers hold for any device; those on the
  disk assume \<open>serves\<close>: a device of some capacity (\<open>drive\<close>) that answers every well-formed request in finitely many turns, with the
  data moved when the sectors are within the capacity and an error otherwise, and that until then writes to nothing but
  the used ring and the buffer it reads into.  \<open>attached\<close> says that driver and device are in step; it holds after
  \<open>virtio_blk_init\<close>, and every request keeps it.  \<open>Disk\<close> has a device, with a used ring and a capacity, for which
  both are proved (\<open>sim_serves\<close>, \<open>sim_init\<close>).  The layout: where the linker puts the driver's structures.

  What the groups of lemmas show.  \<open>Util\<close>: copies, comparisons and number parsing for all inputs, the sort in memory is the stable
  sort of the elements, blocks of the allocator never overlap.  Environment: reading is the reference parser, writing the
  reference printer, the two are inverse, damage up to four bytes behind the checksum or in it is refused, lookups return the last
  value set.  Driver: the register protocol, the request as the device finds it, sectors are read as
  written, and a request behind the end of the disk fails.  Device tree: walks end and move forward on any bytes; the header check accepts exactly the
  blobs whose blocks lie inside; edits write only inside of the blob and return, and have no
  effect when they fail; opening and packing keep the blocks;
  what was set or added is found.  On the list of items a tree stands for, every edit is the operation on
  lists, so no other item of the tree changes, and properties, children and paths are found exactly when the list has
  them; the arguments of the kernel change one property of \<open>/chosen\<close>.  Formatter: every directive prints what C defines for it, ends
  and stays in the buffer.  Loader: the choice of slot and kernel, an upgrade that is not
  validated is tried once, the image and arguments the kernel finds, the whole log of a boot, and the whole log and
  end of one that finds no disk, no environment or no kernel.

  Restrictions of the theorems.  The theorems on \<open>rom_main\<close> and \<open>load_kernel\<close> exclude an image
  size of 0, for which the code asks for almost 4 GiB; those on the choice of the slot exclude an empty slot name, for which
  the code writes over a terminator (\<open>slot_named\<close>).  An image above 64 MiB is refused, but the message has no
  defined text (\<open>oversize_message_undefined\<close>), so nothing is said of the log of that run.  The theorems over any number of boots speak of an upgrade on trial
  whose \<open>bootcount\<close> is there and not empty, and of settings without one where \<open>upgrade_available\<close> is there; when one of the
  two is missing the code boots the default block (\<open>boot_choice\<close>).  The sort needs an array with at least one element
  (\<open>qsort_empty_compares\<close>).  A block that has a name twice is read back with the two pairs exchanged.  Damage
  to an environment block on both sides of the border between checksum and contents is not always seen.  Theorems on properties that are set assume
  that the structure block's size is a multiple of four, as the format demands.  Those on items speak of trees whose structure
  block is well formed to its end tag and whose property names are in the table of strings (\<open>holds_items\<close>); that
  the arguments of the kernel fit is the condition \<open>takes_args\<close>, 41 bytes more than the arguments.

  Messages.  A text the loader sends goes through the model of the formatter and of the serial port, so
  the log of a boot is part of what the theorems on the loader state (\<open>boot_log\<close>, \<open>block_log\<close>), the lines of
  \<open>uboot_env.c\<close> (\<open>error_text\<close>) included.  They
  assume that the device's disk changes only when it serves a request and that it stays ready while the serial port is used (\<open>quiet\<close>).  The message on the slot
  prints a pointer, whose value is the argument \<open>kernel_lba_p\<close>.  A message that \<open>fatal\<close> ends the run
  with is the left result of the step that fails: its format and its arguments, which \<open>rom_main\<close> passes to \<open>fatal\<close>.

  Not modelled.  Of \<open>nanoprintf.h\<close> the code that \<open>util.c\<close> does not compile: floating point, the small
  length modifiers, \<open>%n\<close> and the \<open>#\<close> flag.  \<open>start.S\<close>, \<open>linker.ld\<close> and the register write of \<open>setup_el2\<close> are
  assembly: the stack top, the value of \<open>CurrentEL\<close> and the layout are arguments, the jump and the timer bit are
  results; the firmware that is called to power off is a parameter.  Demo, build files and shell tests
  are not code of the loader.  \<open>_w\<close> wrappers of \<open>libfdt\<close> only cast away \<open>const\<close> and are not repeated;
  \<open>libfdt.h\<close> is otherwise declarations and comments.
\<close>

section \<open>The whole boot\<close>

text \<open>C1: What a boot does, on a device in working order whose disk has the sectors of the environment.  When it starts a kernel, the disk is as the settings on it ask for, the
  image at the jump address is the one on the disk that the settings name, up to its last byte, and
  the register \<open>x0\<close> points behind it to an aligned device tree: the source's, with the settings' arguments
  as \<open>bootargs\<close> of \<open>/chosen\<close> when there are any and all other items of the tree as they were; the serial port has then been sent the banner, the exception level, the messages of
  the settings' choice, those of \<open>uboot_env.c\<close> included, and the last line, and nothing else.  It is started whenever the disk
  is found, the image can be loaded and the tree has room for the arguments, if there are any.  The run always
  returns, but when the image is larger than 64 MiB: the message on that has no defined text.\<close>

theorem boot_starts_kernel:
  assumes dev: "serves D L V" "layout_addresses L" "quiet D V"
      "\<forall>s s'. virtio_blk_init D L s = (Inr (), s') \<longrightarrow> attached L V s'" "272 \<le> capacity V"
    and mem: "usable L stack_top 131072" "0 < stack_top" "usable L 0x40200000 (512 + 67108864)" "cstring (str banner)"
      "0 \<le> p" "p < 18446744073709551616"
    and slot: "slot_named (env_area (stored V (dev (io s))))"
    and lba: "fst (block_choice (env_area (stored V (dev (io s))))) = (lba, args)"
      "load_refusal (capacity V) (boot_disk (stored V (dev (io s)))) lba = None \<longrightarrow>
         image_size (kernel_header_at (boot_disk (stored V (dev (io s)))) (512 * lba)) \<noteq> 0"
    and tree: "rw_tree (ram (io s)) dtb" "fdt_size_dt_struct (ram (io s)) dtb mod 4 = 0"
      "\<forall>a. inside dtb (fdt_totalsize (ram (io s)) dtb) a \<longrightarrow> \<not> driver_memory L a \<and> \<not> inside stack_top 131072 a \<and>
         \<not> inside 0x40200000 (67109376 + fdt_totalsize (ram (io s)) dtb) a"
  shows "(\<forall>j s'. rom_main D L stops CurrentEL stack_top p banner dtb s = Some (Inr (j, s')) \<longrightarrow>
       started (stored V (dev (io s))) (ram (io s)) dtb (stored V (dev (io s'))) (ram (io s')) j \<and>
       (el2_timer j \<longleftrightarrow> get_el CurrentEL = 2) \<and>
       sent (io s') = sent (io s) @ str banner @ str (el_message (get_el CurrentEL)) @ block_log p (env_area (stored V (dev (io s)))) @
         msg_line (str ''Starting Linux...'')) \<and>
    ((\<forall>a. args = Some a \<longrightarrow> takes_args (ram (io s)) dtb a) \<and> (\<forall>s. fst (virtio_blk_init D L s) = Inr ()) \<and>
       load_refusal (capacity V) (boot_disk (stored V (dev (io s)))) lba = None \<longrightarrow>
       (\<exists>j s'. rom_main D L stops CurrentEL stack_top p banner dtb s = Some (Inr (j, s')))) \<and>
    (load_refusal (capacity V) (boot_disk (stored V (dev (io s)))) lba \<noteq> Some Too_big \<longrightarrow>
       (\<exists>r. rom_main D L stops CurrentEL stack_top p banner dtb s = Some r))"
proof -
  have apart: "tree_apart L stack_top dtb (fdt_totalsize (ram (io s)) dtb)" using tree(3) unfolding tree_apart_def .
  let ?ref = "load_refusal (capacity V) (boot_disk (stored V (dev (io s)))) lba"
  obtain r where r: "boot_steps D L stack_top p banner (get_el CurrentEL) dtb s = Some r"
    "\<forall>j s'. r = Inr (j, s') \<longrightarrow>
       started (stored V (dev (io s))) (ram (io s)) dtb (stored V (dev (io s'))) (ram (io s')) j \<and>
       (el2_timer j \<longleftrightarrow> get_el CurrentEL = 2) \<and>
       sent (io s') = sent (io s) @ str banner @ str (el_message (get_el CurrentEL)) @ block_log p (env_area (stored V (dev (io s)))) @
         msg_line (str ''Starting Linux...'')"
    "(\<forall>a. args = Some a \<longrightarrow> takes_args (ram (io s)) dtb a) \<and> (\<forall>s. fst (virtio_blk_init D L s) = Inr ()) \<and> ?ref = None \<longrightarrow> (\<exists>j s'. r = Inr (j, s'))"
    and fits: "?ref \<noteq> Some Too_big \<longrightarrow> (\<forall>msg io'. r = Inl (msg, io') \<longrightarrow> args_fit (fst msg) (snd msg))"
    using boot_outcome[OF dev mem refl slot lba(1) refl lba(2) refl tree(1,2) apart, where el = "get_el CurrentEL"]
    by (elim exE conjE) (rule that)
  have "\<exists>r. rom_main D L stops CurrentEL stack_top p banner dtb s = Some r" if big: "?ref \<noteq> Some Too_big"
  proof (cases r)
    case (Inl e)
    then obtain fmt ap io' where e: "r = Inl ((fmt, ap), io')" by (cases e) auto
    then obtain bs where "format_bytes fmt ap = Some bs" using fits big format_total by fastforce
    from fatal_reports[OF this, of D stops CurrentEL io'] r(1) e show ?thesis by (auto simp: rom_main_def)
  next
    case (Inr x)
    with r(1) show ?thesis by (simp add: rom_main_def)
  qed
  moreover have jumped: "r = Inr (j, s')" if "rom_main D L stops CurrentEL stack_top p banner dtb s = Some (Inr (j, s'))" for j s'
    using that r(1) by (auto simp: rom_main_def split: sum.splits prod.splits)
  moreover have "rom_main D L stops CurrentEL stack_top p banner dtb s = Some (Inr x)" if "r = Inr x" for x
    using that r(1) by (simp add: rom_main_def)
  ultimately have
    "(\<forall>a. args = Some a \<longrightarrow> takes_args (ram (io s)) dtb a) \<and> (\<forall>s. fst (virtio_blk_init D L s) = Inr ()) \<and> ?ref = None \<Longrightarrow>
       \<exists>j s'. rom_main D L stops CurrentEL stack_top p banner dtb s = Some (Inr (j, s'))"
    "?ref \<noteq> Some Too_big \<Longrightarrow> \<exists>r. rom_main D L stops CurrentEL stack_top p banner dtb s = Some r"
    using r(3) by blast+
  then show ?thesis using r(2)[rule_format, OF jumped] by (intro conjI allI impI) blast+
qed

section \<open>An example\<close>

text \<open>The disk of \<open>ex_image\<close> with settings for slot \<open>a\<close>.\<close>

abbreviation "ex_boot_disk \<equiv> save_block ex_image ex_stable"

definition ex_start :: "sim boot" where
  "ex_start =
     \<lparr>io = \<lparr>dev = \<lparr>image = ex_boot_disk, pending = None, taken = 0, finished = 0\<rparr>, ram = ex_tree, accesses = []\<rparr>,
      heap = \<lparr>pairs = (\<lambda>_. \<lparr>nv_name = [], nv_value = [], nv_next = 0\<rparr>), brk = 0\<rparr>\<rparr>"

lemma ex_boot_disk_outside: "139264 \<le> a \<Longrightarrow> ex_boot_disk a = ex_image a"
  by (auto simp: save_block_def inside_def)

lemma ex_header:
  "magic (kernel_header_at ex_boot_disk 524288) = 0x644d5241" "image_size (kernel_header_at ex_boot_disk 524288) = 1000"
proof -
  have "kernel_header_at ex_boot_disk 524288 = kernel_header_at ex_image 524288"
    by (rule kernel_header_at_cong) (simp add: ex_boot_disk_outside)
  then show "magic (kernel_header_at ex_boot_disk 524288) = 0x644d5241" "image_size (kernel_header_at ex_boot_disk 524288) = 1000"
    by (simp_all add: ex_image_header)
qed

lemma ex_refusal: "load_refusal (capacity sim_drive) ex_boot_disk 1024 = None"
  by (simp add: load_refusal_def sim_drive_def sim_sectors_def ex_header image_sectors_def)

lemma sim_found: "fst (virtio_blk_init (sim_device ex_layout) ex_layout s) = Inr ()"
  using sim_init[OF ex_layout_ok, of s] by auto

theorem boot_starts_kernel_witness:
  "\<exists>j s'. rom_main (sim_device ex_layout) ex_layout (\<lambda>_. True) 8 0x40000 0x50000 ''loader'' 64 ex_start = Some (Inr (j, s')) \<and>
     pc j = 0x40200000 \<and> 0x402003e8 \<le> x0 j \<and> ram (io s') 0x40200001 = 0x14"
proof -
  have u: "usable ex_layout 0x40200000 (512 + 67108864)"
    by (auto simp: usable_def driver_memory_def inside_def ex_layout_def)
  have dv: "stored sim_drive (dev (io ex_start)) = ex_boot_disk" "ram (io ex_start) = ex_tree"
    by (simp_all add: ex_start_def sim_drive_def)
  have apart: "\<forall>a. inside 64 (fdt_totalsize (ram (io ex_start)) 64) a \<longrightarrow> \<not> driver_memory ex_layout a \<and> \<not> inside 0x40000 131072 a \<and>
         \<not> inside 0x40200000 (67109376 + fdt_totalsize (ram (io ex_start)) 64) a"
    by (auto simp: inside_def driver_memory_def ex_layout_def dv ex_tree_header)
  have i: "\<forall>s s'. virtio_blk_init (sim_device ex_layout) ex_layout s = (Inr (), s') \<longrightarrow> attached ex_layout sim_drive s'"
    using sim_init[OF ex_layout_ok] by (metis prod.inject)
  have b: "boot_disk ex_boot_disk = ex_boot_disk" by (simp add: boot_disk_def ex_stable_choice)
  have size: "load_refusal (capacity sim_drive) (boot_disk (stored sim_drive (dev (io ex_start)))) 1024 = None \<longrightarrow>
      image_size (kernel_header_at (boot_disk (stored sim_drive (dev (io ex_start)))) (512 * 1024)) \<noteq> 0"
    by (simp add: dv b ex_header)
  have t: "rw_tree (ram (io ex_start)) 64" "fdt_size_dt_struct (ram (io ex_start)) 64 mod 4 = 0"
    using ex_rw_tree by (simp_all add: dv ex_tree_header)
  have c: "slot_named (env_area (stored sim_drive (dev (io ex_start))))"
    "fst (block_choice (env_area (stored sim_drive (dev (io ex_start))))) = (1024, None)"
    using ex_stable_choice by (simp_all add: dv)
  have banner: "cstring (str ''loader'')" by (simp add: str_def of_char_of)
  note all = boot_starts_kernel[OF sim_serves ex_layout_addresses sim_quiet i ex_capacity ex_buffer _ u banner _ _ c(1) c(2) size t apart,
      where p = "0x50000" and stops = "\<lambda>_. True" and CurrentEL = 8]
  have "\<exists>j s'. rom_main (sim_device ex_layout) ex_layout (\<lambda>_. True) 8 0x40000 0x50000 ''loader'' 64 ex_start = Some (Inr (j, s'))"
    using all sim_found ex_refusal by (simp add: dv b)
  then obtain j s' where r: "rom_main (sim_device ex_layout) ex_layout (\<lambda>_. True) 8 0x40000 0x50000 ''loader'' 64 ex_start = Some (Inr (j, s'))"
    by blast
  have st: "started ex_boot_disk ex_tree 64 (stored sim_drive (dev (io s'))) (ram (io s')) j" using all r by (simp add: dv)
  then have im: "stored sim_drive (dev (io s')) = ex_boot_disk" using b by (simp add: started_def)
  have k: "pc j = 0x40200000" "pc j + 1000 \<le> x0 j"
    and at: "\<forall>i. 0 \<le> i \<and> i < 1000 \<longrightarrow> ram (io s') (pc j + i) = ex_boot_disk (524288 + i)"
    using st[unfolded im] ex_stable_choice(1) ex_header by (auto simp: started_def Let_def)
  have "ram (io s') (pc j + 1) = ex_boot_disk (524288 + 1)" using at[rule_format, of 1] by simp
  then have "ram (io s') 0x40200001 = 0x14" using k(1) ex_boot_disk_outside[of 524289] by (simp add: ex_image_def)
  with r k show ?thesis by auto
qed

end
